(* ===== verification/OWA_Prelude.thy ===== *)
theory OWA_Prelude
  imports Complex_Main "HOL-Library.AList"
begin

text \<open>
  Shared ground of the development: the exceptions of the runtime as values
  (\<^verbatim>\<open>errors.py\<close>), the result type every fallible operation returns, Python dictionaries
  as association lists, the collections of facts the component theories add to, and the
  interfaces several components implement: write-once tables, invariants kept by every step
  of a machine, and relations every step respects.

  Conventions used throughout. A finite Python float is an exact rational (rounding is not
  modelled); a clock reading and a freshly drawn UUID are arguments of the operation that
  reads them; a SQL table with a primary key is a map from the key to the row, and one
  operation of the model is one committed transaction of the code.
\<close>

section \<open>Collections of facts\<close>

named_theorems owa_inv \<open>operations keep their component's invariant\<close>
named_theorems owa_frame \<open>what an operation leaves unchanged\<close>
named_theorems owa_eval \<open>equations that evaluate a definition on a concrete input\<close>

section \<open>Exceptions\<close>

text \<open>
  One constructor per class of \<^verbatim>\<open>errors.py\<close>, per built-in exception the modelled code raises, and
  for the two private recovery failures of \<^verbatim>\<open>workflow.py\<close>. Messages are not modelled here.
\<close>

datatype exn =
    OwaError | ConfigurationError | WorkflowSchemaError | WorkflowSemanticError
  | UnsupportedWorkflowFeature | ExpressionError | ModelError | ModelOutcomeUncertain
  | AgentError | KnowledgeError | MemoryError | ToolError | WorkflowExecutionError
  | McpOutcomeUncertain | A2AOutcomeUncertain | OpenApiOutcomeUncertain | GrpcOutcomeUncertain | SandboxError | SandboxPolicyError
  | SandboxTimeoutError | SandboxOutputLimitError | SandboxResourceLimitError
  | SandboxProcessError | WorkflowDefinitionChanged | InvocationNotFound
  | InvocationStateError | InvocationStateConflict | InvocationCancelled
  | EventValidationError | ScheduleValidationError | ScheduleNotFound
  | ScheduleOperationConflict | ApprovalValidationError | ApprovalNotFound
  | ApprovalConflict | ApprovalAuthorizationError
  | ValueError | TypeError | KeyError | RuntimeError | LookupError | BufferError
  | EOFError | TimeoutError | OverflowError | IntegrityError | AttributeError | OSError | IndexError | AssertionError
  | EffectRecoveryRequired | NativeMemoryRecoveryRequired

text \<open>The direct base class, for the classes that have one below \<^const>\<open>OwaError\<close>.\<close>

fun exn_base :: "exn \<Rightarrow> exn" where
  "exn_base ModelOutcomeUncertain = ModelError"
| "exn_base McpOutcomeUncertain = WorkflowExecutionError"
| "exn_base A2AOutcomeUncertain = WorkflowExecutionError"
| "exn_base OpenApiOutcomeUncertain = WorkflowExecutionError"
| "exn_base GrpcOutcomeUncertain = OwaError"
| "exn_base SandboxError = WorkflowExecutionError"
| "exn_base SandboxPolicyError = SandboxError"
| "exn_base SandboxTimeoutError = SandboxError"
| "exn_base SandboxOutputLimitError = SandboxError"
| "exn_base SandboxResourceLimitError = SandboxError"
| "exn_base SandboxProcessError = SandboxError"
| "exn_base InvocationStateConflict = InvocationStateError"
| "exn_base EffectRecoveryRequired = WorkflowExecutionError"
| "exn_base NativeMemoryRecoveryRequired = EffectRecoveryRequired"
| "exn_base e = e"

text \<open>The \<^verbatim>\<open>code\<close> attribute; a class that declares none inherits its base's.\<close>

fun exn_code :: "exn \<Rightarrow> string option" where
  "exn_code OwaError = Some ''owa_error''"
| "exn_code ConfigurationError = Some ''configuration_error''"
| "exn_code WorkflowSchemaError = Some ''workflow_schema_error''"
| "exn_code WorkflowSemanticError = Some ''workflow_semantic_error''"
| "exn_code UnsupportedWorkflowFeature = Some ''unsupported_workflow_feature''"
| "exn_code ExpressionError = Some ''expression_error''"
| "exn_code ModelError = Some ''model_error''"
| "exn_code ModelOutcomeUncertain = Some ''model_error''"
| "exn_code AgentError = Some ''agent_error''"
| "exn_code KnowledgeError = Some ''knowledge_error''"
| "exn_code MemoryError = Some ''memory_error''"
| "exn_code ToolError = Some ''tool_error''"
| "exn_code WorkflowExecutionError = Some ''workflow_execution_error''"
| "exn_code EffectRecoveryRequired = Some ''workflow_execution_error''"
| "exn_code NativeMemoryRecoveryRequired = Some ''workflow_execution_error''"
| "exn_code McpOutcomeUncertain = Some ''workflow_execution_error''"
| "exn_code A2AOutcomeUncertain = Some ''workflow_execution_error''"
| "exn_code OpenApiOutcomeUncertain = Some ''workflow_execution_error''"
| "exn_code GrpcOutcomeUncertain = Some ''owa_error''"
| "exn_code SandboxError = Some ''sandbox_error''"
| "exn_code SandboxPolicyError = Some ''sandbox_policy_error''"
| "exn_code SandboxTimeoutError = Some ''sandbox_timeout''"
| "exn_code SandboxOutputLimitError = Some ''sandbox_output_limit''"
| "exn_code SandboxResourceLimitError = Some ''sandbox_resource_limit''"
| "exn_code SandboxProcessError = Some ''sandbox_process_error''"
| "exn_code WorkflowDefinitionChanged = Some ''workflow_definition_changed''"
| "exn_code InvocationNotFound = Some ''invocation_not_found''"
| "exn_code InvocationStateError = Some ''invalid_invocation_state''"
| "exn_code InvocationStateConflict = Some ''invalid_invocation_state''"
| "exn_code InvocationCancelled = Some ''invocation_cancelled''"
| "exn_code EventValidationError = Some ''event_validation_error''"
| "exn_code ScheduleValidationError = Some ''schedule_validation_error''"
| "exn_code ScheduleNotFound = Some ''schedule_not_found''"
| "exn_code ScheduleOperationConflict = Some ''schedule_operation_conflict''"
| "exn_code ApprovalValidationError = Some ''approval_validation_error''"
| "exn_code ApprovalNotFound = Some ''approval_not_found''"
| "exn_code ApprovalConflict = Some ''approval_conflict''"
| "exn_code ApprovalAuthorizationError = Some ''approval_authorization_error''"
| "exn_code _ = None"

definition is_owa_error :: "exn \<Rightarrow> bool" where
  "is_owa_error e \<longleftrightarrow> exn_code e \<noteq> None"

text \<open>The \<^verbatim>\<open>status_code\<close> attribute: 500 on the base class, overridden below it.\<close>

definition exn_status_code :: "exn \<Rightarrow> nat" where
  "exn_status_code e =
     (if e \<in> {ConfigurationError, WorkflowSchemaError, WorkflowSemanticError, ExpressionError,
              EventValidationError, ScheduleValidationError, ApprovalValidationError} then 400
      else if e = ApprovalAuthorizationError then 403
      else if e \<in> {InvocationNotFound, ScheduleNotFound, ApprovalNotFound} then 404
      else if e \<in> {WorkflowDefinitionChanged, InvocationStateError, InvocationStateConflict,
                   InvocationCancelled, ScheduleOperationConflict, ApprovalConflict} then 409
      else if e \<in> {UnsupportedWorkflowFeature, SandboxPolicyError} then 422
      else 500)"

text \<open>\<^verbatim>\<open>except K: raise\<close> followed by \<^verbatim>\<open>except Exception: raise E\<close>.\<close>

definition reraise :: "exn set \<Rightarrow> exn \<Rightarrow> exn + 'a \<Rightarrow> exn + 'a" where
  "reraise keep other r = (case r of Inl e \<Rightarrow> if e \<in> keep then Inl e else Inl other | Inr a \<Rightarrow> Inr a)"

lemma reraise_Inr [simp]: "reraise K e (Inr a) = Inr a"
  by (simp add: reraise_def)

lemma reraise_Inl [simp]: "reraise K e (Inl x) = Inl (if x \<in> K then x else e)"
  by (simp add: reraise_def)

lemma reraise_eq_Inr [simp]: "reraise K e r = Inr a \<longleftrightarrow> r = Inr a"
  by (cases r) (auto simp: reraise_def)

lemma reraise_eq_Inl: "reraise K e r = Inl x \<longleftrightarrow> (\<exists>y. r = Inl y \<and> x = (if y \<in> K then y else e))"
  by (cases r) (auto simp: reraise_def)

text \<open>\<^verbatim>\<open>except K: raise E\<close>: other exceptions pass.\<close>

definition catching :: "exn set \<Rightarrow> exn \<Rightarrow> exn + 'a \<Rightarrow> exn + 'a" where
  "catching K e r = (case r of Inl x \<Rightarrow> Inl (if x \<in> K then e else x) | Inr a \<Rightarrow> Inr a)"

lemma catching_eq_Inr [simp]: "catching K e r = Inr a \<longleftrightarrow> r = Inr a"
  by (auto simp: catching_def split: sum.splits)

lemma catching_Inr [simp]: "catching K e (Inr a) = Inr a"
  by (simp add: catching_def)

section \<open>Results\<close>

text \<open>The combinators are generic in the error, so that code whose exceptions carry a message uses them too.\<close>

type_synonym 'a res = "exn + 'a"

definition bindE :: "'e + 'a \<Rightarrow> ('a \<Rightarrow> 'e + 'b) \<Rightarrow> 'e + 'b" where
  "bindE r f = (case r of Inl e \<Rightarrow> Inl e | Inr a \<Rightarrow> f a)"

definition guardE :: "bool \<Rightarrow> 'e \<Rightarrow> 'e + unit" where
  "guardE ok e = (if ok then Inr () else Inl e)"

lemma bindE_simps [simp]:
  "bindE (Inl e) f = Inl e"
  "bindE (Inr a) f = f a"
  by (simp_all add: bindE_def)

lemma bindE_eq_Inr [simp]: "bindE r f = Inr b \<longleftrightarrow> (\<exists>a. r = Inr a \<and> f a = Inr b)"
  by (cases r) auto

lemma bindE_eq_Inl: "bindE r f = Inl e \<longleftrightarrow> r = Inl e \<or> (\<exists>a. r = Inr a \<and> f a = Inl e)"
  by (cases r) auto

lemma bindE_assoc: "bindE (bindE r f) g = bindE r (\<lambda>a. bindE (f a) g)"
  by (cases r) auto

lemma bindE_cong [fundef_cong]:
  "r = r' \<Longrightarrow> (\<And>a. r' = Inr a \<Longrightarrow> f a = f' a) \<Longrightarrow> bindE r f = bindE r' f'"
  by (cases r') auto

lemma guardE_eq_Inr [simp]: "guardE ok e = Inr u \<longleftrightarrow> ok"
  by (simp add: guardE_def)

lemma guardE_eq_Inl [simp]: "guardE ok e = Inl x \<longleftrightarrow> \<not> ok \<and> x = e"
  by (auto simp: guardE_def)

lemma guardE_simps [simp]:
  "guardE True e = Inr ()"
  "guardE False e = Inl e"
  by (simp_all add: guardE_def)

text \<open>A comprehension whose body may raise: the first exception ends it.\<close>

fun mapE :: "('a \<Rightarrow> 'e + 'b) \<Rightarrow> 'a list \<Rightarrow> 'e + 'b list" where
  "mapE f [] = Inr []"
| "mapE f (x # xs) = bindE (f x) (\<lambda>y. bindE (mapE f xs) (\<lambda>ys. Inr (y # ys)))"

lemma mapE_cong [fundef_cong]:
  "xs = ys \<Longrightarrow> (\<And>x. x \<in> set ys \<Longrightarrow> f x = g x) \<Longrightarrow> mapE f xs = mapE g ys"
  by (induction ys arbitrary: xs) auto

lemma mapE_Inr_iff: "mapE f xs = Inr ys \<longleftrightarrow> list_all2 (\<lambda>x y. f x = Inr y) xs ys"
proof (induction xs arbitrary: ys)
  case Nil
  then show ?case by auto
next
  case (Cons x xs)
  then show ?case by (cases ys) auto
qed

text \<open>A loop over a list that threads a state and may raise.\<close>

fun foldE :: "('s \<Rightarrow> 'a \<Rightarrow> 's res) \<Rightarrow> 's \<Rightarrow> 'a list \<Rightarrow> 's res" where
  "foldE f s [] = Inr s"
| "foldE f s (x # xs) = bindE (f s x) (\<lambda>s'. foldE f s' xs)"

lemma foldE_append: "foldE f s (xs @ ys) = bindE (foldE f s xs) (\<lambda>t. foldE f t ys)"
  by (induction xs arbitrary: s) (auto simp: bindE_assoc)

lemma foldE_inv:
  assumes "\<And>s x t. x \<in> set xs \<Longrightarrow> P s \<Longrightarrow> f s x = Inr t \<Longrightarrow> P t"
    and "P s" and "foldE f s xs = Inr t"
  shows "P t"
  using assms
proof (induction xs arbitrary: s)
  case Nil
  then show ?case by simp
next
  case (Cons x xs)
  then obtain u where u: "f s x = Inr u" and "foldE f u xs = Inr t" by auto
  moreover have "P u" using Cons.prems(1)[OF _ Cons.prems(2) u] by simp
  ultimately show ?case using Cons by (metis list.set_intros(2))
qed

section \<open>Dictionaries\<close>

text \<open>
  A Python \<^verbatim>\<open>dict\<close> is an association list in insertion order with distinct keys; assignment
  to an existing key keeps its place, which is what \<^const>\<open>AList.update\<close> does.
\<close>

type_synonym 'v dict = "(string \<times> 'v) list"

abbreviation dict_get :: "('k \<times> 'v) list \<Rightarrow> 'k \<Rightarrow> 'v option" where
  "dict_get d k \<equiv> map_of d k"

abbreviation dict_set :: "'k \<Rightarrow> 'v \<Rightarrow> ('k \<times> 'v) list \<Rightarrow> ('k \<times> 'v) list" where
  "dict_set k v d \<equiv> AList.update k v d"

abbreviation dict_del :: "'k \<Rightarrow> ('k \<times> 'v) list \<Rightarrow> ('k \<times> 'v) list" where
  "dict_del k d \<equiv> AList.delete k d"

abbreviation dict_keys :: "('k \<times> 'v) list \<Rightarrow> 'k list" where
  "dict_keys d \<equiv> map fst d"

definition dict_wf :: "('k \<times> 'v) list \<Rightarrow> bool" where
  "dict_wf d \<longleftrightarrow> distinct (dict_keys d)"

lemma dict_get_map_rows: "dict_get (map (\<lambda>(k, x). (k, f k x)) d) k = map_option (f k) (dict_get d k)"
  by (induction d) auto

lemma dict_get_set [simp]: "dict_get (dict_set k v d) = (dict_get d)(k \<mapsto> v)"
  by (rule update_conv')

lemma dict_get_del [simp]: "dict_get (dict_del k d) = (dict_get d)(k := None)"
  by (rule delete_conv')

lemma dict_wf_Nil [simp]: "dict_wf []"
  by (simp add: dict_wf_def)

lemma dict_wf_set [simp]: "dict_wf d \<Longrightarrow> dict_wf (dict_set k v d)"
  by (simp add: dict_wf_def distinct_update)

lemma dict_wf_del [simp]: "dict_wf d \<Longrightarrow> dict_wf (dict_del k d)"
  by (simp add: dict_wf_def distinct_delete)

lemma length_dict_set: "length (dict_set k v d) = length d + (if k \<in> fst ` set d then 0 else 1)"
  by (induction d) auto

lemma length_dict_del_le: "length (dict_del k d) \<le> length d"
  by (rule length_delete_le)

lemma dict_get_in_keys: "dict_get d k = Some v \<Longrightarrow> k \<in> set (dict_keys d)"
  by (metis domI dom_map_of_conv_image_fst list.set_map)

section \<open>Lists\<close>

text \<open>Python's \<^verbatim>\<open>max(xs, key=f, default=None)\<close> and \<^verbatim>\<open>min\<close>: the first extreme element wins.\<close>

fun max_by :: "('a \<Rightarrow> 'b::linorder) \<Rightarrow> 'a list \<Rightarrow> 'a option" where
  "max_by f [] = None"
| "max_by f (x # xs) =
     (case max_by f xs of None \<Rightarrow> Some x | Some y \<Rightarrow> if f y > f x then Some y else Some x)"

fun min_by :: "('a \<Rightarrow> 'b::linorder) \<Rightarrow> 'a list \<Rightarrow> 'a option" where
  "min_by f [] = None"
| "min_by f (x # xs) =
     (case min_by f xs of None \<Rightarrow> Some x | Some y \<Rightarrow> if f y < f x then Some y else Some x)"

lemma max_by_None [simp]: "max_by f xs = None \<longleftrightarrow> xs = []"
  by (cases xs) (auto split: option.splits)

lemma max_by_in: "max_by f xs = Some x \<Longrightarrow> x \<in> set xs"
  by (induction xs arbitrary: x) (auto split: option.splits if_splits)

lemma max_by_ge: "max_by f xs = Some x \<Longrightarrow> y \<in> set xs \<Longrightarrow> f y \<le> f x"
  by (induction xs arbitrary: x y) (fastforce split: option.splits if_splits)+

lemma min_by_None [simp]: "min_by f xs = None \<longleftrightarrow> xs = []"
  by (cases xs) (auto split: option.splits)

lemma min_by_in: "min_by f xs = Some x \<Longrightarrow> x \<in> set xs"
  by (induction xs arbitrary: x) (auto split: option.splits if_splits)

lemma min_by_le: "min_by f xs = Some x \<Longrightarrow> y \<in> set xs \<Longrightarrow> f x \<le> f y"
  by (induction xs arbitrary: x y) (fastforce split: option.splits if_splits)+

lemma list_all2_fundef_cong [fundef_cong]:
  "xs = xs' \<Longrightarrow> ys = ys' \<Longrightarrow> (\<And>x y. x \<in> set xs' \<Longrightarrow> y \<in> set ys' \<Longrightarrow> P x y = Q x y) \<Longrightarrow>
   list_all2 P xs ys = list_all2 Q xs' ys'"
  by (auto intro: list.rel_cong [THEN iffD1] list.rel_mono_strong)

section \<open>Interfaces\<close>

text \<open>
  A write-once table: a first write is kept, a later write under the same key is ignored.
  The code states it in SQL as \<^verbatim>\<open>INSERT ... ON CONFLICT DO NOTHING\<close>.
\<close>

locale write_once =
  fixes get :: "'s \<Rightarrow> 'k \<Rightarrow> 'v option"
    and put :: "'k \<Rightarrow> 'v \<Rightarrow> 's \<Rightarrow> 's"
  assumes get_put_same: "get (put k v s) k = Some (case get s k of None \<Rightarrow> v | Some w \<Rightarrow> w)"
    and get_put_other: "k' \<noteq> k \<Longrightarrow> get (put k v s) k' = get s k'"
begin

lemma first_write_kept: "get s k = Some w \<Longrightarrow> get (put k' v s) k = Some w"
  by (cases "k' = k") (auto simp: get_put_same get_put_other)

lemma writes_kept: "get s k = Some w \<Longrightarrow> get (fold (\<lambda>(k', v). put k' v) ws s) k = Some w"
proof (induction ws arbitrary: s)
  case Nil
  then show ?case by simp
next
  case (Cons p ws)
  obtain k' v where "p = (k', v)" by (cases p)
  with Cons show ?case by (simp add: first_write_kept)
qed

lemma first_write_wins:
  assumes "get s k = None"
  shows "get (fold (\<lambda>(k', v). put k' v) ((k, v) # ws) s) k = Some v"
proof -
  have "get (put k v s) k = Some v" using assms by (simp add: get_put_same)
  then show ?thesis by (simp add: writes_kept)
qed

end

text \<open>
  Machines. A step relation and its reflexive-transitive closure; \<open>invariant_system\<close> lifts a
  predicate every step keeps to every reachable state, \<open>monotone_system\<close> lifts a preorder
  every step respects to every run.
\<close>

inductive reach :: "('s \<Rightarrow> bool) \<Rightarrow> ('s \<Rightarrow> 's \<Rightarrow> bool) \<Rightarrow> 's \<Rightarrow> bool" for init step where
  reach_init: "init s \<Longrightarrow> reach init step s"
| reach_step: "reach init step s \<Longrightarrow> step s t \<Longrightarrow> reach init step t"

locale invariant_system =
  fixes init :: "'s \<Rightarrow> bool"
    and step :: "'s \<Rightarrow> 's \<Rightarrow> bool"
    and inv :: "'s \<Rightarrow> bool"
  assumes inv_init: "init s \<Longrightarrow> inv s"
    and inv_step: "inv s \<Longrightarrow> step s t \<Longrightarrow> inv t"
begin

lemma reach_inv: "reach init step s \<Longrightarrow> inv s"
  by (induction rule: reach.induct) (auto intro: inv_init inv_step)

lemma run_inv: "step\<^sup>*\<^sup>* s t \<Longrightarrow> inv s \<Longrightarrow> inv t"
  by (induction rule: rtranclp_induct) (auto intro: inv_step)

end

locale monotone_system =
  fixes step :: "'s \<Rightarrow> 's \<Rightarrow> bool"
    and inv :: "'s \<Rightarrow> bool"
    and rel :: "'s \<Rightarrow> 's \<Rightarrow> bool"
  assumes mono_refl: "rel s s"
    and mono_trans: "rel s t \<Longrightarrow> rel t u \<Longrightarrow> rel s u"
    and mono_step: "inv s \<Longrightarrow> step s t \<Longrightarrow> rel s t"
    and mono_inv: "inv s \<Longrightarrow> step s t \<Longrightarrow> inv t"
begin

lemma run_rel: "step\<^sup>*\<^sup>* s t \<Longrightarrow> inv s \<Longrightarrow> rel s t \<and> inv t"
  by (induction rule: rtranclp_induct) (auto intro: mono_refl mono_trans mono_step mono_inv)

lemmas run_rel_only = run_rel [THEN conjunct1]

end

end
