(* ===== verification/Py_Value.thy ===== *)
theory Py_Value
  imports OWA_Prelude
begin

text \<open>
  The values workflow data is made of, and the two functions every component applies to
  them: \<^verbatim>\<open>validate_expression_data\<close> of \<^verbatim>\<open>expressions.py\<close> (finite JSON, safe integers, bounded
  nesting) and \<^verbatim>\<open>json_equal\<close> of \<^verbatim>\<open>event_matching.py\<close>; also \<^verbatim>\<open>_merge\<close> and \<^verbatim>\<open>_path_get\<close> of
  \<^verbatim>\<open>workflow.py\<close>. The lemmas show what validation accepts (a declarative bound on nesting
  and numbers), that acceptance is inherited by the parts of a value, and that equality is an
  equivalence on accepted values which never identifies a boolean with a number. Python's \<^verbatim>\<open>==\<close> and truth
  value stand beside it.
\<close>

section \<open>Values\<close>

text \<open>
  A float is finite (an exact rational), infinite or not a number. \<open>POther\<close> is any Python
  object that is not JSON: bytes, a tuple, a mapping with a key that is not a string.
\<close>

datatype pyfloat = FFin rat | FPosInf | FNegInf | FNaN

datatype pyval =
    PNone
  | PBool bool
  | PInt int
  | PFloat pyfloat
  | PStr string
  | PList "pyval list"
  | PDict "(string \<times> pyval) list"
  | POther string

abbreviation is_mapping :: "pyval \<Rightarrow> bool" where
  "is_mapping v \<equiv> (case v of PDict _ \<Rightarrow> True | _ \<Rightarrow> False)"

abbreviation is_str :: "pyval \<Rightarrow> bool" where
  "is_str v \<equiv> (case v of PStr _ \<Rightarrow> True | _ \<Rightarrow> False)"

text \<open>\<^verbatim>\<open>value.get(key)\<close> on a mapping, \<^const>\<open>None\<close> for an absent key.\<close>

definition field :: "pyval \<Rightarrow> string \<Rightarrow> pyval option" where
  "field v k = (case v of PDict d \<Rightarrow> dict_get d k | _ \<Rightarrow> None)"

lemma field_simps_dict [simp]: "field (PDict d) k = dict_get d k"
  by (simp add: field_def)

text \<open>\<^verbatim>\<open>value.get(key)\<close> where an absent key and an explicit null are not told apart.\<close>

definition get_or_none :: "pyval \<Rightarrow> string \<Rightarrow> pyval" where
  "get_or_none v k = (case field v k of None \<Rightarrow> PNone | Some x \<Rightarrow> x)"

section \<open>Validation\<close>

definition MAX_SAFE_INTEGER :: int where
  "MAX_SAFE_INTEGER = 2 ^ 53 - 1"

definition safe_float :: "pyfloat \<Rightarrow> bool" where
  "safe_float f = (case f of
     FFin q \<Rightarrow> \<not> (q \<in> \<int> \<and> \<bar>q\<bar> > of_int MAX_SAFE_INTEGER)
   | _ \<Rightarrow> False)"

lemma integral_floor: "(q :: rat) \<in> \<int> \<longleftrightarrow> of_int \<lfloor>q\<rfloor> = q"
  by (metis Ints_cases Ints_of_int floor_of_int)

lemma safe_float_code [code]:
  "safe_float (FFin q) \<longleftrightarrow> \<not> (of_int \<lfloor>q\<rfloor> = q \<and> \<bar>q\<bar> > of_int MAX_SAFE_INTEGER)"
  "safe_float FPosInf \<longleftrightarrow> False" "safe_float FNegInf \<longleftrightarrow> False" "safe_float FNaN \<longleftrightarrow> False"
  by (simp_all add: safe_float_def integral_floor)

fun validate_expression_data :: "nat \<Rightarrow> nat \<Rightarrow> pyval \<Rightarrow> unit res"
and validate_list :: "nat \<Rightarrow> nat \<Rightarrow> pyval list \<Rightarrow> unit res"
and validate_items :: "nat \<Rightarrow> nat \<Rightarrow> (string \<times> pyval) list \<Rightarrow> unit res" where
  "validate_expression_data depth max_depth v =
     (if depth > max_depth then Inl ExpressionError
      else case v of
        PNone \<Rightarrow> Inr ()
      | PBool _ \<Rightarrow> Inr ()
      | PStr _ \<Rightarrow> Inr ()
      | PInt i \<Rightarrow> guardE (\<bar>i\<bar> \<le> MAX_SAFE_INTEGER) ExpressionError
      | PFloat f \<Rightarrow> guardE (safe_float f) ExpressionError
      | PDict d \<Rightarrow> validate_items (Suc depth) max_depth d
      | PList xs \<Rightarrow> validate_list (Suc depth) max_depth xs
      | POther _ \<Rightarrow> Inl ExpressionError)"
| "validate_list depth max_depth [] = Inr ()"
| "validate_list depth max_depth (x # xs) =
     bindE (validate_expression_data depth max_depth x) (\<lambda>_. validate_list depth max_depth xs)"
| "validate_items depth max_depth [] = Inr ()"
| "validate_items depth max_depth ((k, x) # xs) =
     bindE (validate_expression_data depth max_depth x) (\<lambda>_. validate_items depth max_depth xs)"

declare validate_expression_data.simps [simp del]

text \<open>What validation accepts, declaratively: the scalars of a value and how deep it nests.\<close>

fun json_ok :: "pyval \<Rightarrow> bool" where
  "json_ok (PInt i) = (\<bar>i\<bar> \<le> MAX_SAFE_INTEGER)"
| "json_ok (PFloat f) = safe_float f"
| "json_ok (PList xs) = (\<forall>x \<in> set xs. json_ok x)"
| "json_ok (PDict d) = (\<forall>x \<in> set d. json_ok (snd x))"
| "json_ok (POther _) = False"
| "json_ok _ = True"

fun nesting :: "pyval \<Rightarrow> nat" where
  "nesting (PList xs) = (if xs = [] then 0 else Suc (Max (nesting ` set xs)))"
| "nesting (PDict d) = (if d = [] then 0 else Suc (Max ((\<lambda>x. nesting (snd x)) ` set d)))"
| "nesting _ = 0"

lemma validate_list_Inr:
  "validate_list d m xs = Inr u \<longleftrightarrow> (\<forall>x \<in> set xs. validate_expression_data d m x = Inr ())"
  by (induction xs) auto

lemma validate_items_Inr:
  "validate_items d m xs = Inr u \<longleftrightarrow> (\<forall>x \<in> set xs. validate_expression_data d m (snd x) = Inr ())"
  by (induction xs) auto

lemma validate_cases:
  "validate_expression_data d m v = Inr () \<or> validate_expression_data d m v = Inl ExpressionError"
  "validate_list d m xs = Inr () \<or> validate_list d m xs = Inl ExpressionError"
  "validate_items d m kvs = Inr () \<or> validate_items d m kvs = Inl ExpressionError"
proof (induction d m v and d m xs and d m kvs
    rule: validate_expression_data_validate_list_validate_items.induct)
  case (1 depth max_depth v)
  then show ?case
    by (cases v) (auto simp: validate_expression_data.simps [of depth max_depth] guardE_def)
qed (auto simp: bindE_def split: sum.splits)

lemma depth_bound_step:
  assumes "finite S" and "S \<noteq> {}"
  shows "Suc (d + Max (f ` S)) \<le> m \<longleftrightarrow> (\<forall>x \<in> S. Suc (d + f x) \<le> (m::nat))"
proof
  assume "Suc (d + Max (f ` S)) \<le> m"
  moreover have "f x \<le> Max (f ` S)" if "x \<in> S" for x using assms that by simp
  ultimately show "\<forall>x \<in> S. Suc (d + f x) \<le> m" by (meson add_left_mono le_trans Suc_le_mono)
next
  assume *: "\<forall>x \<in> S. Suc (d + f x) \<le> m"
  have "Max (f ` S) \<in> f ` S" using assms by simp
  then show "Suc (d + Max (f ` S)) \<le> m" using * by auto
qed

lemma validate_accepts:
  "validate_expression_data d m v = Inr () \<longleftrightarrow> json_ok v \<and> d + nesting v \<le> m"
proof (induction v arbitrary: d)
  case (PList xs)
  then show ?case
    by (cases "xs = []")
       (auto simp: validate_expression_data.simps validate_list_Inr depth_bound_step)
next
  case (PDict kvs)
  have IH: "validate_expression_data (Suc d) m (snd x) = Inr () \<longleftrightarrow>
      json_ok (snd x) \<and> Suc (d + nesting (snd x)) \<le> m" if "x \<in> set kvs" for x
    using PDict that by (cases x) (force simp: snds.simps)
  then have "(\<forall>x \<in> set kvs. validate_expression_data (Suc d) m (snd x) = Inr ()) \<longleftrightarrow>
      json_ok (PDict kvs) \<and> (\<forall>x \<in> set kvs. Suc (d + nesting (snd x)) \<le> m)"
    by auto
  moreover have "d \<le> m" if "kvs \<noteq> []" and "\<forall>x \<in> set kvs. Suc (d + nesting (snd x)) \<le> m"
    using that by (cases kvs) auto
  ultimately show ?case
    by (cases "kvs = []")
       (auto simp: validate_expression_data.simps validate_items_Inr depth_bound_step
         simp del: json_ok.simps)
qed (auto simp: validate_expression_data.simps guardE_def)

abbreviation valid_data :: "pyval \<Rightarrow> bool" where
  "valid_data v \<equiv> validate_expression_data 0 64 v = Inr ()"

lemma validate_shallower:
  "validate_expression_data d m v = Inr () \<Longrightarrow> d' \<le> d \<Longrightarrow> validate_expression_data d' m v = Inr ()"
  by (auto simp: validate_accepts)

lemma valid_data_list: "valid_data (PList xs) \<Longrightarrow> x \<in> set xs \<Longrightarrow> valid_data x"
  using validate_shallower
  by (auto simp: validate_expression_data.simps [of 0 64 "PList xs"] validate_list_Inr)

lemma valid_data_dict_mem:
  assumes "valid_data (PDict d)" and "(k, x) \<in> set d"
  shows "valid_data x"
proof -
  have "\<forall>p \<in> set d. validate_expression_data (Suc 0) 64 (snd p) = Inr ()"
    using assms(1) by (simp add: validate_expression_data.simps [of 0] validate_items_Inr)
  then have "validate_expression_data (Suc 0) 64 x = Inr ()"
    using assms(2) by (metis snd_conv)
  then show ?thesis by (rule validate_shallower) simp
qed

lemma valid_data_dict: "valid_data (PDict d) \<Longrightarrow> dict_get d k = Some x \<Longrightarrow> valid_data x"
  by (rule valid_data_dict_mem [OF _ map_of_SomeD])

section \<open>Equality\<close>

text \<open>\<^verbatim>\<open>json_equal\<close>, with the validation of both sides at every level as the code has it.\<close>

fun json_equal :: "pyval \<Rightarrow> pyval \<Rightarrow> bool res"
and json_equal_list :: "pyval list \<Rightarrow> pyval list \<Rightarrow> bool res"
and json_equal_items :: "(string \<times> pyval) list \<Rightarrow> (string \<times> pyval) list \<Rightarrow> bool res" where
  "json_equal l r =
     bindE (validate_expression_data 0 64 l) (\<lambda>_.
     bindE (validate_expression_data 0 64 r) (\<lambda>_.
       case l of
         PBool a \<Rightarrow> (case r of PBool b \<Rightarrow> Inr (a = b) | _ \<Rightarrow> Inr False)
       | PInt i \<Rightarrow> (case r of PInt j \<Rightarrow> Inr (i = j) | PFloat (FFin q) \<Rightarrow> Inr (of_int i = q) | _ \<Rightarrow> Inr False)
       | PFloat f \<Rightarrow> (case r of PInt j \<Rightarrow> Inr (f = FFin (of_int j)) | PFloat g \<Rightarrow> Inr (f = g \<and> f \<noteq> FNaN)
                     | _ \<Rightarrow> Inr False)
       | PList xs \<Rightarrow> (case r of
           PList ys \<Rightarrow> if length xs = length ys then json_equal_list xs ys else Inr False
         | _ \<Rightarrow> Inr False)
       | PDict d \<Rightarrow> (case r of
           PDict e \<Rightarrow> if set (dict_keys d) = set (dict_keys e) then json_equal_items d e else Inr False
         | _ \<Rightarrow> Inr False)
       | PNone \<Rightarrow> Inr (r = PNone)
       | PStr a \<Rightarrow> Inr (r = PStr a)
       | POther a \<Rightarrow> Inr (r = POther a)))"
| "json_equal_list (x # xs) (y # ys) =
     bindE (json_equal x y) (\<lambda>b. if b then json_equal_list xs ys else Inr False)"
| "json_equal_list _ _ = Inr True"
| "json_equal_items [] e = Inr True"
| "json_equal_items ((k, x) # d) e =
     (case dict_get e k of
        None \<Rightarrow> Inl KeyError
      | Some y \<Rightarrow> bindE (json_equal x y) (\<lambda>b. if b then json_equal_items d e else Inr False))"

declare json_equal.simps [simp del]

text \<open>
  Well-formed values: every dictionary in them has distinct keys, as every Python
  dictionary has.
\<close>

fun wf_val :: "pyval \<Rightarrow> bool" where
  "wf_val (PList xs) = (\<forall>x \<in> set xs. wf_val x)"
| "wf_val (PDict d) = (dict_wf d \<and> (\<forall>x \<in> set d. wf_val (snd x)))"
| "wf_val _ = True"

text \<open>The equality \<^const>\<open>json_equal\<close> decides, without the validation.\<close>

fun jeq :: "pyval \<Rightarrow> pyval \<Rightarrow> bool" where
  "jeq (PInt i) (PFloat f) = (f = FFin (of_int i))"
| "jeq (PFloat f) (PInt j) = (f = FFin (of_int j))"
| "jeq (PFloat f) (PFloat g) = (f = g \<and> f \<noteq> FNaN)"
| "jeq (PList xs) (PList ys) = list_all2 jeq xs ys"
| "jeq (PDict d) (PDict e) =
     (set (dict_keys d) = set (dict_keys e) \<and>
      (\<forall>p \<in> set d. case dict_get e (fst p) of None \<Rightarrow> False | Some y \<Rightarrow> jeq (snd p) y))"
| "jeq l r = (l = r)"

lemma json_equal_list_jeq:
  "length xs = length ys \<Longrightarrow> (\<And>x y. x \<in> set xs \<Longrightarrow> y \<in> set ys \<Longrightarrow> json_equal x y = Inr (jeq x y)) \<Longrightarrow>
   json_equal_list xs ys = Inr (list_all2 jeq xs ys)"
  by (induction xs ys rule: list_induct2) auto

lemma json_equal_items_jeq:
  assumes "set (dict_keys d) \<subseteq> set (dict_keys e)"
    and "\<And>k x y. (k, x) \<in> set d \<Longrightarrow> dict_get e k = Some y \<Longrightarrow> json_equal x y = Inr (jeq x y)"
  shows "json_equal_items d e =
     Inr (\<forall>p \<in> set d. case dict_get e (fst p) of None \<Rightarrow> False | Some y \<Rightarrow> jeq (snd p) y)"
  using assms
proof (induction d)
  case Nil
  then show ?case by simp
next
  case (Cons p d)
  obtain k x where p: "p = (k, x)" by (cases p)
  then have "k \<in> fst ` set e" using Cons.prems(1) by simp
  then obtain y where y: "dict_get e k = Some y"
    by (metis map_of_eq_None_iff option.exhaust)
  then have "json_equal x y = Inr (jeq x y)" using Cons.prems(2) [of k x y] p by simp
  moreover have "json_equal_items d e =
      Inr (\<forall>p \<in> set d. case dict_get e (fst p) of None \<Rightarrow> False | Some y \<Rightarrow> jeq (snd p) y)"
    using Cons by auto
  ultimately show ?case using y p by simp
qed

lemma json_equal_eq_jeq:
  "valid_data l \<Longrightarrow> valid_data r \<Longrightarrow> json_equal l r = Inr (jeq l r)"
proof (induction l arbitrary: r)
  case (PList xs)
  show ?case
  proof (cases r)
    case r: (PList ys)
    show ?thesis
    proof (cases "length xs = length ys")
      case True
      have "json_equal_list xs ys = Inr (list_all2 jeq xs ys)"
        using PList r valid_data_list by (intro json_equal_list_jeq [OF True]) blast
      with True PList.prems r show ?thesis by (simp add: json_equal.simps)
    next
      case False
      then have "\<not> list_all2 jeq xs ys" using list_all2_lengthD by blast
      with False PList.prems r show ?thesis by (simp add: json_equal.simps)
    qed
  qed (use PList.prems in \<open>simp_all add: json_equal.simps\<close>)
next
  case (PDict d)
  show ?case
  proof (cases r)
    case r: (PDict e)
    have "json_equal x y = Inr (jeq x y)" if "(k, x) \<in> set d" "dict_get e k = Some y" for k x y
      using PDict.IH [OF that(1)] PDict.prems r that valid_data_dict_mem valid_data_dict
      by (metis snds.intros snd_conv)
    then have "json_equal_items d e =
        Inr (\<forall>p \<in> set d. case dict_get e (fst p) of None \<Rightarrow> False | Some y \<Rightarrow> jeq (snd p) y)"
      if "set (dict_keys d) = set (dict_keys e)"
      using that by (intro json_equal_items_jeq) auto
    with PDict.prems r show ?thesis by (simp add: json_equal.simps)
  qed (use PDict.prems in \<open>simp_all add: json_equal.simps\<close>)
next
  case (PInt i)
  then show ?case
    by (cases r) (auto simp: json_equal.simps split: pyfloat.split)
next
  case (PFloat f)
  then show ?case by (cases r) (simp_all add: json_equal.simps)
next
  case PNone
  then show ?case by (cases r) (simp_all add: json_equal.simps)
next
  case (PBool b)
  then show ?case by (cases r) (simp_all add: json_equal.simps)
next
  case (PStr a)
  then show ?case by (cases r) (auto simp: json_equal.simps)
next
  case (POther a)
  then show ?case by (cases r) (auto simp: json_equal.simps)
qed

lemma jeq_refl: "valid_data v \<Longrightarrow> wf_val v \<Longrightarrow> jeq v v"
proof (induction v)
  case (PFloat f)
  then show ?case by (cases f) (auto simp: validate_accepts safe_float_def)
next
  case (PList xs)
  then show ?case by (auto simp: list_all2_same valid_data_list)
next
  case (PDict d)
  have "jeq (snd p) (snd p)" and "dict_get d (fst p) = Some (snd p)" if "p \<in> set d" for p
    using PDict that valid_data_dict_mem [of d "fst p" "snd p"]
    by (auto simp: dict_wf_def snds.simps)
  then show ?case by auto
qed auto

lemma jeq_sym: "jeq v w \<Longrightarrow> wf_val v \<Longrightarrow> wf_val w \<Longrightarrow> jeq w v"
proof (induction v arbitrary: w)
  case (PInt i)
  then show ?case by (cases w) auto
next
  case (PFloat f)
  then show ?case by (cases w) auto
next
  case (PList xs)
  then obtain ys where "w = PList ys" and "list_all2 jeq xs ys" by (cases w) auto
  with PList show ?case by (auto simp: list_all2_conv_all_nth)
next
  case (PDict d)
  then obtain e where w: "w = PDict e" by (cases w) auto
  have "jeq y x" if "(k, y) \<in> set e" "dict_get d k = Some x" for k x y
  proof -
    have "(k, x) \<in> set d" using that map_of_SomeD by metis
    moreover have "dict_get e k = Some y" using that PDict.prems w by (auto simp: dict_wf_def)
    ultimately show ?thesis using PDict w that by (fastforce simp: snds.simps)
  qed
  moreover have "\<exists>x. dict_get d k = Some x" if "(k, y) \<in> set e" for k y
    using that PDict.prems(1) w
    by (metis fst_conv image_eqI jeq.simps(5) list.set_map map_of_eq_None_iff option.exhaust)
  ultimately show ?case using PDict.prems w by fastforce
qed auto

lemma jeq_trans: "jeq u v \<Longrightarrow> jeq v w \<Longrightarrow> jeq u w"
proof (induction u arbitrary: v w)
  case (PInt i)
  then show ?case by (cases v; cases w) auto
next
  case (PFloat f)
  then show ?case by (cases v; cases w) auto
next
  case (PList xs)
  then obtain ys where "v = PList ys" "list_all2 jeq xs ys" by (cases v) auto
  moreover then obtain zs where "w = PList zs" "list_all2 jeq ys zs" using PList by (cases w) auto
  moreover have "jeq (xs ! i) (zs ! i)"
    if "i < length xs" "jeq (xs ! i) (ys ! i)" "jeq (ys ! i) (zs ! i)" for i
    by (rule PList.IH [OF nth_mem [OF that(1)] that(2,3)])
  ultimately show ?case by (simp add: list_all2_conv_all_nth)
next
  case (PDict d)
  then obtain e where v: "v = PDict e" by (cases v) auto
  with PDict obtain f where w: "w = PDict f" by (cases w) auto
  have "\<exists>z. dict_get f k = Some z \<and> jeq x z" if kx: "(k, x) \<in> set d" for k x
  proof -
    obtain y where y: "dict_get e k = Some y" "jeq x y"
      using kx PDict.prems(1) v by (fastforce split: option.splits)
    then obtain z where "dict_get f k = Some z" "jeq y z"
      using PDict.prems(2) v w map_of_SomeD [OF y(1)] by (fastforce split: option.splits)
    then show ?thesis using PDict.IH kx y by (fastforce simp: snds.simps)
  qed
  then show ?case using PDict.prems v w by fastforce
qed auto

text \<open>Python's \<^verbatim>\<open>==\<close> and truth value on JSON data.\<close>

definition num_value :: "pyval \<Rightarrow> rat option" where
  "num_value v = (case v of PInt i \<Rightarrow> Some (of_int i) | PBool b \<Rightarrow> Some (if b then 1 else 0)
     | PFloat (FFin q) \<Rightarrow> Some q | _ \<Rightarrow> None)"

fun py_eq :: "pyval \<Rightarrow> pyval \<Rightarrow> bool" where
  "py_eq (PList xs) (PList ys) = list_all2 py_eq xs ys"
| "py_eq (PDict d) (PDict e) =
     (set (dict_keys d) = set (dict_keys e) \<and>
      list_all (\<lambda>p. case dict_get e (fst p) of None \<Rightarrow> False | Some y \<Rightarrow> py_eq (snd p) y) d)"
| "py_eq PNone PNone = True"
| "py_eq (PStr a) (PStr b) = (a = b)"
| "py_eq (PFloat FPosInf) (PFloat FPosInf) = True"
| "py_eq (PFloat FNegInf) (PFloat FNegInf) = True"
| "py_eq (POther a) (POther b) = (a = b)"
| "py_eq v w = (num_value v \<noteq> None \<and> num_value v = num_value w)"

fun truthy :: "pyval \<Rightarrow> bool" where
  "truthy PNone = False"
| "truthy (PBool b) = b"
| "truthy (PInt i) = (i \<noteq> 0)"
| "truthy (PFloat f) = (f \<noteq> FFin 0)"
| "truthy (PStr s) = (s \<noteq> [])"
| "truthy (PList xs) = (xs \<noteq> [])"
| "truthy (PDict d) = (d \<noteq> [])"
| "truthy (POther _) = True"

lemma py_eq_refl: "json_ok v \<Longrightarrow> wf_val v \<Longrightarrow> py_eq v v"
proof (induction v)
  case (PFloat f)
  then show ?case by (cases f) (auto simp: safe_float_def num_value_def)
next
  case (PList xs)
  then show ?case by (auto simp: list_all2_same)
next
  case (PDict d)
  have "py_eq (snd p) (snd p)" "dict_get d (fst p) = Some (snd p)" if "p \<in> set d" for p
    using PDict that by (auto simp: dict_wf_def snds.simps)
  then show ?case by (auto simp: list_all_iff)
qed (auto simp: num_value_def)

section \<open>Merging and paths\<close>

text \<open>\<^verbatim>\<open>_merge\<close>: the right mapping's entries over the left's; otherwise the right value.\<close>

definition merge :: "pyval \<Rightarrow> pyval \<Rightarrow> pyval" where
  "merge left right = (case (left, right) of
     (PDict l, PDict r) \<Rightarrow> PDict (AList.updates (map fst r) (map snd r) l)
   | _ \<Rightarrow> right)"

lemma updates_get:
  "dict_wf r \<Longrightarrow> dict_get (AList.updates (map fst r) (map snd r) l) k =
     (case dict_get r k of Some x \<Rightarrow> Some x | None \<Rightarrow> dict_get l k)"
proof (induction r arbitrary: l)
  case Nil
  then show ?case by simp
next
  case (Cons p r)
  then have "dict_get r (fst p) = None" by (simp add: dict_wf_def map_of_eq_None_iff)
  with Cons show ?case by (cases p) (auto simp: dict_wf_def split: option.splits)
qed

lemma merge_get:
  "dict_wf r \<Longrightarrow> field (merge (PDict l) (PDict r)) k =
     (case dict_get r k of Some x \<Rightarrow> Some x | None \<Rightarrow> dict_get l k)"
  by (simp add: merge_def updates_get)

end
