(* ===== verification/Ownership.thy ===== *)
theory Ownership
  imports Py_Value
begin

text \<open>
  Execution ownership (\<^verbatim>\<open>ownership.py\<close>): the table of expiring leases, its four operations,
  the guard every durable write of an execution carries, and the transaction that holds the
  guard. The machine at the end interleaves any number of workers with an advancing storage
  clock; its lemmas show that generations only grow, that a live lease is exclusive, and that
  a lease which was released, revoked or taken over is never accepted again.

  The storage clock is the argument \<open>now\<close> (one reading per statement). A UUID is drawn by the
  caller and passed in.
\<close>

section \<open>Leases\<close>

record execution_lease =
  lease_invocation_id :: string
  lease_engine :: string
  lease_fingerprint :: string
  lease_owner :: string
  lease_generation :: int
  lease_expires_at :: rat

text \<open>\<^verbatim>\<open>uuid.UUID(s).hex == s\<close>: thirty-two lower-case hexadecimal digits.\<close>

definition is_uuid_hex :: "string \<Rightarrow> bool" where
  "is_uuid_hex s \<longleftrightarrow> length s = 32 \<and> list_all (\<lambda>c. c \<in> set ''0123456789abcdef'') s"

definition make_lease :: "execution_lease \<Rightarrow> execution_lease res" where
  "make_lease l =
     (if lease_invocation_id l = [] \<or> lease_engine l = [] \<or> lease_fingerprint l = []
         \<or> lease_owner l = [] \<or> lease_generation l < 1 \<or> lease_expires_at l \<le> 0
         \<or> \<not> is_uuid_hex (lease_owner l)
      then Inl ValueError else Inr l)"

text \<open>A row of \<^verbatim>\<open>invocation_ownership\<close>; the key is the invocation.\<close>

record owner_row =
  row_engine :: string
  row_fingerprint :: string
  row_owner :: string
  row_generation :: int
  row_expires_at :: rat

type_synonym ownership_table = "string \<rightharpoonup> owner_row"

definition row_lease :: "string \<Rightarrow> owner_row \<Rightarrow> execution_lease" where
  "row_lease iid r =
     \<lparr>lease_invocation_id = iid, lease_engine = row_engine r, lease_fingerprint = row_fingerprint r,
      lease_owner = row_owner r, lease_generation = row_generation r,
      lease_expires_at = row_expires_at r\<rparr>"

definition live_expiry :: "rat \<Rightarrow> rat \<Rightarrow> bool" where
  "live_expiry now e \<longleftrightarrow> e > now \<and> e \<le> now + 3600"

definition row_matches :: "owner_row \<Rightarrow> execution_lease \<Rightarrow> bool" where
  "row_matches r l \<longleftrightarrow>
     row_engine r = lease_engine l \<and> row_fingerprint r = lease_fingerprint l \<and>
     row_owner r = lease_owner l \<and> row_generation r = lease_generation l"

text \<open>
  The guard of a fenced write (\<^verbatim>\<open>_write_guard\<close>): a row with the lease's identity that is live.
\<close>

definition write_guard :: "ownership_table \<Rightarrow> rat \<Rightarrow> execution_lease \<Rightarrow> bool" where
  "write_guard tbl now l =
     (case tbl (lease_invocation_id l) of
        None \<Rightarrow> False
      | Some r \<Rightarrow> row_matches r l \<and> live_expiry now (row_expires_at r))"

section \<open>Operations\<close>

definition lease_duration :: "rat \<Rightarrow> rat res" where
  "lease_duration seconds = (if 0 < seconds \<and> seconds \<le> 3600 then Inr seconds else Inl ValueError)"

text \<open>
  \<^verbatim>\<open>acquire\<close>: insert a first row of generation one, or take an expired row of the same engine
  and definition over, one generation up. A row that does not decode rolls the statement back.
\<close>

definition acquire ::
  "ownership_table \<Rightarrow> rat \<Rightarrow> string \<Rightarrow> string \<Rightarrow> string \<Rightarrow> string \<Rightarrow> rat
   \<Rightarrow> (ownership_table \<times> execution_lease) res" where
  "acquire tbl now uuid iid eng fp seconds =
     bindE (lease_duration seconds) (\<lambda>duration.
     bindE (guardE (iid \<noteq> [] \<and> eng \<noteq> [] \<and> fp \<noteq> []) ValueError) (\<lambda>_.
       let written =
         (case tbl iid of
            None \<Rightarrow> Some \<lparr>row_engine = eng, row_fingerprint = fp, row_owner = uuid,
                          row_generation = 1, row_expires_at = now + duration\<rparr>
          | Some r \<Rightarrow>
              if row_expires_at r \<le> now \<and> row_engine r = eng \<and> row_fingerprint r = fp
                 \<and> row_generation r > 0
              then Some (r\<lparr>row_owner := uuid, row_generation := row_generation r + 1,
                           row_expires_at := now + duration\<rparr>)
              else None)
       in case written of
            None \<Rightarrow> Inl InvocationStateConflict
          | Some r \<Rightarrow> (case make_lease (row_lease iid r) of
              Inl _ \<Rightarrow> Inl WorkflowExecutionError
            | Inr l \<Rightarrow> Inr (tbl(iid \<mapsto> r), l))))"

definition renew ::
  "ownership_table \<Rightarrow> rat \<Rightarrow> execution_lease \<Rightarrow> rat \<Rightarrow> (ownership_table \<times> execution_lease) res" where
  "renew tbl now l seconds =
     bindE (lease_duration seconds) (\<lambda>duration.
       case tbl (lease_invocation_id l) of
         None \<Rightarrow> Inl InvocationStateConflict
       | Some r \<Rightarrow>
           if row_matches r l \<and> live_expiry now (row_expires_at r) then
             (let r' = r\<lparr>row_expires_at := now + duration\<rparr>
              in case make_lease (row_lease (lease_invocation_id l) r') of
                   Inl _ \<Rightarrow> Inl WorkflowExecutionError
                 | Inr l' \<Rightarrow> Inr (tbl(lease_invocation_id l \<mapsto> r'), l'))
           else Inl InvocationStateConflict)"

definition verify_lease :: "ownership_table \<Rightarrow> rat \<Rightarrow> execution_lease \<Rightarrow> unit res" where
  "verify_lease tbl now l =
     (case tbl (lease_invocation_id l) of
        None \<Rightarrow> Inl InvocationStateConflict
      | Some r \<Rightarrow>
          if row_matches r l \<and> live_expiry now (row_expires_at r) then
            (case make_lease (row_lease (lease_invocation_id l) r) of
               Inl _ \<Rightarrow> Inl WorkflowExecutionError
             | Inr current \<Rightarrow>
                 guardE (current\<lparr>lease_expires_at := lease_expires_at l\<rparr> = l) InvocationStateConflict)
          else Inl InvocationStateConflict)"

text \<open>\<^verbatim>\<open>release\<close>: expire the row and keep its generation.\<close>

definition release :: "ownership_table \<Rightarrow> rat \<Rightarrow> execution_lease \<Rightarrow> ownership_table res" where
  "release tbl now l =
     (case tbl (lease_invocation_id l) of
        None \<Rightarrow> Inl InvocationStateConflict
      | Some r \<Rightarrow>
          if row_matches r l \<and> live_expiry now (row_expires_at r)
          then Inr (tbl(lease_invocation_id l \<mapsto> r\<lparr>row_expires_at := 0\<rparr>))
          else Inl InvocationStateConflict)"

text \<open>
  The revocation an authorised cancellation performs on the ownership row of a controlled
  invocation (\<^verbatim>\<open>persistence.py\<close>, end of \<^verbatim>\<open>_cancel_controlled\<close>).
\<close>

definition revoke :: "ownership_table \<Rightarrow> string \<Rightarrow> string \<Rightarrow> string \<Rightarrow> ownership_table" where
  "revoke tbl iid eng fp =
     (case tbl iid of
        Some r \<Rightarrow> if row_engine r = eng \<and> row_fingerprint r = fp
                  then tbl(iid \<mapsto> r\<lparr>row_expires_at := 0\<rparr>) else tbl
      | None \<Rightarrow> tbl)"

text \<open>
  \<^verbatim>\<open>owned_write_transaction\<close>: the body runs, and commits, only while the ownership row of the
  lease is held; a body that raises leaves the store as it was. Without a lease the write is
  unfenced.
\<close>

definition owned_write_transaction ::
  "ownership_table \<Rightarrow> rat \<Rightarrow> execution_lease option \<Rightarrow> string \<Rightarrow> string \<Rightarrow> 'a res \<Rightarrow> 'a res" where
  "owned_write_transaction tbl now lease iid fp body =
     (case lease of
        None \<Rightarrow> body
      | Some l \<Rightarrow>
          if lease_invocation_id l \<noteq> iid \<or> lease_fingerprint l \<noteq> fp
          then Inl InvocationStateConflict
          else if \<not> write_guard tbl now l then Inl InvocationStateConflict
          else body)"

section \<open>Facts about single operations\<close>

lemma write_guard_iff:
  "write_guard tbl now l \<longleftrightarrow>
   (\<exists>r. tbl (lease_invocation_id l) = Some r \<and> row_matches r l \<and> live_expiry now (row_expires_at r))"
  by (auto simp: write_guard_def split: option.splits)

lemma lease_duration_Inr [simp]: "lease_duration s = Inr d \<longleftrightarrow> d = s \<and> 0 < s \<and> s \<le> 3600"
  by (auto simp: lease_duration_def)

lemma make_lease_Inr:
  "make_lease l = Inr l' \<longleftrightarrow> l' = l \<and> lease_invocation_id l \<noteq> [] \<and> lease_engine l \<noteq> [] \<and>
     lease_fingerprint l \<noteq> [] \<and> lease_generation l \<ge> 1 \<and> lease_expires_at l > 0 \<and>
     is_uuid_hex (lease_owner l)"
  by (auto simp: make_lease_def is_uuid_hex_def)

lemma make_lease_eq [dest!]: "make_lease l = Inr l' \<Longrightarrow> l' = l"
  by (simp add: make_lease_Inr)

lemma acquire_cases:
  assumes "acquire tbl now uuid iid eng fp seconds = Inr (tbl', l)"
  obtains (fresh) r where "tbl iid = None" "tbl' = tbl(iid \<mapsto> r)" "l = row_lease iid r"
      "row_generation r = 1" "row_engine r = eng" "row_fingerprint r = fp" "row_owner r = uuid"
      "row_expires_at r = now + seconds" "0 < seconds" "seconds \<le> 3600"
  | (takeover) r0 r where "tbl iid = Some r0" "row_expires_at r0 \<le> now" "row_generation r0 > 0"
      "row_engine r0 = eng" "row_fingerprint r0 = fp"
      "tbl' = tbl(iid \<mapsto> r)" "l = row_lease iid r"
      "row_generation r = row_generation r0 + 1" "row_engine r = eng" "row_fingerprint r = fp"
      "row_owner r = uuid" "row_expires_at r = now + seconds" "0 < seconds" "seconds \<le> 3600"
proof (cases "tbl iid")
  case None
  with assms show ?thesis
    by (intro fresh [of "\<lparr>row_engine = eng, row_fingerprint = fp, row_owner = uuid,
                          row_generation = 1, row_expires_at = now + seconds\<rparr>"])
       (auto simp: acquire_def Let_def split: if_splits sum.splits)
next
  case (Some r0)
  with assms show ?thesis
    by (intro takeover [of r0 "r0\<lparr>row_owner := uuid, row_generation := row_generation r0 + 1,
                                   row_expires_at := now + seconds\<rparr>"])
       (auto simp: acquire_def Let_def split: if_splits sum.splits)
qed

lemma acquire_guard:
  assumes "acquire tbl now uuid iid eng fp seconds = Inr (tbl', l)"
  shows "write_guard tbl' now l"
  using assms
  by (cases rule: acquire_cases)
     (auto simp: write_guard_def row_lease_def row_matches_def live_expiry_def)

lemma renew_Inr:
  "renew tbl now l seconds = Inr (tbl', l') \<longleftrightarrow>
   (\<exists>r. tbl (lease_invocation_id l) = Some r \<and> row_matches r l \<and> live_expiry now (row_expires_at r) \<and>
      0 < seconds \<and> seconds \<le> 3600 \<and>
      make_lease (row_lease (lease_invocation_id l) (r\<lparr>row_expires_at := now + seconds\<rparr>)) = Inr l' \<and>
      tbl' = tbl(lease_invocation_id l \<mapsto> r\<lparr>row_expires_at := now + seconds\<rparr>))"
  by (auto simp: renew_def Let_def split: option.splits if_splits sum.splits)

lemma release_Inr:
  "release tbl now l = Inr tbl' \<longleftrightarrow>
   (\<exists>r. tbl (lease_invocation_id l) = Some r \<and> row_matches r l \<and> live_expiry now (row_expires_at r) \<and>
      tbl' = tbl(lease_invocation_id l \<mapsto> r\<lparr>row_expires_at := 0\<rparr>))"
  by (auto simp: release_def split: option.splits if_splits)

lemma verify_lease_imp_guard: "verify_lease tbl now l = Inr () \<Longrightarrow> write_guard tbl now l"
  by (auto simp: verify_lease_def write_guard_def split: option.splits if_splits sum.splits)

lemma owned_write_Inr:
  "owned_write_transaction tbl now (Some l) iid fp body = Inr x \<longleftrightarrow>
   lease_invocation_id l = iid \<and> lease_fingerprint l = fp \<and> write_guard tbl now l \<and> body = Inr x"
  by (auto simp: owned_write_transaction_def)

lemma owned_write_None [simp]: "owned_write_transaction tbl now None iid fp body = body"
  by (simp add: owned_write_transaction_def)

section \<open>Workers, the storage clock and the table\<close>

text \<open>
  A state is the storage clock's reading and the table. Any worker may acquire, renew or
  release with any lease value it holds, a control operation may revoke, and the clock
  advances between statements.
\<close>

type_synonym own_state = "rat \<times> ownership_table"

inductive own_step :: "own_state \<Rightarrow> own_state \<Rightarrow> bool" where
  tick: "now \<le> now' \<Longrightarrow> own_step (now, tbl) (now', tbl)"
| acquire: "acquire tbl now uuid iid eng fp seconds = Inr (tbl', l) \<Longrightarrow>
     own_step (now, tbl) (now, tbl')"
| renew: "renew tbl now l seconds = Inr (tbl', l') \<Longrightarrow> own_step (now, tbl) (now, tbl')"
| release: "release tbl now l = Inr tbl' \<Longrightarrow> own_step (now, tbl) (now, tbl')"
| revoke: "own_step (now, tbl) (now, revoke tbl iid eng fp)"

inductive_cases own_stepE: "own_step s t"

definition own_init :: "own_state \<Rightarrow> bool" where
  "own_init s \<longleftrightarrow> 0 < fst s \<and> snd s = Map.empty"

text \<open>Every row is a first or later generation and expires at most an hour ahead.\<close>

definition own_inv :: "own_state \<Rightarrow> bool" where
  "own_inv s \<longleftrightarrow> 0 < fst s \<and>
     (\<forall>iid r. snd s iid = Some r \<longrightarrow> 1 \<le> row_generation r \<and> row_expires_at r \<le> fst s + 3600)"

text \<open>
  What no step undoes: a row stays, with its engine and definition; its generation never
  falls, its owner changes only with the generation, and within a generation a row that is
  not live stays so.
\<close>

definition own_rel :: "own_state \<Rightarrow> own_state \<Rightarrow> bool" where
  "own_rel s t \<longleftrightarrow> fst s \<le> fst t \<and>
     (\<forall>iid r. snd s iid = Some r \<longrightarrow>
        (\<exists>r'. snd t iid = Some r' \<and> row_engine r' = row_engine r \<and>
           row_fingerprint r' = row_fingerprint r \<and>
           (row_generation r < row_generation r' \<or>
            row_generation r' = row_generation r \<and> row_owner r' = row_owner r \<and>
            (row_expires_at r \<le> fst s \<longrightarrow> row_expires_at r' \<le> fst t))))"

lemma own_inv_step: "own_inv s \<Longrightarrow> own_step s t \<Longrightarrow> own_inv t"
proof (erule own_stepE, goal_cases)
  case (1 now now' tbl)
  then show ?case by (fastforce simp: own_inv_def)
next
  case (2 tbl now uuid iid eng fp seconds tbl' l)
  from 2(4) show ?case
    by (cases rule: acquire_cases) (use 2 in \<open>auto simp: own_inv_def\<close>)
next
  case (3 tbl now l seconds tbl' l')
  then show ?case by (auto simp: own_inv_def renew_Inr split: if_splits)
next
  case (4 tbl now l tbl')
  then show ?case by (auto simp: own_inv_def release_Inr split: if_splits)
next
  case (5 now tbl iid eng fp)
  then show ?case by (auto simp: own_inv_def revoke_def split: option.splits if_splits)
qed

lemma own_rel_step: "own_inv s \<Longrightarrow> own_step s t \<Longrightarrow> own_rel s t"
proof (erule own_stepE, goal_cases)
  case (1 now now' tbl)
  then show ?case by (auto simp: own_rel_def)
next
  case (2 tbl now uuid iid eng fp seconds tbl' l)
  from 2(4) show ?case
    by (cases rule: acquire_cases) (use 2 in \<open>auto simp: own_rel_def\<close>)
next
  case (3 tbl now l seconds tbl' l')
  then show ?case by (auto simp: own_rel_def renew_Inr live_expiry_def)
next
  case (4 tbl now l tbl')
  then show ?case by (auto simp: own_rel_def release_Inr own_inv_def)
next
  case (5 now tbl iid eng fp)
  then show ?case
    by (auto simp: own_rel_def own_inv_def revoke_def split: option.splits if_splits)
qed

lemma own_rel_refl: "own_rel s s"
  by (simp add: own_rel_def)

lemma own_rel_trans: "own_rel s t \<Longrightarrow> own_rel t u \<Longrightarrow> own_rel s u"
  unfolding own_rel_def by (fastforce intro: order_trans)

interpretation own: invariant_system own_init own_step own_inv
proof unfold_locales
  show "own_inv s" if "own_init s" for s
    using that by (auto simp: own_init_def own_inv_def)
qed (rule own_inv_step)

interpretation own_mono: monotone_system own_step own_inv own_rel
  by unfold_locales (blast intro: own_rel_refl own_rel_trans own_rel_step own_inv_step)+

text \<open>A row that is at the lease's generation or later.\<close>

definition reached_generation :: "ownership_table \<Rightarrow> execution_lease \<Rightarrow> bool" where
  "reached_generation tbl l =
     (case tbl (lease_invocation_id l) of
        None \<Rightarrow> False | Some r \<Rightarrow> lease_generation l \<le> row_generation r)"

lemma dead_lease_stays_dead:
  assumes "own_inv (now, tbl)" and "own_step\<^sup>*\<^sup>* (now, tbl) (now', tbl')"
    and "reached_generation tbl l" and "\<not> write_guard tbl now l"
  shows "\<not> write_guard tbl' now' l"
proof
  assume guard: "write_guard tbl' now' l"
  have rel: "own_rel (now, tbl) (now', tbl')"
    by (rule own_mono.run_rel_only [OF assms(2,1)])
  obtain r where r: "tbl (lease_invocation_id l) = Some r" "lease_generation l \<le> row_generation r"
    using assms(3) by (auto simp: reached_generation_def split: option.splits)
  have "row_expires_at r \<le> now + 3600" using assms(1) r by (auto simp: own_inv_def)
  with r assms(4) guard rel show False
    by (fastforce simp: own_rel_def write_guard_iff row_matches_def live_expiry_def)
qed

lemma live_lease_exclusive:
  "write_guard tbl now l \<Longrightarrow> write_guard tbl now l' \<Longrightarrow>
   lease_invocation_id l = lease_invocation_id l' \<Longrightarrow>
   lease_owner l = lease_owner l' \<and> lease_generation l = lease_generation l'"
  by (auto simp: write_guard_iff row_matches_def)

lemma acquire_refused_while_live:
  assumes "write_guard tbl now l" and "0 < seconds" and "seconds \<le> 3600"
    and "lease_invocation_id l \<noteq> []" and "eng \<noteq> []" and "fp \<noteq> []"
  shows "acquire tbl now uuid (lease_invocation_id l) eng fp seconds = Inl InvocationStateConflict"
  using assms by (auto simp: acquire_def write_guard_iff live_expiry_def lease_duration_def)

lemma acquire_after_expiry:
  assumes "tbl iid = Some r" and "row_expires_at r \<le> now" and "row_generation r \<ge> 1" and "0 < now"
    and "row_engine r = eng" and "row_fingerprint r = fp" and "iid \<noteq> []" and "eng \<noteq> []" and "fp \<noteq> []"
    and "is_uuid_hex uuid" and "0 < seconds" and "seconds \<le> 3600"
  shows "\<exists>tbl' l. acquire tbl now uuid iid eng fp seconds = Inr (tbl', l) \<and>
           lease_generation l = row_generation r + 1 \<and> write_guard tbl' now l"
proof -
  define r' where "r' = r\<lparr>row_owner := uuid, row_generation := row_generation r + 1,
                          row_expires_at := now + seconds\<rparr>"
  have "make_lease (row_lease iid r') = Inr (row_lease iid r')"
    using assms by (simp add: make_lease_Inr row_lease_def r'_def)
  then have "acquire tbl now uuid iid eng fp seconds = Inr (tbl(iid \<mapsto> r'), row_lease iid r')"
    using assms by (simp add: acquire_def lease_duration_def r'_def)
  moreover from this have "write_guard (tbl(iid \<mapsto> r')) now (row_lease iid r')"
    by (rule acquire_guard)
  ultimately show ?thesis by (auto simp: row_lease_def r'_def)
qed

end
