(* ===== verification/Invocation_Store.thy ===== *)
theory Invocation_Store
  imports Ownership
begin

text \<open>
  Invocation records (\<^verbatim>\<open>persistence.py\<close>) and the lifecycle they follow (\<^verbatim>\<open>lifecycle.py\<close>):
  creation, input binding, compare-and-set updates fenced by an execution lease, authorised
  cancellation with revocation of the lease, and the terminal timestamp bound to the final
  snapshot. All tables live on one common datasource, here one record.

  A persisted payload is the decoded content of the JSON text the code stores, so equality
  of texts is equality of contents. The SHA-256 of such a text is the parameter \<open>sha\<close>.
\<close>

section \<open>Lifecycle\<close>

datatype invocation_status = Running | Waiting | Completed | Faulted | Cancelled | OtherStatus string

definition TERMINAL_INVOCATION_STATES :: "invocation_status set" where
  "TERMINAL_INVOCATION_STATES = {Completed, Faulted, Cancelled}"

fun VALID_INVOCATION_TRANSITIONS :: "invocation_status \<Rightarrow> invocation_status list option" where
  "VALID_INVOCATION_TRANSITIONS Running = Some [Running, Waiting, Completed, Faulted, Cancelled]"
| "VALID_INVOCATION_TRANSITIONS Waiting = Some [Waiting, Running, Faulted, Cancelled]"
| "VALID_INVOCATION_TRANSITIONS Completed = Some [Completed]"
| "VALID_INVOCATION_TRANSITIONS Faulted = Some [Faulted]"
| "VALID_INVOCATION_TRANSITIONS Cancelled = Some [Cancelled]"
| "VALID_INVOCATION_TRANSITIONS (OtherStatus _) = None"

definition allowed_transition :: "invocation_status \<Rightarrow> invocation_status \<Rightarrow> bool" where
  "allowed_transition a b =
     (case VALID_INVOCATION_TRANSITIONS a of None \<Rightarrow> False | Some bs \<Rightarrow> b \<in> set bs)"

abbreviation terminal :: "invocation_status \<Rightarrow> bool" where
  "terminal st \<equiv> st \<in> TERMINAL_INVOCATION_STATES"

section \<open>Handles and payloads\<close>

text \<open>
  The public fields of \<^verbatim>\<open>ExecutionHandle\<close>: those that identify the invocation, which no write
  may change, and the three that describe its state.
\<close>

record handle_identity =
  hi_invocation_id :: string
  hi_engine :: string
  hi_engine_execution_reference :: string
  hi_user_id :: "string option"
  hi_session_id :: string
  hi_workflow_name :: string
  hi_workflow_version :: string
  hi_workflow_fingerprint :: string
  hi_parent_invocation_id :: "string option"
  hi_parent_task_reference :: "string option"
  hi_owner_principal :: "string option"

record handle_fields =
  hf_identity :: handle_identity
  hf_status :: invocation_status
  hf_output :: pyval
  hf_error :: pyval

record payload =
  pl_fields :: handle_fields
  pl_revision :: "string option"

record execution_handle =
  eh_fields :: handle_fields
  eh_persisted :: "payload option"
  eh_lease :: "execution_lease option"

abbreviation eh_id :: "execution_handle \<Rightarrow> string" where
  "eh_id h \<equiv> hi_invocation_id (hf_identity (eh_fields h))"

abbreviation eh_status :: "execution_handle \<Rightarrow> invocation_status" where
  "eh_status h \<equiv> hf_status (eh_fields h)"

text \<open>Validation of the payload mapping: its values are one level down.\<close>

definition validate_fields :: "handle_fields \<Rightarrow> unit res" where
  "validate_fields f =
     bindE (validate_expression_data 1 64 (hf_output f)) (\<lambda>_.
            validate_expression_data 1 64 (hf_error f))"

definition encode_handle :: "string \<Rightarrow> handle_fields \<Rightarrow> payload res" where
  "encode_handle uuid f =
     bindE (validate_fields f) (\<lambda>_. Inr \<lparr>pl_fields = f, pl_revision = Some uuid\<rparr>)"

definition decode_payload :: "payload \<Rightarrow> handle_fields res" where
  "decode_payload p =
     bindE (validate_fields (pl_fields p)) (\<lambda>_.
     bindE (guardE (case pl_revision p of None \<Rightarrow> True | Some r \<Rightarrow> is_uuid_hex r) ValueError) (\<lambda>_.
       Inr (pl_fields p)))"

definition verify_identity :: "handle_fields \<Rightarrow> handle_fields \<Rightarrow> unit res" where
  "verify_identity f g = guardE (hf_identity f = hf_identity g) InvocationStateError"

section \<open>The common datasource\<close>

record terminal_time =
  tt_fingerprint :: string
  tt_status :: invocation_status
  tt_completed_at :: rat
  tt_snapshot_digest :: string

record datastore =
  ds_invocations :: "string \<rightharpoonup> payload \<times> invocation_status"
  ds_inputs :: "string \<rightharpoonup> string \<times> pyval"
  ds_terminal_times :: "string \<rightharpoonup> terminal_time"
  ds_ownership :: ownership_table

definition empty_datastore :: datastore where
  "empty_datastore = \<lparr>ds_invocations = Map.empty, ds_inputs = Map.empty,
     ds_terminal_times = Map.empty, ds_ownership = Map.empty\<rparr>"

section \<open>Reading\<close>

definition get_invocation :: "datastore \<Rightarrow> string \<Rightarrow> execution_handle option res" where
  "get_invocation s i =
     (case ds_invocations s i of
        None \<Rightarrow> Inr None
      | Some (p, st) \<Rightarrow>
          (case decode_payload p of
             Inl _ \<Rightarrow> Inl WorkflowExecutionError
           | Inr f \<Rightarrow>
               if hi_invocation_id (hf_identity f) \<noteq> i \<or> hf_status f \<noteq> st
                  \<or> VALID_INVOCATION_TRANSITIONS (hf_status f) = None
               then Inl WorkflowExecutionError
               else Inr (Some \<lparr>eh_fields = f, eh_persisted = Some p, eh_lease = None\<rparr>)))"

definition refresh :: "datastore \<Rightarrow> execution_handle \<Rightarrow> bool \<Rightarrow> execution_handle res" where
  "refresh s h terminal_only =
     bindE (get_invocation s (eh_id h)) (\<lambda>found.
       case found of
         None \<Rightarrow> Inl WorkflowExecutionError
       | Some current \<Rightarrow>
           bindE (verify_identity (eh_fields h) (eh_fields current)) (\<lambda>_.
             if terminal_only \<and> \<not> terminal (eh_status current) then Inl InvocationStateConflict
             else Inr (h\<lparr>eh_fields := eh_fields current, eh_persisted := eh_persisted current\<rparr>)))"

definition read_input :: "datastore \<Rightarrow> execution_handle \<Rightarrow> pyval res" where
  "read_input s h =
     (case ds_inputs s (eh_id h) of
        None \<Rightarrow> Inl WorkflowExecutionError
      | Some (fp, v) \<Rightarrow>
          if fp \<noteq> hi_workflow_fingerprint (hf_identity (eh_fields h)) then Inl WorkflowDefinitionChanged
          else reraise {WorkflowDefinitionChanged} WorkflowExecutionError
                 (bindE (validate_expression_data 0 64 v) (\<lambda>_. Inr v)))"

section \<open>Creation and input\<close>

text \<open>\<^verbatim>\<open>INSERT ... ON CONFLICT(invocation_id) DO NOTHING\<close> on the input table.\<close>

definition put_input :: "string \<Rightarrow> string \<times> pyval \<Rightarrow> datastore \<Rightarrow> datastore" where
  "put_input i row s =
     (case ds_inputs s i of None \<Rightarrow> s\<lparr>ds_inputs := (ds_inputs s)(i \<mapsto> row)\<rparr> | Some _ \<Rightarrow> s)"

definition bind_input :: "datastore \<Rightarrow> execution_handle \<Rightarrow> pyval \<Rightarrow> (datastore \<times> pyval) res" where
  "bind_input s h v =
     bindE (validate_expression_data 0 64 v) (\<lambda>_.
       let s' = put_input (eh_id h) (hi_workflow_fingerprint (hf_identity (eh_fields h)), v) s
       in bindE (reraise {WorkflowDefinitionChanged} WorkflowExecutionError (read_input s' h))
            (\<lambda>w. Inr (s', w)))"

text \<open>\<^verbatim>\<open>str(uuid.UUID(s)) == s\<close>: hexadecimal groups of 8, 4, 4, 4 and 12 digits.\<close>

definition is_uuid_str :: "string \<Rightarrow> bool" where
  "is_uuid_str s \<longleftrightarrow> length s = 36 \<and>
     list_all (\<lambda>i. if i \<in> {8, 13, 18, 23} then s ! i = CHR ''-''
                   else s ! i \<in> set ''0123456789abcdef'') [0..<36]"

text \<open>
  The arguments of a creation; \<open>ca_uuids\<close> holds the UUIDs it draws, in order: invocation,
  engine execution reference, session, revision.
\<close>

record create_args =
  ca_engine :: string
  ca_session_id :: "string option"
  ca_user_id :: "string option"
  ca_workflow_name :: string
  ca_workflow_version :: string
  ca_workflow_fingerprint :: string
  ca_parent_invocation_id :: "string option"
  ca_parent_task_reference :: "string option"
  ca_owner_principal :: "string option"
  ca_input :: "pyval option"
  ca_reserved :: "string option"
  ca_uuids :: "string \<times> string \<times> string \<times> string"

definition new_handle_fields :: "create_args \<Rightarrow> handle_fields" where
  "new_handle_fields a =
     (case ca_uuids a of (u1, u2, u3, _) \<Rightarrow>
     \<lparr>hf_identity =
        \<lparr>hi_invocation_id = (case ca_reserved a of Some r \<Rightarrow> r | None \<Rightarrow> u1),
         hi_engine = ca_engine a,
         hi_engine_execution_reference = u2,
         hi_user_id = ca_user_id a,
         hi_session_id = (case ca_session_id a of Some x \<Rightarrow> if x = [] then u3 else x | None \<Rightarrow> u3),
         hi_workflow_name = ca_workflow_name a,
         hi_workflow_version = ca_workflow_version a,
         hi_workflow_fingerprint = ca_workflow_fingerprint a,
         hi_parent_invocation_id = ca_parent_invocation_id a,
         hi_parent_task_reference = ca_parent_task_reference a,
         hi_owner_principal = ca_owner_principal a\<rparr>,
      hf_status = Running, hf_output = PNone, hf_error = PNone\<rparr>)"

definition create_in_transaction ::
  "datastore \<Rightarrow> create_args \<Rightarrow> (datastore \<times> execution_handle) res" where
  "create_in_transaction s a =
     bindE (case ca_input a of None \<Rightarrow> Inr () | Some v \<Rightarrow> validate_expression_data 0 64 v) (\<lambda>_.
     bindE (guardE (case ca_reserved a of None \<Rightarrow> True | Some r \<Rightarrow> is_uuid_str r) InvocationStateError) (\<lambda>_.
       let f = new_handle_fields a; i = hi_invocation_id (hf_identity f)
       in bindE (encode_handle (snd (snd (snd (ca_uuids a)))) f) (\<lambda>p.
          bindE (guardE (ds_invocations s i = None) IntegrityError) (\<lambda>_.
          let s1 = s\<lparr>ds_invocations := (ds_invocations s)(i \<mapsto> (p, hf_status f))\<rparr>;
              h = \<lparr>eh_fields = f, eh_persisted = Some p, eh_lease = None\<rparr>
          in case ca_input a of
               None \<Rightarrow> Inr (s1, h)
             | Some v \<Rightarrow>
                 bindE (guardE (ds_inputs s i = None) IntegrityError) (\<lambda>_.
                   Inr (s1\<lparr>ds_inputs := (ds_inputs s)(i \<mapsto> (hi_workflow_fingerprint (hf_identity f), v))\<rparr>, h))))))"

text \<open>\<^verbatim>\<open>create\<close> is the same insertion with no input and no reserved identity, then a commit.\<close>

definition create :: "datastore \<Rightarrow> create_args \<Rightarrow> (datastore \<times> execution_handle) res" where
  "create s a = create_in_transaction s (a\<lparr>ca_input := None, ca_reserved := None\<rparr>)"

section \<open>Terminal time\<close>

definition record_terminal_time ::
  "(payload \<Rightarrow> string) \<Rightarrow> rat \<Rightarrow> datastore \<Rightarrow> handle_fields \<Rightarrow> payload \<Rightarrow> rat option \<Rightarrow> datastore res" where
  "record_terminal_time sha clock s f snapshot completed_at =
     (let instant = (case completed_at of None \<Rightarrow> clock | Some t \<Rightarrow> t);
          i = hi_invocation_id (hf_identity f);
          row = \<lparr>tt_fingerprint = hi_workflow_fingerprint (hf_identity f), tt_status = hf_status f,
                 tt_completed_at = instant, tt_snapshot_digest = sha snapshot\<rparr>
      in if instant \<le> 0 then Inl InvocationStateError
         else case ds_terminal_times s i of
                Some existing \<Rightarrow>
                  if existing \<noteq> row then Inl InvocationStateConflict else Inr s
              | None \<Rightarrow> Inr (s\<lparr>ds_terminal_times := (ds_terminal_times s)(i \<mapsto> row)\<rparr>))"

definition terminal_completed_at ::
  "(payload \<Rightarrow> string) \<Rightarrow> datastore \<Rightarrow> execution_handle \<Rightarrow> rat res" where
  "terminal_completed_at sha s h =
     (case get_invocation s (eh_id h) of
        Inr (Some current) \<Rightarrow>
          if terminal (eh_status current) \<and> hf_identity (eh_fields h) = hf_identity (eh_fields current)
          then (case (ds_terminal_times s (eh_id h), eh_persisted current) of
                  (Some row, Some p) \<Rightarrow>
                    if tt_fingerprint row = hi_workflow_fingerprint (hf_identity (eh_fields current))
                       \<and> tt_status row = eh_status current \<and> tt_snapshot_digest row = sha p
                       \<and> tt_completed_at row > 0
                    then Inr (tt_completed_at row) else Inl WorkflowExecutionError
                | _ \<Rightarrow> Inl WorkflowExecutionError)
          else Inl WorkflowExecutionError
      | _ \<Rightarrow> Inl WorkflowExecutionError)"

section \<open>Updates\<close>

text \<open>
  The keyword arguments of \<^verbatim>\<open>update\<close>: new state fields, and, where the caller names identity
  fields, the identity that results from them.
\<close>

record changes =
  ch_identity :: "handle_identity option"
  ch_status :: "invocation_status option"
  ch_output :: "pyval option"
  ch_error :: "pyval option"

definition or_keep :: "'a option \<Rightarrow> 'a \<Rightarrow> 'a" where
  "or_keep x a = (case x of None \<Rightarrow> a | Some b \<Rightarrow> b)"

lemma or_keep_simps [simp]: "or_keep None a = a" "or_keep (Some b) a = b"
  by (simp_all add: or_keep_def)

definition apply_changes :: "changes \<Rightarrow> handle_fields \<Rightarrow> handle_fields" where
  "apply_changes ch f =
     \<lparr>hf_identity = or_keep (ch_identity ch) (hf_identity f),
      hf_status = or_keep (ch_status ch) (hf_status f),
      hf_output = or_keep (ch_output ch) (hf_output f),
      hf_error = or_keep (ch_error ch) (hf_error f)\<rparr>"

text \<open>
  The conditional write: one statement that replaces the row only where it still holds the
  expected payload and status, and only while the lease's ownership row is live.
\<close>

definition cas_write ::
  "datastore \<Rightarrow> rat \<Rightarrow> execution_lease option \<Rightarrow> string \<Rightarrow> invocation_status \<Rightarrow> payload
   \<Rightarrow> handle_fields \<Rightarrow> payload \<Rightarrow> datastore res" where
  "cas_write s now lease i st expected f encoded =
     (if ds_invocations s i = Some (expected, st)
         \<and> (case lease of None \<Rightarrow> True | Some l \<Rightarrow> write_guard (ds_ownership s) now l)
      then Inr (s\<lparr>ds_invocations := (ds_invocations s)(i \<mapsto> (encoded, hf_status f))\<rparr>)
      else Inl InvocationStateConflict)"

definition lease_consistent :: "execution_handle \<Rightarrow> bool" where
  "lease_consistent h =
     (case eh_lease h of
        None \<Rightarrow> True
      | Some l \<Rightarrow>
          lease_invocation_id l = eh_id h \<and>
          lease_engine l = hi_engine (hf_identity (eh_fields h)) \<and>
          lease_fingerprint l = hi_workflow_fingerprint (hf_identity (eh_fields h)))"

definition update_write ::
  "(payload \<Rightarrow> string) \<Rightarrow> datastore \<Rightarrow> rat \<Rightarrow> rat \<Rightarrow> string \<Rightarrow> execution_handle \<Rightarrow> payload
   \<Rightarrow> invocation_status \<Rightarrow> handle_fields \<Rightarrow> rat option \<Rightarrow> (datastore \<times> execution_handle) res" where
  "update_write sha s now clock uuid h expected st candidate completed_at =
     bindE (encode_handle uuid candidate) (\<lambda>encoded.
     bindE (guardE (lease_consistent h) InvocationStateConflict) (\<lambda>_.
     bindE (cas_write s now (eh_lease h) (hi_invocation_id (hf_identity candidate)) st expected
              candidate encoded) (\<lambda>s1.
     bindE (if terminal (hf_status candidate)
            then record_terminal_time sha clock s1 candidate encoded completed_at else Inr s1) (\<lambda>s2.
       Inr (s2, h\<lparr>eh_fields := candidate, eh_persisted := Some encoded\<rparr>)))))"

definition update ::
  "(payload \<Rightarrow> string) \<Rightarrow> datastore \<Rightarrow> rat \<Rightarrow> rat \<Rightarrow> string \<Rightarrow> execution_handle \<Rightarrow> rat option
   \<Rightarrow> changes \<Rightarrow> (datastore \<times> execution_handle) res" where
  "update sha s now clock uuid h completed_at ch =
     (case eh_persisted h of
        None \<Rightarrow> Inl InvocationStateError
      | Some expected \<Rightarrow>
          bindE (decode_payload expected) (\<lambda>original.
          bindE (verify_identity (eh_fields h) original) (\<lambda>_.
          let requested = or_keep (ch_status ch) (eh_status h);
              candidate = apply_changes ch (eh_fields h)
          in bindE (guardE (allowed_transition (hf_status original) requested) InvocationStateError) (\<lambda>_.
             bindE (verify_identity candidate original) (\<lambda>_.
               if terminal (hf_status original) then
                 bindE (get_invocation s (eh_id h)) (\<lambda>found.
                   case found of
                     None \<Rightarrow> Inl InvocationStateConflict
                   | Some current \<Rightarrow>
                       if eh_persisted current \<noteq> Some expected then Inl InvocationStateConflict
                       else bindE (refresh s h True) (\<lambda>h'. Inr (s, h')))
               else
                 reraise {InvocationStateConflict} WorkflowExecutionError
                   (update_write sha s now clock uuid h expected (hf_status original) candidate
                      completed_at))))))"

section \<open>Authorised cancellation\<close>

text \<open>
  \<^verbatim>\<open>_cancel_controlled\<close>. \<open>parent\<close> is the parent handle with its worker's lease where a
  workflow cancels its own child, and \<^const>\<open>None\<close> for an operator's control.
\<close>

definition cancel_state ::
  "(payload \<Rightarrow> string) \<Rightarrow> datastore \<Rightarrow> rat \<Rightarrow> string \<Rightarrow> execution_handle \<Rightarrow> payload \<Rightarrow> handle_fields
   \<Rightarrow> pyval \<Rightarrow> rat option \<Rightarrow> (datastore \<times> handle_fields \<times> payload) res" where
  "cancel_state sha s clock uuid h expected original error completed_at =
     bindE (get_invocation s (eh_id h)) (\<lambda>found.
       case found of
         None \<Rightarrow> Inl InvocationStateConflict
       | Some current \<Rightarrow>
           bindE (verify_identity (eh_fields h) (eh_fields current)) (\<lambda>_.
           case eh_persisted current of
             None \<Rightarrow> Inl InvocationStateConflict
           | Some p \<Rightarrow>
             if terminal (eh_status current) then
               (if terminal (hf_status original) \<and> p \<noteq> expected then Inl InvocationStateConflict
                else Inr (s, eh_fields current, p))
             else if p \<noteq> expected then Inl InvocationStateConflict
             else
               (let result = (eh_fields current)\<lparr>hf_status := Cancelled, hf_output := PNone,
                                                 hf_error := error\<rparr>
                in bindE (encode_handle uuid result) (\<lambda>encoded.
                   bindE (guardE (ds_invocations s (eh_id h) = Some (expected, eh_status current))
                            InvocationStateConflict) (\<lambda>_.
                   bindE (record_terminal_time sha clock
                            (s\<lparr>ds_invocations := (ds_invocations s)(eh_id h \<mapsto> (encoded, Cancelled))\<rparr>)
                            result encoded completed_at) (\<lambda>s'.
                     Inr (s', result, encoded)))))))"

definition cancel_body ::
  "(payload \<Rightarrow> string) \<Rightarrow> datastore \<Rightarrow> rat \<Rightarrow> string \<Rightarrow> execution_handle \<Rightarrow> payload \<Rightarrow> handle_fields
   \<Rightarrow> pyval \<Rightarrow> rat option \<Rightarrow> execution_handle option \<Rightarrow> (datastore \<times> execution_handle) res" where
  "cancel_body sha s clock uuid h expected original error completed_at parent =
     bindE (case parent of
              None \<Rightarrow> Inr ()
            | Some ph \<Rightarrow>
                (case ds_invocations s (eh_id ph) of
                   None \<Rightarrow> Inl InvocationStateConflict
                 | Some (p, st) \<Rightarrow>
                     guardE (eh_persisted ph = Some p \<and> st \<in> {Running, Waiting}) InvocationStateConflict)) (\<lambda>_.
     let idf = hf_identity (eh_fields h); owner = ds_ownership s (eh_id h)
     in bindE (case owner of
                 None \<Rightarrow> Inr ()
               | Some r \<Rightarrow>
                   guardE (row_engine r = hi_engine idf \<and> row_fingerprint r = hi_workflow_fingerprint idf)
                     InvocationStateConflict) (\<lambda>_.
        bindE (cancel_state sha s clock uuid h expected original error completed_at) (\<lambda>(s', result, p).
          Inr (if owner \<noteq> None \<and> hf_status result = Cancelled
               then s'\<lparr>ds_ownership := revoke (ds_ownership s') (eh_id h) (hi_engine idf)
                                        (hi_workflow_fingerprint idf)\<rparr>
               else s',
               h\<lparr>eh_fields := result, eh_persisted := Some p\<rparr>))))"

definition cancel_controlled ::
  "(payload \<Rightarrow> string) \<Rightarrow> datastore \<Rightarrow> rat \<Rightarrow> rat \<Rightarrow> string \<Rightarrow> execution_handle \<Rightarrow> pyval \<Rightarrow> rat option
   \<Rightarrow> (execution_handle \<times> execution_lease) option \<Rightarrow> (datastore \<times> execution_handle) res" where
  "cancel_controlled sha s now clock uuid h error completed_at parent =
     (case eh_persisted h of
        None \<Rightarrow> Inl InvocationStateError
      | Some expected \<Rightarrow>
          bindE (decode_payload expected) (\<lambda>original.
          bindE (verify_identity (eh_fields h) original) (\<lambda>_.
          bindE (validate_expression_data 0 64 error) (\<lambda>_.
          bindE (case parent of
                   None \<Rightarrow> Inr ()
                 | Some (ph, _) \<Rightarrow>
                     (case eh_persisted ph of
                        None \<Rightarrow> Inl InvocationStateError
                      | Some pp \<Rightarrow>
                          bindE (decode_payload pp) (\<lambda>pf.
                          bindE (verify_identity (eh_fields ph) pf) (\<lambda>_.
                          let c = hf_identity (eh_fields h); p = hf_identity (eh_fields ph)
                          in guardE (hi_invocation_id c \<noteq> hi_invocation_id p \<and>
                               hi_parent_invocation_id c = Some (hi_invocation_id p) \<and>
                               hi_engine c = hi_engine p \<and>
                               hi_owner_principal c = hi_owner_principal p \<and>
                               hi_user_id c = hi_user_id p \<and>
                               hi_session_id c \<noteq> hi_session_id p) InvocationStateConflict)))) (\<lambda>_.
            reraise {InvocationStateConflict, InvocationStateError} WorkflowExecutionError
              (case parent of
                 None \<Rightarrow> cancel_body sha s clock uuid h expected original error completed_at None
               | Some (ph, l) \<Rightarrow>
                   owned_write_transaction (ds_ownership s) now (Some l) (eh_id ph)
                     (hi_workflow_fingerprint (hf_identity (eh_fields ph)))
                     (cancel_body sha s clock uuid h expected original error completed_at (Some ph))))))))"

definition cancel_authoritatively ::
  "(payload \<Rightarrow> string) \<Rightarrow> datastore \<Rightarrow> rat \<Rightarrow> rat \<Rightarrow> string \<Rightarrow> execution_handle \<Rightarrow> pyval \<Rightarrow> rat option
   \<Rightarrow> (datastore \<times> execution_handle) res" where
  "cancel_authoritatively sha s now clock uuid h error completed_at =
     cancel_controlled sha s now clock uuid h error completed_at None"

definition cancel_under_parent_control ::
  "(payload \<Rightarrow> string) \<Rightarrow> datastore \<Rightarrow> rat \<Rightarrow> rat \<Rightarrow> string \<Rightarrow> execution_handle \<Rightarrow> execution_handle
   \<Rightarrow> execution_lease \<Rightarrow> pyval \<Rightarrow> rat option \<Rightarrow> (datastore \<times> execution_handle) res" where
  "cancel_under_parent_control sha s now clock uuid h parent l error completed_at =
     (let p = hf_identity (eh_fields parent)
      in if lease_invocation_id l \<noteq> hi_invocation_id p \<or> lease_engine l \<noteq> hi_engine p
            \<or> lease_fingerprint l \<noteq> hi_workflow_fingerprint p
         then Inl InvocationStateConflict
         else cancel_controlled sha s now clock uuid h error completed_at (Some (parent, l)))"

definition verify_fingerprint :: "execution_handle \<Rightarrow> string \<Rightarrow> unit res" where
  "verify_fingerprint h fp =
     guardE (hi_workflow_fingerprint (hf_identity (eh_fields h)) = fp) WorkflowDefinitionChanged"

section \<open>What a successful write does\<close>

lemma encode_handle_Inr:
  "encode_handle uuid f = Inr p \<longleftrightarrow> validate_fields f = Inr () \<and> p = \<lparr>pl_fields = f, pl_revision = Some uuid\<rparr>"
  by (auto simp: encode_handle_def)

lemma decode_payload_Inr:
  "decode_payload p = Inr f \<longleftrightarrow> f = pl_fields p \<and> validate_fields f = Inr () \<and>
     (case pl_revision p of None \<Rightarrow> True | Some r \<Rightarrow> is_uuid_hex r)"
  by (auto simp: decode_payload_def)

lemma verify_identity_Inr [simp]:
  "verify_identity f g = Inr u \<longleftrightarrow> hf_identity f = hf_identity g"
  by (simp add: verify_identity_def)

lemma cas_write_Inr:
  "cas_write s now lease i st e f enc = Inr s' \<longleftrightarrow>
     ds_invocations s i = Some (e, st) \<and>
     (case lease of None \<Rightarrow> True | Some l \<Rightarrow> write_guard (ds_ownership s) now l) \<and>
     s' = s\<lparr>ds_invocations := (ds_invocations s)(i \<mapsto> (enc, hf_status f))\<rparr>"
  by (auto simp: cas_write_def)

lemma record_terminal_time_Inr:
  assumes "record_terminal_time sha clock s f p completed_at = Inr s'"
  shows "ds_invocations s' = ds_invocations s" "ds_inputs s' = ds_inputs s"
    "ds_ownership s' = ds_ownership s"
    "ds_terminal_times s' = (ds_terminal_times s)(hi_invocation_id (hf_identity f) \<mapsto>
       \<lparr>tt_fingerprint = hi_workflow_fingerprint (hf_identity f), tt_status = hf_status f,
        tt_completed_at = or_keep completed_at clock, tt_snapshot_digest = sha p\<rparr>)"
    "or_keep completed_at clock > 0"
  using assms
  by (auto simp: record_terminal_time_def or_keep_def Let_def fun_eq_iff split: option.splits if_splits)

text \<open>
  A store written by \<^const>\<open>update\<close> differs from the old one in one invocation row, taken
  from the expected payload to the new one along an allowed transition, and in the terminal
  time of a terminal candidate.
\<close>

definition row_step ::
  "(payload \<Rightarrow> string) \<Rightarrow> datastore \<Rightarrow> datastore \<Rightarrow> string \<Rightarrow> payload \<Rightarrow> payload \<Rightarrow> bool" where
  "row_step sha s s' i old new \<longleftrightarrow>
     ds_invocations s i = Some (old, hf_status (pl_fields old)) \<and>
     ds_invocations s' = (ds_invocations s)(i \<mapsto> (new, hf_status (pl_fields new))) \<and>
     ds_inputs s' = ds_inputs s \<and>
     hf_identity (pl_fields new) = hf_identity (pl_fields old) \<and>
     hi_invocation_id (hf_identity (pl_fields new)) = i \<and>
     allowed_transition (hf_status (pl_fields old)) (hf_status (pl_fields new)) \<and>
     \<not> terminal (hf_status (pl_fields old)) \<and>
     validate_fields (pl_fields new) = Inr () \<and>
     (if terminal (hf_status (pl_fields new))
      then \<exists>t > 0. ds_terminal_times s' = (ds_terminal_times s)(i \<mapsto>
             \<lparr>tt_fingerprint = hi_workflow_fingerprint (hf_identity (pl_fields new)),
              tt_status = hf_status (pl_fields new), tt_completed_at = t,
              tt_snapshot_digest = sha new\<rparr>)
      else ds_terminal_times s' = ds_terminal_times s)"

lemma update_cases:
  assumes "update sha s now clock uuid h completed_at ch = Inr (s', h')"
  obtains (unchanged) expected where "s' = s" "eh_persisted h = Some expected"
      "terminal (hf_status (pl_fields expected))"
  | (written) old new where "eh_persisted h = Some old" "row_step sha s s' (eh_id h) old new"
      "ds_ownership s' = ds_ownership s" "pl_revision new = Some uuid"
      "eh_persisted h' = Some new" "eh_fields h' = pl_fields new"
      "pl_fields new = apply_changes ch (eh_fields h)" "lease_consistent h"
      "case eh_lease h of None \<Rightarrow> True | Some l \<Rightarrow> write_guard (ds_ownership s) now l"
proof -
  obtain old where old: "eh_persisted h = Some old"
    using assms by (auto simp: update_def split: option.splits)
  show ?thesis
  proof (cases "terminal (hf_status (pl_fields old))")
    case True
    then show ?thesis
      using assms old
      by (intro unchanged) (auto simp: update_def Let_def decode_payload_Inr split: option.splits if_splits)
  next
    case False
    let ?c = "apply_changes ch (eh_fields h)"
    have pre: "hf_identity (eh_fields h) = hf_identity (pl_fields old)"
        "hf_identity ?c = hf_identity (pl_fields old)"
        "allowed_transition (hf_status (pl_fields old)) (hf_status ?c)"
        "update_write sha s now clock uuid h old (hf_status (pl_fields old)) ?c completed_at = Inr (s', h')"
      using assms old False
      by (auto simp: update_def Let_def decode_payload_Inr apply_changes_def split: option.splits if_splits)
    then obtain new s1 where new: "new = \<lparr>pl_fields = ?c, pl_revision = Some uuid\<rparr>"
        "validate_fields ?c = Inr ()" "lease_consistent h"
        "cas_write s now (eh_lease h) (hi_invocation_id (hf_identity ?c)) (hf_status (pl_fields old)) old ?c new
           = Inr s1"
        "(if terminal (hf_status ?c) then record_terminal_time sha clock s1 ?c new completed_at else Inr s1)
           = Inr s'"
        "h' = h\<lparr>eh_fields := ?c, eh_persisted := Some new\<rparr>"
      by (auto simp: update_write_def encode_handle_Inr)
    show ?thesis
    proof (cases "terminal (hf_status ?c)")
      case True
      with new(5) have rt: "record_terminal_time sha clock s1 ?c new completed_at = Inr s'" by simp
      show ?thesis
        using old new pre True False record_terminal_time_Inr [OF rt]
        by (intro written [of old new]) (auto simp: row_step_def cas_write_Inr)
    next
      case f2: False
      then show ?thesis
        using old new pre False
        by (intro written [of old new]) (auto simp: row_step_def cas_write_Inr)
    qed
  qed
qed

lemma get_invocation_Some:
  "get_invocation s i = Inr (Some c) \<longleftrightarrow>
   (\<exists>p. ds_invocations s i = Some (p, hf_status (pl_fields p)) \<and> decode_payload p = Inr (pl_fields p) \<and>
      hi_invocation_id (hf_identity (pl_fields p)) = i \<and>
      VALID_INVOCATION_TRANSITIONS (hf_status (pl_fields p)) \<noteq> None \<and>
      c = \<lparr>eh_fields = pl_fields p, eh_persisted = Some p, eh_lease = None\<rparr>)"
proof (cases "ds_invocations s i")
  case (Some row)
  obtain p st where row: "row = (p, st)" by (cases row)
  show ?thesis
  proof (cases "decode_payload p")
    case (Inr f)
    then have "f = pl_fields p" by (simp add: decode_payload_Inr)
    with Some row Inr show ?thesis by (auto simp: get_invocation_def)
  qed (use Some row in \<open>auto simp: get_invocation_def\<close>)
qed (simp add: get_invocation_def)

lemma allowed_to_cancelled:
  "VALID_INVOCATION_TRANSITIONS st \<noteq> None \<Longrightarrow> \<not> terminal st \<Longrightarrow> allowed_transition st Cancelled"
  by (cases st) (auto simp: allowed_transition_def TERMINAL_INVOCATION_STATES_def)

lemma cancel_state_cases:
  assumes "cancel_state sha s clock uuid h expected original error completed_at = Inr (s', f, p)"
  obtains (kept) "s' = s" "ds_invocations s (eh_id h) = Some (p, hf_status f)" "terminal (hf_status f)"
      "f = pl_fields p" "hf_identity (eh_fields h) = hf_identity f"
  | (written) "row_step sha s s' (eh_id h) expected p" "hf_status f = Cancelled" "f = pl_fields p"
      "pl_revision p = Some uuid" "ds_ownership s' = ds_ownership s"
proof -
  obtain found where found: "get_invocation s (eh_id h) = Inr found"
    using assms by (cases "get_invocation s (eh_id h)") (simp_all add: cancel_state_def)
  then obtain c where c: "get_invocation s (eh_id h) = Inr (Some c)"
    using assms by (cases found) (simp_all add: cancel_state_def)
  from c obtain old where old: "ds_invocations s (eh_id h) = Some (old, hf_status (pl_fields old))"
      "VALID_INVOCATION_TRANSITIONS (hf_status (pl_fields old)) \<noteq> None"
      "c = \<lparr>eh_fields = pl_fields old, eh_persisted = Some old, eh_lease = None\<rparr>"
    unfolding get_invocation_Some by blast
  have idt: "hf_identity (eh_fields h) = hf_identity (pl_fields old)"
    using assms c old(3) by (rule_tac ccontr) (simp add: cancel_state_def verify_identity_def)
  show ?thesis
  proof (cases "terminal (hf_status (pl_fields old))")
    case True
    with assms old(1,3) c idt show ?thesis
      by (intro kept) (auto simp: cancel_state_def split: if_splits)
  next
    case False
    let ?f = "(pl_fields old)\<lparr>hf_status := Cancelled, hf_output := PNone, hf_error := error\<rparr>"
    have w: "expected = old" "f = ?f" "validate_fields ?f = Inr ()"
        "p = \<lparr>pl_fields = ?f, pl_revision = Some uuid\<rparr>"
        "record_terminal_time sha clock
           (s\<lparr>ds_invocations := (ds_invocations s)(eh_id h \<mapsto> (p, Cancelled))\<rparr>) ?f p completed_at = Inr s'"
      using assms old(1,3) c idt False
      by (auto simp: cancel_state_def encode_handle_Inr Let_def split: if_splits)
    have "terminal Cancelled" by (simp add: TERMINAL_INVOCATION_STATES_def)
    then show ?thesis
      using w old(1,3) idt False record_terminal_time_Inr [OF w(5)] allowed_to_cancelled [OF old(2) False]
      by (intro written) (auto simp: row_step_def)
  qed
qed

lemma cancel_cases:
  assumes "cancel_controlled sha s now clock uuid h error completed_at parent = Inr (s', h')"
  obtains (kept) p where "ds_invocations s' = ds_invocations s" "ds_inputs s' = ds_inputs s"
      "ds_terminal_times s' = ds_terminal_times s"
      "ds_invocations s (eh_id h) = Some (p, hf_status (pl_fields p))" "terminal (hf_status (pl_fields p))"
      "eh_fields h' = pl_fields p" "eh_persisted h' = Some p"
      "ds_ownership s' = ds_ownership s \<or>
       (\<exists>eng fp. ds_ownership s' = revoke (ds_ownership s) (eh_id h) eng fp)"
  | (written) old new where "row_step sha s s' (eh_id h) old new" "eh_persisted h = Some old"
      "hf_status (pl_fields new) = Cancelled" "pl_revision new = Some uuid"
      "eh_persisted h' = Some new" "eh_fields h' = pl_fields new"
      "ds_ownership s' = ds_ownership s \<or>
       (\<exists>eng fp. ds_ownership s' = revoke (ds_ownership s) (eh_id h) eng fp)"
proof -
  obtain expected ph where expected: "eh_persisted h = Some expected"
    and body: "cancel_body sha s clock uuid h expected (pl_fields expected) error completed_at ph = Inr (s', h')"
    using assms
    by (auto simp: cancel_controlled_def decode_payload_Inr owned_write_Inr split: option.splits prod.splits)
  let ?i = "hf_identity (eh_fields h)"
  obtain s1 f p where st: "cancel_state sha s clock uuid h expected (pl_fields expected) error completed_at = Inr (s1, f, p)"
    and s': "s' = (if ds_ownership s (eh_id h) \<noteq> None \<and> hf_status f = Cancelled
               then s1\<lparr>ds_ownership := revoke (ds_ownership s1) (eh_id h) (hi_engine ?i) (hi_workflow_fingerprint ?i)\<rparr>
               else s1)"
    and h': "h' = h\<lparr>eh_fields := f, eh_persisted := Some p\<rparr>"
    using body by (auto simp: cancel_body_def Let_def)
  from st show ?thesis
  proof (cases rule: cancel_state_cases)
    case kept
    with s' h' show ?thesis by (intro that(1) [of p]) (auto split: if_splits)
  next
    case written
    with s' h' expected show ?thesis
      by (intro that(2) [of expected p]) (auto simp: row_step_def split: if_splits)
  qed
qed

section \<open>The store as a machine\<close>

text \<open>
  Any number of workers and operators on one datasource: the clock advances, leases are
  acquired, renewed, released or revoked, invocations are created, inputs bound, records
  updated and cancelled. Each rule is one committed transaction. The UUIDs drawn are
  canonical, as \<^verbatim>\<open>uuid4\<close> produces them.
\<close>

type_synonym store_state = "rat \<times> datastore"

inductive store_step :: "(payload \<Rightarrow> string) \<Rightarrow> store_state \<Rightarrow> store_state \<Rightarrow> bool" for sha where
  ownership: "own_step (now, ds_ownership s) (now', tbl) \<Longrightarrow>
     store_step sha (now, s) (now', s\<lparr>ds_ownership := tbl\<rparr>)"
| create: "create_in_transaction s a = Inr (s', h) \<Longrightarrow> is_uuid_hex (snd (snd (snd (ca_uuids a)))) \<Longrightarrow>
     store_step sha (now, s) (now, s')"
| bind: "bind_input s h v = Inr (s', w) \<Longrightarrow> store_step sha (now, s) (now, s')"
| update: "update sha s now clock uuid h completed_at ch = Inr (s', h') \<Longrightarrow> is_uuid_hex uuid \<Longrightarrow>
     store_step sha (now, s) (now, s')"
| cancel: "cancel_controlled sha s now clock uuid h error completed_at parent = Inr (s', h') \<Longrightarrow>
     is_uuid_hex uuid \<Longrightarrow> store_step sha (now, s) (now, s')"

inductive_cases store_stepE: "store_step sha s t"

definition store_init :: "store_state \<Rightarrow> bool" where
  "store_init s \<longleftrightarrow> 0 < fst s \<and> snd s = empty_datastore"

text \<open>
  The invariant. Columns agree with the payload they index, which decodes; an invocation has
  a terminal time exactly when its status is terminal, and then the time is bound to the
  status, definition and digest of the stored snapshot.
\<close>

definition row_ok :: "string \<Rightarrow> payload \<times> invocation_status \<Rightarrow> bool" where
  "row_ok i row = (case row of (p, st) \<Rightarrow>
     hf_status (pl_fields p) = st \<and> hi_invocation_id (hf_identity (pl_fields p)) = i \<and>
     VALID_INVOCATION_TRANSITIONS st \<noteq> None \<and> decode_payload p = Inr (pl_fields p))"

definition time_ok :: "(payload \<Rightarrow> string) \<Rightarrow> payload \<times> invocation_status \<Rightarrow> terminal_time option \<Rightarrow> bool" where
  "time_ok sha row tt = (case row of (p, st) \<Rightarrow>
     (case tt of
        None \<Rightarrow> \<not> terminal st
      | Some t \<Rightarrow> terminal st \<and> tt_status t = st \<and> tt_snapshot_digest t = sha p \<and> tt_completed_at t > 0
          \<and> tt_fingerprint t = hi_workflow_fingerprint (hf_identity (pl_fields p))))"

definition entry_ok ::
  "(payload \<Rightarrow> string) \<Rightarrow> string \<Rightarrow> (payload \<times> invocation_status) option \<Rightarrow> terminal_time option \<Rightarrow> bool" where
  "entry_ok sha i row tt =
     (case row of None \<Rightarrow> tt = None | Some r \<Rightarrow> row_ok i r \<and> time_ok sha r tt)"

definition store_inv :: "(payload \<Rightarrow> string) \<Rightarrow> store_state \<Rightarrow> bool" where
  "store_inv sha s \<longleftrightarrow> own_inv (fst s, ds_ownership (snd s)) \<and>
     (\<forall>i. entry_ok sha i (ds_invocations (snd s) i) (ds_terminal_times (snd s) i))"

lemma store_inv_pair:
  "store_inv sha (now, s) \<longleftrightarrow> own_inv (now, ds_ownership s) \<and>
     (\<forall>i. entry_ok sha i (ds_invocations s i) (ds_terminal_times s i))"
  by (simp add: store_inv_def)

lemma store_inv_rowD:
  assumes "store_inv sha s" and "ds_invocations (snd s) i = Some row"
  shows "row_ok i row \<and> time_ok sha row (ds_terminal_times (snd s) i)"
proof -
  have "entry_ok sha i (ds_invocations (snd s) i) (ds_terminal_times (snd s) i)"
    using assms(1) by (simp add: store_inv_def)
  with assms(2) show ?thesis by (simp add: entry_ok_def)
qed

lemma store_inv_noneD:
  assumes "store_inv sha s" and "ds_invocations (snd s) i = None"
  shows "ds_terminal_times (snd s) i = None"
proof -
  have "entry_ok sha i (ds_invocations (snd s) i) (ds_terminal_times (snd s) i)"
    using assms(1) by (simp add: store_inv_def)
  with assms(2) show ?thesis by (simp add: entry_ok_def)
qed

lemma valid_after_allowed: "allowed_transition a b \<Longrightarrow> VALID_INVOCATION_TRANSITIONS b \<noteq> None"
  by (cases a) (auto simp: allowed_transition_def)

lemma row_step_inv:
  assumes "store_inv sha (now, s)" and "row_step sha s s' i old new"
    and "own_inv (now, ds_ownership s')" and "pl_revision new = Some uuid" and "is_uuid_hex uuid"
  shows "store_inv sha (now, s')"
proof -
  from assms(2,4,5) have new_ok: "row_ok i (new, hf_status (pl_fields new))"
    by (auto simp: row_step_def row_ok_def decode_payload_Inr dest: valid_after_allowed)
  have old_time: "ds_terminal_times s i = None"
    using store_inv_rowD [OF assms(1), of i] assms(2)
    by (auto simp: row_step_def time_ok_def split: option.splits)
  have "time_ok sha (new, hf_status (pl_fields new)) (ds_terminal_times s' i)"
    using assms(2) old_time by (auto simp: row_step_def time_ok_def split: if_splits)
  then have "entry_ok sha i (ds_invocations s' i) (ds_terminal_times s' i)"
    using assms(2) new_ok by (simp add: entry_ok_def row_step_def)
  moreover have "ds_terminal_times s' j = ds_terminal_times s j" "ds_invocations s' j = ds_invocations s j"
    if "j \<noteq> i" for j
    using assms(2) that by (auto simp: row_step_def split: if_splits)
  ultimately show ?thesis
    using assms(1,3) unfolding store_inv_pair by metis
qed

lemma own_inv_revoke: "own_inv (now, tbl) \<Longrightarrow> own_inv (now, revoke tbl i eng fp)"
  using own_inv_step own_step.revoke by blast

lemma create_Inr:
  assumes "create_in_transaction s a = Inr (s', h)"
  shows "let f = new_handle_fields a; i = hi_invocation_id (hf_identity f);
             p = \<lparr>pl_fields = f, pl_revision = Some (snd (snd (snd (ca_uuids a))))\<rparr>
         in ds_invocations s i = None \<and> ds_invocations s' = (ds_invocations s)(i \<mapsto> (p, Running)) \<and>
            ds_terminal_times s' = ds_terminal_times s \<and> ds_ownership s' = ds_ownership s \<and>
            validate_fields f = Inr () \<and> eh_fields h = f \<and> eh_persisted h = Some p"
  using assms
  by (auto simp: create_in_transaction_def Let_def encode_handle_Inr new_handle_fields_def
      split: option.splits prod.splits)

lemma bind_input_Inr:
  assumes "bind_input s h v = Inr (s', w)"
  shows "s' = put_input (eh_id h) (hi_workflow_fingerprint (hf_identity (eh_fields h)), v) s"
    "ds_invocations s' = ds_invocations s" "ds_terminal_times s' = ds_terminal_times s"
    "ds_ownership s' = ds_ownership s"
  using assms by (auto simp: bind_input_def Let_def put_input_def split: option.splits)

lemma store_inv_step: "store_inv sha s \<Longrightarrow> store_step sha s t \<Longrightarrow> store_inv sha t"
proof (erule store_stepE, goal_cases)
  case (1 now s0 now' tbl)
  then have "own_inv (now', tbl)" using own_inv_step by (auto simp: store_inv_pair)
  with 1 show ?case by (simp add: store_inv_pair)
next
  case (2 s0 a s' h now)
  let ?f = "new_handle_fields a" and ?p = "\<lparr>pl_fields = new_handle_fields a, pl_revision = Some (snd (snd (snd (ca_uuids a))))\<rparr>"
  let ?i = "hi_invocation_id (hf_identity ?f)"
  have c: "ds_invocations s0 ?i = None" "ds_invocations s' = (ds_invocations s0)(?i \<mapsto> (?p, Running))"
      "ds_terminal_times s' = ds_terminal_times s0" "ds_ownership s' = ds_ownership s0"
      "validate_fields ?f = Inr ()" "hf_status ?f = Running"
    using create_Inr [OF 2(4)] by (auto simp: Let_def new_handle_fields_def split: prod.splits)
  have "ds_terminal_times s0 ?i = None" 
    using store_inv_noneD [of sha s ?i] 2(1,2) c(1) by simp
  then have "entry_ok sha ?i (ds_invocations s' ?i) (ds_terminal_times s' ?i)"
    using 2 c by (simp add: entry_ok_def row_ok_def time_ok_def decode_payload_Inr TERMINAL_INVOCATION_STATES_def)
  with 2 c show ?case by (simp add: store_inv_pair)
next
  case (3 s0 h v s' w now)
  then show ?case by (simp add: store_inv_pair bind_input_Inr(2-4) [OF 3(4)])
next
  case (4 s0 now clock uuid h completed_at ch s' h')
  from 4(4) show ?case
  proof (cases rule: update_cases)
    case unchanged
    with 4 show ?thesis by simp
  next
    case (written old new)
    moreover have "own_inv (now, ds_ownership s')" using 4 written by (simp add: store_inv_pair)
    ultimately show ?thesis using 4 row_step_inv by metis
  qed
next
  case (5 s0 now clock uuid h error completed_at parent s' h')
  from 5(4) show ?case
  proof (cases rule: cancel_cases)
    case (kept p)
    then show ?thesis using 5 own_inv_revoke by (auto simp: store_inv_pair)
  next
    case (written old new)
    have "own_inv (now, ds_ownership s')"
      using written 5 own_inv_revoke by (auto simp: store_inv_pair)
    with written 5 row_step_inv show ?thesis by metis
  qed
qed

interpretation store: invariant_system store_init "store_step sha" "store_inv sha"
proof unfold_locales
  show "store_inv sha s" if "store_init s" for s
    using that by (auto simp: store_init_def store_inv_def own_inv_def empty_datastore_def entry_ok_def)
qed (rule store_inv_step)

section \<open>What no run undoes\<close>

text \<open>The input table is write-once.\<close>

interpretation inputs: write_once ds_inputs put_input
  by unfold_locales (auto simp: put_input_def split: option.splits)

definition store_rel :: "store_state \<Rightarrow> store_state \<Rightarrow> bool" where
  "store_rel s t \<longleftrightarrow>
     own_rel (fst s, ds_ownership (snd s)) (fst t, ds_ownership (snd t)) \<and>
     (\<forall>i x. ds_inputs (snd s) i = Some x \<longrightarrow> ds_inputs (snd t) i = Some x) \<and>
     (\<forall>i p st. ds_invocations (snd s) i = Some (p, st) \<longrightarrow>
        (\<exists>p' st'. ds_invocations (snd t) i = Some (p', st') \<and>
           hf_identity (pl_fields p') = hf_identity (pl_fields p) \<and>
           allowed_transition\<^sup>*\<^sup>* st st' \<and>
           (terminal st \<longrightarrow> p' = p \<and> st' = st \<and>
              ds_terminal_times (snd t) i = ds_terminal_times (snd s) i)))"

lemma store_rel_refl: "store_rel s s"
  by (simp add: store_rel_def own_rel_refl)

lemma store_rel_trans:
  assumes "store_rel s t" and "store_rel t u"
  shows "store_rel s u"
proof -
  have "own_rel (fst s, ds_ownership (snd s)) (fst u, ds_ownership (snd u))"
    using assms own_rel_trans unfolding store_rel_def by blast
  moreover have "\<exists>p'' st''. ds_invocations (snd u) i = Some (p'', st'') \<and>
      hf_identity (pl_fields p'') = hf_identity (pl_fields p) \<and> allowed_transition\<^sup>*\<^sup>* st st'' \<and>
      (terminal st \<longrightarrow> p'' = p \<and> st'' = st \<and> ds_terminal_times (snd u) i = ds_terminal_times (snd s) i)"
    if row: "ds_invocations (snd s) i = Some (p, st)" for i p st
  proof -
    obtain p' st' where 1: "ds_invocations (snd t) i = Some (p', st')"
        "hf_identity (pl_fields p') = hf_identity (pl_fields p)" "allowed_transition\<^sup>*\<^sup>* st st'"
        "terminal st \<longrightarrow> p' = p \<and> st' = st \<and> ds_terminal_times (snd t) i = ds_terminal_times (snd s) i"
      using assms(1) row unfolding store_rel_def by blast
    obtain p'' st'' where 2: "ds_invocations (snd u) i = Some (p'', st'')"
        "hf_identity (pl_fields p'') = hf_identity (pl_fields p')" "allowed_transition\<^sup>*\<^sup>* st' st''"
        "terminal st' \<longrightarrow> p'' = p' \<and> st'' = st' \<and> ds_terminal_times (snd u) i = ds_terminal_times (snd t) i"
      using assms(2) 1(1) unfolding store_rel_def by blast
    from 1 2 show ?thesis by auto
  qed
  ultimately show ?thesis
    using assms unfolding store_rel_def by blast
qed

lemma store_rel_same_rows:
  "own_rel (now, ds_ownership s) (now', ds_ownership s') \<Longrightarrow>
   (\<And>i x. ds_inputs s i = Some x \<Longrightarrow> ds_inputs s' i = Some x) \<Longrightarrow>
   ds_invocations s' = ds_invocations s \<Longrightarrow> ds_terminal_times s' = ds_terminal_times s \<Longrightarrow>
   store_rel (now, s) (now', s')"
  by (simp add: store_rel_def)

lemma store_rel_row_step:
  assumes "row_step sha s s' i old new" and "own_rel (now, ds_ownership s) (now, ds_ownership s')"
  shows "store_rel (now, s) (now, s')"
proof -
  have "ds_terminal_times s' j = ds_terminal_times s j" if "j \<noteq> i" for j
    using assms(1) that by (auto simp: row_step_def split: if_splits)
  with assms show ?thesis
    by (auto simp: store_rel_def row_step_def intro: r_into_rtranclp)
qed

lemma own_rel_revoke:
  "own_inv (now, tbl) \<Longrightarrow> own_rel (now, tbl) (now, revoke tbl i eng fp)"
  by (rule own_rel_step [OF _ own_step.revoke])

lemma store_rel_step: "store_inv sha s \<Longrightarrow> store_step sha s t \<Longrightarrow> store_rel s t"
proof (erule store_stepE, goal_cases)
  case (1 now s0 now' tbl)
  then have "own_rel (now, ds_ownership s0) (now', tbl)" using own_rel_step by (auto simp: store_inv_pair)
  with 1 show ?case by (simp add: store_rel_same_rows)
next
  case (2 s0 a s' h now)
  have "ds_inputs s' i = Some x" if "ds_inputs s0 i = Some x" for i x
    using 2(4) that
    by (auto simp: create_in_transaction_def Let_def split: option.splits)
  then show ?case
    using 2 create_Inr [OF 2(4)] by (auto simp: store_rel_def Let_def own_rel_refl)
next
  case (3 s0 h v s' w now)
  then show ?case
    using inputs.first_write_kept bind_input_Inr [OF 3(4)]
    by (auto simp: own_rel_refl intro!: store_rel_same_rows)
next
  case (4 s0 now clock uuid h completed_at ch s' h')
  from 4(4) show ?case
  proof (cases rule: update_cases)
    case unchanged
    with 4 show ?thesis by (simp add: store_rel_refl)
  next
    case (written old new)
    with 4 show ?thesis by (auto simp: own_rel_refl intro: store_rel_row_step)
  qed
next
  case (5 s0 now clock uuid h error completed_at parent s' h')
  then have inv: "own_inv (now, ds_ownership s0)" by (simp add: store_inv_pair)
  from 5(4) show ?case
  proof (cases rule: cancel_cases)
    case (kept p)
    then have "own_rel (now, ds_ownership s0) (now, ds_ownership s')"
      using inv own_rel_revoke own_rel_refl by auto
    with kept 5 show ?thesis by (auto intro!: store_rel_same_rows)
  next
    case (written old new)
    then have "own_rel (now, ds_ownership s0) (now, ds_ownership s')"
      using inv own_rel_revoke own_rel_refl by auto
    with written 5 show ?thesis by (auto intro: store_rel_row_step)
  qed
qed

interpretation store_mono: monotone_system "store_step sha" "store_inv sha" store_rel
proof unfold_locales
  show "store_rel s u" if "store_rel s t" "store_rel t u" for s t u
    using that by (rule store_rel_trans)
qed (auto intro: store_rel_refl store_rel_step store_inv_step)

lemma store_run_row:
  assumes "store_inv sha s" and "(store_step sha)\<^sup>*\<^sup>* s t" and "ds_invocations (snd s) i = Some (p, st)"
  obtains p' st' where "ds_invocations (snd t) i = Some (p', st')"
    "hf_identity (pl_fields p') = hf_identity (pl_fields p)" "allowed_transition\<^sup>*\<^sup>* st st'"
    "terminal st \<Longrightarrow> p' = p \<and> st' = st \<and> ds_terminal_times (snd t) i = ds_terminal_times (snd s) i"
  using store_mono.run_rel_only [OF assms(2,1)] assms(3) unfolding store_rel_def by blast

section \<open>Properties\<close>

text \<open>
  \<^bold>\<open>C3.\<close> A terminal invocation is final: however workers, operators and the clock interleave
  afterwards, its stored payload, its status column and its terminal time stay what they were.
\<close>

theorem terminal_record_immutable:
  assumes "store_inv sha s" and "(store_step sha)\<^sup>*\<^sup>* s t"
    and "ds_invocations (snd s) i = Some (p, st)" and "st \<in> TERMINAL_INVOCATION_STATES"
  shows "ds_invocations (snd t) i = Some (p, st) \<and>
         ds_terminal_times (snd t) i = ds_terminal_times (snd s) i"
  using store_run_row [OF assms(1-3)] assms(4) by blast


text \<open>
  In every reachable store the terminal time of a terminal invocation can be read, it
  is a positive instant, and it is bound to the snapshot: \<^verbatim>\<open>terminal_completed_at\<close> succeeds for
  a handle loaded from the store.
\<close>

theorem terminal_time_readable:
  assumes "reach store_init (store_step sha) (now, s)"
    and "get_invocation s i = Inr (Some h)" and "eh_status h \<in> TERMINAL_INVOCATION_STATES"
  shows "\<exists>t > 0. terminal_completed_at sha s h = Inr t \<and>
           map_option tt_completed_at (ds_terminal_times s i) = Some t"
proof -
  have inv: "store_inv sha (now, s)" by (rule store.reach_inv [OF assms(1)])
  obtain p where p: "ds_invocations s i = Some (p, hf_status (pl_fields p))"
      "hi_invocation_id (hf_identity (pl_fields p)) = i"
      "h = \<lparr>eh_fields = pl_fields p, eh_persisted = Some p, eh_lease = None\<rparr>"
    using assms(2) unfolding get_invocation_Some by blast
  then have "time_ok sha (p, hf_status (pl_fields p)) (ds_terminal_times s i)"
    using store_inv_rowD [OF inv, of i] by auto
  with p assms show ?thesis
    by (auto simp: time_ok_def terminal_completed_at_def split: option.splits)
qed

text \<open>
  \<^bold>\<open>C16.\<close> No lost update: once one writer has replaced a snapshot of a running or waiting
  invocation, a second writer that still holds the old snapshot cannot write any more,
  whatever it asks for.
\<close>

theorem stale_snapshot_rejected:
  assumes "update sha s now clock uuid h completed_at ch = Inr (s', h')"
    and "eh_persisted h = Some old" and "hf_status (pl_fields old) \<notin> TERMINAL_INVOCATION_STATES"
    and "pl_revision old \<noteq> Some uuid"
    and "eh_persisted h2 = Some old" and "eh_id h2 = eh_id h"
  shows "\<exists>e. update sha s' now2 clock2 uuid2 h2 completed_at2 ch2 = Inl e"
proof (cases "update sha s' now2 clock2 uuid2 h2 completed_at2 ch2")
  case (Inr r)
  obtain s2 h2' where r: "r = (s2, h2')" by (cases r)
  from assms(1) obtain new where new: "ds_invocations s' (eh_id h) = Some (new, hf_status (pl_fields new))"
      "pl_revision new = Some uuid"
    by (cases rule: update_cases) (use assms in \<open>auto simp: row_step_def\<close>)
  from Inr [unfolded r] have "ds_invocations s' (eh_id h2) = Some (old, hf_status (pl_fields old))"
    by (cases rule: update_cases) (use assms in \<open>auto simp: row_step_def\<close>)
  with new assms show ?thesis by auto
qed simp

text \<open>
  The first raw input of an invocation is kept: binding again, with any value, returns
  the value bound first and leaves the table unchanged.
\<close>

theorem first_input_kept:
  assumes "bind_input s h v = Inr (s', w)" and "hf_identity (eh_fields h') = hf_identity (eh_fields h)"
    and "valid_data v'"
  shows "bind_input s' h' v' = Inr (s', w)"
proof -
  let ?i = "eh_id h" and ?fp = "hi_workflow_fingerprint (hf_identity (eh_fields h))"
  have r: "read_input s' h = Inr w" and s': "s' = put_input ?i (?fp, v) s"
    using assms(1) by (auto simp: bind_input_def Let_def)
  have "read_input s' h' = read_input s' h" using assms(2)
    by (simp add: read_input_def split: option.split)
  moreover have "put_input ?i (?fp, v') s' = s'"
    by (simp add: s' put_input_def split: option.split)
  ultimately show ?thesis using r assms(2,3) by (simp add: bind_input_def)
qed

subsection \<open>Witnesses\<close>

definition ex_uuid :: string where "ex_uuid = replicate 32 (CHR ''a'')"

definition ex_uuid2 :: string where "ex_uuid2 = replicate 32 (CHR ''b'')"

definition ex_args :: create_args where
  "ex_args = \<lparr>ca_engine = ''adk'', ca_session_id = None, ca_user_id = None, ca_workflow_name = ''w'',
     ca_workflow_version = ''1'', ca_workflow_fingerprint = ''f'', ca_parent_invocation_id = None,
     ca_parent_task_reference = None, ca_owner_principal = None, ca_input = Some (PInt 7),
     ca_reserved = None, ca_uuids = (''i'', ''e'', ''s'', ex_uuid)\<rparr>"

definition ex_fields :: handle_fields where
  "ex_fields = new_handle_fields ex_args"

definition ex_handle :: execution_handle where
  "ex_handle = \<lparr>eh_fields = ex_fields,
     eh_persisted = Some \<lparr>pl_fields = ex_fields, pl_revision = Some ex_uuid\<rparr>, eh_lease = None\<rparr>"

definition ex_store :: datastore where
  "ex_store = empty_datastore\<lparr>
     ds_invocations := [''i'' \<mapsto> (\<lparr>pl_fields = ex_fields, pl_revision = Some ex_uuid\<rparr>, Running)],
     ds_inputs := [''i'' \<mapsto> (''f'', PInt 7)]\<rparr>"

definition ex_done :: changes where
  "ex_done = \<lparr>ch_identity = None, ch_status = Some Completed, ch_output = Some (PInt 1), ch_error = None\<rparr>"

definition ex_done_payload :: payload where
  "ex_done_payload = \<lparr>pl_fields = apply_changes ex_done ex_fields, pl_revision = Some ex_uuid2\<rparr>"

definition ex_done_store :: datastore where
  "ex_done_store = ex_store\<lparr>
     ds_invocations := (ds_invocations ex_store)(''i'' \<mapsto> (ex_done_payload, Completed)),
     ds_terminal_times := [''i'' \<mapsto> \<lparr>tt_fingerprint = ''f'', tt_status = Completed, tt_completed_at = 5,
                                   tt_snapshot_digest = []\<rparr>]\<rparr>"

lemma ex_uuid_hex: "is_uuid_hex ex_uuid" "is_uuid_hex ex_uuid2" "ex_uuid \<noteq> ex_uuid2"
  by (simp_all add: is_uuid_hex_def ex_uuid_def ex_uuid2_def list_all_iff)

lemma ex_fields_eval:
  "hf_status ex_fields = Running" "hf_output ex_fields = PNone" "hf_error ex_fields = PNone"
  "hi_invocation_id (hf_identity ex_fields) = ''i''"
  "hi_workflow_fingerprint (hf_identity ex_fields) = ''f''"
  by (simp_all add: ex_fields_def new_handle_fields_def ex_args_def)

lemmas ex_eval = ex_fields_eval ex_handle_def ex_store_def ex_done_def ex_done_payload_def
  ex_done_store_def ex_uuid_hex validate_fields_def validate_expression_data.simps
  MAX_SAFE_INTEGER_def decode_payload_def empty_datastore_def

lemma ex_create: "create_in_transaction empty_datastore ex_args = Inr (ex_store, ex_handle)"
  by (simp add: create_in_transaction_def Let_def ex_eval encode_handle_def
      ex_fields_def [symmetric] ex_args_def [THEN arg_cong, of ca_input]
      ex_args_def [THEN arg_cong, of ca_reserved] ex_args_def [THEN arg_cong, of ca_uuids])

lemma ex_update:
  "update (\<lambda>_. []) ex_store 1 5 ex_uuid2 ex_handle None ex_done =
   Inr (ex_done_store, ex_handle\<lparr>eh_fields := pl_fields ex_done_payload, eh_persisted := Some ex_done_payload\<rparr>)"
  by (simp add: update_def update_write_def Let_def ex_eval encode_handle_def verify_identity_def
      allowed_transition_def apply_changes_def TERMINAL_INVOCATION_STATES_def lease_consistent_def
      cas_write_def record_terminal_time_def)

lemma ex_reach_created: "reach store_init (store_step (\<lambda>_. [])) (1, ex_store)"
proof (rule reach.reach_step)
  show "reach store_init (store_step (\<lambda>_. [])) (1, empty_datastore)"
    by (rule reach.reach_init) (simp add: store_init_def)
  show "store_step (\<lambda>_. []) (1, empty_datastore) (1, ex_store)"
    by (rule store_step.create [OF ex_create]) (simp add: ex_args_def ex_uuid_hex)
qed

lemma ex_step_done: "store_step (\<lambda>_. []) (1, ex_store) (1, ex_done_store)"
  by (rule store_step.update [OF ex_update ex_uuid_hex(2)])

lemma ex_run_done: "(store_step (\<lambda>_. []))\<^sup>*\<^sup>* (1, ex_store) (1, ex_done_store)"
  using ex_step_done by (rule r_into_rtranclp)

lemma ex_reach_done: "reach store_init (store_step (\<lambda>_. [])) (1, ex_done_store)"
  by (rule reach.reach_step [OF ex_reach_created ex_step_done])

lemma ex_tick_done: "(store_step (\<lambda>_. []))\<^sup>*\<^sup>* (1, ex_done_store) (9, ex_done_store)"
proof -
  have "store_step (\<lambda>_. []) (1, ex_done_store)
          (9, ex_done_store\<lparr>ds_ownership := ds_ownership ex_done_store\<rparr>)"
    by (rule store_step.ownership) (simp add: own_step.tick)
  then show ?thesis by simp
qed

theorem terminal_record_immutable_witness:
  "ds_invocations (snd (9 :: rat, ex_done_store)) ''i'' = Some (ex_done_payload, Completed) \<and>
   ds_terminal_times (snd (9 :: rat, ex_done_store)) ''i'' = ds_terminal_times (snd (1 :: rat, ex_done_store)) ''i''"
  by (rule terminal_record_immutable [OF store.reach_inv [OF ex_reach_done] ex_tick_done])
     (simp_all add: ex_done_store_def TERMINAL_INVOCATION_STATES_def)


theorem terminal_time_readable_witness:
  "\<exists>t > 0. terminal_completed_at (\<lambda>_. []) ex_done_store
       \<lparr>eh_fields = pl_fields ex_done_payload, eh_persisted = Some ex_done_payload, eh_lease = None\<rparr> = Inr t \<and>
     map_option tt_completed_at (ds_terminal_times ex_done_store ''i'') = Some t"
  by (rule terminal_time_readable [OF ex_reach_done])
     (simp_all add: get_invocation_def ex_eval apply_changes_def TERMINAL_INVOCATION_STATES_def)

theorem stale_snapshot_rejected_witness:
  "\<exists>e. update (\<lambda>_. []) ex_done_store 2 6 ex_uuid ex_handle None ex_done = Inl e"
  by (rule stale_snapshot_rejected [OF ex_update])
     (auto simp: ex_handle_def ex_fields_eval ex_uuid_hex TERMINAL_INVOCATION_STATES_def)

theorem first_input_kept_witness: "bind_input ex_store ex_handle (PInt 8) = Inr (ex_store, PInt 7)"
  by (rule first_input_kept [of ex_store ex_handle "PInt 9"])
     (simp_all add: bind_input_def read_input_def put_input_def ex_eval)

end
