(* ===== verification/Traffic_Policy.thy ===== *)
theory Traffic_Policy
  imports OWA_Prelude "HOL-Library.Sublist"
begin

text \<open>
  Admission control (\<^verbatim>\<open>traffic_policy.py\<close> and its configuration in \<^verbatim>\<open>config.py\<close>): which limits a
  request falls under, the concurrency counters and the token buckets, and the entry and exit
  of a request. The machine at the end runs any interleaving of entries and exits under a
  monotonic clock. Its lemmas show that a counter is the number of requests in flight under
  it and never exceeds its limit, that leaving never fails, and that a bucket admits at most
  its burst plus its rate times the elapsed time.
\<close>

section \<open>Configuration\<close>

record rate_limit_config =
  requests_per_second :: rat
  burst :: int

record concurrency_limit_config =
  max_concurrent :: int

record traffic_limit_config =
  tl_rate_limit :: "rate_limit_config option"
  tl_concurrency_limit :: "concurrency_limit_config option"

record traffic_policy_config =
  tp_enabled :: bool
  tp_rate_limit :: rate_limit_config
  tp_concurrency_limit :: concurrency_limit_config
  tp_endpoint_limits :: "(string \<times> traffic_limit_config) list"
  tp_principal_limits :: "(string \<times> traffic_limit_config) list"

text \<open>What the validated configuration guarantees: positive limits, no scope named twice.\<close>

definition rate_ok :: "rate_limit_config \<Rightarrow> bool" where
  "rate_ok r \<longleftrightarrow> requests_per_second r > 0 \<and> burst r > 0"

definition limit_ok :: "traffic_limit_config \<Rightarrow> bool" where
  "limit_ok l \<longleftrightarrow>
     \<not> (tl_rate_limit l = None \<and> tl_concurrency_limit l = None) \<and>
     (case tl_rate_limit l of None \<Rightarrow> True | Some r \<Rightarrow> rate_ok r) \<and>
     (case tl_concurrency_limit l of None \<Rightarrow> True | Some c \<Rightarrow> max_concurrent c > 0)"

definition validate_unique_scopes :: "traffic_policy_config \<Rightarrow> unit res" where
  "validate_unique_scopes p =
     bindE (guardE (distinct (map fst (tp_endpoint_limits p))) ValueError) (\<lambda>_.
       guardE (distinct (map fst (tp_principal_limits p))) ValueError)"

definition policy_ok :: "traffic_policy_config \<Rightarrow> bool" where
  "policy_ok p \<longleftrightarrow> rate_ok (tp_rate_limit p) \<and> max_concurrent (tp_concurrency_limit p) > 0 \<and>
     list_all (\<lambda>x. limit_ok (snd x)) (tp_endpoint_limits p) \<and>
     list_all (\<lambda>x. limit_ok (snd x)) (tp_principal_limits p) \<and>
     validate_unique_scopes p = Inr ()"

section \<open>Scopes of a request\<close>

record admission_scope =
  as_key :: string
  as_rate_limit :: "rate_limit_config option"
  as_concurrency_limit :: "concurrency_limit_config option"

text \<open>The fields of the ASGI scope that are read.\<close>

record request_scope =
  rs_type :: string
  rs_path :: "string option"
  rs_principal :: "string option"

definition endpoint_limit ::
  "traffic_policy_config \<Rightarrow> string \<Rightarrow> (string \<times> traffic_limit_config) option" where
  "endpoint_limit p path =
     max_by (\<lambda>item. length (fst item))
       (filter (\<lambda>item. fst item = ''/'' \<or> path = fst item \<or> prefix (fst item @ ''/'') path)
          (tp_endpoint_limits p))"

definition scope_from_limit :: "string \<Rightarrow> traffic_limit_config \<Rightarrow> admission_scope" where
  "scope_from_limit key l =
     \<lparr>as_key = key, as_rate_limit = tl_rate_limit l, as_concurrency_limit = tl_concurrency_limit l\<rparr>"

definition global_scope :: "traffic_policy_config \<Rightarrow> admission_scope" where
  "global_scope p = \<lparr>as_key = ''global'', as_rate_limit = Some (tp_rate_limit p),
     as_concurrency_limit = Some (tp_concurrency_limit p)\<rparr>"

definition scopes_for :: "traffic_policy_config \<Rightarrow> request_scope \<Rightarrow> admission_scope list" where
  "scopes_for p req =
     (let path = (case rs_path req of None \<Rightarrow> ''/'' | Some x \<Rightarrow> x);
          principal = (case rs_principal req of None \<Rightarrow> ''anonymous''
                       | Some x \<Rightarrow> if x = [] then ''anonymous'' else x)
      in [global_scope p]
         @ (case endpoint_limit p path of
              None \<Rightarrow> []
            | Some (pre, l) \<Rightarrow> [scope_from_limit (''endpoint:'' @ pre) l])
         @ (case find (\<lambda>item. fst item = principal) (tp_principal_limits p) of
              None \<Rightarrow> []
            | Some (_, l) \<Rightarrow> [scope_from_limit (''principal:'' @ principal) l]))"

section \<open>Counters and buckets\<close>

record token_bucket =
  tokens :: rat
  last_refill :: rat

record traffic_state =
  active_requests :: int
  active_by_scope :: "string \<rightharpoonup> int"
  buckets :: "string \<rightharpoonup> token_bucket"

definition active_count :: "traffic_state \<Rightarrow> string \<Rightarrow> int" where
  "active_count st k = (case active_by_scope st k of None \<Rightarrow> 0 | Some n \<Rightarrow> n)"

definition refill :: "token_bucket \<Rightarrow> rate_limit_config \<Rightarrow> rat \<Rightarrow> token_bucket" where
  "refill b limit now =
     \<lparr>tokens = min (of_int (burst limit))
                 (tokens b + max 0 (now - last_refill b) * requests_per_second limit),
      last_refill = now\<rparr>"

definition has_rate_token ::
  "traffic_state \<Rightarrow> string \<Rightarrow> rate_limit_config \<Rightarrow> rat \<Rightarrow> traffic_state \<times> bool" where
  "has_rate_token st key limit now =
     (let b = (case buckets st key of
                 None \<Rightarrow> \<lparr>tokens = of_int (burst limit), last_refill = now\<rparr>
               | Some b \<Rightarrow> refill b limit now)
      in (st\<lparr>buckets := (buckets st)(key \<mapsto> b)\<rparr>, tokens b \<ge> 1))"

datatype rejection = Concurrency concurrency_limit_config | RateLimit rate_limit_config

fun check_concurrency :: "traffic_state \<Rightarrow> admission_scope list \<Rightarrow> rejection option" where
  "check_concurrency st [] = None"
| "check_concurrency st (sc # scs) =
     (case as_concurrency_limit sc of
        Some c \<Rightarrow> if active_count st (as_key sc) \<ge> max_concurrent c then Some (Concurrency c)
                  else check_concurrency st scs
      | None \<Rightarrow> check_concurrency st scs)"

fun check_rates ::
  "traffic_state \<Rightarrow> rat \<Rightarrow> admission_scope list \<Rightarrow> traffic_state \<times> rejection option" where
  "check_rates st now [] = (st, None)"
| "check_rates st now (sc # scs) =
     (case as_rate_limit sc of
        Some r \<Rightarrow> (case has_rate_token st (as_key sc) r now of
                     (st', ok) \<Rightarrow> if ok then check_rates st' now scs else (st', Some (RateLimit r)))
      | None \<Rightarrow> check_rates st now scs)"

definition take_token :: "traffic_state \<Rightarrow> admission_scope \<Rightarrow> traffic_state res" where
  "take_token st sc =
     (case as_rate_limit sc of
        None \<Rightarrow> Inr st
      | Some _ \<Rightarrow> (case buckets st (as_key sc) of
          None \<Rightarrow> Inl KeyError
        | Some b \<Rightarrow> Inr (st\<lparr>buckets := (buckets st)(as_key sc \<mapsto> b\<lparr>tokens := tokens b - 1\<rparr>)\<rparr>)))"

definition admit_locked ::
  "traffic_state \<Rightarrow> rat \<Rightarrow> admission_scope list \<Rightarrow> (traffic_state \<times> rejection option) res" where
  "admit_locked st now scs =
     (case check_concurrency st scs of
        Some rej \<Rightarrow> Inr (st, Some rej)
      | None \<Rightarrow>
          (case check_rates st now scs of
             (st', Some rej) \<Rightarrow> Inr (st', Some rej)
           | (st', None) \<Rightarrow> bindE (foldE take_token st' scs) (\<lambda>st''. Inr (st'', None))))"

section \<open>Entry and exit\<close>

definition count_in :: "traffic_state \<Rightarrow> admission_scope \<Rightarrow> traffic_state" where
  "count_in st sc =
     (if as_concurrency_limit sc = None then st
      else st\<lparr>active_by_scope := (active_by_scope st)(as_key sc \<mapsto> active_count st (as_key sc) + 1)\<rparr>)"

definition publish_active :: "traffic_state \<Rightarrow> traffic_state" where
  "publish_active st = st\<lparr>active_requests := active_count st ''global''\<rparr>"

text \<open>The part of \<^verbatim>\<open>__call__\<close> before the application runs.\<close>

definition enter ::
  "traffic_policy_config \<Rightarrow> traffic_state \<Rightarrow> rat \<Rightarrow> request_scope \<Rightarrow>
   (traffic_state \<times> rejection option) res" where
  "enter p st now req =
     (if rs_type req \<noteq> ''http'' \<or> \<not> tp_enabled p then Inr (st, None)
      else let scs = scopes_for p req in
        bindE (admit_locked st now scs) (\<lambda>(st', rej).
          case rej of
            Some _ \<Rightarrow> Inr (st', rej)
          | None \<Rightarrow> Inr (publish_active (fold (\<lambda>sc st. count_in st sc) scs st'), None)))"

definition count_out :: "traffic_state \<Rightarrow> admission_scope \<Rightarrow> traffic_state res" where
  "count_out st sc =
     (if as_concurrency_limit sc = None then Inr st
      else case active_by_scope st (as_key sc) of
             None \<Rightarrow> Inl KeyError
           | Some n \<Rightarrow>
               Inr (st\<lparr>active_by_scope :=
                 (if n - 1 \<noteq> 0 then (active_by_scope st)(as_key sc \<mapsto> n - 1)
                  else (active_by_scope st)(as_key sc := None))\<rparr>))"

text \<open>The \<^verbatim>\<open>finally\<close> block of \<^verbatim>\<open>__call__\<close>, for an admitted request.\<close>

definition leave :: "traffic_policy_config \<Rightarrow> traffic_state \<Rightarrow> request_scope \<Rightarrow> traffic_state res" where
  "leave p st req =
     (if rs_type req \<noteq> ''http'' \<or> \<not> tp_enabled p then Inr st
      else bindE (foldE count_out st (scopes_for p req)) (\<lambda>st'. Inr (publish_active st')))"

section \<open>Keys determine limits\<close>

definition policy_scopes :: "traffic_policy_config \<Rightarrow> admission_scope list" where
  "policy_scopes p = global_scope p
     # map (\<lambda>(pre, l). scope_from_limit (''endpoint:'' @ pre) l) (tp_endpoint_limits p)
     @ map (\<lambda>(who, l). scope_from_limit (''principal:'' @ who) l) (tp_principal_limits p)"

lemma policy_scopes_distinct:
  "policy_ok p \<Longrightarrow> distinct (map as_key (policy_scopes p))"
  by (auto simp: policy_scopes_def policy_ok_def validate_unique_scopes_def global_scope_def
      scope_from_limit_def comp_def case_prod_unfold distinct_map inj_on_def)

lemma find_SomeD: "find P xs = Some x \<Longrightarrow> x \<in> set xs \<and> P x"
  by (induction xs) (auto split: if_splits)

lemma endpoint_limit_in: "endpoint_limit p path = Some x \<Longrightarrow> x \<in> set (tp_endpoint_limits p)"
  by (auto simp: endpoint_limit_def dest: max_by_in)

lemma policy_scopes_mem:
  "global_scope p \<in> set (policy_scopes p)"
  "(pre, l) \<in> set (tp_endpoint_limits p) \<Longrightarrow> scope_from_limit (''endpoint:'' @ pre) l \<in> set (policy_scopes p)"
  "(who, l) \<in> set (tp_principal_limits p) \<Longrightarrow> scope_from_limit (''principal:'' @ who) l \<in> set (policy_scopes p)"
  unfolding policy_scopes_def set_append set_map list.set by (auto simp del: append_Cons)

lemma scopes_for_subset: "set (scopes_for p req) \<subseteq> set (policy_scopes p)"
proof -
  have "set (case endpoint_limit p path of None \<Rightarrow> []
          | Some (pre, l) \<Rightarrow> [scope_from_limit (''endpoint:'' @ pre) l]) \<subseteq> set (policy_scopes p)" for path
    using endpoint_limit_in [of p path] policy_scopes_mem(2)
    by (cases "endpoint_limit p path") (auto simp del: append_Cons)
  moreover have "set (case find (\<lambda>item. fst item = who) (tp_principal_limits p) of None \<Rightarrow> []
          | Some (_, l) \<Rightarrow> [scope_from_limit (''principal:'' @ who) l]) \<subseteq> set (policy_scopes p)" for who
    using find_SomeD [of "\<lambda>item. fst item = who" "tp_principal_limits p"] policy_scopes_mem(3)
    by (cases "find (\<lambda>item. fst item = who) (tp_principal_limits p)") (auto simp del: append_Cons)
  ultimately show ?thesis
    unfolding scopes_for_def Let_def set_append list.set using policy_scopes_mem(1) by blast
qed

lemma scopes_for_distinct: "distinct (map as_key (scopes_for p req))"
  by (auto simp: scopes_for_def Let_def global_scope_def scope_from_limit_def split: option.splits)

text \<open>The scope a key names under a policy, and with it the limits it carries.\<close>

definition scope_of :: "traffic_policy_config \<Rightarrow> string \<Rightarrow> admission_scope option" where
  "scope_of p k = find (\<lambda>sc. as_key sc = k) (policy_scopes p)"

lemma scope_of_member:
  "policy_ok p \<Longrightarrow> sc \<in> set (scopes_for p req) \<Longrightarrow> scope_of p (as_key sc) = Some sc"
proof -
  assume ok: "policy_ok p" and "sc \<in> set (scopes_for p req)"
  then have mem: "sc \<in> set (policy_scopes p)" using scopes_for_subset by blast
  then obtain sc' where sc': "scope_of p (as_key sc) = Some sc'"
    by (cases "scope_of p (as_key sc)") (auto simp: scope_of_def find_None_iff)
  then have "sc' \<in> set (policy_scopes p)" "as_key sc' = as_key sc"
    using find_SomeD by (fastforce simp: scope_of_def)+
  with mem policy_scopes_distinct [OF ok] have "sc' = sc"
    by (auto simp: distinct_map inj_on_def)
  with sc' show ?thesis by simp
qed

section \<open>One request\<close>

definition conc_keys :: "admission_scope list \<Rightarrow> string set" where
  "conc_keys scs = {as_key sc | sc. sc \<in> set scs \<and> as_concurrency_limit sc \<noteq> None}"

definition rate_keys :: "admission_scope list \<Rightarrow> string set" where
  "rate_keys scs = {as_key sc | sc. sc \<in> set scs \<and> as_rate_limit sc \<noteq> None}"

lemma keys_subset: "conc_keys scs \<subseteq> as_key ` set scs" "rate_keys scs \<subseteq> as_key ` set scs"
  by (auto simp: conc_keys_def rate_keys_def)

lemma conc_keys_simps [simp]:
  "conc_keys [] = {}"
  "conc_keys (sc # scs) = (if as_concurrency_limit sc = None then {} else {as_key sc}) \<union> conc_keys scs"
  by (auto simp: conc_keys_def)

lemma rate_keys_simps [simp]:
  "rate_keys [] = {}"
  "rate_keys (sc # scs) = (if as_rate_limit sc = None then {} else {as_key sc}) \<union> rate_keys scs"
  by (auto simp: rate_keys_def)

text \<open>Counting a request in and out, over scopes with distinct keys.\<close>

lemma fold_count_in:
  assumes "distinct (map as_key scs)"
  shows "buckets (fold (\<lambda>sc st. count_in st sc) scs st) = buckets st"
    and "active_by_scope (fold (\<lambda>sc st. count_in st sc) scs st) k =
           (if k \<in> conc_keys scs then Some (active_count st k + 1) else active_by_scope st k)"
  using assms
proof (induction scs arbitrary: st)
  case (Cons sc scs)
  { case 1 then show ?case using Cons.IH(1) by (simp add: count_in_def) }
  { case 2
    then have "as_key sc \<notin> conc_keys scs" using keys_subset(1) by auto
    with 2 show ?case using Cons.IH(2) [of "count_in st sc"]
      by (auto simp: count_in_def active_count_def) }
qed simp_all

lemma count_out_spec:
  assumes "as_concurrency_limit sc \<noteq> None \<Longrightarrow> active_by_scope st (as_key sc) \<noteq> None"
  shows "\<exists>st'. count_out st sc = Inr st' \<and> buckets st' = buckets st \<and>
     (\<forall>k. active_by_scope st' k =
       (if as_concurrency_limit sc \<noteq> None \<and> k = as_key sc
        then (if active_count st k = 1 then None else Some (active_count st k - 1))
        else active_by_scope st k))"
proof (cases "as_concurrency_limit sc")
  case (Some c)
  then obtain n where n: "active_by_scope st (as_key sc) = Some n" using assms by auto
  then show ?thesis using Some by (simp add: count_out_def active_count_def)
qed (simp add: count_out_def)

lemma foldE_count_out:
  assumes "distinct (map as_key scs)" and "\<And>k. k \<in> conc_keys scs \<Longrightarrow> active_by_scope st k \<noteq> None"
  shows "\<exists>st'. foldE count_out st scs = Inr st' \<and> buckets st' = buckets st \<and>
     (\<forall>k. active_by_scope st' k =
        (if k \<in> conc_keys scs
         then (if active_count st k = 1 then None else Some (active_count st k - 1))
         else active_by_scope st k))"
  using assms
proof (induction scs arbitrary: st)
  case (Cons sc scs)
  have new: "as_key sc \<notin> conc_keys scs" using Cons.prems(1) keys_subset(1) by auto
  obtain st1 where st1: "count_out st sc = Inr st1" "buckets st1 = buckets st"
    "\<And>k. active_by_scope st1 k =
       (if as_concurrency_limit sc \<noteq> None \<and> k = as_key sc
        then (if active_count st k = 1 then None else Some (active_count st k - 1))
        else active_by_scope st k)"
    using count_out_spec [of sc st] Cons.prems(2) [of "as_key sc"] by fastforce
  have "\<And>k. k \<in> conc_keys scs \<Longrightarrow> active_by_scope st1 k = active_by_scope st k"
    using new by (auto simp: st1(3))
  with Cons.IH [of st1] Cons.prems obtain st' where st':
    "foldE count_out st1 scs = Inr st'" "buckets st' = buckets st1"
    "\<forall>k. active_by_scope st' k =
        (if k \<in> conc_keys scs
         then (if active_count st1 k = 1 then None else Some (active_count st1 k - 1))
         else active_by_scope st1 k)" by auto
  then show ?case using st1 new by (auto simp: active_count_def)
qed simp

text \<open>The bucket a request finds after the refill, and what the rate check does to the table.\<close>

definition fresh :: "traffic_state \<Rightarrow> string \<Rightarrow> rate_limit_config \<Rightarrow> rat \<Rightarrow> token_bucket" where
  "fresh st k r now =
     (case buckets st k of
        None \<Rightarrow> \<lparr>tokens = of_int (burst r), last_refill = now\<rparr>
      | Some b \<Rightarrow> refill b r now)"

lemma has_rate_token_fresh:
  "has_rate_token st k r now =
     (st\<lparr>buckets := (buckets st)(k \<mapsto> fresh st k r now)\<rparr>, tokens (fresh st k r now) \<ge> 1)"
  by (simp add: has_rate_token_def fresh_def Let_def)

lemma fresh_other [simp]:
  "k \<noteq> k' \<Longrightarrow> fresh (st\<lparr>buckets := (buckets st)(k' \<mapsto> b)\<rparr>) k r now = fresh st k r now"
  by (simp add: fresh_def)

lemma check_rates_other:
  "check_rates st now scs = (st', rej) \<Longrightarrow>
   active_by_scope st' = active_by_scope st \<and> (k \<notin> rate_keys scs \<longrightarrow> buckets st' k = buckets st k)"
  by (induction scs arbitrary: st)
    (fastforce simp: has_rate_token_fresh split: option.splits if_splits)+

lemma check_rates_table:
  assumes "distinct (map as_key scs)" and "check_rates st now scs = (st', rej)"
  shows "buckets st' k = buckets st k \<or>
         (\<exists>sc r. sc \<in> set scs \<and> as_key sc = k \<and> as_rate_limit sc = Some r \<and>
                 buckets st' k = Some (fresh st k r now))"
    and "rej = None \<Longrightarrow> sc \<in> set scs \<Longrightarrow> as_rate_limit sc = Some r \<Longrightarrow>
         buckets st' (as_key sc) = Some (fresh st (as_key sc) r now) \<and>
         tokens (fresh st (as_key sc) r now) \<ge> 1"
  using assms
proof (induction scs arbitrary: st)
  case (Cons x scs)
  { case 1 then show ?case
    proof (cases "as_rate_limit x")
      case None
      then show ?thesis using 1 Cons.IH(1) [of st] by auto
    next
      case (Some r0)
      let ?st = "st\<lparr>buckets := (buckets st)(as_key x \<mapsto> fresh st (as_key x) r0 now)\<rparr>"
      show ?thesis
      proof (cases "tokens (fresh st (as_key x) r0 now) \<ge> 1")
        case True
        with 1 Some have rest: "check_rates ?st now scs = (st', rej)" by (simp add: has_rate_token_fresh)
        show ?thesis
        proof (cases "k = as_key x")
          case True
          then have "k \<notin> rate_keys scs" using 1(1) keys_subset(2) by auto
          with check_rates_other [OF rest, of k] True Some show ?thesis by auto
        next
          case False
          have "buckets st' k = buckets ?st k \<or> (\<exists>sc r. sc \<in> set scs \<and> as_key sc = k \<and>
              as_rate_limit sc = Some r \<and> buckets st' k = Some (fresh ?st k r now))"
            by (rule Cons.IH(1)) (use 1(1) rest in auto)
          then show ?thesis using False by (elim disjE exE) auto
        qed
      next
        case False
        with 1 Some have "buckets st' = (buckets st)(as_key x \<mapsto> fresh st (as_key x) r0 now)"
          by (auto simp: has_rate_token_fresh)
        with Some show ?thesis by (cases "k = as_key x") auto
      qed
    qed }
  { case 2
    show ?case
    proof (cases "sc = x")
      case True
      then have "as_key x \<notin> rate_keys scs" using 2(4) keys_subset(2) by auto
      with 2 True show ?thesis
        by (auto simp: has_rate_token_fresh split: if_splits dest: check_rates_other [where k = "as_key x"])
    next
      case False
      then have "sc \<in> set scs" using 2 by auto
      moreover from this have "as_key sc \<noteq> as_key x" using 2(4) by (metis distinct.simps(2) imageI list.set_map list.simps(9))
      ultimately have "as_key sc \<noteq> as_key x" "sc \<in> set scs" by blast+
      moreover from 2 obtain st0 where "check_rates st0 now scs = (st', rej)"
        and "fresh st0 (as_key sc) r now = fresh st (as_key sc) r now"
        using \<open>as_key sc \<noteq> as_key x\<close> by (auto simp: has_rate_token_fresh split: option.splits if_splits)
      ultimately show ?thesis using Cons.IH(2) [of st0] 2 by auto
    qed }
qed auto

text \<open>Spending the tokens of an admitted request.\<close>

lemma foldE_take_token:
  assumes "distinct (map as_key scs)" and "\<And>k. k \<in> rate_keys scs \<Longrightarrow> buckets st k \<noteq> None"
  shows "\<exists>st'. foldE take_token st scs = Inr st' \<and> active_by_scope st' = active_by_scope st \<and>
     (\<forall>k. buckets st' k =
        (if k \<in> rate_keys scs then map_option (\<lambda>b. b\<lparr>tokens := tokens b - 1\<rparr>) (buckets st k)
         else buckets st k))"
  using assms
proof (induction scs arbitrary: st)
  case (Cons sc scs)
  have new: "as_key sc \<notin> rate_keys scs" using Cons.prems(1) keys_subset(2) by auto
  have "\<exists>st1. take_token st sc = Inr st1 \<and> active_by_scope st1 = active_by_scope st \<and>
    (\<forall>k. buckets st1 k =
       (if as_rate_limit sc \<noteq> None \<and> k = as_key sc
        then map_option (\<lambda>b. b\<lparr>tokens := tokens b - 1\<rparr>) (buckets st k) else buckets st k))"
  proof (cases "as_rate_limit sc")
    case (Some r)
    then obtain b where "buckets st (as_key sc) = Some b" using Cons.prems(2) [of "as_key sc"] by auto
    with Some show ?thesis by (simp add: take_token_def)
  qed (simp add: take_token_def)
  then obtain st1 where st1: "take_token st sc = Inr st1" "active_by_scope st1 = active_by_scope st"
    "\<And>k. buckets st1 k =
       (if as_rate_limit sc \<noteq> None \<and> k = as_key sc
        then map_option (\<lambda>b. b\<lparr>tokens := tokens b - 1\<rparr>) (buckets st k) else buckets st k)" by blast
  have "\<And>k. k \<in> rate_keys scs \<Longrightarrow> buckets st1 k = buckets st k" using new by (auto simp: st1(3))
  with Cons.IH [of st1] Cons.prems obtain st' where st':
    "foldE take_token st1 scs = Inr st'" "active_by_scope st' = active_by_scope st1"
    "\<forall>k. buckets st' k =
        (if k \<in> rate_keys scs then map_option (\<lambda>b. b\<lparr>tokens := tokens b - 1\<rparr>) (buckets st1 k)
         else buckets st1 k)" by auto
  then show ?case using st1 new by auto
qed simp

lemma check_concurrency_None:
  "check_concurrency st scs = None \<longleftrightarrow>
   (\<forall>sc\<in>set scs. \<forall>c. as_concurrency_limit sc = Some c \<longrightarrow> active_count st (as_key sc) < max_concurrent c)"
  by (induction scs) (auto split: option.splits)

text \<open>
  The scopes that apply to a request, and the effect of its entry: a refused request leaves
  the counters alone and at most refills buckets, an admitted one was below every limit and
  takes one slot and one token of each of its scopes.
\<close>

definition req_scopes :: "traffic_policy_config \<Rightarrow> request_scope \<Rightarrow> admission_scope list" where
  "req_scopes p req = (if rs_type req = ''http'' \<and> tp_enabled p then scopes_for p req else [])"

lemma req_scopes_distinct: "distinct (map as_key (req_scopes p req))"
  by (simp add: req_scopes_def scopes_for_distinct)

lemma req_scopes_scope_of:
  "policy_ok p \<Longrightarrow> sc \<in> set (req_scopes p req) \<Longrightarrow> scope_of p (as_key sc) = Some sc"
  using scope_of_member by (auto simp: req_scopes_def split: if_splits)

definition refilled_only ::
  "admission_scope list \<Rightarrow> rat \<Rightarrow> traffic_state \<Rightarrow> traffic_state \<Rightarrow> bool" where
  "refilled_only scs now st st' \<longleftrightarrow>
     active_by_scope st' = active_by_scope st \<and>
     (\<forall>k. buckets st' k = buckets st k \<or>
        (\<exists>sc r. sc \<in> set scs \<and> as_key sc = k \<and> as_rate_limit sc = Some r \<and>
                buckets st' k = Some (fresh st k r now)))"

lemma enter_refused:
  assumes "enter p st now req = Inr (st', Some rej)"
  shows "refilled_only (req_scopes p req) now st st'"
proof -
  from assms have ap: "rs_type req = ''http'' \<and> tp_enabled p"
    and adm: "admit_locked st now (scopes_for p req) = Inr (st', Some rej)"
    by (auto simp: enter_def Let_def split: if_splits option.splits)
  show ?thesis
  proof (cases "check_concurrency st (scopes_for p req)")
    case None
    with adm have "check_rates st now (scopes_for p req) = (st', Some rej)"
      by (auto simp: admit_locked_def split: prod.splits option.splits)
    with check_rates_other [OF this] check_rates_table(1) [OF scopes_for_distinct this] ap
    show ?thesis by (simp add: refilled_only_def req_scopes_def)
  next
    case (Some x)
    with adm show ?thesis by (simp add: admit_locked_def refilled_only_def)
  qed
qed

lemma enter_admitted:
  assumes "enter p st now req = Inr (st', None)"
  defines "scs \<equiv> req_scopes p req"
  shows "\<forall>sc\<in>set scs. \<forall>c. as_concurrency_limit sc = Some c \<longrightarrow> active_count st (as_key sc) < max_concurrent c"
    and "active_by_scope st' k =
           (if k \<in> conc_keys scs then Some (active_count st k + 1) else active_by_scope st k)"
    and "\<forall>sc\<in>set scs. \<forall>r. as_rate_limit sc = Some r \<longrightarrow>
           tokens (fresh st (as_key sc) r now) \<ge> 1 \<and>
           buckets st' (as_key sc) =
             Some ((fresh st (as_key sc) r now)\<lparr>tokens := tokens (fresh st (as_key sc) r now) - 1\<rparr>)"
    and "k \<notin> rate_keys scs \<Longrightarrow> buckets st' k = buckets st k"
proof -
  let ?P = "(\<forall>sc\<in>set scs. \<forall>c. as_concurrency_limit sc = Some c \<longrightarrow> active_count st (as_key sc) < max_concurrent c)
    \<and> (\<forall>k. active_by_scope st' k =
           (if k \<in> conc_keys scs then Some (active_count st k + 1) else active_by_scope st k))
    \<and> (\<forall>sc\<in>set scs. \<forall>r. as_rate_limit sc = Some r \<longrightarrow>
           tokens (fresh st (as_key sc) r now) \<ge> 1 \<and>
           buckets st' (as_key sc) =
             Some ((fresh st (as_key sc) r now)\<lparr>tokens := tokens (fresh st (as_key sc) r now) - 1\<rparr>))
    \<and> (\<forall>k. k \<notin> rate_keys scs \<longrightarrow> buckets st' k = buckets st k)"
  have ?P
  proof (cases "rs_type req = ''http'' \<and> tp_enabled p")
    case False
    then have "scs = []" "st' = st" using assms(1) by (auto simp: enter_def scs_def req_scopes_def)
    then show ?thesis by simp
  next
    case True
    then have scs: "scs = scopes_for p req" by (simp add: scs_def req_scopes_def)
    have d: "distinct (map as_key scs)" by (simp add: scs scopes_for_distinct)
    from True assms(1) obtain st2 where adm: "admit_locked st now scs = Inr (st2, None)"
      and st': "st' = publish_active (fold (\<lambda>sc st. count_in st sc) scs st2)"
      by (auto simp: enter_def Let_def scs split: option.splits)
    then obtain st1 where cc: "check_concurrency st scs = None"
      and cr: "check_rates st now scs = (st1, None)" and tk: "foldE take_token st1 scs = Inr st2"
      by (auto simp: admit_locked_def split: option.splits prod.splits)
    note oth = check_rates_other [OF cr] and tab = check_rates_table(2) [OF d cr refl]
    have some: "\<And>k. k \<in> rate_keys scs \<Longrightarrow> buckets st1 k \<noteq> None"
      using tab by (force simp: rate_keys_def)
    with foldE_take_token [OF d some] tk have tk':
      "active_by_scope st2 = active_by_scope st1"
      "\<And>k. buckets st2 k =
        (if k \<in> rate_keys scs then map_option (\<lambda>b. b\<lparr>tokens := tokens b - 1\<rparr>) (buckets st1 k)
         else buckets st1 k)" by auto
    have rk: "\<And>sc r. sc \<in> set scs \<Longrightarrow> as_rate_limit sc = Some r \<Longrightarrow> as_key sc \<in> rate_keys scs"
      by (force simp: rate_keys_def)
    have act: "active_count st2 = active_count st" using oth tk'(1) by (auto simp: active_count_def fun_eq_iff)
    show ?thesis
      using cc fold_count_in [OF d, of st2] tk' oth tab rk act
      by (simp add: check_concurrency_None st' publish_active_def)
  qed
  then show "\<forall>sc\<in>set scs. \<forall>c. as_concurrency_limit sc = Some c \<longrightarrow> active_count st (as_key sc) < max_concurrent c"
    and "active_by_scope st' k =
           (if k \<in> conc_keys scs then Some (active_count st k + 1) else active_by_scope st k)"
    and "\<forall>sc\<in>set scs. \<forall>r. as_rate_limit sc = Some r \<longrightarrow>
           tokens (fresh st (as_key sc) r now) \<ge> 1 \<and>
           buckets st' (as_key sc) =
             Some ((fresh st (as_key sc) r now)\<lparr>tokens := tokens (fresh st (as_key sc) r now) - 1\<rparr>)"
    and "k \<notin> rate_keys scs \<Longrightarrow> buckets st' k = buckets st k"
    by blast+
qed

lemma leave_ok:
  assumes "\<And>k. k \<in> conc_keys (req_scopes p req) \<Longrightarrow> active_by_scope st k \<noteq> None"
  shows "\<exists>st'. leave p st req = Inr st' \<and> buckets st' = buckets st \<and>
     (\<forall>k. active_by_scope st' k =
        (if k \<in> conc_keys (req_scopes p req)
         then (if active_count st k = 1 then None else Some (active_count st k - 1))
         else active_by_scope st k))"
proof (cases "rs_type req = ''http'' \<and> tp_enabled p")
  case True
  then have "req_scopes p req = scopes_for p req" by (simp add: req_scopes_def)
  with foldE_count_out [OF req_scopes_distinct [of p req] assms] obtain st' where
    "foldE count_out st (scopes_for p req) = Inr st'" "buckets st' = buckets st"
    "\<forall>k. active_by_scope st' k =
        (if k \<in> conc_keys (req_scopes p req)
         then (if active_count st k = 1 then None else Some (active_count st k - 1))
         else active_by_scope st k)" by auto
  with True show ?thesis by (intro exI [of _ "publish_active st'"]) (simp add: leave_def publish_active_def)
qed (auto simp: leave_def req_scopes_def)

section \<open>The machine\<close>

text \<open>
  Requests arrive, are admitted or refused, and leave in any order while the clock advances.
  \<open>tm_flight\<close> lists the admitted requests that have not left and \<open>tm_admitted\<close> counts, for the
  statements below, the admissions charged to each key.
\<close>

record traffic_machine =
  tm_now :: rat
  tm_state :: traffic_state
  tm_flight :: "request_scope list"
  tm_admitted :: "string \<Rightarrow> nat"

definition tm_init :: "traffic_machine \<Rightarrow> bool" where
  "tm_init m \<longleftrightarrow> active_by_scope (tm_state m) = Map.empty \<and> buckets (tm_state m) = Map.empty \<and>
     tm_flight m = [] \<and> tm_admitted m = (\<lambda>_. 0)"

inductive traffic_step :: "traffic_policy_config \<Rightarrow> traffic_machine \<Rightarrow> traffic_machine \<Rightarrow> bool" for p where
  tick: "tm_now m \<le> now \<Longrightarrow> traffic_step p m (m\<lparr>tm_now := now\<rparr>)"
| admitted: "enter p (tm_state m) (tm_now m) req = Inr (st, None) \<Longrightarrow>
     traffic_step p m (m\<lparr>tm_state := st, tm_flight := req # tm_flight m,
       tm_admitted := (\<lambda>k. tm_admitted m k + (if k \<in> rate_keys (req_scopes p req) then 1 else 0))\<rparr>)"
| refused: "enter p (tm_state m) (tm_now m) req = Inr (st, Some rej) \<Longrightarrow>
     traffic_step p m (m\<lparr>tm_state := st\<rparr>)"
| left: "req \<in> set (tm_flight m) \<Longrightarrow> leave p (tm_state m) req = Inr st \<Longrightarrow>
     traffic_step p m (m\<lparr>tm_state := st, tm_flight := remove1 req (tm_flight m)\<rparr>)"

definition in_flight :: "traffic_policy_config \<Rightarrow> request_scope list \<Rightarrow> string \<Rightarrow> nat" where
  "in_flight p reqs k = length (filter (\<lambda>r. k \<in> conc_keys (req_scopes p r)) reqs)"

definition rate_of :: "traffic_policy_config \<Rightarrow> string \<Rightarrow> rate_limit_config option" where
  "rate_of p k = Option.bind (scope_of p k) as_rate_limit"

definition cap_of :: "traffic_policy_config \<Rightarrow> string \<Rightarrow> concurrency_limit_config option" where
  "cap_of p k = Option.bind (scope_of p k) as_concurrency_limit"

definition bucket_ok :: "rate_limit_config \<Rightarrow> rat \<Rightarrow> token_bucket \<Rightarrow> bool" where
  "bucket_ok r now b \<longleftrightarrow> 0 \<le> tokens b \<and> tokens b \<le> of_int (burst r) \<and> last_refill b \<le> now"

definition traffic_inv :: "traffic_policy_config \<Rightarrow> traffic_machine \<Rightarrow> bool" where
  "traffic_inv p m \<longleftrightarrow>
     (\<forall>k. active_by_scope (tm_state m) k =
        (let n = in_flight p (tm_flight m) k in if n = 0 then None else Some (int n))) \<and>
     (\<forall>k c. cap_of p k = Some c \<longrightarrow> int (in_flight p (tm_flight m) k) \<le> max_concurrent c) \<and>
     (\<forall>k b. buckets (tm_state m) k = Some b \<longrightarrow> (\<exists>r. rate_of p k = Some r \<and> bucket_ok r (tm_now m) b))"

text \<open>The tokens a key could spend now: what its bucket would hold after a refill.\<close>

definition potential :: "traffic_state \<Rightarrow> string \<Rightarrow> rate_limit_config \<Rightarrow> rat \<Rightarrow> rat" where
  "potential st k r now = tokens (fresh st k r now)"

definition traffic_rel :: "traffic_policy_config \<Rightarrow> traffic_machine \<Rightarrow> traffic_machine \<Rightarrow> bool" where
  "traffic_rel p m m' \<longleftrightarrow> tm_now m \<le> tm_now m' \<and>
     (\<forall>k r. rate_of p k = Some r \<longrightarrow>
        potential (tm_state m') k r (tm_now m') + of_nat (tm_admitted m' k)
        \<le> potential (tm_state m) k r (tm_now m) + of_nat (tm_admitted m k)
           + requests_per_second r * (tm_now m' - tm_now m))"

lemma policy_scopes_cases:
  assumes "sc \<in> set (policy_scopes p)"
  obtains "sc = global_scope p"
  | key l where "l \<in> snd ` (set (tp_endpoint_limits p) \<union> set (tp_principal_limits p))"
      "sc = scope_from_limit key l"
  using assms unfolding policy_scopes_def by fastforce

lemma policy_scopes_limits:
  assumes "policy_ok p" "sc \<in> set (policy_scopes p)"
  shows "(as_rate_limit sc = Some r \<longrightarrow> rate_ok r) \<and>
    (as_concurrency_limit sc = Some c \<longrightarrow> 0 < max_concurrent c)"
  using assms(2)
proof (cases rule: policy_scopes_cases)
  case 1
  with assms(1) show ?thesis by (auto simp: policy_ok_def global_scope_def)
next
  case (2 key l)
  then have "limit_ok l" using assms(1) by (auto simp: policy_ok_def list_all_iff)
  with 2 show ?thesis by (auto simp: limit_ok_def scope_from_limit_def)
qed

lemma policy_rate_ok: "policy_ok p \<Longrightarrow> rate_of p k = Some r \<Longrightarrow> rate_ok r"
  using policy_scopes_limits
  by (auto simp: rate_of_def scope_of_def dest!: find_SomeD split: bind_splits)

lemma req_scopes_rate:
  "policy_ok p \<Longrightarrow> sc \<in> set (req_scopes p req) \<Longrightarrow> as_rate_limit sc = Some r \<Longrightarrow> rate_of p (as_key sc) = Some r"
  by (simp add: rate_of_def req_scopes_scope_of)

lemma req_scopes_cap:
  "policy_ok p \<Longrightarrow> k \<in> conc_keys (req_scopes p req) \<Longrightarrow> cap_of p k = Some c \<Longrightarrow>
   \<exists>sc\<in>set (req_scopes p req). as_key sc = k \<and> as_concurrency_limit sc = Some c"
  by (auto simp: cap_of_def conc_keys_def req_scopes_scope_of)

lemma req_scopes_rate_key:
  "policy_ok p \<Longrightarrow> k \<in> rate_keys (req_scopes p req) \<Longrightarrow>
   \<exists>sc r. sc \<in> set (req_scopes p req) \<and> as_key sc = k \<and> as_rate_limit sc = Some r \<and> rate_of p k = Some r"
  by (auto simp: rate_keys_def req_scopes_rate)

lemma fresh_ok:
  assumes "rate_ok r" and "\<And>b. buckets st k = Some b \<Longrightarrow> bucket_ok r now b"
  shows "bucket_ok r now (fresh st k r now)"
proof (cases "buckets st k")
  case (Some b)
  with assms have "0 \<le> (now - last_refill b) * requests_per_second r" "bucket_ok r now b"
    by (auto simp: bucket_ok_def rate_ok_def)
  then show ?thesis using Some assms(1)
    by (auto simp: fresh_def refill_def bucket_ok_def rate_ok_def max_def)
qed (use assms(1) in \<open>auto simp: fresh_def bucket_ok_def rate_ok_def\<close>)

lemma in_flight_Cons:
  "in_flight p (r # rs) k = in_flight p rs k + (if k \<in> conc_keys (req_scopes p r) then 1 else 0)"
  by (simp add: in_flight_def)

lemma in_flight_remove:
  "r \<in> set rs \<Longrightarrow> in_flight p rs k = in_flight p (remove1 r rs) k + (if k \<in> conc_keys (req_scopes p r) then 1 else 0)"
  by (induction rs) (auto simp: in_flight_def)

lemma active_count_inv: "traffic_inv p m \<Longrightarrow> active_count (tm_state m) k = int (in_flight p (tm_flight m) k)"
  by (simp add: traffic_inv_def active_count_def Let_def)

lemma leave_in_flight:
  assumes "traffic_inv p m" "req \<in> set (tm_flight m)"
  shows "\<exists>st. leave p (tm_state m) req = Inr st \<and> buckets st = buckets (tm_state m) \<and>
     (\<forall>k. active_by_scope st k =
        (if k \<in> conc_keys (req_scopes p req)
         then (if active_count (tm_state m) k = 1 then None else Some (active_count (tm_state m) k - 1))
         else active_by_scope (tm_state m) k))"
  by (rule leave_ok) (use assms in_flight_remove [OF assms(2), of p] in \<open>simp add: traffic_inv_def\<close>)

lemma potential_bucket:
  "buckets st k = Some b \<Longrightarrow> bucket_ok r now b \<Longrightarrow>
   potential st k r now = min (of_int (burst r)) (tokens b + (now - last_refill b) * requests_per_second r)"
  by (simp add: potential_def fresh_def refill_def bucket_ok_def max_def)

lemma potential_at_refill:
  "buckets st k = Some b \<Longrightarrow> last_refill b = now \<Longrightarrow>
   potential st k r now = min (of_int (burst r)) (tokens b)"
  by (simp add: potential_def fresh_def refill_def)

lemma fresh_last [simp]: "last_refill (fresh st k r now) = now"
  by (simp add: fresh_def refill_def split: option.splits)

lemma potential_tick:
  assumes "rate_ok r" and "\<And>b. buckets st k = Some b \<Longrightarrow> bucket_ok r now b" and "now \<le> now'"
  shows "potential st k r now' \<le> potential st k r now + requests_per_second r * (now' - now)"
proof (cases "buckets st k")
  case None
  then show ?thesis using assms by (simp add: potential_def fresh_def rate_ok_def)
next
  case (Some b)
  have "bucket_ok r now' b" using assms(2) [OF Some] assms(3) by (auto simp: bucket_ok_def)
  moreover have "0 \<le> requests_per_second r * (now' - now)" using assms by (simp add: rate_ok_def)
  ultimately show ?thesis
    using potential_bucket [OF Some] assms(2) [OF Some] by (auto simp: algebra_simps min_def)
qed

lemma inv_rate:
  "traffic_inv p m \<Longrightarrow> rate_of p k = Some r \<Longrightarrow> buckets (tm_state m) k = Some b \<Longrightarrow> bucket_ok r (tm_now m) b"
  by (force simp: traffic_inv_def)

lemma inv_fresh_ok:
  "policy_ok p \<Longrightarrow> traffic_inv p m \<Longrightarrow> rate_of p k = Some r \<Longrightarrow>
   bucket_ok r (tm_now m) (fresh (tm_state m) k r (tm_now m))"
  by (auto intro: fresh_ok policy_rate_ok inv_rate)

lemma potential_bounds:
  "policy_ok p \<Longrightarrow> traffic_inv p m \<Longrightarrow> rate_of p k = Some r \<Longrightarrow>
   0 \<le> potential (tm_state m) k r (tm_now m) \<and> potential (tm_state m) k r (tm_now m) \<le> of_int (burst r)"
  using inv_fresh_ok by (auto simp: potential_def bucket_ok_def)

text \<open>How each step moves the potential of a key.\<close>

lemma refused_potential:
  assumes ok: "policy_ok p" "traffic_inv p m" and r: "rate_of p k = Some r"
    and ref: "refilled_only (req_scopes p req) (tm_now m) (tm_state m) st"
  shows "potential st k r (tm_now m) = potential (tm_state m) k r (tm_now m)"
proof -
  have "buckets st k = buckets (tm_state m) k \<or> buckets st k = Some (fresh (tm_state m) k r (tm_now m))"
    using ref req_scopes_rate [OF ok(1)] r by (fastforce simp: refilled_only_def)
  then show ?thesis
  proof
    assume "buckets st k = Some (fresh (tm_state m) k r (tm_now m))"
    from potential_at_refill [OF this fresh_last] inv_fresh_ok [OF ok r] show ?thesis
      by (simp add: potential_def bucket_ok_def)
  qed (simp add: potential_def fresh_def)
qed

lemma admitted_potential:
  assumes ok: "policy_ok p" "traffic_inv p m" and r: "rate_of p k = Some r"
    and ent: "enter p (tm_state m) (tm_now m) req = Inr (st, None)"
  shows "potential st k r (tm_now m) =
    potential (tm_state m) k r (tm_now m) - (if k \<in> rate_keys (req_scopes p req) then 1 else 0)"
proof (cases "k \<in> rate_keys (req_scopes p req)")
  case True
  then obtain sc where sc: "sc \<in> set (req_scopes p req)" "as_key sc = k" "as_rate_limit sc = Some r"
    using req_scopes_rate_key [OF ok(1)] r by fastforce
  let ?b = "fresh (tm_state m) k r (tm_now m)"
  have "buckets st k = Some (?b\<lparr>tokens := tokens ?b - 1\<rparr>)"
    using enter_admitted(3) [OF ent] sc by blast
  from potential_at_refill [OF this, of "tm_now m" r] True inv_fresh_ok [OF ok r] show ?thesis
    by (simp add: potential_def bucket_ok_def)
next
  case False
  with enter_admitted(4) [OF ent] show ?thesis by (simp add: potential_def fresh_def)
qed

text \<open>Preservation.\<close>

lemma traffic_inv_init: "policy_ok p \<Longrightarrow> tm_init m \<Longrightarrow> traffic_inv p m"
proof -
  assume ok: "policy_ok p" and init: "tm_init m"
  have "0 < max_concurrent c" if "cap_of p k = Some c" for k c
  proof -
    from that obtain sc where "sc \<in> set (policy_scopes p)" "as_concurrency_limit sc = Some c"
      by (auto simp: cap_of_def scope_of_def dest!: find_SomeD split: bind_splits)
    then show ?thesis using policy_scopes_limits [OF ok] by blast
  qed
  with init show ?thesis by (auto simp: traffic_inv_def tm_init_def in_flight_def order.strict_implies_order)
qed

lemma traffic_inv_step:
  assumes ok: "policy_ok p" and m: "traffic_inv p m" and step: "traffic_step p m m'"
  shows "traffic_inv p m'"
  using step
proof cases
  case (tick now)
  have "bucket_ok r now b" if "bucket_ok r (tm_now m) b" for r b using that tick by (auto simp: bucket_ok_def)
  with m tick show ?thesis unfolding traffic_inv_def by simp blast
next
  case (admitted req st)
  let ?rs = "req # tm_flight m"
  note adm = enter_admitted [OF admitted(2)]
  have "active_by_scope st k = (let n = in_flight p ?rs k in if n = 0 then None else Some (int n))" for k
    using m active_count_inv [OF m, of k]
    by (simp add: adm(2) in_flight_Cons traffic_inv_def Let_def)
  moreover have "int (in_flight p ?rs k) \<le> max_concurrent c" if c: "cap_of p k = Some c" for k c
  proof (cases "k \<in> conc_keys (req_scopes p req)")
    case True
    with req_scopes_cap [OF ok True c] adm(1) have "active_count (tm_state m) k < max_concurrent c" by blast
    with True active_count_inv [OF m, of k] show ?thesis by (simp add: in_flight_Cons)
  next
    case False
    with m c show ?thesis by (simp add: in_flight_Cons traffic_inv_def)
  qed
  moreover have "\<exists>r. rate_of p k = Some r \<and> bucket_ok r (tm_now m) b" if b: "buckets st k = Some b" for k b
  proof (cases "k \<in> rate_keys (req_scopes p req)")
    case True
    then obtain sc r where sc: "sc \<in> set (req_scopes p req)" "as_key sc = k" "as_rate_limit sc = Some r"
      and r: "rate_of p k = Some r" using req_scopes_rate_key [OF ok] by blast
    have "b = (fresh (tm_state m) k r (tm_now m))\<lparr>tokens := tokens (fresh (tm_state m) k r (tm_now m)) - 1\<rparr>"
      "1 \<le> tokens (fresh (tm_state m) k r (tm_now m))" using adm(3) sc b by auto
    with inv_fresh_ok [OF ok m r] r show ?thesis by (simp add: bucket_ok_def)
  next
    case False
    with adm(4) b m show ?thesis by (simp add: traffic_inv_def)
  qed
  ultimately show ?thesis using admitted(1) by (simp add: traffic_inv_def)
next
  case (refused req st rej)
  note ref = enter_refused [OF refused(2)]
  have "\<exists>r. rate_of p k = Some r \<and> bucket_ok r (tm_now m) b" if b: "buckets st k = Some b" for k b
  proof (cases "buckets st k = buckets (tm_state m) k")
    case True
    with b m show ?thesis by (simp add: traffic_inv_def)
  next
    case False
    then obtain sc r where "sc \<in> set (req_scopes p req)" "as_key sc = k" "as_rate_limit sc = Some r"
      and "b = fresh (tm_state m) k r (tm_now m)"
      using ref b unfolding refilled_only_def by (metis option.inject)
    moreover from this have "rate_of p k = Some r" using req_scopes_rate [OF ok] by blast
    ultimately have "rate_of p k = Some r" "b = fresh (tm_state m) k r (tm_now m)" by blast+
    then show ?thesis using inv_fresh_ok [OF ok m] by blast
  qed
  with ref m refused(1) show ?thesis by (simp add: traffic_inv_def refilled_only_def)
next
  case (left req st)
  from leave_in_flight [OF m left(2)] left(3) have st: "buckets st = buckets (tm_state m)"
    "\<And>k. active_by_scope st k =
        (if k \<in> conc_keys (req_scopes p req)
         then (if active_count (tm_state m) k = 1 then None else Some (active_count (tm_state m) k - 1))
         else active_by_scope (tm_state m) k)" by auto
  have act: "active_by_scope st k = (let n = in_flight p (remove1 req (tm_flight m)) k
      in if n = 0 then None else Some (int n))" for k
    using m active_count_inv [OF m, of k] in_flight_remove [OF left(2), of p k]
    by (auto simp: st(2) traffic_inv_def Let_def)
  have "int (in_flight p (remove1 req (tm_flight m)) k) \<le> max_concurrent c"
    if "cap_of p k = Some c" for k c
    using m that in_flight_remove [OF left(2), of p k] by (fastforce simp: traffic_inv_def)
  with m left(1) st(1) act show ?thesis by (simp add: traffic_inv_def)
qed

lemma traffic_rel_step:
  assumes ok: "policy_ok p" and m: "traffic_inv p m" and step: "traffic_step p m m'"
  shows "traffic_rel p m m'"
  using step
proof cases
  case (tick now)
  then show ?thesis using potential_tick [OF policy_rate_ok [OF ok] inv_rate [OF m]]
    by (simp add: traffic_rel_def)
next
  case (admitted req st)
  then show ?thesis using admitted_potential [OF ok m] by (simp add: traffic_rel_def)
next
  case (refused req st rej)
  then show ?thesis using refused_potential [OF ok m _ enter_refused] by (simp add: traffic_rel_def)
next
  case (left req st)
  from leave_in_flight [OF m left(2)] left(3) have "buckets st = buckets (tm_state m)" by auto
  with left(1) show ?thesis by (simp add: traffic_rel_def potential_def fresh_def)
qed

text \<open>The machine of a validated policy, and what its runs keep.\<close>

definition policy_step :: "traffic_policy_config \<Rightarrow> traffic_machine \<Rightarrow> traffic_machine \<Rightarrow> bool" where
  "policy_step p m m' \<longleftrightarrow> policy_ok p \<and> traffic_step p m m'"

interpretation traffic: invariant_system "\<lambda>m. policy_ok p \<and> tm_init m" "policy_step p" "traffic_inv p" for p
  by unfold_locales (auto simp: policy_step_def intro: traffic_inv_init traffic_inv_step)

interpretation traffic_mono: monotone_system "policy_step p" "traffic_inv p" "traffic_rel p" for p
proof
  show "traffic_rel p s s" for s by (simp add: traffic_rel_def)
  show "traffic_rel p s u" if "traffic_rel p s t" "traffic_rel p t u" for s t u
    using that by (fastforce simp: traffic_rel_def algebra_simps)
qed (auto simp: policy_step_def intro: traffic_rel_step traffic_inv_step)

lemma enter_total: "\<exists>r. enter p st now req = Inr r"
proof (cases "rs_type req = ''http'' \<and> tp_enabled p")
  case True
  let ?scs = "scopes_for p req"
  show ?thesis
  proof (cases "check_concurrency st ?scs")
    case None
    obtain st' rej where cr: "check_rates st now ?scs = (st', rej)" by fastforce
    show ?thesis
    proof (cases rej)
      assume rej: "rej = None"
      from check_rates_table(2) [OF scopes_for_distinct cr rej]
      have "\<And>k. k \<in> rate_keys ?scs \<Longrightarrow> buckets st' k \<noteq> None" by (force simp: rate_keys_def)
      from foldE_take_token [of "scopes_for p req" st', OF scopes_for_distinct this] None True cr rej show ?thesis
        by (auto simp: enter_def Let_def admit_locked_def)
    qed (use None True cr in \<open>simp add: enter_def Let_def admit_locked_def\<close>)
  qed (use True in \<open>simp add: enter_def Let_def admit_locked_def\<close>)
qed (simp add: enter_def)

section \<open>Properties\<close>

text \<open>
  \<^bold>\<open>C22.\<close> In every state the machine reaches under a validated policy, the counter of a key is
  the number of admitted requests in flight under it, and it never exceeds the configured
  \<^verbatim>\<open>max_concurrent\<close>.
\<close>

theorem concurrency_bounded:
  assumes "reach (\<lambda>m. policy_ok p \<and> tm_init m) (policy_step p) m"
  shows "active_count (tm_state m) k = int (in_flight p (tm_flight m) k) \<and>
    (\<forall>c. cap_of p k = Some c \<longrightarrow> active_count (tm_state m) k \<le> max_concurrent c)"
proof -
  have inv: "traffic_inv p m" by (rule traffic.reach_inv [OF assms])
  then have "\<forall>c. cap_of p k = Some c \<longrightarrow> int (in_flight p (tm_flight m) k) \<le> max_concurrent c"
    unfolding traffic_inv_def by blast
  then show ?thesis using active_count_inv [OF inv] by simp
qed

text \<open>
  Entry and exit never raise: admission always answers, and the \<^verbatim>\<open>finally\<close> block of a
  request in flight finds every counter it decrements.
\<close>

theorem leave_never_raises:
  assumes "reach (\<lambda>m. policy_ok p \<and> tm_init m) (policy_step p) m"
  shows "(\<exists>r. enter p (tm_state m) now req = Inr r) \<and>
    (req \<in> set (tm_flight m) \<longrightarrow> (\<exists>st. leave p (tm_state m) req = Inr st))"
proof (intro conjI impI)
  show "\<exists>r. enter p (tm_state m) now req = Inr r" by (rule enter_total)
  assume "req \<in> set (tm_flight m)"
  from leave_in_flight [OF traffic.reach_inv [OF assms] this]
  show "\<exists>st. leave p (tm_state m) req = Inr st" by auto
qed

text \<open>
  \<^bold>\<open>C23.\<close> Over any interval of a run, the requests admitted under a key number at most its
  burst plus its rate times the length of the interval, however many requests arrive.
\<close>

theorem admission_rate_bounded:
  assumes "reach (\<lambda>m. policy_ok p \<and> tm_init m) (policy_step p) m"
    and "(policy_step p)\<^sup>*\<^sup>* m m'" and "rate_of p k = Some r" and "policy_ok p"
  shows "of_nat (tm_admitted m' k) - of_nat (tm_admitted m k)
    \<le> (of_int (burst r) :: rat) + requests_per_second r * (tm_now m' - tm_now m)"
proof -
  have rel: "traffic_rel p m m'" and "traffic_inv p m'"
    using traffic_mono.run_rel [OF assms(2) traffic.reach_inv [OF assms(1)]] by auto
  then have "0 \<le> potential (tm_state m') k r (tm_now m')"
    "potential (tm_state m) k r (tm_now m) \<le> of_int (burst r)"
    using potential_bounds [OF assms(4) _ assms(3)] traffic.reach_inv [OF assms(1)] by blast+
  with rel assms(3) show ?thesis by (force simp: traffic_rel_def)
qed

text \<open>A policy with a burst of one and one request in flight, for the witnesses.\<close>

definition ex_policy :: traffic_policy_config where
  "ex_policy = \<lparr>tp_enabled = True, tp_rate_limit = \<lparr>requests_per_second = 1, burst = 1\<rparr>,
     tp_concurrency_limit = \<lparr>max_concurrent = 1\<rparr>,
     tp_endpoint_limits = [(''/a'', \<lparr>tl_rate_limit = Some \<lparr>requests_per_second = 2, burst = 3\<rparr>,
       tl_concurrency_limit = None\<rparr>)],
     tp_principal_limits = []\<rparr>"

definition ex_req :: request_scope where
  "ex_req = \<lparr>rs_type = ''http'', rs_path = Some ''/a/b'', rs_principal = None\<rparr>"

definition ex_idle :: traffic_machine where
  "ex_idle = \<lparr>tm_now = 0, tm_state = \<lparr>active_requests = 0, active_by_scope = Map.empty, buckets = Map.empty\<rparr>,
     tm_flight = [], tm_admitted = (\<lambda>_. 0)\<rparr>"

definition ex_busy :: traffic_machine where
  "ex_busy = ex_idle\<lparr>
     tm_state := \<lparr>active_requests = 1, active_by_scope = [''global'' \<mapsto> 1],
        buckets = [''global'' \<mapsto> \<lparr>tokens = 0, last_refill = 0\<rparr>,
                   ''endpoint:/a'' \<mapsto> \<lparr>tokens = 2, last_refill = 0\<rparr>]\<rparr>,
     tm_flight := [ex_req],
     tm_admitted := (\<lambda>k. if k \<in> {''global'', ''endpoint:/a''} then 1 else 0)\<rparr>"

lemma ex_policy_ok: "policy_ok ex_policy"
  by (simp add: ex_policy_def policy_ok_def rate_ok_def limit_ok_def validate_unique_scopes_def)

lemma ex_enter: "enter ex_policy (tm_state ex_idle) 0 ex_req = Inr (tm_state ex_busy, None)"
  by (simp add: enter_def ex_policy_def ex_req_def ex_idle_def ex_busy_def scopes_for_def endpoint_limit_def
      admit_locked_def has_rate_token_def take_token_def count_in_def publish_active_def active_count_def
      global_scope_def scope_from_limit_def Let_def)

lemma ex_now: "tm_now ex_idle = 0"
  by (simp add: ex_idle_def)

lemma ex_busy_step: "policy_step ex_policy ex_idle ex_busy"
proof -
  have "rate_keys (req_scopes ex_policy ex_req) = {''global'', ''endpoint:/a''}"
    by (auto simp: req_scopes_def ex_policy_def ex_req_def scopes_for_def endpoint_limit_def
        global_scope_def scope_from_limit_def)
  with traffic_step.admitted [OF ex_enter [folded ex_now]] have "traffic_step ex_policy ex_idle ex_busy"
    by (simp add: ex_busy_def ex_idle_def)
  then show ?thesis by (simp add: policy_step_def ex_policy_ok)
qed

lemma ex_idle_reached: "reach (\<lambda>m. policy_ok ex_policy \<and> tm_init m) (policy_step ex_policy) ex_idle"
  by (rule reach_init) (simp add: ex_policy_ok tm_init_def ex_idle_def)

lemma ex_busy_reached: "reach (\<lambda>m. policy_ok ex_policy \<and> tm_init m) (policy_step ex_policy) ex_busy"
  by (rule reach_step) (rule ex_idle_reached, rule ex_busy_step)

text \<open>The cap is reached in \<open>ex_busy\<close>: the bound is tight.\<close>

theorem concurrency_bounded_witness:
  "active_count (tm_state ex_busy) ''global'' = 1 \<and> cap_of ex_policy ''global'' = Some \<lparr>max_concurrent = 1\<rparr> \<and>
   int (in_flight ex_policy [ex_req] ''global'') = 1"
  using concurrency_bounded [OF ex_busy_reached, of "''global''"]
  by (simp add: ex_busy_def ex_idle_def active_count_def cap_of_def scope_of_def policy_scopes_def
      global_scope_def ex_policy_def)

theorem leave_never_raises_witness:
  "ex_req \<in> set (tm_flight ex_busy) \<and> (\<exists>st. leave ex_policy (tm_state ex_busy) ex_req = Inr st)"
proof -
  have "ex_req \<in> set (tm_flight ex_busy)" by (simp add: ex_busy_def)
  with leave_never_raises [OF ex_busy_reached, of 0 ex_req] show ?thesis by blast
qed

theorem admission_rate_bounded_witness:
  "of_nat (tm_admitted ex_busy ''global'') - of_nat (tm_admitted ex_idle ''global'') = (1 :: rat) \<and>
   of_nat (tm_admitted ex_busy ''global'') - of_nat (tm_admitted ex_idle ''global'')
     \<le> (of_int 1 :: rat) + 1 * (tm_now ex_busy - tm_now ex_idle)"
proof -
  have run: "(policy_step ex_policy)\<^sup>*\<^sup>* ex_idle ex_busy"
    by (rule r_into_rtranclp) (rule ex_busy_step)
  have rate: "rate_of ex_policy ''global'' = Some \<lparr>requests_per_second = 1, burst = 1\<rparr>"
    by (simp add: rate_of_def scope_of_def policy_scopes_def global_scope_def ex_policy_def)
  from admission_rate_bounded [OF ex_idle_reached run rate ex_policy_ok]
  show ?thesis by (simp add: ex_busy_def ex_idle_def)
qed

end
