(* ===== verification/Py_Text.thy ===== *)
theory Py_Text
  imports Py_Value "HOL-Library.Sublist" "HOL-Library.Char_ord" "HOL-Library.List_Lexorder"
begin

text \<open>
  The string operations of Python the modelled code uses: decimal rendering and parsing of
  integers, \<^verbatim>\<open>partition\<close>, \<^verbatim>\<open>startswith\<close>, \<^verbatim>\<open>strip\<close>, the UTF-8 length and the compact form of
  \<^verbatim>\<open>json.dumps\<close>. A Python string is a list of characters, a character stands for the code point
  of its byte value, and the text of a float (\<^verbatim>\<open>float.__repr__\<close>) is an argument.
\<close>

section \<open>Decimal integers\<close>

definition digit_char :: "nat \<Rightarrow> char" where
  "digit_char n = char_of (48 + n)"

definition is_digit :: "char \<Rightarrow> bool" where
  "is_digit c \<longleftrightarrow> 48 \<le> (of_char c :: nat) \<and> (of_char c :: nat) \<le> 57"

fun dec :: "nat \<Rightarrow> string" where
  "dec n = (if n < 10 then [digit_char n] else dec (n div 10) @ [digit_char (n mod 10)])"

declare dec.simps [simp del]

definition undec :: "string \<Rightarrow> nat" where
  "undec s = foldl (\<lambda>a c. a * 10 + (of_char c - 48)) 0 s"

definition show_int :: "int \<Rightarrow> string" where
  "show_int n = (if n < 0 then ''-'' @ dec (nat (- n)) else dec (nat n))"

text \<open>\<^verbatim>\<open>s.isascii() and s.isdecimal()\<close>.\<close>

definition is_decimal :: "string \<Rightarrow> bool" where
  "is_decimal s \<longleftrightarrow> s \<noteq> [] \<and> list_all is_digit s"

lemma of_digit_char: "n < 10 \<Longrightarrow> of_char (digit_char n) = 48 + n"
  by (simp add: digit_char_def)

lemma digit_char_eval [owa_eval]:
  "digit_char 0 = CHR ''0''" "digit_char 1 = CHR ''1''" "digit_char 2 = CHR ''2''"
  "digit_char 3 = CHR ''3''" "digit_char 4 = CHR ''4''"
  by code_simp+

lemma is_digit_digit_char [simp]: "n < 10 \<Longrightarrow> is_digit (digit_char n)"
  by (simp add: is_digit_def of_digit_char)

lemma dec_decimal [simp]: "is_decimal (dec n)"
proof (induction n rule: dec.induct)
  case (1 n)
  then show ?case by (subst dec.simps) (auto simp: is_decimal_def)
qed

lemma undec_dec [simp]: "undec (dec n) = n"
proof (induction n rule: dec.induct)
  case (1 n)
  show ?case
  proof (cases "n < 10")
    case True
    then show ?thesis by (subst dec.simps) (simp add: undec_def of_digit_char)
  next
    case False
    then have "dec n = dec (n div 10) @ [digit_char (n mod 10)]" by (subst dec.simps) simp
    with 1 [OF False] show ?thesis by (simp add: undec_def of_digit_char)
  qed
qed

lemma dec_inj [simp]: "dec m = dec n \<longleftrightarrow> m = n"
  by (metis undec_dec)

lemma dec_hd: "0 < n \<Longrightarrow> hd (dec n) \<noteq> CHR ''0''"
proof (induction n rule: dec.induct)
  case (1 n)
  have "digit_char n \<noteq> CHR ''0''" if "0 < n" "n < 10"
    using of_digit_char [OF that(2)] that(1) by auto
  moreover have "dec (n div 10) \<noteq> []" using dec_decimal by (auto simp: is_decimal_def)
  ultimately show ?case using 1 by (subst dec.simps) auto
qed

lemma dec_Nil [simp]: "dec n \<noteq> []"
  using dec_decimal [of n] by (auto simp: is_decimal_def)

lemma decimal_no_colon: "is_decimal s \<Longrightarrow> CHR '':'' \<notin> set s"
  by (auto simp: is_decimal_def list_all_iff is_digit_def)

lemma dec_mono_length: "m \<le> n \<Longrightarrow> length (dec m) \<le> length (dec n)"
proof (induction n arbitrary: m rule: dec.induct)
  case (1 n)
  show ?case
  proof (cases "m < 10")
    case True
    then have "length (dec m) = 1" by (subst dec.simps) simp
    then show ?thesis by (cases "dec n") auto
  next
    case False
    with 1(2) have "\<not> n < 10" by simp
    moreover have "m div 10 \<le> n div 10" using 1(2) by (simp add: div_le_mono)
    ultimately have "length (dec (m div 10)) \<le> length (dec (n div 10))" using 1(1) by blast
    then show ?thesis using False \<open>\<not> n < 10\<close> by (subst (1 2) dec.simps) simp
  qed
qed

section \<open>Splitting\<close>

text \<open>\<^verbatim>\<open>s.partition(c)\<close> for a one-character separator.\<close>

definition str_partition :: "char \<Rightarrow> string \<Rightarrow> string \<times> string \<times> string" where
  "str_partition c s =
     (takeWhile (\<lambda>x. x \<noteq> c) s, if c \<in> set s then [c] else [], tl (dropWhile (\<lambda>x. x \<noteq> c) s))"

lemma str_partition_append [simp]:
  "c \<notin> set a \<Longrightarrow> str_partition c (a @ c # b) = (a, [c], b)"
proof -
  assume "c \<notin> set a"
  then have "\<forall>x\<in>set a. x \<noteq> c" by auto
  then show ?thesis by (simp add: str_partition_def takeWhile_append dropWhile_append)
qed

lemma str_partition_join: "case str_partition c s of (a, sep, b) \<Rightarrow> a @ sep @ b = s"
proof (cases "c \<in> set s")
  case True
  then obtain a b where "s = a @ c # b" "c \<notin> set a" by (meson split_list_first)
  then show ?thesis by simp
next
  case False
  then have tw: "takeWhile (\<lambda>x. x \<noteq> c) s = s" and dw: "dropWhile (\<lambda>x. x \<noteq> c) s = []"
    by (auto simp: takeWhile_eq_all_conv)
  show ?thesis unfolding str_partition_def tw dw using False by simp
qed

text \<open>\<^verbatim>\<open>s.split(c)\<close> for a one-character separator, and its inverse \<^verbatim>\<open>c.join(parts)\<close>.\<close>

fun str_split :: "char \<Rightarrow> string \<Rightarrow> string list" where
  "str_split c [] = [[]]"
| "str_split c (x # xs) =
     (if x = c then [] # str_split c xs
      else case str_split c xs of [] \<Rightarrow> [[x]] | p # ps \<Rightarrow> (x # p) # ps)"

fun str_join :: "string \<Rightarrow> string list \<Rightarrow> string" where
  "str_join sep [] = []"
| "str_join sep [p] = p"
| "str_join sep (p # q # ps) = p @ sep @ str_join sep (q # ps)"

lemma str_split_ne [simp]: "str_split c s \<noteq> []"
  by (induction s) (auto split: list.splits)

lemma str_join_split: "str_join [c] (str_split c s) = s"
proof (induction s)
  case (Cons x xs)
  obtain p ps where p: "str_split c xs = p # ps" by (cases "str_split c xs") auto
  then show ?case using Cons by (cases ps) auto
qed simp

lemma str_split_no_sep: "c \<notin> set p \<Longrightarrow> str_split c p = [p]"
  by (induction p) auto

lemma str_split_append: "c \<notin> set p \<Longrightarrow> str_split c (p @ c # s) = p # str_split c s"
  by (induction p) auto

lemma str_split_join:
  "ps \<noteq> [] \<Longrightarrow> (\<And>p. p \<in> set ps \<Longrightarrow> c \<notin> set p) \<Longrightarrow> str_split c (str_join [c] ps) = ps"
  by (induction "[c]" ps rule: str_join.induct) (auto simp: str_split_no_sep str_split_append)

section \<open>White space and UTF-8\<close>

definition is_space :: "char \<Rightarrow> bool" where
  "is_space c \<longleftrightarrow> (let n = (of_char c :: nat) in
     n \<in> {9, 10, 11, 12, 13, 28, 29, 30, 31, 32, 133, 160})"

definition str_strip :: "string \<Rightarrow> string" where
  "str_strip s = rev (dropWhile is_space (rev (dropWhile is_space s)))"

definition utf8_length :: "string \<Rightarrow> nat" where
  "utf8_length s = sum_list (map (\<lambda>c. if (of_char c :: nat) < 128 then 1 else 2) s)"

lemma length_utf8_length: "length s \<le> utf8_length s"
  by (induction s) (auto simp: utf8_length_def)

section \<open>JSON text\<close>

text \<open>
  \<^verbatim>\<open>json.dumps(v, ensure_ascii=False, allow_nan=False, separators=(",", ":"))\<close>. A float that is
  not finite raises \<^const>\<open>ValueError\<close>, an object of another type \<^const>\<open>TypeError\<close>.
\<close>

definition hex_char :: "nat \<Rightarrow> char" where
  "hex_char n = (if n < 10 then char_of (48 + n) else char_of (87 + n))"

definition json_escape :: "bool \<Rightarrow> char \<Rightarrow> string" where
  "json_escape ensure_ascii c = (let n = (of_char c :: nat) in
     if n = 34 then [char_of (92 :: nat), char_of (34 :: nat)]
     else if n = 92 then [char_of (92 :: nat), char_of (92 :: nat)]
     else if n = 10 then [char_of (92 :: nat), CHR ''n'']
     else if n = 13 then [char_of (92 :: nat), CHR ''r'']
     else if n = 9 then [char_of (92 :: nat), CHR ''t'']
     else if n = 8 then [char_of (92 :: nat), CHR ''b'']
     else if n = 12 then [char_of (92 :: nat), CHR ''f'']
     else if n < 32 \<or> ensure_ascii \<and> 126 < n then [char_of (92 :: nat), CHR ''u'', CHR ''0'', CHR ''0'', hex_char (n div 16), hex_char (n mod 16)]
     else [c])"

definition json_string :: "bool \<Rightarrow> string \<Rightarrow> string" where
  "json_string ensure_ascii s = [char_of (34 :: nat)] @ concat (map (json_escape ensure_ascii) s) @ [char_of (34 :: nat)]"

fun json_dumps :: "bool \<Rightarrow> (rat \<Rightarrow> string) \<Rightarrow> pyval \<Rightarrow> string res" where
  "json_dumps ensure_ascii float_repr PNone = Inr ''null''"
| "json_dumps ensure_ascii float_repr (PBool b) = Inr (if b then ''true'' else ''false'')"
| "json_dumps ensure_ascii float_repr (PInt n) = Inr (show_int n)"
| "json_dumps ensure_ascii float_repr (PFloat (FFin q)) = Inr (float_repr q)"
| "json_dumps ensure_ascii float_repr (PFloat _) = Inl ValueError"
| "json_dumps ensure_ascii float_repr (PStr s) = Inr (json_string ensure_ascii s)"
| "json_dumps ensure_ascii float_repr (PList vs) =
     bindE (mapE (json_dumps ensure_ascii float_repr) vs) (\<lambda>ts. Inr (''['' @ str_join '','' ts @ '']''))"
| "json_dumps ensure_ascii float_repr (PDict kvs) =
     bindE (mapE (\<lambda>kv. bindE (json_dumps ensure_ascii float_repr (snd kv)) (\<lambda>t.
         Inr (json_string ensure_ascii (fst kv) @ '':'' @ t))) kvs) (\<lambda>ts.
       Inr (''{'' @ str_join '','' ts @ ''}''))"
| "json_dumps ensure_ascii float_repr (POther _) = Inl TypeError"

text \<open>The same with the default separators, \<^verbatim>\<open>", "\<close> and \<^verbatim>\<open>": "\<close>: the text of a stored payload.\<close>

fun json_spaced :: "bool \<Rightarrow> (rat \<Rightarrow> string) \<Rightarrow> pyval \<Rightarrow> string res" where
  "json_spaced ensure_ascii float_repr (PList vs) =
     bindE (mapE (json_spaced ensure_ascii float_repr) vs) (\<lambda>ts. Inr (''['' @ str_join '', '' ts @ '']''))"
| "json_spaced ensure_ascii float_repr (PDict kvs) =
     bindE (mapE (\<lambda>kv. bindE (json_spaced ensure_ascii float_repr (snd kv)) (\<lambda>t.
         Inr (json_string ensure_ascii (fst kv) @ '': '' @ t))) kvs) (\<lambda>ts.
       Inr (''{'' @ str_join '', '' ts @ ''}''))"
| "json_spaced ensure_ascii float_repr v = json_dumps ensure_ascii float_repr v"

lemma mapE_total: "(\<And>x. x \<in> set xs \<Longrightarrow> \<exists>y. f x = Inr y) \<Longrightarrow> \<exists>ys. mapE f xs = Inr ys"
  by (induction xs) fastforce+

lemma json_dumps_total: "json_ok v \<Longrightarrow> \<exists>t. json_dumps ensure_ascii float_repr v = Inr t"
proof (induction v)
  case (PFloat f)
  then show ?case by (cases f) (simp_all add: safe_float_def)
next
  case (PList xs)
  then have "\<exists>ts. mapE (json_dumps ensure_ascii float_repr) xs = Inr ts" by (intro mapE_total) simp
  then show ?case by auto
next
  case (PDict kvs)
  have "\<exists>t. json_dumps ensure_ascii float_repr (snd kv) = Inr t" if "kv \<in> set kvs" for kv
    using PDict that by (cases kv) (auto simp: snds.simps)
  then have "\<exists>ts. mapE (\<lambda>kv. bindE (json_dumps ensure_ascii float_repr (snd kv)) (\<lambda>t.
      Inr (json_string ensure_ascii (fst kv) @ '':'' @ t))) kvs = Inr ts"
    by (intro mapE_total) auto
  then show ?case by auto
qed simp_all

lemma json_spaced_total: "json_ok v \<Longrightarrow> \<exists>t. json_spaced ensure_ascii float_repr v = Inr t"
proof (induction v)
  case (PList xs)
  then have "\<exists>ts. mapE (json_spaced ensure_ascii float_repr) xs = Inr ts" by (intro mapE_total) simp
  then show ?case by auto
next
  case (PDict kvs)
  have "\<exists>t. json_spaced ensure_ascii float_repr (snd kv) = Inr t" if "kv \<in> set kvs" for kv
    using PDict that by (cases kv) (auto simp: snds.simps)
  then have "\<exists>ts. mapE (\<lambda>kv. bindE (json_spaced ensure_ascii float_repr (snd kv)) (\<lambda>t.
      Inr (json_string ensure_ascii (fst kv) @ '': '' @ t))) kvs = Inr ts"
    by (intro mapE_total) auto
  then show ?case by auto
qed (simp_all add: json_dumps_total del: json_dumps.simps)

text \<open>\<^verbatim>\<open>sort_keys=True\<close>: what a value reads back as after it was dumped with sorted keys.\<close>

fun sort_keys :: "pyval \<Rightarrow> pyval" where
  "sort_keys (PList vs) = PList (map sort_keys vs)"
| "sort_keys (PDict kvs) = PDict (sort_key fst (map (\<lambda>kv. (fst kv, sort_keys (snd kv))) kvs))"
| "sort_keys v = v"

lemma json_ok_sort_keys [simp]: "json_ok (sort_keys v) = json_ok v"
  by (induction v) (auto simp: snds.simps)

lemma nesting_sort_keys [simp]: "nesting (sort_keys v) = nesting v"
proof (induction v)
  case (PList xs)
  then have "nesting ` sort_keys ` set xs = nesting ` set xs" by (auto simp: image_iff)
  then show ?case by simp
next
  case (PDict kvs)
  then have "nesting (sort_keys (snd x)) = nesting (snd x)" if "x \<in> set kvs" for x
    using that by (metis snds.intros prod.collapse)
  then have "(\<lambda>x. nesting (snd x)) ` (\<lambda>kv. (fst kv, sort_keys (snd kv))) ` set kvs = (\<lambda>x. nesting (snd x)) ` set kvs"
    by (auto simp: image_iff) force+
  moreover have "sort_key fst (map (\<lambda>kv. (fst kv, sort_keys (snd kv))) kvs) = [] \<longleftrightarrow> kvs = []"
    by (metis length_0_conv length_map length_sort)
  ultimately show ?case by simp
qed simp_all

lemma validate_sort_keys [simp]:
  "validate_expression_data d m (sort_keys v) = Inr () \<longleftrightarrow> validate_expression_data d m v = Inr ()"
  by (simp add: validate_accepts)

lemma sort_keys_idem: "sort_keys (sort_keys v) = sort_keys v"
proof (induction v)
  case (PDict kvs)
  then have "sort_keys (sort_keys (snd x)) = sort_keys (snd x)" if "x \<in> set kvs" for x
    using that by (metis snds.intros prod.collapse)
  then have "map (\<lambda>kv. (fst kv, sort_keys (snd kv))) (sort_key fst (map (\<lambda>kv. (fst kv, sort_keys (snd kv))) kvs))
      = sort_key fst (map (\<lambda>kv. (fst kv, sort_keys (snd kv))) kvs)"
    by (auto intro!: map_idI)
  then show ?case by (simp add: sort_key_id_if_sorted)
qed auto

end
