(* ===== verification/Native_Streams.thy ===== *)
theory Native_Streams
  imports Py_Text
begin

text \<open>
  The observation log of one invocation (\<^verbatim>\<open>native_streams.py\<close>): a ring of JSON frames bounded
  by count and bytes, and its subscriptions, each a bounded queue that is ended when it
  overflows. A subscription object outlives its membership in the subscriber set, so the
  objects are a list indexed by creation order and the set is a list of indices (its
  iteration order is irrelevant: one iteration touches one object). The machine at the end
  runs any sequence of operations and shows the bounds, the numbering of the ring, that a
  cursor replays exactly what follows it, and that a consumer never misses a frame silently.
\<close>

section \<open>Data\<close>

record stream_limits =
  lim_max_events :: nat
  lim_max_bytes :: nat
  lim_max_event_bytes :: nat
  lim_max_subscribers :: nat
  lim_queue_size :: nat

definition limits_post_init :: "stream_limits \<Rightarrow> stream_limits res" where
  "limits_post_init l =
     bindE (guardE (1 \<le> lim_max_events l \<and> lim_max_events l \<le> 1000) ValueError) (\<lambda>_.
     bindE (guardE (1 \<le> lim_max_bytes l \<and> lim_max_bytes l \<le> 16777216) ValueError) (\<lambda>_.
     bindE (guardE (1 \<le> lim_max_event_bytes l \<and> lim_max_event_bytes l \<le> 262144) ValueError) (\<lambda>_.
     bindE (guardE (1 \<le> lim_max_subscribers l \<and> lim_max_subscribers l \<le> 128) ValueError) (\<lambda>_.
     bindE (guardE (1 \<le> lim_queue_size l \<and> lim_queue_size l \<le> 1000) ValueError) (\<lambda>_.
     bindE (guardE (256 \<le> lim_max_event_bytes l \<and> lim_max_event_bytes l \<le> lim_max_bytes l) ValueError) (\<lambda>_.
       Inr l))))))"

record stream_frame =
  fr_event_id :: string
  fr_payload :: string

datatype queue_item = QFrame stream_frame | QReason string

record subscription =
  sub_queue :: "queue_item list"
  sub_closed :: bool
  sub_finished :: "string option"

record stream_log =
  nl_invocation_id :: string
  nl_limits :: stream_limits
  nl_epoch :: string
  nl_sequence :: nat
  nl_events :: "(nat \<times> stream_frame) list"
  nl_bytes :: nat
  nl_objects :: "subscription list"
  nl_subscribers :: "nat list"
  nl_closed :: bool
  nl_failure :: "string option"
  nl_finished :: "string option"

abbreviation frame_bytes :: "stream_frame \<Rightarrow> nat" where
  "frame_bytes f \<equiv> utf8_length (fr_payload f)"

section \<open>Subscriptions\<close>

definition sub_finish :: "string \<Rightarrow> subscription \<Rightarrow> subscription" where
  "sub_finish reason s =
     (let s' = s\<lparr>sub_finished := Some reason\<rparr>
      in if sub_queue s' = [] then s'\<lparr>sub_queue := [QReason reason]\<rparr> else s')"

definition sub_end :: "string \<Rightarrow> nat \<Rightarrow> stream_log \<Rightarrow> stream_log" where
  "sub_end reason i lg =
     (let s = nl_objects lg ! i in
      if sub_closed s then lg
      else lg\<lparr>nl_objects := (nl_objects lg)[i := s\<lparr>sub_closed := True, sub_queue := [QReason reason]\<rparr>],
               nl_subscribers := removeAll i (nl_subscribers lg)\<rparr>)"

definition sub_close :: "nat \<Rightarrow> stream_log \<Rightarrow> stream_log" where
  "sub_close i lg = sub_end ''closed'' i lg"

text \<open>
  \<^verbatim>\<open>receive\<close> up to its await: an empty queue that was neither finished nor closed waits, which
  is \<^const>\<open>TimeoutError\<close> when nothing arrives in time.
\<close>

definition receive :: "nat \<Rightarrow> stream_log \<Rightarrow> stream_log \<times> stream_frame res" where
  "receive i lg =
     (let s = nl_objects lg ! i in
      if sub_finished s \<noteq> None \<and> sub_queue s = [] then (lg, Inl EOFError)
      else if sub_closed s \<and> sub_queue s = [] then (lg, Inl EOFError)
      else case sub_queue s of
             [] \<Rightarrow> (lg, Inl TimeoutError)
           | item # rest \<Rightarrow>
               (let lg' = lg\<lparr>nl_objects := (nl_objects lg)[i := s\<lparr>sub_queue := rest\<rparr>]\<rparr>
                in case item of
                     QReason r \<Rightarrow>
                       if r \<in> {''overflow'', ''frame_limit'', ''projection_failure''}
                       then (lg', Inl BufferError) else (lg', Inl EOFError)
                   | QFrame f \<Rightarrow> (lg', Inr f)))"

section \<open>The log\<close>

definition new_log :: "string \<Rightarrow> stream_limits \<Rightarrow> string \<Rightarrow> stream_log res" where
  "new_log invocation_id limits epoch =
     bindE (guardE (1 \<le> length invocation_id \<and> length invocation_id \<le> 128) ValueError) (\<lambda>_.
       Inr \<lparr>nl_invocation_id = invocation_id, nl_limits = limits, nl_epoch = epoch, nl_sequence = 0,
            nl_events = [], nl_bytes = 0, nl_objects = [], nl_subscribers = [], nl_closed = False,
            nl_failure = None, nl_finished = None\<rparr>)"

definition log_available :: "stream_log \<Rightarrow> bool" where
  "log_available lg \<longleftrightarrow> \<not> nl_closed lg"

definition log_restart :: "stream_log \<Rightarrow> stream_log res" where
  "log_restart lg =
     (if nl_closed lg then Inl RuntimeError else Inr (lg\<lparr>nl_finished := None\<rparr>))"

definition log_finish :: "string \<Rightarrow> stream_log \<Rightarrow> stream_log res" where
  "log_finish reason lg =
     (if reason \<notin> {''waiting'', ''completed'', ''faulted'', ''cancelled'', ''interrupted''} then Inl ValueError
      else Inr (fold (\<lambda>i l. l\<lparr>nl_objects := (nl_objects l)[i := sub_finish reason (nl_objects l ! i)]\<rparr>)
                  (nl_subscribers lg) (lg\<lparr>nl_finished := Some reason\<rparr>)))"

definition event_id :: "string \<Rightarrow> nat \<Rightarrow> string" where
  "event_id epoch n = epoch @ '':'' @ dec n"

definition reference_ok :: "string \<Rightarrow> bool" where
  "reference_ok r \<longleftrightarrow> (r = ''/do'' \<or> prefix ''/do/'' r) \<and> utf8_length r \<le> 4096"

definition opt_str :: "string option \<Rightarrow> pyval" where
  "opt_str x = (case x of None \<Rightarrow> PNone | Some s \<Rightarrow> PStr s)"

definition observation :: "stream_log \<Rightarrow> string \<Rightarrow> string \<Rightarrow> string \<Rightarrow> string option \<Rightarrow> pyval \<Rightarrow> pyval" where
  "observation lg eid mode scope task data =
     PDict [(''schema'', PStr ''owa/native-observation/v1''), (''id'', PStr eid),
            (''invocation_id'', PStr (nl_invocation_id lg)), (''mode'', PStr mode),
            (''scope'', PStr scope), (''task_reference'', opt_str task), (''data'', data)]"

text \<open>The eviction loop: drop the oldest frame while either budget is exceeded.\<close>

fun evict :: "stream_limits \<Rightarrow> (nat \<times> stream_frame) list \<Rightarrow> nat \<Rightarrow> ((nat \<times> stream_frame) list \<times> nat) res" where
  "evict lm [] b = (if 0 > lim_max_events lm \<or> b > lim_max_bytes lm then Inl LookupError else Inr ([], b))"
| "evict lm (e # es) b =
     (if length (e # es) > lim_max_events lm \<or> b > lim_max_bytes lm
      then evict lm es (b - frame_bytes (snd e)) else Inr (e # es, b))"

definition deliver :: "stream_frame \<Rightarrow> nat \<Rightarrow> stream_log \<Rightarrow> stream_log" where
  "deliver f i lg =
     (let s = nl_objects lg ! i in
      if sub_finished s \<noteq> None then lg
      else if length (sub_queue s) < lim_queue_size (nl_limits lg)
      then lg\<lparr>nl_objects := (nl_objects lg)[i := s\<lparr>sub_queue := sub_queue s @ [QFrame f]\<rparr>]\<rparr>
      else sub_end ''overflow'' i lg)"

definition log_append ::
  "(rat \<Rightarrow> string) \<Rightarrow> string \<Rightarrow> pyval \<Rightarrow> string option \<Rightarrow> string option \<Rightarrow> stream_log \<Rightarrow>
   (stream_log \<times> stream_frame) res" where
  "log_append float_repr mode data scope task lg =
     bindE (guardE (\<not> (nl_closed lg \<or> nl_finished lg \<noteq> None)) RuntimeError) (\<lambda>_.
     bindE (guardE (mode = ''values'' \<or> mode = ''updates'') ValueError) (\<lambda>_.
     bindE (guardE (case scope of None \<Rightarrow> True | Some r \<Rightarrow> reference_ok r) ValueError) (\<lambda>_.
     bindE (guardE (case task of None \<Rightarrow> True | Some r \<Rightarrow> reference_ok r) ValueError) (\<lambda>_.
     case scope of
       None \<Rightarrow> Inl ValueError
     | Some sc \<Rightarrow>
     bindE (guardE (\<not> (mode = ''updates'' \<and> task = None)) ValueError) (\<lambda>_.
     bindE (validate_expression_data 0 64 data) (\<lambda>_.
     let sequence = nl_sequence lg + 1; eid = event_id (nl_epoch lg) sequence in
     bindE (json_dumps False float_repr (observation lg eid mode sc task data)) (\<lambda>payload.
     bindE (guardE (utf8_length payload \<le> lim_max_event_bytes (nl_limits lg)) ValueError) (\<lambda>_.
     let frame = \<lparr>fr_event_id = eid, fr_payload = payload\<rparr> in
     bindE (evict (nl_limits lg) (nl_events lg @ [(sequence, frame)]) (nl_bytes lg + frame_bytes frame)) (\<lambda>(es, b).
     let lg' = lg\<lparr>nl_sequence := sequence, nl_events := es, nl_bytes := b\<rparr> in
       Inr (fold (deliver frame) (nl_subscribers lg) lg', frame))))))))))"

definition log_cursor :: "stream_log \<Rightarrow> string \<Rightarrow> nat res" where
  "log_cursor lg eid =
     (if length eid > 64 then Inl LookupError
      else case str_partition CHR '':'' eid of (epoch, separator, raw_sequence) \<Rightarrow>
        if epoch \<noteq> nl_epoch lg \<or> separator \<noteq> '':'' \<or> \<not> is_decimal raw_sequence
           \<or> prefix ''0'' raw_sequence then Inl LookupError
        else let sequence = undec raw_sequence;
                 first = (case nl_events lg of [] \<Rightarrow> nl_sequence lg + 1 | e # _ \<Rightarrow> fst e)
             in if \<not> (max 1 (first - 1) \<le> sequence \<and> sequence \<le> nl_sequence lg)
                then Inl LookupError else Inr sequence)"

definition log_subscribe ::
  "string option \<Rightarrow> stream_log \<Rightarrow> (stream_log \<times> stream_frame list \<times> nat) res" where
  "log_subscribe last_event_id lg =
     bindE (guardE (nl_failure lg = None) BufferError) (\<lambda>_.
     bindE (guardE (\<not> nl_closed lg) RuntimeError) (\<lambda>_.
     bindE (case last_event_id of None \<Rightarrow> Inr 0 | Some eid \<Rightarrow> log_cursor lg eid) (\<lambda>sequence.
     bindE (guardE (length (nl_subscribers lg) < lim_max_subscribers (nl_limits lg)) RuntimeError) (\<lambda>_.
     let backlog = map snd (filter (\<lambda>e. fst e > sequence) (nl_events lg));
         s = \<lparr>sub_queue = [], sub_closed = False, sub_finished = None\<rparr>;
         s' = (case nl_finished lg of None \<Rightarrow> s | Some r \<Rightarrow> sub_finish r s);
         i = length (nl_objects lg)
     in Inr (lg\<lparr>nl_objects := nl_objects lg @ [s'], nl_subscribers := nl_subscribers lg @ [i]\<rparr>,
             backlog, i)))))"

definition log_close :: "stream_log \<Rightarrow> stream_log" where
  "log_close lg =
     (if nl_closed lg then lg
      else let lg' = fold sub_close (nl_subscribers lg) (lg\<lparr>nl_closed := True\<rparr>)
           in lg'\<lparr>nl_events := [], nl_bytes := 0\<rparr>)"

definition log_fail :: "string \<Rightarrow> stream_log \<Rightarrow> stream_log res" where
  "log_fail reason lg =
     (if reason \<notin> {''frame_limit'', ''projection_failure''} then Inl ValueError
      else if nl_closed lg then Inr lg
      else Inr (log_close (fold (sub_end reason) (nl_subscribers lg) (lg\<lparr>nl_failure := Some reason\<rparr>))))"

section \<open>Loops over the subscribers\<close>

text \<open>
  Every loop over the subscriber set changes one object per iteration and may drop it from the
  set; \<open>touch\<close> is that shape and \<open>fold_touch\<close> what a whole loop does.
\<close>

definition touch ::
  "(subscription \<Rightarrow> subscription) \<Rightarrow> (subscription \<Rightarrow> bool) \<Rightarrow> nat \<Rightarrow> stream_log \<Rightarrow> stream_log" where
  "touch g h i lg = lg\<lparr>nl_objects := (nl_objects lg)[i := g (nl_objects lg ! i)],
     nl_subscribers := (if h (nl_objects lg ! i) then removeAll i (nl_subscribers lg) else nl_subscribers lg)\<rparr>"

definition end_obj :: "string \<Rightarrow> subscription \<Rightarrow> subscription" where
  "end_obj reason s = (if sub_closed s then s else s\<lparr>sub_closed := True, sub_queue := [QReason reason]\<rparr>)"

definition deliver_obj :: "nat \<Rightarrow> stream_frame \<Rightarrow> subscription \<Rightarrow> subscription" where
  "deliver_obj q f s =
     (if sub_finished s \<noteq> None then s
      else if length (sub_queue s) < q then s\<lparr>sub_queue := sub_queue s @ [QFrame f]\<rparr>
      else end_obj ''overflow'' s)"

definition deliver_drops :: "nat \<Rightarrow> subscription \<Rightarrow> bool" where
  "deliver_drops q s \<longleftrightarrow> sub_finished s = None \<and> \<not> length (sub_queue s) < q \<and> \<not> sub_closed s"

lemma sub_end_touch: "sub_end reason = touch (end_obj reason) (\<lambda>s. \<not> sub_closed s)"
  by (auto simp: fun_eq_iff sub_end_def touch_def end_obj_def Let_def)

lemma deliver_touch:
  "deliver f i lg = touch (deliver_obj (lim_queue_size (nl_limits lg)) f)
     (deliver_drops (lim_queue_size (nl_limits lg))) i lg"
  by (auto simp: deliver_def touch_def deliver_obj_def deliver_drops_def sub_end_touch Let_def end_obj_def)

lemma fold_deliver_touch:
  "fold (deliver f) is lg = fold (touch (deliver_obj (lim_queue_size (nl_limits lg)) f)
     (deliver_drops (lim_queue_size (nl_limits lg)))) is lg"
proof (induction "is" arbitrary: lg)
  case (Cons i "is")
  have "nl_limits (deliver f i lg) = nl_limits lg" by (simp add: deliver_touch touch_def)
  with Cons [of "deliver f i lg"] show ?case by (simp add: deliver_touch)
qed simp

definition touched_objects :: "(subscription \<Rightarrow> subscription) \<Rightarrow> nat list \<Rightarrow> subscription list \<Rightarrow> subscription list" where
  "touched_objects g is xs = map (\<lambda>j. if j \<in> set is then g (xs ! j) else xs ! j) [0..<length xs]"

definition touched_subscribers ::
  "(subscription \<Rightarrow> bool) \<Rightarrow> nat list \<Rightarrow> subscription list \<Rightarrow> nat list \<Rightarrow> nat list" where
  "touched_subscribers h is xs subs = filter (\<lambda>j. \<not> (j \<in> set is \<and> h (xs ! j))) subs"

lemma fold_touch:
  assumes "distinct is" "\<And>i. i \<in> set is \<Longrightarrow> i < length (nl_objects lg)"
  shows "fold (touch g h) is lg =
    lg\<lparr>nl_objects := touched_objects g is (nl_objects lg),
       nl_subscribers := touched_subscribers h is (nl_objects lg) (nl_subscribers lg)\<rparr>"
  using assms
proof (induction "is" arbitrary: lg)
  case Nil
  then show ?case by (simp add: touched_objects_def touched_subscribers_def map_nth)
next
  case (Cons i "is")
  let ?lg = "touch g h i lg"
  have "fold (touch g h) is ?lg = ?lg\<lparr>nl_objects := touched_objects g is (nl_objects ?lg),
       nl_subscribers := touched_subscribers h is (nl_objects ?lg) (nl_subscribers ?lg)\<rparr>"
    by (rule Cons.IH) (use Cons.prems in \<open>auto simp: touch_def\<close>)
  moreover have "touched_objects g is (nl_objects ?lg) = touched_objects g (i # is) (nl_objects lg)"
    using Cons.prems by (auto simp: touched_objects_def touch_def nth_list_update)
  moreover have "touched_subscribers h is (nl_objects ?lg) (nl_subscribers ?lg)
      = touched_subscribers h (i # is) (nl_objects lg) (nl_subscribers lg)"
    using Cons.prems
    by (auto simp: touched_subscribers_def touch_def nth_list_update removeAll_filter_not_eq intro!: filter_cong)
  moreover have "?lg\<lparr>nl_objects := X, nl_subscribers := Y\<rparr> = lg\<lparr>nl_objects := X, nl_subscribers := Y\<rparr>" for X Y
    by (simp add: touch_def)
  ultimately show ?case by simp
qed

lemma length_touched_objects [simp]: "length (touched_objects g is xs) = length xs"
  by (simp add: touched_objects_def)

lemma nth_touched_objects [simp]:
  "j < length xs \<Longrightarrow> touched_objects g is xs ! j = (if j \<in> set is then g (xs ! j) else xs ! j)"
  by (simp add: touched_objects_def)

lemma finish_touch:
  "fold (\<lambda>i l. l\<lparr>nl_objects := (nl_objects l)[i := sub_finish reason (nl_objects l ! i)]\<rparr>) is lg
   = fold (touch (sub_finish reason) (\<lambda>_. False)) is lg"
  by (rule fold_cong) (auto simp: touch_def)

section \<open>Eviction\<close>

abbreviation ring_bytes :: "(nat \<times> stream_frame) list \<Rightarrow> nat" where
  "ring_bytes es \<equiv> sum_list (map (\<lambda>e. frame_bytes (snd e)) es)"

text \<open>Eviction keeps a suffix that fits both budgets, and drops nothing that fits.\<close>

lemma evict_suffix:
  assumes "b = ring_bytes es"
  shows "\<exists>es'. evict lm es b = Inr (es', ring_bytes es') \<and> suffix es' es \<and>
    length es' \<le> lim_max_events lm \<and> ring_bytes es' \<le> lim_max_bytes lm"
  using assms
proof (induction es arbitrary: b)
  case (Cons e es)
  show ?case
  proof (cases "length (e # es) > lim_max_events lm \<or> b > lim_max_bytes lm")
    case True
    with Cons.IH [of "b - frame_bytes (snd e)"] Cons.prems show ?thesis
      by (auto intro: suffix_ConsI)
  qed (use Cons.prems in auto)
qed simp

lemma evict_keeps_new:
  assumes "evict lm (es @ [e]) b = Inr (es', b')" "b = ring_bytes (es @ [e])"
    and "frame_bytes (snd e) \<le> lim_max_bytes lm" "1 \<le> lim_max_events lm"
  shows "es' \<noteq> [] \<and> last es' = e"
  using assms
proof (induction es arbitrary: b)
  case Nil
  then show ?case by (auto split: if_splits)
next
  case (Cons x es)
  then show ?case by (auto split: if_splits)
qed

section \<open>Invariant\<close>

definition limits_ok :: "stream_limits \<Rightarrow> bool" where
  "limits_ok l \<longleftrightarrow> limits_post_init l = Inr l"

lemma limits_okD:
  "limits_ok l \<Longrightarrow> 1 \<le> lim_max_events l \<and> 1 \<le> lim_queue_size l \<and> lim_max_event_bytes l \<le> lim_max_bytes l"
  by (auto simp: limits_ok_def limits_post_init_def)

text \<open>The ring: consecutive numbers up to the sequence, exact byte count, both budgets kept.\<close>

definition ring_inv :: "stream_log \<Rightarrow> bool" where
  "ring_inv lg \<longleftrightarrow>
     (\<exists>lo. map fst (nl_events lg) = [lo ..< nl_sequence lg + 1] \<and> 1 \<le> lo \<and> lo \<le> nl_sequence lg + 1) \<and>
     (\<forall>(n, f) \<in> set (nl_events lg). fr_event_id f = event_id (nl_epoch lg) n) \<and>
     nl_bytes lg = ring_bytes (nl_events lg) \<and>
     length (nl_events lg) \<le> lim_max_events (nl_limits lg) \<and>
     nl_bytes lg \<le> lim_max_bytes (nl_limits lg)"

text \<open>The frames that follow number \<open>k\<close>, in order and without a gap.\<close>

definition numbered :: "string \<Rightarrow> nat \<Rightarrow> stream_frame list \<Rightarrow> bool" where
  "numbered epoch k fs \<longleftrightarrow> map fr_event_id fs = map (event_id epoch) [k + 1 ..< k + 1 + length fs]"

lemma numbered_Nil [simp]: "numbered e k []"
  by (simp add: numbered_def)

lemma numbered_snoc [simp]:
  "numbered e k (fs @ [f]) \<longleftrightarrow> numbered e k fs \<and> fr_event_id f = event_id e (k + length fs + 1)"
  by (auto simp: numbered_def)

lemma numbered_Cons [simp]:
  "numbered e k (f # fs) \<longleftrightarrow> fr_event_id f = event_id e (k + 1) \<and> numbered e (k + 1) fs"
proof -
  have "[k + 1 ..< k + 1 + length (f # fs)] = (k + 1) # [k + 1 + 1 ..< k + 1 + 1 + length fs]"
    by (simp add: upt_rec)
  then show ?thesis by (auto simp: numbered_def)
qed

text \<open>
  A subscription that has consumed the frames up to \<open>seen\<close>: its queue holds the next frames in
  order, or the reason it ended. While it is live the queue reaches up to the newest frame.
\<close>

definition queue_inv :: "string \<Rightarrow> nat \<Rightarrow> nat \<Rightarrow> subscription \<Rightarrow> bool" where
  "queue_inv epoch sequence seen s \<longleftrightarrow> seen \<le> sequence \<and>
    ((\<exists>fs. sub_queue s = map QFrame fs \<and> \<not> sub_closed s \<and> seen + length fs \<le> sequence \<and>
           numbered epoch seen fs \<and>
           (sub_finished s = None \<longrightarrow> seen + length fs = sequence)) \<or>
     (\<exists>r. sub_queue s = [QReason r] \<and> (sub_closed s \<or> sub_finished s \<noteq> None)) \<or>
     (sub_queue s = [] \<and> sub_closed s))"

definition subs_inv :: "stream_log \<Rightarrow> (nat \<Rightarrow> nat) \<Rightarrow> bool" where
  "subs_inv lg seen \<longleftrightarrow>
     distinct (nl_subscribers lg) \<and>
     (\<forall>i. i \<in> set (nl_subscribers lg) \<longleftrightarrow> i < length (nl_objects lg) \<and> \<not> sub_closed (nl_objects lg ! i)) \<and>
     length (nl_subscribers lg) \<le> lim_max_subscribers (nl_limits lg) \<and>
     (\<forall>i < length (nl_objects lg).
        length (sub_queue (nl_objects lg ! i)) \<le> lim_queue_size (nl_limits lg) \<and>
        queue_inv (nl_epoch lg) (nl_sequence lg) (seen i) (nl_objects lg ! i))"

definition log_inv :: "stream_log \<Rightarrow> (nat \<Rightarrow> nat) \<Rightarrow> bool" where
  "log_inv lg seen \<longleftrightarrow> limits_ok (nl_limits lg) \<and> subs_inv lg seen \<and>
     (if nl_closed lg then nl_subscribers lg = [] \<and> nl_events lg = [] \<and> nl_bytes lg = 0 else ring_inv lg)"

text \<open>What a loop over the subscribers keeps, from what its body keeps of one object.\<close>

lemma subs_inv_touch:
  assumes inv: "subs_inv lg seen"
    and obj: "\<And>s k. \<not> sub_closed s \<Longrightarrow> length (sub_queue s) \<le> lim_queue_size (nl_limits lg) \<Longrightarrow>
        queue_inv (nl_epoch lg) (nl_sequence lg) k s \<Longrightarrow>
        length (sub_queue (g s)) \<le> lim_queue_size (nl_limits lg) \<and>
        queue_inv (nl_epoch lg) n k (g s)"
    and closed: "\<And>s k. sub_closed s \<Longrightarrow> queue_inv (nl_epoch lg) (nl_sequence lg) k s \<Longrightarrow>
        queue_inv (nl_epoch lg) n k s"
    and drop: "\<And>s. \<not> sub_closed s \<Longrightarrow> sub_closed (g s) \<longleftrightarrow> h s"
    and lg': "lg' = fold (touch g h) (nl_subscribers lg) lg"
  shows "subs_inv (lg'\<lparr>nl_sequence := n\<rparr>) seen"
proof -
  have f: "lg' = lg\<lparr>nl_objects := touched_objects g (nl_subscribers lg) (nl_objects lg),
     nl_subscribers := touched_subscribers h (nl_subscribers lg) (nl_objects lg) (nl_subscribers lg)\<rparr>"
    unfolding lg' by (rule fold_touch) (use inv in \<open>auto simp: subs_inv_def\<close>)
  have len: "length (filter P (nl_subscribers lg)) \<le> lim_max_subscribers (nl_limits lg)" for P
    using inv le_trans [OF length_filter_le] by (auto simp: subs_inv_def)
  show ?thesis
    using inv len closed drop obj
    by (auto simp: f subs_inv_def touched_subscribers_def)
qed

lemma queue_inv_closed: "sub_closed s \<Longrightarrow> queue_inv e n k s \<Longrightarrow> n \<le> n' \<Longrightarrow> queue_inv e n' k s"
  by (auto simp: queue_inv_def)

lemma queue_inv_end: "\<not> sub_closed s \<Longrightarrow> k \<le> n \<Longrightarrow> queue_inv e n k (end_obj r s)"
  by (simp add: queue_inv_def end_obj_def)

lemma queue_inv_seen: "queue_inv e n k s \<Longrightarrow> k \<le> n"
  by (simp add: queue_inv_def)

lemma queue_inv_finished: "queue_inv e n k s \<Longrightarrow> queue_inv e n k (s\<lparr>sub_finished := Some r\<rparr>)"
  unfolding queue_inv_def by auto

lemma queue_inv_finish:
  assumes "\<not> sub_closed s" "queue_inv e n k s"
  shows "queue_inv e n k (sub_finish r s)"
proof (cases "sub_queue s")
  case Nil
  with assms show ?thesis by (auto simp: sub_finish_def queue_inv_def)
next
  case (Cons x xs)
  with queue_inv_finished [OF assms(2)] show ?thesis by (simp add: sub_finish_def)
qed

lemma queue_inv_deliver:
  assumes "\<not> sub_closed s" "queue_inv e n k s" "fr_event_id f = event_id e (n + 1)"
  shows "queue_inv e (n + 1) k (deliver_obj q f s)"
proof (cases "sub_finished s")
  case (Some r)
  with assms show ?thesis by (fastforce simp: queue_inv_def deliver_obj_def)
next
  case None
  with assms obtain fs where fs: "sub_queue s = map QFrame fs" "k + length fs = n" "numbered e k fs"
    by (auto simp: queue_inv_def)
  show ?thesis
  proof (cases "length (sub_queue s) < q")
    case True
    have "queue_inv e (n + 1) k (s\<lparr>sub_queue := map QFrame (fs @ [f])\<rparr>)"
      unfolding queue_inv_def using assms(1,3) fs(2,3) None
      by (intro conjI disjI1 exI [of _ "fs @ [f]"]) auto
    with True None fs(1) show ?thesis by (simp add: deliver_obj_def)
  next
    case False
    with None assms(1) queue_inv_seen [OF assms(2)] show ?thesis by (simp add: deliver_obj_def queue_inv_end)
  qed
qed

text \<open>The operations one by one.\<close>

lemma sequence_same: "nl_sequence lg = n \<Longrightarrow> lg\<lparr>nl_sequence := n\<rparr> = lg"
  by auto

lemma fold_touch_frame [simp]:
  "nl_sequence (fold (touch g h) is lg) = nl_sequence lg"
  "nl_limits (fold (touch g h) is lg) = nl_limits lg"
  "nl_epoch (fold (touch g h) is lg) = nl_epoch lg"
  "nl_events (fold (touch g h) is lg) = nl_events lg"
  "nl_bytes (fold (touch g h) is lg) = nl_bytes lg"
  "nl_closed (fold (touch g h) is lg) = nl_closed lg"
  "length (nl_objects (fold (touch g h) is lg)) = length (nl_objects lg)"
  by (induction "is" arbitrary: lg) (simp_all add: touch_def)

lemma subs_inv_end:
  assumes "subs_inv lg seen" "1 \<le> lim_queue_size (nl_limits lg)"
  shows "subs_inv (fold (sub_end r) (nl_subscribers lg) lg) seen"
proof -
  have "subs_inv (fold (touch (end_obj r) (\<lambda>s. \<not> sub_closed s)) (nl_subscribers lg) lg
      \<lparr>nl_sequence := nl_sequence lg\<rparr>) seen"
    by (rule subs_inv_touch [OF assms(1)]) (use assms(2) queue_inv_end queue_inv_seen in \<open>auto simp: end_obj_def\<close>)
  then show ?thesis by (simp add: sub_end_touch sequence_same)
qed

lemma sub_end_empties:
  assumes "subs_inv lg seen"
  shows "nl_subscribers (fold (sub_end r) (nl_subscribers lg) lg) = []"
proof -
  have "fold (touch (end_obj r) (\<lambda>s. \<not> sub_closed s)) (nl_subscribers lg) lg
    = lg\<lparr>nl_objects := touched_objects (end_obj r) (nl_subscribers lg) (nl_objects lg),
       nl_subscribers := touched_subscribers (\<lambda>s. \<not> sub_closed s) (nl_subscribers lg) (nl_objects lg) (nl_subscribers lg)\<rparr>"
    by (rule fold_touch) (use assms in \<open>auto simp: subs_inv_def\<close>)
  then show ?thesis
    using assms by (auto simp: sub_end_touch touched_subscribers_def filter_empty_conv subs_inv_def)
qed

lemma subs_inv_finish:
  assumes "subs_inv lg seen" "1 \<le> lim_queue_size (nl_limits lg)"
  shows "subs_inv (fold (touch (sub_finish r) (\<lambda>_. False)) (nl_subscribers lg) lg) seen"
proof -
  have "subs_inv (fold (touch (sub_finish r) (\<lambda>_. False)) (nl_subscribers lg) lg
      \<lparr>nl_sequence := nl_sequence lg\<rparr>) seen"
    by (rule subs_inv_touch [OF assms(1)])
      (use assms(2) queue_inv_finish in \<open>auto simp: sub_finish_def Let_def\<close>)
  then show ?thesis by (simp add: sequence_same)
qed

lemma subs_inv_deliver:
  assumes "subs_inv lg seen" "1 \<le> lim_queue_size (nl_limits lg)"
    and "fr_event_id f = event_id (nl_epoch lg) (nl_sequence lg + 1)"
  shows "subs_inv ((fold (deliver f) (nl_subscribers lg) lg)\<lparr>nl_sequence := nl_sequence lg + 1\<rparr>) seen"
  unfolding fold_deliver_touch
proof (rule subs_inv_touch [OF assms(1) _ _ _ refl], goal_cases)
  case (1 s k)
  then show ?case using queue_inv_deliver [OF 1(1,3) assms(3)] assms(2)
    by (auto simp: deliver_obj_def end_obj_def)
next
  case (2 s k)
  then show ?case by (rule queue_inv_closed) simp
next
  case (3 s)
  then show ?case by (auto simp: deliver_obj_def deliver_drops_def end_obj_def)
qed

lemma ring_suffix:
  "map fst (es @ [e]) = [lo ..< n + 1] \<Longrightarrow> 1 \<le> lo \<Longrightarrow> suffix es' (es @ [e]) \<Longrightarrow>
   \<exists>lo'. map fst es' = [lo' ..< n + 1] \<and> 1 \<le> lo' \<and> lo' \<le> n + 1"
proof -
  assume m: "map fst (es @ [e]) = [lo ..< n + 1]" and lo: "1 \<le> lo" and "suffix es' (es @ [e])"
  then obtain ds where ds: "es @ [e] = ds @ es'" by (auto simp: suffix_def)
  have "map fst es' = drop (length ds) (map fst (es @ [e]))" unfolding ds by simp
  also have "\<dots> = [lo + length ds ..< n + 1]" unfolding m by (rule drop_upt)
  finally have *: "map fst es' = [lo + length ds ..< n + 1]" .
  show ?thesis
  proof (cases "lo + length ds \<le> n + 1")
    case True
    with * lo show ?thesis by (intro exI [of _ "lo + length ds"]) simp
  next
    case False
    with * show ?thesis by (intro exI [of _ "n + 1"]) simp
  qed
qed

lemma log_append_Inr:
  assumes "log_append fr mode data sc task lg = Inr (lg', f)"
  obtains es b where "\<not> nl_closed lg" "nl_finished lg = None"
    "fr_event_id f = event_id (nl_epoch lg) (nl_sequence lg + 1)"
    "frame_bytes f \<le> lim_max_event_bytes (nl_limits lg)"
    "evict (nl_limits lg) (nl_events lg @ [(nl_sequence lg + 1, f)]) (nl_bytes lg + frame_bytes f) = Inr (es, b)"
    "lg' = fold (deliver f) (nl_subscribers lg) (lg\<lparr>nl_sequence := nl_sequence lg + 1, nl_events := es, nl_bytes := b\<rparr>)"
  using assms by (auto simp: log_append_def Let_def split: option.splits)

lemma touch_upd:
  "touch g h i (lg\<lparr>nl_sequence := n, nl_events := es, nl_bytes := b\<rparr>) = (touch g h i lg)\<lparr>nl_sequence := n, nl_events := es, nl_bytes := b\<rparr>"
  by (simp add: touch_def)

lemma fold_touch_upd:
  "fold (touch g h) is (lg\<lparr>nl_sequence := n, nl_events := es, nl_bytes := b\<rparr>)
   = (fold (touch g h) is lg)\<lparr>nl_sequence := n, nl_events := es, nl_bytes := b\<rparr>"
  by (induction "is" arbitrary: lg) (simp_all add: touch_upd)

lemma subs_inv_upd [simp]:
  "subs_inv (lg\<lparr>nl_events := es\<rparr>) seen = subs_inv lg seen"
  "subs_inv (lg\<lparr>nl_bytes := b\<rparr>) seen = subs_inv lg seen"
  "subs_inv (lg\<lparr>nl_closed := c\<rparr>) seen = subs_inv lg seen"
  "subs_inv (lg\<lparr>nl_failure := x\<rparr>) seen = subs_inv lg seen"
  "subs_inv (lg\<lparr>nl_finished := x\<rparr>) seen = subs_inv lg seen"
  by (simp_all add: subs_inv_def)

lemma ring_inv_same:
  "nl_events l' = nl_events l \<Longrightarrow> nl_sequence l' = nl_sequence l \<Longrightarrow> nl_epoch l' = nl_epoch l \<Longrightarrow>
   nl_bytes l' = nl_bytes l \<Longrightarrow> nl_limits l' = nl_limits l \<Longrightarrow> ring_inv l' = ring_inv l"
  unfolding ring_inv_def by (simp only:)

lemma log_append_inv:
  assumes inv: "log_inv lg seen" and app: "log_append fr mode data sc task lg = Inr (lg', f)"
  shows "log_inv lg' seen \<and> nl_sequence lg' = nl_sequence lg + 1 \<and> nl_epoch lg' = nl_epoch lg \<and>
    nl_events lg' \<noteq> [] \<and> last (nl_events lg') = (nl_sequence lg + 1, f)"
proof -
  from app obtain es b where op: "\<not> nl_closed lg"
    and id: "fr_event_id f = event_id (nl_epoch lg) (nl_sequence lg + 1)"
    and fits: "frame_bytes f \<le> lim_max_event_bytes (nl_limits lg)"
    and ev: "evict (nl_limits lg) (nl_events lg @ [(nl_sequence lg + 1, f)]) (nl_bytes lg + frame_bytes f) = Inr (es, b)"
    and lg': "lg' = fold (deliver f) (nl_subscribers lg) (lg\<lparr>nl_sequence := nl_sequence lg + 1, nl_events := es, nl_bytes := b\<rparr>)"
    by (rule log_append_Inr)
  have lim: "limits_ok (nl_limits lg)" and ring: "ring_inv lg" and subs: "subs_inv lg seen"
    using inv op by (auto simp: log_inv_def)
  let ?T = "fold (touch (deliver_obj (lim_queue_size (nl_limits lg)) f) (deliver_drops (lim_queue_size (nl_limits lg))))"
  have lg'': "lg' = (?T (nl_subscribers lg) lg)\<lparr>nl_sequence := nl_sequence lg + 1, nl_events := es, nl_bytes := b\<rparr>"
    unfolding lg' fold_deliver_touch by (simp add: fold_touch_upd)
  have "subs_inv lg' seen"
    using subs_inv_deliver [OF subs _ id] limits_okD [OF lim] by (simp add: lg'' fold_deliver_touch)
  moreover have bytes: "nl_bytes lg + frame_bytes f = ring_bytes (nl_events lg @ [(nl_sequence lg + 1, f)])"
    using ring by (simp add: ring_inv_def)
  obtain lo where lo: "map fst (nl_events lg) = [lo ..< nl_sequence lg + 1]" "1 \<le> lo" "lo \<le> nl_sequence lg + 1"
    using ring unfolding ring_inv_def by blast
  from lo(1,3) have "map fst (nl_events lg @ [(nl_sequence lg + 1, f)]) = [lo ..< nl_sequence lg + 1 + 1]"
    by simp
  moreover note \<open>1 \<le> lo\<close>
  moreover from evict_suffix [OF bytes, of "nl_limits lg"] ev have
    "suffix es (nl_events lg @ [(nl_sequence lg + 1, f)])" "b = ring_bytes es"
    "length es \<le> lim_max_events (nl_limits lg)" "b \<le> lim_max_bytes (nl_limits lg)" by auto
  moreover from this(1) have "set es \<subseteq> set (nl_events lg @ [(nl_sequence lg + 1, f)])" by (rule set_mono_suffix)
  then have "\<forall>(n, f') \<in> set es. fr_event_id f' = event_id (nl_epoch lg) n"
    using ring id by (auto simp: ring_inv_def)
  ultimately have "ring_inv lg'"
    using ring_suffix [of "nl_events lg" "(nl_sequence lg + 1, f)" lo "nl_sequence lg + 1" es]
    unfolding ring_inv_def lg'' by (simp del: upt_Suc)
  moreover have "es \<noteq> [] \<and> last es = (nl_sequence lg + 1, f)"
    using evict_keeps_new [OF ev bytes] fits limits_okD [OF lim] by simp
  ultimately show ?thesis using \<open>subs_inv lg' seen\<close> lim op by (simp add: log_inv_def lg'')
qed

lemma log_close_inv:
  assumes "log_inv lg seen"
  shows "log_inv (log_close lg) seen \<and> nl_closed (log_close lg) \<and> nl_sequence (log_close lg) = nl_sequence lg \<and>
    nl_epoch (log_close lg) = nl_epoch lg"
proof (cases "nl_closed lg")
  case False
  let ?lg = "lg\<lparr>nl_closed := True\<rparr>"
  have subs: "subs_inv ?lg seen" and q: "1 \<le> lim_queue_size (nl_limits ?lg)"
    using assms limits_okD by (auto simp: log_inv_def)
  have "fold sub_close = fold (sub_end ''closed'')" by (rule arg_cong [of _ _ fold]) (simp add: sub_close_def fun_eq_iff)
  moreover have "nl_limits (fold (sub_end ''closed'') is l) = nl_limits l"
    "nl_closed (fold (sub_end ''closed'') is l) = nl_closed l"
    "nl_sequence (fold (sub_end ''closed'') is l) = nl_sequence l"
    "nl_epoch (fold (sub_end ''closed'') is l) = nl_epoch l" for "is" l
    by (simp_all add: sub_end_touch)
  ultimately show ?thesis
    using subs_inv_end [OF subs q, of "''closed''"] sub_end_empties [OF subs, of "''closed''"] assms False
    by (simp add: log_close_def log_inv_def Let_def)
qed (use assms in \<open>simp add: log_close_def\<close>)

lemma log_fail_inv:
  assumes "log_inv lg seen" "log_fail r lg = Inr lg'"
  shows "log_inv lg' seen \<and> nl_closed lg' \<and> nl_sequence lg' = nl_sequence lg \<and> nl_epoch lg' = nl_epoch lg"
proof (cases "nl_closed lg")
  case False
  let ?lg = "fold (sub_end r) (nl_subscribers lg) (lg\<lparr>nl_failure := Some r\<rparr>)"
  have subs: "subs_inv (lg\<lparr>nl_failure := Some r\<rparr>) seen"
    and q: "1 \<le> lim_queue_size (nl_limits (lg\<lparr>nl_failure := Some r\<rparr>))"
    using assms limits_okD by (auto simp: log_inv_def)
  have "subs_inv ?lg seen" using subs_inv_end [OF subs q, of r] by simp
  moreover have "nl_limits ?lg = nl_limits lg" "nl_closed ?lg = nl_closed lg" "nl_sequence ?lg = nl_sequence lg"
    "nl_epoch ?lg = nl_epoch lg" "nl_events ?lg = nl_events lg" "nl_bytes ?lg = nl_bytes lg"
    by (simp_all add: sub_end_touch)
  ultimately have "log_inv ?lg seen" using assms(1) False ring_inv_same [of ?lg lg] by (simp add: log_inv_def)
  with log_close_inv [OF this] False assms(2) \<open>nl_sequence ?lg = _\<close> \<open>nl_epoch ?lg = _\<close>
  show ?thesis by (auto simp: log_fail_def split: if_splits)
qed (use assms in \<open>auto simp: log_fail_def split: if_splits\<close>)

lemma log_finish_inv:
  assumes "log_inv lg seen" "log_finish r lg = Inr lg'"
  shows "log_inv lg' seen \<and> nl_sequence lg' = nl_sequence lg \<and> nl_epoch lg' = nl_epoch lg"
proof -
  let ?lg = "lg\<lparr>nl_finished := Some r\<rparr>"
  have subs: "subs_inv ?lg seen" and q: "1 \<le> lim_queue_size (nl_limits ?lg)"
    using assms(1) limits_okD by (auto simp: log_inv_def)
  have lg': "lg' = fold (touch (sub_finish r) (\<lambda>_. False)) (nl_subscribers lg) ?lg"
    using assms(2) by (simp add: log_finish_def finish_touch split: if_splits)
  have "subs_inv lg' seen" using subs_inv_finish [OF subs q, of r] by (simp add: lg')
  moreover have "nl_closed lg \<Longrightarrow> nl_subscribers lg' = []"
    using assms(1) by (simp add: lg' log_inv_def)
  ultimately show ?thesis using assms(1) ring_inv_same [of lg' lg] by (simp add: lg' log_inv_def)
qed

lemma log_restart_inv:
  "log_inv lg seen \<Longrightarrow> log_restart lg = Inr lg' \<Longrightarrow> log_inv lg' seen \<and> nl_sequence lg' = nl_sequence lg \<and> nl_epoch lg' = nl_epoch lg"
  by (auto simp: log_restart_def log_inv_def ring_inv_def split: if_splits)

lemma sub_close_inv:
  assumes inv: "log_inv lg seen" and i: "i < length (nl_objects lg)"
  shows "log_inv (sub_close i lg) seen"
proof (cases "sub_closed (nl_objects lg ! i)")
  case False
  let ?lg = "lg\<lparr>nl_objects := (nl_objects lg)[i := end_obj ''closed'' (nl_objects lg ! i)],
     nl_subscribers := removeAll i (nl_subscribers lg)\<rparr>"
  have eq: "sub_close i lg = ?lg"
    using False by (simp add: sub_close_def sub_end_touch touch_def)
  have subs: "subs_inv lg seen" and q: "1 \<le> lim_queue_size (nl_limits lg)"
    using inv limits_okD by (auto simp: log_inv_def)
  then have "seen i \<le> nl_sequence lg" using i queue_inv_seen by (auto simp: subs_inv_def)
  note new = queue_inv_end [OF False this, of "nl_epoch lg" "''closed''"]
  have "length (removeAll i (nl_subscribers lg)) \<le> lim_max_subscribers (nl_limits lg)"
    using subs le_trans [OF length_filter_le] by (auto simp: removeAll_filter_not_eq subs_inv_def)
  moreover have "sub_closed (end_obj ''closed'' (nl_objects lg ! i))"
    "length (sub_queue (end_obj ''closed'' (nl_objects lg ! i))) \<le> lim_queue_size (nl_limits lg)"
    using False q by (simp_all add: end_obj_def)
  ultimately have "subs_inv ?lg seen"
    using subs i new by (auto simp: subs_inv_def nth_list_update distinct_removeAll)
  with inv show ?thesis unfolding eq using ring_inv_same [of ?lg lg] by (auto simp: log_inv_def)
qed (use inv in \<open>simp add: sub_close_def sub_end_def\<close>)

lemma receive_spec:
  assumes inv: "log_inv lg seen" and i: "i < length (nl_objects lg)" and rec: "receive i lg = (lg', r)"
  defines "seen' \<equiv> (case r of Inl _ \<Rightarrow> seen | Inr _ \<Rightarrow> seen(i := seen i + 1))"
  shows "log_inv lg' seen' \<and> nl_sequence lg' = nl_sequence lg \<and> nl_epoch lg' = nl_epoch lg \<and>
    (\<forall>f. r = Inr f \<longrightarrow> fr_event_id f = event_id (nl_epoch lg) (seen i + 1) \<and> seen i + 1 \<le> nl_sequence lg)"
proof (cases "sub_queue (nl_objects lg ! i)")
  case Nil
  with rec have "lg' = lg \<and> (\<exists>e. r = Inl e)" by (auto simp: receive_def Let_def split: if_splits)
  with inv show ?thesis by (auto simp: seen'_def)
next
  case (Cons x xs)
  let ?s = "nl_objects lg ! i"
  let ?lg = "lg\<lparr>nl_objects := (nl_objects lg)[i := ?s\<lparr>sub_queue := xs\<rparr>]\<rparr>"
  have q: "queue_inv (nl_epoch lg) (nl_sequence lg) (seen i) ?s" using inv i by (simp add: log_inv_def subs_inv_def)
  have lg': "lg' = ?lg" and r: "r = (case x of QFrame f \<Rightarrow> Inr f
      | QReason z \<Rightarrow> Inl (if z \<in> {''overflow'', ''frame_limit'', ''projection_failure''} then BufferError else EOFError))"
    using rec Cons by (auto simp: receive_def Let_def split: queue_item.splits if_splits)
  have "queue_inv (nl_epoch lg) (nl_sequence lg) (seen' i) (?s\<lparr>sub_queue := xs\<rparr>) \<and>
    (\<forall>f. r = Inr f \<longrightarrow> fr_event_id f = event_id (nl_epoch lg) (seen i + 1) \<and> seen i + 1 \<le> nl_sequence lg)"
  proof (cases x)
    case (QFrame f)
    with q Cons obtain fs where fs: "xs = map QFrame fs" "\<not> sub_closed ?s"
      "seen i + length (f # fs) \<le> nl_sequence lg" "numbered (nl_epoch lg) (seen i) (f # fs)"
      "sub_finished ?s = None \<longrightarrow> seen i + length (f # fs) = nl_sequence lg"
      by (auto simp: queue_inv_def map_eq_Cons_conv Cons_eq_map_conv)
    then show ?thesis unfolding queue_inv_def using r QFrame
      by (intro conjI disjI1 exI [of _ fs]) (auto simp: seen'_def)
  next
    case (QReason z)
    then have "seen' = seen" using r by (simp add: seen'_def)
    with q Cons QReason r show ?thesis by (auto simp: queue_inv_def)
  qed
  moreover have "seen' j = seen j" if "j \<noteq> i" for j using that by (simp add: seen'_def split: sum.splits)
  ultimately have "subs_inv ?lg seen'" using inv i Cons
    by (auto simp: log_inv_def subs_inv_def nth_list_update)
  with inv show ?thesis unfolding lg' using \<open>_ \<and> (\<forall>f. r = Inr f \<longrightarrow> _ f)\<close> ring_inv_same [of ?lg lg]
    by (auto simp: log_inv_def)
qed

lemma log_subscribe_Inr:
  assumes "log_subscribe x lg = Inr (lg', backlog, i)"
  obtains n where "\<not> nl_closed lg" "(case x of None \<Rightarrow> Inr 0 | Some eid \<Rightarrow> log_cursor lg eid) = Inr n"
    "length (nl_subscribers lg) < lim_max_subscribers (nl_limits lg)"
    "backlog = map snd (filter (\<lambda>e. fst e > n) (nl_events lg))" "i = length (nl_objects lg)"
    "lg' = lg\<lparr>nl_objects := nl_objects lg @ [case nl_finished lg of
          None \<Rightarrow> \<lparr>sub_queue = [], sub_closed = False, sub_finished = None\<rparr>
        | Some r \<Rightarrow> sub_finish r \<lparr>sub_queue = [], sub_closed = False, sub_finished = None\<rparr>],
      nl_subscribers := nl_subscribers lg @ [length (nl_objects lg)]\<rparr>"
  using assms by (auto simp: log_subscribe_def Let_def split: option.splits)

lemma log_subscribe_inv:
  assumes inv: "log_inv lg seen" and sub: "log_subscribe x lg = Inr (lg', backlog, i)"
  shows "log_inv lg' (seen(i := nl_sequence lg)) \<and> nl_sequence lg' = nl_sequence lg \<and> nl_epoch lg' = nl_epoch lg"
proof -
  from sub have op: "\<not> nl_closed lg" and len: "length (nl_subscribers lg) < lim_max_subscribers (nl_limits lg)"
    and i: "i = length (nl_objects lg)"
    and lg': "lg' = lg\<lparr>nl_objects := nl_objects lg @ [case nl_finished lg of
          None \<Rightarrow> \<lparr>sub_queue = [], sub_closed = False, sub_finished = None\<rparr>
        | Some r \<Rightarrow> sub_finish r \<lparr>sub_queue = [], sub_closed = False, sub_finished = None\<rparr>],
      nl_subscribers := nl_subscribers lg @ [length (nl_objects lg)]\<rparr>"
    by (auto elim: log_subscribe_Inr)
  have "subs_inv lg' (seen(i := nl_sequence lg))"
    using inv len limits_okD [of "nl_limits lg"]
    by (auto simp: lg' i log_inv_def subs_inv_def nth_append queue_inv_def sub_finish_def less_Suc_eq
        split: option.splits)
  with inv op show ?thesis using ring_inv_same [of lg' lg] by (simp add: lg' log_inv_def)
qed

section \<open>The machine\<close>

text \<open>
  \<open>sm_seen i\<close> is the number of the newest frame consumer \<open>i\<close> has been handed: the newest frame
  of the ring when it subscribed (its backlog ends there), one more for every frame received.
\<close>

record stream_machine =
  sm_log :: stream_log
  sm_seen :: "nat \<Rightarrow> nat"

inductive stream_step :: "(rat \<Rightarrow> string) \<Rightarrow> stream_machine \<Rightarrow> stream_machine \<Rightarrow> bool" for fr where
  st_append: "log_append fr mode data sc task (sm_log m) = Inr (lg, f) \<Longrightarrow> stream_step fr m (m\<lparr>sm_log := lg\<rparr>)"
| st_finish: "log_finish r (sm_log m) = Inr lg \<Longrightarrow> stream_step fr m (m\<lparr>sm_log := lg\<rparr>)"
| st_restart: "log_restart (sm_log m) = Inr lg \<Longrightarrow> stream_step fr m (m\<lparr>sm_log := lg\<rparr>)"
| st_fail: "log_fail r (sm_log m) = Inr lg \<Longrightarrow> stream_step fr m (m\<lparr>sm_log := lg\<rparr>)"
| st_close: "stream_step fr m (m\<lparr>sm_log := log_close (sm_log m)\<rparr>)"
| st_subscribe: "log_subscribe x (sm_log m) = Inr (lg, backlog, i) \<Longrightarrow>
     stream_step fr m (m\<lparr>sm_log := lg, sm_seen := (sm_seen m)(i := nl_sequence (sm_log m))\<rparr>)"
| st_unsubscribe: "i < length (nl_objects (sm_log m)) \<Longrightarrow> stream_step fr m (m\<lparr>sm_log := sub_close i (sm_log m)\<rparr>)"
| st_receive: "i < length (nl_objects (sm_log m)) \<Longrightarrow> receive i (sm_log m) = (lg, r) \<Longrightarrow>
     stream_step fr m (m\<lparr>sm_log := lg, sm_seen := (case r of Inl _ \<Rightarrow> sm_seen m
        | Inr _ \<Rightarrow> (sm_seen m)(i := sm_seen m i + 1))\<rparr>)"

definition stream_init :: "stream_machine \<Rightarrow> bool" where
  "stream_init m \<longleftrightarrow> limits_ok (nl_limits (sm_log m)) \<and>
     new_log (nl_invocation_id (sm_log m)) (nl_limits (sm_log m)) (nl_epoch (sm_log m)) = Inr (sm_log m)"

definition stream_inv :: "stream_machine \<Rightarrow> bool" where
  "stream_inv m \<longleftrightarrow> log_inv (sm_log m) (sm_seen m)"

lemma stream_inv_init: "stream_init m \<Longrightarrow> stream_inv m"
proof -
  assume i: "stream_init m"
  then have l: "sm_log m = \<lparr>nl_invocation_id = nl_invocation_id (sm_log m), nl_limits = nl_limits (sm_log m),
      nl_epoch = nl_epoch (sm_log m), nl_sequence = 0,
      nl_events = [], nl_bytes = 0, nl_objects = [], nl_subscribers = [], nl_closed = False,
      nl_failure = None, nl_finished = None\<rparr>"
    by (auto simp: stream_init_def new_log_def)
  have lim: "limits_ok (nl_limits (sm_log m))" using i by (simp add: stream_init_def)
  have f: "nl_sequence (sm_log m) = 0" "nl_events (sm_log m) = []" "nl_bytes (sm_log m) = 0" "nl_objects (sm_log m) = []"
    "nl_subscribers (sm_log m) = []" "\<not> nl_closed (sm_log m)" by (subst l, simp)+
  show ?thesis by (simp add: stream_inv_def log_inv_def subs_inv_def ring_inv_def f lim) (intro exI [of _ 1], simp)
qed

lemma stream_inv_step:
  assumes m: "stream_inv m" and step: "stream_step fr m m'"
  shows "stream_inv m'"
  using step
proof cases
  case st_append
  then show ?thesis using m log_append_inv [THEN conjunct1] by (simp add: stream_inv_def)
next
  case st_finish
  then show ?thesis using m log_finish_inv [THEN conjunct1] by (simp add: stream_inv_def)
next
  case st_restart
  then show ?thesis using m log_restart_inv [THEN conjunct1] by (simp add: stream_inv_def)
next
  case st_fail
  then show ?thesis using m log_fail_inv [THEN conjunct1] by (simp add: stream_inv_def)
next
  case st_close
  then show ?thesis using m log_close_inv [THEN conjunct1] by (simp add: stream_inv_def)
next
  case st_subscribe
  then show ?thesis using m log_subscribe_inv [THEN conjunct1] by (simp add: stream_inv_def)
next
  case st_unsubscribe
  then show ?thesis using m sub_close_inv by (simp add: stream_inv_def)
next
  case st_receive
  then show ?thesis using m receive_spec [THEN conjunct1] by (simp add: stream_inv_def)
qed

interpretation stream: invariant_system stream_init "stream_step fr" stream_inv for fr
  by unfold_locales (auto intro: stream_inv_init stream_inv_step)

section \<open>Cursors\<close>

definition first_retained :: "stream_log \<Rightarrow> nat" where
  "first_retained lg = (case nl_events lg of [] \<Rightarrow> nl_sequence lg + 1 | e # _ \<Rightarrow> fst e)"

lemma ring_first:
  "ring_inv lg \<Longrightarrow> map fst (nl_events lg) = [first_retained lg ..< nl_sequence lg + 1] \<and> 1 \<le> first_retained lg"
proof -
  assume "ring_inv lg"
  then obtain lo where lo: "map fst (nl_events lg) = [lo ..< nl_sequence lg + 1]" "1 \<le> lo" "lo \<le> nl_sequence lg + 1"
    unfolding ring_inv_def by blast
  show ?thesis
  proof (cases "nl_events lg")
    case Nil
    then show ?thesis by (simp add: first_retained_def)
  next
    case (Cons e es)
    with lo have "lo < nl_sequence lg + 1" by (cases "lo < nl_sequence lg + 1") auto
    with lo(1) Cons have "fst e = lo" by (auto simp: upt_rec)
    with lo Cons show ?thesis by (simp add: first_retained_def)
  qed
qed

lemma log_cursor_event_id:
  assumes "CHR '':'' \<notin> set (nl_epoch lg)" "length (event_id (nl_epoch lg) n) \<le> 64" "0 < n"
  shows "log_cursor lg (event_id (nl_epoch lg) n) =
    (if first_retained lg \<le> n + 1 \<and> n \<le> nl_sequence lg then Inr n else Inl LookupError)"
proof -
  have "\<not> prefix ''0'' (dec n)" using dec_hd [OF assms(3)] by (cases "dec n") auto
  with assms show ?thesis
    by (auto simp: log_cursor_def event_id_def Let_def first_retained_def split: list.splits)
qed

lemma replay_numbers:
  assumes "ring_inv lg" "first_retained lg \<le> n + 1"
  shows "map fr_event_id (map snd (filter (\<lambda>e. fst e > n) (nl_events lg))) =
    map (event_id (nl_epoch lg)) [n + 1 ..< nl_sequence lg + 1]"
proof -
  let ?es = "filter (\<lambda>e. fst e > n) (nl_events lg)"
  have "map fr_event_id (map snd ?es) = map (event_id (nl_epoch lg)) (map fst ?es)"
    using assms(1) by (auto simp: ring_inv_def)
  also have "map fst ?es = filter (\<lambda>k. k > n) (map fst (nl_events lg))" by (simp add: filter_map comp_def)
  also have "\<dots> = filter (\<lambda>k. k > n) [first_retained lg ..< nl_sequence lg + 1]"
    using ring_first [OF assms(1)] by simp
  also have "\<dots> = [n + 1 ..< nl_sequence lg + 1]"
  proof (cases "first_retained lg \<le> n")
    case True
    show ?thesis
    proof (cases "n + 1 \<le> nl_sequence lg + 1")
      case True
      have "[first_retained lg ..< nl_sequence lg + 1] = [first_retained lg ..< n + 1] @ [n + 1 ..< nl_sequence lg + 1]"
        using True assms(2) by (metis le_iff_add upt_add_eq_append)
      then show ?thesis by (simp add: filter_empty_conv del: upt_Suc)
    qed (auto simp: filter_empty_conv)
  next
    case False
    with assms(2) have "first_retained lg = n + 1" by simp
    then show ?thesis by (auto intro!: filter_True)
  qed
  finally show ?thesis .
qed

section \<open>Properties\<close>

text \<open>
  \<^bold>\<open>C24.\<close> A consumer never misses a frame silently: in every reachable state, if \<^verbatim>\<open>receive\<close> hands
  consumer \<open>i\<close> a frame, it is the one right after the newest frame the consumer has been
  handed before. Slow consumers, eviction, restart and completion end a subscription with an
  exception; they never skip a frame.
\<close>

theorem no_silent_gap:
  assumes "reach stream_init (stream_step fr) m" and "i < length (nl_objects (sm_log m))"
    and "receive i (sm_log m) = (lg, Inr f)"
  shows "fr_event_id f = event_id (nl_epoch (sm_log m)) (sm_seen m i + 1)"
  using stream.reach_inv [OF assms(1)] receive_spec [OF _ assms(2,3)] by (simp add: stream_inv_def)

text \<open>
  \<^bold>\<open>C29.\<close> Replay is exact: presenting the event id of frame \<open>n\<close> as \<^verbatim>\<open>last_event_id\<close> is accepted just
  when the frame after it is still retained or yet to come, and the backlog is then every
  frame after \<open>n\<close> up to the newest, in order, where the live frames take over.
\<close>

theorem replay_exact:
  assumes "reach stream_init (stream_step fr) m" and "\<not> nl_closed (sm_log m)"
    and "CHR '':'' \<notin> set (nl_epoch (sm_log m))"
    and "length (event_id (nl_epoch (sm_log m)) n) \<le> 64" and "0 < n"
  shows "log_cursor (sm_log m) (event_id (nl_epoch (sm_log m)) n) =
      (if first_retained (sm_log m) \<le> n + 1 \<and> n \<le> nl_sequence (sm_log m) then Inr n else Inl LookupError)
    \<and> (log_subscribe (Some (event_id (nl_epoch (sm_log m)) n)) (sm_log m) = Inr (lg, backlog, i) \<longrightarrow>
         map fr_event_id backlog = map (event_id (nl_epoch (sm_log m))) [n + 1 ..< nl_sequence (sm_log m) + 1])"
proof (intro conjI impI)
  let ?lg = "sm_log m"
  have ring: "ring_inv ?lg" using stream.reach_inv [OF assms(1)] assms(2) by (simp add: stream_inv_def log_inv_def)
  show cur: "log_cursor ?lg (event_id (nl_epoch ?lg) n) =
      (if first_retained ?lg \<le> n + 1 \<and> n \<le> nl_sequence ?lg then Inr n else Inl LookupError)"
    by (rule log_cursor_event_id [OF assms(3-5)])
  assume "log_subscribe (Some (event_id (nl_epoch ?lg) n)) ?lg = Inr (lg, backlog, i)"
  then obtain k where k: "log_cursor ?lg (event_id (nl_epoch ?lg) n) = Inr k"
    and "backlog = map snd (filter (\<lambda>e. fst e > k) (nl_events ?lg))" by (auto elim: log_subscribe_Inr)
  with cur have "backlog = map snd (filter (\<lambda>e. fst e > n) (nl_events ?lg))" "first_retained ?lg \<le> n + 1"
    by (auto split: if_splits)
  with replay_numbers [OF ring] show "map fr_event_id backlog = map (event_id (nl_epoch ?lg)) [n + 1 ..< nl_sequence ?lg + 1]"
    by simp
qed

text \<open>
  Memory is bounded: however an execution publishes and consumers subscribe, the ring holds
  at most \<^verbatim>\<open>max_events\<close> frames and \<^verbatim>\<open>max_bytes\<close> bytes (its byte counter being exact), every queue at most
  \<^verbatim>\<open>queue_size\<close> items, and at most \<^verbatim>\<open>max_subscribers\<close> consumers are attached.
\<close>

theorem stream_bounded:
  assumes "reach stream_init (stream_step fr) m"
  shows "length (nl_events (sm_log m)) \<le> lim_max_events (nl_limits (sm_log m)) \<and>
    nl_bytes (sm_log m) = ring_bytes (nl_events (sm_log m)) \<and>
    nl_bytes (sm_log m) \<le> lim_max_bytes (nl_limits (sm_log m)) \<and>
    length (nl_subscribers (sm_log m)) \<le> lim_max_subscribers (nl_limits (sm_log m)) \<and>
    (\<forall>s\<in>set (nl_objects (sm_log m)). length (sub_queue s) \<le> lim_queue_size (nl_limits (sm_log m)))"
proof -
  have inv: "log_inv (sm_log m) (sm_seen m)" using stream.reach_inv [OF assms] by (simp add: stream_inv_def)
  then have "\<forall>s\<in>set (nl_objects (sm_log m)). length (sub_queue s) \<le> lim_queue_size (nl_limits (sm_log m))"
    by (auto simp: log_inv_def subs_inv_def in_set_conv_nth)
  with inv show ?thesis by (auto simp: log_inv_def subs_inv_def ring_inv_def split: if_splits)
qed

section \<open>Witnesses\<close>

text \<open>A log of two frames with one consumer, which has received neither.\<close>

definition ex_limits :: stream_limits where
  "ex_limits = \<lparr>lim_max_events = 2, lim_max_bytes = 1024, lim_max_event_bytes = 512,
     lim_max_subscribers = 2, lim_queue_size = 4\<rparr>"

definition ex_log :: stream_log where
  "ex_log = \<lparr>nl_invocation_id = ''i'', nl_limits = ex_limits, nl_epoch = ''e'', nl_sequence = 0,
     nl_events = [], nl_bytes = 0, nl_objects = [], nl_subscribers = [], nl_closed = False,
     nl_failure = None, nl_finished = None\<rparr>"

definition ex_publish :: "stream_log \<Rightarrow> stream_log" where
  "ex_publish lg = (case log_append (\<lambda>_. ''0'') ''values'' PNone (Some ''/do'') None lg of
     Inr (lg', f) \<Rightarrow> lg' | Inl _ \<Rightarrow> lg)"

definition ex_attach :: "stream_log \<Rightarrow> stream_log" where
  "ex_attach lg = (case log_subscribe None lg of Inr (lg', _, _) \<Rightarrow> lg' | Inl _ \<Rightarrow> lg)"

definition ex_attached :: stream_machine where
  "ex_attached = \<lparr>sm_log = ex_attach ex_log, sm_seen = (\<lambda>_. 0)\<rparr>"

definition ex_published :: stream_machine where
  "ex_published = ex_attached\<lparr>sm_log := ex_publish (ex_publish (ex_attach ex_log))\<rparr>"

lemma ex_publish_step:
  assumes "case log_append (\<lambda>_. ''0'') ''values'' PNone (Some ''/do'') None (sm_log m) of Inr _ \<Rightarrow> True | Inl _ \<Rightarrow> False"
  shows "stream_step (\<lambda>_. ''0'') m (m\<lparr>sm_log := ex_publish (sm_log m)\<rparr>)"
proof -
  from assms obtain lg f where "log_append (\<lambda>_. ''0'') ''values'' PNone (Some ''/do'') None (sm_log m) = Inr (lg, f)"
    by (auto split: sum.splits)
  from st_append [OF this] this show ?thesis by (simp add: ex_publish_def)
qed

lemma ex_published_reached: "reach stream_init (stream_step (\<lambda>_. ''0'')) ex_published"
proof -
  let ?m0 = "\<lparr>sm_log = ex_log, sm_seen = (\<lambda>_. 0)\<rparr>"
  let ?m1 = "\<lparr>sm_log = ex_attach ex_log, sm_seen = (\<lambda>_. 0)\<rparr>"
  have "stream_init ?m0"
    by (simp add: stream_init_def ex_log_def ex_limits_def limits_ok_def limits_post_init_def new_log_def)
  then have r0: "reach stream_init (stream_step (\<lambda>_. ''0'')) ?m0" by (rule reach_init)
  have "log_subscribe None ex_log = Inr (ex_attach ex_log, [], 0)"
    by (simp add: ex_attach_def log_subscribe_def ex_log_def ex_limits_def Let_def)
  with st_subscribe [of None ?m0] have "stream_step (\<lambda>_. ''0'') ?m0 ?m1"
    by (simp add: fun_upd_def ex_log_def cong: if_cong)
  with r0 have r1: "reach stream_init (stream_step (\<lambda>_. ''0'')) ?m1" by (rule reach_step)
  have ok: "case log_append (\<lambda>_. ''0'') ''values'' PNone (Some ''/do'') None (ex_attach ex_log) of Inr _ \<Rightarrow> True | Inl _ \<Rightarrow> False"
    "case log_append (\<lambda>_. ''0'') ''values'' PNone (Some ''/do'') None (ex_publish (ex_attach ex_log)) of Inr _ \<Rightarrow> True | Inl _ \<Rightarrow> False"
    by code_simp+
  have "stream_step (\<lambda>_. ''0'') ?m1 (?m1\<lparr>sm_log := ex_publish (ex_attach ex_log)\<rparr>)"
    using ex_publish_step [of ?m1] ok(1) by simp
  with r1 have r2: "reach stream_init (stream_step (\<lambda>_. ''0'')) (?m1\<lparr>sm_log := ex_publish (ex_attach ex_log)\<rparr>)"
    by (rule reach_step)
  have "stream_step (\<lambda>_. ''0'') (?m1\<lparr>sm_log := ex_publish (ex_attach ex_log)\<rparr>) ex_published"
    using ex_publish_step [of "?m1\<lparr>sm_log := ex_publish (ex_attach ex_log)\<rparr>"] ok(2)
    by (simp add: ex_published_def ex_attached_def)
  with r2 show ?thesis by (rule reach_step)
qed

definition ex_summary :: "stream_log \<Rightarrow> string \<times> nat \<times> bool \<times> nat \<times> nat \<times> nat \<times> nat \<times> bool \<times> bool" where
  "ex_summary lg = (nl_epoch lg, nl_sequence lg, nl_closed lg, first_retained lg, length (nl_objects lg),
     length (nl_events lg), lim_max_bytes (nl_limits lg),
     (case snd (receive 0 lg) of Inr _ \<Rightarrow> True | Inl _ \<Rightarrow> False),
     (case log_subscribe (Some ''e:1'') lg of Inr _ \<Rightarrow> True | Inl _ \<Rightarrow> False))"

lemma ex_published_shape: "ex_summary (sm_log ex_published) = (''e'', 2, False, 1, 1, 2, 1024, True, True)"
  by code_simp

lemmas ex_shape = ex_published_shape [unfolded ex_summary_def, simplified]

lemma ex_ids: "event_id ''e'' 1 = ''e:1''" "event_id ''e'' 2 = ''e:2''" "event_id ''e'' 3 = ''e:3''"
  by (simp_all add: event_id_def dec.simps owa_eval del: One_nat_def)

theorem no_silent_gap_witness:
  "\<exists>f. snd (receive 0 (sm_log ex_published)) = Inr f \<and> fr_event_id f = ''e:1''"
proof -
  obtain lg f where r: "receive 0 (sm_log ex_published) = (lg, Inr f)"
    using ex_shape by (cases "receive 0 (sm_log ex_published)") (auto split: sum.splits)
  have "sm_seen ex_published 0 = 0" by (simp add: ex_published_def ex_attached_def)
  then show ?thesis
    using no_silent_gap [OF ex_published_reached _ r] r ex_shape ex_ids(1) by simp
qed

theorem replay_exact_witness:
  "log_cursor (sm_log ex_published) ''e:1'' = Inr 1 \<and> log_cursor (sm_log ex_published) ''e:3'' = Inl LookupError \<and>
   (\<exists>lg backlog i. log_subscribe (Some ''e:1'') (sm_log ex_published) = Inr (lg, backlog, i) \<and>
      map fr_event_id backlog = [''e:2''])"
proof -
  obtain lg backlog i where s: "log_subscribe (Some ''e:1'') (sm_log ex_published) = Inr (lg, backlog, i)"
    using ex_shape by (auto split: sum.splits)
  have f: "\<not> nl_closed (sm_log ex_published)" "nl_epoch (sm_log ex_published) = ''e''"
    "nl_sequence (sm_log ex_published) = 2" "first_retained (sm_log ex_published) = 1" using ex_shape by simp_all
  note r = replay_exact [OF ex_published_reached f(1), unfolded f(2-4)]
  have "[1 + 1 ..< 2 + 1] = [2 :: nat]" by (simp add: upt_rec)
  with r [of 1 lg backlog i] r [of 3] ex_ids s show ?thesis by simp
qed

theorem stream_bounded_witness:
  "length (nl_events (sm_log ex_published)) = 2 \<and> nl_bytes (sm_log ex_published) \<le> 1024"
  using stream_bounded [OF ex_published_reached] ex_shape by simp

end
