(* ===== verification/Native_Stream_Registry.thy ===== *)
theory Native_Stream_Registry
  imports Native_Streams
begin

text \<open>
  The observation logs one worker retains (\<^verbatim>\<open>native_stream_registry.py\<close>) under the validated
  \<^verbatim>\<open>NativeStreamsConfig\<close>. An entry holds its log; a subscription is named by the epoch of its log and its
  index there, so releasing one whose log has left the table is the no-op it is in the code (that
  log was closed, and with it all its subscriptions). The machine runs any sequence of registry
  calls and log operations; its lemmas bound what a worker retains and keep observations to the
  principal and definition that own them.
\<close>

section \<open>Configuration\<close>

record streams_config =
  sc_max_logs :: nat
  sc_max_events :: nat
  sc_max_bytes :: nat
  sc_max_event_bytes :: nat
  sc_max_subscribers :: nat
  sc_queue_size :: nat
  sc_retention_seconds :: rat

definition validate_stream_capacity :: "streams_config \<Rightarrow> streams_config res" where
  "validate_stream_capacity c =
     bindE (guardE (1 \<le> sc_max_logs c \<and> sc_max_logs c \<le> 128 \<and> 1 \<le> sc_max_events c \<and> sc_max_events c \<le> 1000
       \<and> 256 \<le> sc_max_bytes c \<and> sc_max_bytes c \<le> 16777216
       \<and> 256 \<le> sc_max_event_bytes c \<and> sc_max_event_bytes c \<le> 262144
       \<and> 1 \<le> sc_max_subscribers c \<and> sc_max_subscribers c \<le> 128
       \<and> 1 \<le> sc_queue_size c \<and> sc_queue_size c \<le> 1000
       \<and> 0 < sc_retention_seconds c \<and> sc_retention_seconds c \<le> 600) ValueError) (\<lambda>_.
     bindE (guardE (\<not> sc_max_event_bytes c > sc_max_bytes c) ValueError) (\<lambda>_.
     bindE (guardE (\<not> sc_max_logs c * sc_max_bytes c > 67108864) ValueError) (\<lambda>_.
     bindE (guardE (\<not> sc_max_subscribers c * sc_max_bytes c > 67108864) ValueError) (\<lambda>_.
     bindE (guardE (\<not> sc_max_subscribers c * sc_queue_size c * sc_max_event_bytes c > 67108864) ValueError) (\<lambda>_.
       Inr c)))))"

section \<open>State\<close>

record stream_entry =
  en_log :: stream_log
  en_owner :: string
  en_fingerprint :: string
  en_ended_at :: "rat option"

record stream_registry =
  rg_configuration :: streams_config
  rg_policy :: streams_config
  rg_entries :: "(string \<times> stream_entry) list"
  rg_consumers :: "(string \<times> nat) list"
  rg_closed :: bool

text \<open>The fields of an execution handle the registry reads.\<close>

record stream_handle =
  sh_invocation_id :: string
  sh_owner_principal :: "string option"
  sh_workflow_fingerprint :: string

record extension_requirement =
  er_required :: bool
  er_capability_id :: string

definition new_registry :: "streams_config \<Rightarrow> stream_registry res" where
  "new_registry c = bindE (validate_stream_capacity c) (\<lambda>c'.
     Inr \<lparr>rg_configuration = c', rg_policy = c', rg_entries = [], rg_consumers = [], rg_closed = False\<rparr>)"

definition registry_verify :: "streams_config option \<Rightarrow> stream_registry \<Rightarrow> unit res" where
  "registry_verify c rg =
     guardE (\<not> (rg_closed rg \<or> c = None \<or> c \<noteq> Some (rg_policy rg) \<or> rg_configuration rg \<noteq> rg_policy rg))
       ConfigurationError"

section \<open>Operations\<close>

definition expired :: "rat \<Rightarrow> stream_entry \<Rightarrow> bool" where
  "expired deadline e = (case en_ended_at e of None \<Rightarrow> False | Some t \<Rightarrow> t \<le> deadline)"

text \<open>Pruned logs are closed before they leave the table; nothing of them is reachable through it.\<close>

definition prune :: "rat \<Rightarrow> stream_registry \<Rightarrow> stream_registry" where
  "prune now rg =
     rg\<lparr>rg_entries := filter (\<lambda>kv. \<not> expired (now - sc_retention_seconds (rg_configuration rg)) (snd kv))
                        (rg_entries rg)\<rparr>"

definition LANGGRAPH_STREAMS :: string where
  "LANGGRAPH_STREAMS = ''langgraph.streams@1.0.0''"

definition streams_required :: "extension_requirement list \<Rightarrow> bool" where
  "streams_required rs =
     list_ex (\<lambda>r. er_required r \<and> er_capability_id r = LANGGRAPH_STREAMS) rs"

definition stream_limits_of :: "streams_config \<Rightarrow> stream_limits res" where
  "stream_limits_of c = limits_post_init
     \<lparr>lim_max_events = sc_max_events c, lim_max_bytes = sc_max_bytes c,
      lim_max_event_bytes = sc_max_event_bytes c, lim_max_subscribers = sc_max_subscribers c,
      lim_queue_size = sc_queue_size c\<rparr>"

text \<open>Room for one more entry: the oldest finished one is dropped, or there is none.\<close>

definition make_room :: "stream_registry \<Rightarrow> stream_registry option" where
  "make_room rg =
     (if length (rg_entries rg) \<ge> sc_max_logs (rg_configuration rg)
      then case min_by (\<lambda>kv. case en_ended_at (snd kv) of None \<Rightarrow> 0 | Some t \<Rightarrow> t)
                  (filter (\<lambda>kv. en_ended_at (snd kv) \<noteq> None) (rg_entries rg)) of
             None \<Rightarrow> None
           | Some (key, _) \<Rightarrow> Some (rg\<lparr>rg_entries := dict_del key (rg_entries rg)\<rparr>)
      else Some rg)"

definition add_entry ::
  "string \<Rightarrow> stream_handle \<Rightarrow> string \<Rightarrow> stream_registry \<Rightarrow> stream_registry \<times> string option res" where
  "add_entry epoch h owner rg =
     (case make_room rg of
        None \<Rightarrow> (rg, Inr None)
      | Some rg' \<Rightarrow>
          (case bindE (stream_limits_of (rg_configuration rg)) (\<lambda>l. new_log (sh_invocation_id h) l epoch) of
             Inl e \<Rightarrow> (rg', Inl e)
           | Inr lg \<Rightarrow>
               (rg'\<lparr>rg_entries := dict_set (sh_invocation_id h)
                      \<lparr>en_log = lg, en_owner = owner, en_fingerprint = sh_workflow_fingerprint h,
                       en_ended_at = None\<rparr> (rg_entries rg')\<rparr>, Inr (Some epoch))))"

definition registry_begin ::
  "rat \<Rightarrow> string \<Rightarrow> stream_handle \<Rightarrow> extension_requirement list \<Rightarrow> stream_registry \<Rightarrow>
   stream_registry \<times> string option res" where
  "registry_begin now epoch h rs rg =
     (if rg_closed rg \<or> \<not> streams_required rs then (rg, Inr None)
      else let rg = prune now rg; iid = sh_invocation_id h in
        (case sh_owner_principal h of
           None \<Rightarrow> (rg, Inr None)
         | Some owner \<Rightarrow>
             if owner = [] then (rg, Inr None)
             else (case dict_get (rg_entries rg) iid of
                None \<Rightarrow> add_entry epoch h owner rg
              | Some e \<Rightarrow>
                  if en_owner e \<noteq> owner \<or> en_fingerprint e \<noteq> sh_workflow_fingerprint h then (rg, Inr None)
                  else if log_available (en_log e) then
                    (case log_restart (en_log e) of
                       Inl x \<Rightarrow> (rg, Inl x)
                     | Inr lg \<Rightarrow> (rg\<lparr>rg_entries := dict_set iid (e\<lparr>en_log := lg, en_ended_at := None\<rparr>) (rg_entries rg)\<rparr>,
                                 Inr (Some (nl_epoch lg))))
                  else add_entry epoch h owner (rg\<lparr>rg_entries := dict_del iid (rg_entries rg)\<rparr>))))"

definition registry_end ::
  "rat \<Rightarrow> stream_handle \<Rightarrow> string \<Rightarrow> stream_registry \<Rightarrow> stream_registry res" where
  "registry_end now h reason rg =
     (case dict_get (rg_entries rg) (sh_invocation_id h) of
        None \<Rightarrow> Inr rg
      | Some e \<Rightarrow>
          if Some (en_owner e) = sh_owner_principal h
          then bindE (log_finish reason (en_log e)) (\<lambda>lg.
                 Inr (rg\<lparr>rg_entries := dict_set (sh_invocation_id h)
                        (e\<lparr>en_log := lg, en_ended_at := Some now\<rparr>) (rg_entries rg)\<rparr>))
          else Inr rg)"

definition registry_subscribe ::
  "rat \<Rightarrow> stream_handle \<Rightarrow> string option \<Rightarrow> stream_registry \<Rightarrow>
   stream_registry \<times> (stream_frame list \<times> string \<times> nat) res" where
  "registry_subscribe now h last_event_id rg =
     (let rg = prune now rg; iid = sh_invocation_id h in
      case dict_get (rg_entries rg) iid of
        None \<Rightarrow> (rg, Inl LookupError)
      | Some e \<Rightarrow>
          if rg_closed rg \<or> Some (en_owner e) \<noteq> sh_owner_principal h
             \<or> en_fingerprint e \<noteq> sh_workflow_fingerprint h then (rg, Inl LookupError)
          else if length (rg_consumers rg) \<ge> sc_max_subscribers (rg_configuration rg) then (rg, Inl RuntimeError)
          else (case log_subscribe last_event_id (en_log e) of
             Inl x \<Rightarrow> (rg, Inl x)
           | Inr (lg, backlog, i) \<Rightarrow>
               (rg\<lparr>rg_entries := dict_set iid (e\<lparr>en_log := lg\<rparr>) (rg_entries rg),
                   rg_consumers := (nl_epoch lg, i) # rg_consumers rg\<rparr>,
                Inr (backlog, nl_epoch lg, i))))"

definition close_subscription :: "string \<times> nat \<Rightarrow> stream_entry \<Rightarrow> stream_entry" where
  "close_subscription s e =
     (if nl_epoch (en_log e) = fst s \<and> snd s < length (nl_objects (en_log e))
      then e\<lparr>en_log := sub_close (snd s) (en_log e)\<rparr> else e)"

definition registry_release :: "string \<times> nat \<Rightarrow> stream_registry \<Rightarrow> stream_registry" where
  "registry_release s rg =
     rg\<lparr>rg_entries := map (\<lambda>(k, e). (k, close_subscription s e)) (rg_entries rg),
        rg_consumers := removeAll s (rg_consumers rg)\<rparr>"

definition registry_close :: "stream_registry \<Rightarrow> stream_registry" where
  "registry_close rg =
     fold registry_release (rg_consumers rg) (rg\<lparr>rg_closed := True, rg_entries := []\<rparr>)"

section \<open>Invariant\<close>

definition stream_entry_ok :: "streams_config \<Rightarrow> stream_entry \<Rightarrow> bool" where
  "stream_entry_ok c e \<longleftrightarrow> (\<exists>seen. log_inv (en_log e) seen) \<and> stream_limits_of c = Inr (nl_limits (en_log e))"

definition registry_inv :: "stream_registry \<Rightarrow> bool" where
  "registry_inv rg \<longleftrightarrow>
     validate_stream_capacity (rg_configuration rg) = Inr (rg_configuration rg) \<and>
     rg_policy rg = rg_configuration rg \<and>
     dict_wf (rg_entries rg) \<and>
     length (rg_entries rg) \<le> sc_max_logs (rg_configuration rg) \<and>
     length (rg_consumers rg) \<le> sc_max_subscribers (rg_configuration rg) \<and>
     (\<forall>kv\<in>set (rg_entries rg). stream_entry_ok (rg_configuration rg) (snd kv))"

lemma limits_post_init_eq: "limits_post_init l = Inr l' \<Longrightarrow> l' = l"
  by (auto simp: limits_post_init_def)

lemma new_log_inv:
  assumes "limits_post_init l = Inr l" "new_log iid l epoch = Inr lg"
  shows "log_inv lg (\<lambda>_. 0) \<and> nl_limits lg = l \<and> nl_epoch lg = epoch"
proof -
  have lg: "nl_limits lg = l" "nl_epoch lg = epoch" "nl_invocation_id lg = iid"
    using assms(2) by (auto simp: new_log_def)
  then have "stream_init \<lparr>sm_log = lg, sm_seen = (\<lambda>_. 0)\<rparr>"
    using assms by (simp add: stream_init_def limits_ok_def)
  from stream_inv_init [OF this] lg show ?thesis by (simp add: stream_inv_def)
qed

lemma set_dict_set_subset: "set (dict_set k v d) \<subseteq> insert (k, v) (set d)"
  by (induction d) auto

lemma set_dict_del_subset: "set (dict_del k d) \<subseteq> set d"
  by (induction d) auto

lemma length_dict_del_less: "k \<in> fst ` set d \<Longrightarrow> length (dict_del k d) < length d"
proof (induction d)
  case (Cons p d)
  then show ?case using length_dict_del_le [of k d] by (cases "fst p = k") (auto simp: less_Suc_eq_le)
qed simp

lemma registry_inv_set:
  assumes "registry_inv rg" "dict_get (rg_entries rg) k = Some e" "stream_entry_ok (rg_configuration rg) e'"
  shows "registry_inv (rg\<lparr>rg_entries := dict_set k e' (rg_entries rg)\<rparr>)"
proof -
  have "length (dict_set k e' (rg_entries rg)) = length (rg_entries rg)"
    using assms(2) by (simp add: length_dict_set) (metis image_eqI map_of_SomeD fst_conv)
  then show ?thesis using assms set_dict_set_subset [of k e' "rg_entries rg"]
    by (auto simp: registry_inv_def)
qed

lemma registry_inv_filter:
  "registry_inv rg \<Longrightarrow> registry_inv (rg\<lparr>rg_entries := filter P (rg_entries rg)\<rparr>)"
  using length_filter_le [of P "rg_entries rg"]
  by (auto simp: registry_inv_def dict_wf_def distinct_map_filter intro: le_trans simp del: length_filter_le)

lemma registry_inv_del:
  "registry_inv rg \<Longrightarrow> registry_inv (rg\<lparr>rg_entries := dict_del k (rg_entries rg)\<rparr>)"
  using length_dict_del_le [of k "rg_entries rg"] set_dict_del_subset [of k "rg_entries rg"]
  by (auto simp: registry_inv_def intro: le_trans)

lemma prune_inv: "registry_inv rg \<Longrightarrow> registry_inv (prune now rg)"
  by (simp add: prune_def registry_inv_filter)

lemma registry_inv_entry:
  "registry_inv rg \<Longrightarrow> dict_get (rg_entries rg) k = Some e \<Longrightarrow> stream_entry_ok (rg_configuration rg) e"
  by (auto simp: registry_inv_def dest!: map_of_SomeD)

lemma make_room_inv:
  assumes "registry_inv rg" "make_room rg = Some rg'"
  shows "registry_inv rg' \<and> length (rg_entries rg') < sc_max_logs (rg_configuration rg) \<and>
    rg_configuration rg' = rg_configuration rg"
proof (cases "length (rg_entries rg) \<ge> sc_max_logs (rg_configuration rg)")
  case True
  let ?f = "\<lambda>kv :: string \<times> stream_entry. case en_ended_at (snd kv) of None \<Rightarrow> 0 | Some t \<Rightarrow> t"
  from True assms(2) obtain key e where
    "min_by ?f (filter (\<lambda>kv. en_ended_at (snd kv) \<noteq> None) (rg_entries rg)) = Some (key, e)"
    and rg': "rg' = rg\<lparr>rg_entries := dict_del key (rg_entries rg)\<rparr>"
    by (simp add: make_room_def split: option.splits prod.splits)
  from min_by_in [OF this(1)] have "(key, e) \<in> set (rg_entries rg)" by simp
  then have "key \<in> fst ` set (rg_entries rg)" by force
  note length_dict_del_less [OF this]
  with True assms(1) registry_inv_del [OF assms(1)] show ?thesis by (auto simp: rg' registry_inv_def)
qed (use assms in \<open>auto simp: make_room_def\<close>)

lemma add_entry_inv:
  assumes inv: "registry_inv rg" and add: "add_entry epoch h owner rg = (rg', r)"
  shows "registry_inv rg'"
proof (cases "make_room rg")
  case None
  with assms show ?thesis by (simp add: add_entry_def)
next
  case (Some rg1)
  note room = make_room_inv [OF inv Some]
  show ?thesis
  proof (cases "bindE (stream_limits_of (rg_configuration rg)) (\<lambda>l. new_log (sh_invocation_id h) l epoch)")
    case (Inl e)
    with Some add room show ?thesis by (simp add: add_entry_def)
  next
    case (Inr lg)
    then obtain l where l: "stream_limits_of (rg_configuration rg) = Inr l"
      and lg: "new_log (sh_invocation_id h) l epoch = Inr lg" by auto
    have "limits_post_init l = Inr l" using l limits_post_init_eq by (auto simp: stream_limits_of_def)
    from new_log_inv [OF this lg] l have
      "stream_entry_ok (rg_configuration rg) \<lparr>en_log = lg, en_owner = owner, en_fingerprint = sh_workflow_fingerprint h, en_ended_at = None\<rparr>"
      by (auto simp: stream_entry_ok_def)
    with Some Inr add room set_dict_set_subset show ?thesis
      by (fastforce simp: add_entry_def registry_inv_def length_dict_set)
  qed
qed

lemma entry_ok_finish:
  "stream_entry_ok c e \<Longrightarrow> log_finish r (en_log e) = Inr lg \<Longrightarrow> stream_entry_ok c (e\<lparr>en_log := lg, en_ended_at := t\<rparr>)"
  using log_finish_inv [THEN conjunct1]
  by (fastforce simp: stream_entry_ok_def log_finish_def finish_touch split: if_splits)

lemma entry_ok_restart:
  "stream_entry_ok c e \<Longrightarrow> log_restart (en_log e) = Inr lg \<Longrightarrow> stream_entry_ok c (e\<lparr>en_log := lg, en_ended_at := t\<rparr>)"
  using log_restart_inv [THEN conjunct1] by (fastforce simp: stream_entry_ok_def log_restart_def split: if_splits)

lemma entry_ok_subscribe:
  "stream_entry_ok c e \<Longrightarrow> log_subscribe x (en_log e) = Inr (lg, b, i) \<Longrightarrow> stream_entry_ok c (e\<lparr>en_log := lg\<rparr>)"
  using log_subscribe_inv [THEN conjunct1] by (fastforce simp: stream_entry_ok_def elim: log_subscribe_Inr)

lemma entry_ok_close: "stream_entry_ok c e \<Longrightarrow> stream_entry_ok c (close_subscription s e)"
  using sub_close_inv
  by (fastforce simp: stream_entry_ok_def close_subscription_def sub_close_def sub_end_def Let_def)

lemma registry_begin_inv:
  assumes inv: "registry_inv rg" and b: "registry_begin now epoch h rs rg = (rg', r)"
  shows "registry_inv rg'"
proof (cases "rg_closed rg \<or> \<not> streams_required rs")
  case False
  note inv' = prune_inv [OF inv, of now] and ent = registry_inv_entry [OF prune_inv [OF inv], of now]
  from b False show ?thesis
    by (auto simp: registry_begin_def Let_def inv'
        intro: add_entry_inv [OF inv'] add_entry_inv [OF registry_inv_del [OF inv']]
          registry_inv_set [OF inv' _ entry_ok_restart] dest: ent
        split: option.splits if_splits sum.splits)
qed (use assms in \<open>simp add: registry_begin_def\<close>)

lemma registry_end_inv:
  assumes "registry_inv rg" "registry_end now h reason rg = Inr rg'"
  shows "registry_inv rg'"
  using assms registry_inv_entry [OF assms(1)]
  by (auto simp: registry_end_def split: option.splits if_splits
      intro!: registry_inv_set intro: entry_ok_finish)

lemma registry_subscribe_inv:
  assumes inv: "registry_inv rg" and s: "registry_subscribe now h x rg = (rg', r)"
  shows "registry_inv rg'"
proof (cases "\<exists>b. r = Inr b")
  case True
  let ?rg = "prune now rg"
  from True s obtain e lg b i where e: "dict_get (rg_entries ?rg) (sh_invocation_id h) = Some e"
    and len: "length (rg_consumers ?rg) < sc_max_subscribers (rg_configuration ?rg)"
    and sub: "log_subscribe x (en_log e) = Inr (lg, b, i)"
    and rg': "rg' = ?rg\<lparr>rg_entries := dict_set (sh_invocation_id h) (e\<lparr>en_log := lg\<rparr>) (rg_entries ?rg),
        rg_consumers := (nl_epoch lg, i) # rg_consumers ?rg\<rparr>"
    by (auto simp: registry_subscribe_def Let_def split: option.splits if_splits sum.splits)
  have "registry_inv (?rg\<lparr>rg_entries := dict_set (sh_invocation_id h) (e\<lparr>en_log := lg\<rparr>) (rg_entries ?rg)\<rparr>)"
    by (rule registry_inv_set [OF prune_inv [OF inv] e entry_ok_subscribe [OF registry_inv_entry [OF prune_inv [OF inv] e] sub]])
  with len show ?thesis by (simp add: rg' registry_inv_def)
next
  case False
  with s have "rg' = prune now rg"
    by (auto simp: registry_subscribe_def Let_def split: option.splits if_splits sum.splits)
  then show ?thesis using prune_inv [OF inv] by simp
qed

lemma registry_release_inv:
  assumes "registry_inv rg"
  shows "registry_inv (registry_release s rg)"
proof -
  have "length (removeAll s (rg_consumers rg)) \<le> sc_max_subscribers (rg_configuration rg)"
    using assms le_trans [OF length_filter_le] by (auto simp: removeAll_filter_not_eq registry_inv_def)
  moreover have "map fst (map (\<lambda>(k, e). (k, close_subscription s e)) (rg_entries rg)) = map fst (rg_entries rg)"
    by auto
  moreover have "\<forall>kv\<in>set (map (\<lambda>(k, e). (k, close_subscription s e)) (rg_entries rg)).
      stream_entry_ok (rg_configuration rg) (snd kv)"
  proof clarsimp
    fix k e assume "(k, e) \<in> set (rg_entries rg)"
    then have "stream_entry_ok (rg_configuration rg) e" using assms by (force simp: registry_inv_def)
    then show "stream_entry_ok (rg_configuration rg) (close_subscription s e)" by (rule entry_ok_close)
  qed
  ultimately show ?thesis using assms unfolding registry_release_def registry_inv_def dict_wf_def
    by (simp del: map_map set_map)
qed

lemma registry_close_inv: "registry_inv rg \<Longrightarrow> registry_inv (registry_close rg)"
proof -
  assume "registry_inv rg"
  then have "registry_inv (rg\<lparr>rg_closed := True, rg_entries := []\<rparr>)" by (simp add: registry_inv_def)
  moreover have "registry_inv r \<Longrightarrow> registry_inv (fold registry_release cs r)" for cs r
    by (induction cs arbitrary: r) (simp_all add: registry_release_inv)
  ultimately show ?thesis by (simp add: registry_close_def)
qed

section \<open>The machine\<close>

text \<open>
  \<open>rs_log\<close> is any operation of the engine or a consumer on the log of an entry: the step relation of
  the log itself, whose ghost counters do not influence the log.
\<close>

inductive registry_step :: "(rat \<Rightarrow> string) \<Rightarrow> stream_registry \<Rightarrow> stream_registry \<Rightarrow> bool" for fr where
  rs_begin: "registry_begin now epoch h rs rg = (rg', r) \<Longrightarrow> registry_step fr rg rg'"
| rs_end: "registry_end now h reason rg = Inr rg' \<Longrightarrow> registry_step fr rg rg'"
| rs_subscribe: "registry_subscribe now h x rg = (rg', r) \<Longrightarrow> registry_step fr rg rg'"
| rs_release: "registry_step fr rg (registry_release s rg)"
| rs_close: "registry_step fr rg (registry_close rg)"
| rs_log: "dict_get (rg_entries rg) k = Some e \<Longrightarrow>
     stream_step fr \<lparr>sm_log = en_log e, sm_seen = seen\<rparr> m \<Longrightarrow>
     registry_step fr rg (rg\<lparr>rg_entries := dict_set k (e\<lparr>en_log := sm_log m\<rparr>) (rg_entries rg)\<rparr>)"

definition registry_init :: "stream_registry \<Rightarrow> bool" where
  "registry_init rg \<longleftrightarrow> new_registry (rg_configuration rg) = Inr rg"

lemma stream_step_any_seen:
  assumes "stream_step fr m m'"
  shows "\<exists>s'. stream_step fr (m\<lparr>sm_seen := s\<rparr>) (m'\<lparr>sm_seen := s'\<rparr>)"
  using assms
proof cases
  case (st_append mode data sc task lg f)
  then show ?thesis using stream_step.st_append [of fr mode data sc task "\<lparr>sm_log = sm_log m, sm_seen = s\<rparr>"] by (cases m) auto
next
  case (st_finish r lg)
  then show ?thesis using stream_step.st_finish [of r "\<lparr>sm_log = sm_log m, sm_seen = s\<rparr>"] by (cases m) auto
next
  case (st_restart lg)
  then show ?thesis using stream_step.st_restart [of "\<lparr>sm_log = sm_log m, sm_seen = s\<rparr>"] by (cases m) auto
next
  case (st_fail r lg)
  then show ?thesis using stream_step.st_fail [of r "\<lparr>sm_log = sm_log m, sm_seen = s\<rparr>"] by (cases m) auto
next
  case st_close
  then show ?thesis using stream_step.st_close [of fr "\<lparr>sm_log = sm_log m, sm_seen = s\<rparr>"] by (cases m) auto
next
  case (st_subscribe x lg backlog i)
  then show ?thesis using stream_step.st_subscribe [of x "\<lparr>sm_log = sm_log m, sm_seen = s\<rparr>"] by (cases m) auto
next
  case (st_unsubscribe i)
  then show ?thesis using stream_step.st_unsubscribe [of i "\<lparr>sm_log = sm_log m, sm_seen = s\<rparr>"] by (cases m) auto
next
  case (st_receive i lg r)
  then show ?thesis using stream_step.st_receive [of i "\<lparr>sm_log = sm_log m, sm_seen = s\<rparr>"] by (cases m) auto
qed

lemma fold_sub_end_limits [simp]: "nl_limits (fold (sub_end r) is lg) = nl_limits lg"
  by (simp add: sub_end_touch)

lemma log_close_limits [simp]: "nl_limits (log_close lg) = nl_limits lg"
proof -
  have eq: "sub_close = sub_end ''closed''" by (simp add: sub_close_def fun_eq_iff)
  show ?thesis unfolding log_close_def eq by (simp add: Let_def)
qed

lemma receive_limits: "receive i lg = (lg', r) \<Longrightarrow> nl_limits lg' = nl_limits lg"
  by (auto simp: receive_def Let_def split: if_splits list.splits queue_item.splits)

lemma stream_step_limits:
  assumes "stream_step fr m m'"
  shows "nl_limits (sm_log m') = nl_limits (sm_log m)"
  using assms
proof cases
  case (st_append mode data sc task lg f)
  then show ?thesis by (auto elim!: log_append_Inr simp: fold_deliver_touch)
qed (auto simp: log_finish_def finish_touch log_restart_def log_fail_def sub_close_def sub_end_touch touch_def
    elim: log_subscribe_Inr dest: receive_limits split: if_splits)

lemma registry_inv_init: "registry_init rg \<Longrightarrow> registry_inv rg"
proof -
  assume "registry_init rg"
  then obtain c where v: "validate_stream_capacity (rg_configuration rg) = Inr c"
    and rg: "rg = \<lparr>rg_configuration = c, rg_policy = c, rg_entries = [], rg_consumers = [], rg_closed = False\<rparr>"
    by (auto simp: registry_init_def new_registry_def)
  from rg have "rg_configuration rg = c" "rg_policy rg = c" "rg_entries rg = []" "rg_consumers rg = []" by simp_all
  with v show ?thesis by (simp add: registry_inv_def)
qed

lemma registry_inv_step:
  assumes inv: "registry_inv rg" and step: "registry_step fr rg rg'"
  shows "registry_inv rg'"
  using step
proof cases
  case (rs_log k e seen m)
  note ok = registry_inv_entry [OF inv rs_log(2)]
  then obtain s where s: "log_inv (en_log e) s" by (auto simp: stream_entry_ok_def)
  from stream_step_any_seen [OF rs_log(3), of s] obtain s' where
    "stream_step fr \<lparr>sm_log = en_log e, sm_seen = s\<rparr> (m\<lparr>sm_seen := s'\<rparr>)" by auto
  from stream_inv_step [OF _ this] s have "log_inv (sm_log m) s'" by (simp add: stream_inv_def)
  with ok stream_step_limits [OF rs_log(3)] have "stream_entry_ok (rg_configuration rg) (e\<lparr>en_log := sm_log m\<rparr>)"
    by (auto simp: stream_entry_ok_def)
  from registry_inv_set [OF inv rs_log(2) this] show ?thesis by (simp add: rs_log(1))
qed (use inv in \<open>auto intro: registry_begin_inv registry_end_inv registry_subscribe_inv registry_release_inv registry_close_inv\<close>)

interpretation registry: invariant_system registry_init "registry_step fr" registry_inv for fr
  by unfold_locales (auto intro: registry_inv_init registry_inv_step)

section \<open>Properties\<close>

lemma stream_entry_bytes:
  "stream_entry_ok c e \<Longrightarrow> nl_bytes (en_log e) \<le> sc_max_bytes c"
  by (auto simp: stream_entry_ok_def stream_limits_of_def log_inv_def ring_inv_def
      dest!: limits_post_init_eq split: if_splits)

text \<open>
  Whatever executions begin, publish, end and whoever subscribes, one worker retains at most
  \<^verbatim>\<open>max_logs\<close> logs holding together at most 64 MiB of frames, and serves at most
  \<^verbatim>\<open>max_subscribers\<close> consumers.
\<close>

theorem registry_bounded:
  assumes "reach registry_init (registry_step fr) rg"
  shows "length (rg_entries rg) \<le> sc_max_logs (rg_configuration rg) \<and>
    sum_list (map (\<lambda>kv. nl_bytes (en_log (snd kv))) (rg_entries rg)) \<le> 67108864 \<and>
    length (rg_consumers rg) \<le> sc_max_subscribers (rg_configuration rg)"
proof -
  let ?c = "rg_configuration rg"
  have inv: "registry_inv rg" by (rule registry.reach_inv [OF assms])
  then have each: "\<forall>kv\<in>set (rg_entries rg). nl_bytes (en_log (snd kv)) \<le> sc_max_bytes ?c"
    by (auto simp: registry_inv_def intro: stream_entry_bytes)
  have "sum_list (map (\<lambda>kv. nl_bytes (en_log (snd kv))) xs) \<le> length xs * sc_max_bytes ?c"
    if "\<forall>kv\<in>set xs. nl_bytes (en_log (snd kv)) \<le> sc_max_bytes ?c" for xs :: "(string \<times> stream_entry) list"
    using that by (induction xs) auto
  from this [OF each] have "sum_list (map (\<lambda>kv. nl_bytes (en_log (snd kv))) (rg_entries rg))
      \<le> length (rg_entries rg) * sc_max_bytes ?c" .
  also have "\<dots> \<le> sc_max_logs ?c * sc_max_bytes ?c" using inv by (simp add: registry_inv_def)
  also have "\<dots> \<le> 67108864"
    using inv by (simp add: registry_inv_def validate_stream_capacity_def)
  finally show ?thesis using inv by (simp add: registry_inv_def)
qed


text \<open>A worker that retains one log, for the witnesses.\<close>

definition ex_streams_config :: streams_config where
  "ex_streams_config = \<lparr>sc_max_logs = 1, sc_max_events = 2, sc_max_bytes = 1024, sc_max_event_bytes = 512,
     sc_max_subscribers = 2, sc_queue_size = 4, sc_retention_seconds = 60\<rparr>"

definition ex_registry :: stream_registry where
  "ex_registry = \<lparr>rg_configuration = ex_streams_config, rg_policy = ex_streams_config, rg_entries = [],
     rg_consumers = [], rg_closed = False\<rparr>"

definition ex_stream_handle :: stream_handle where
  "ex_stream_handle = \<lparr>sh_invocation_id = ''i'', sh_owner_principal = Some ''alice'', sh_workflow_fingerprint = ''f''\<rparr>"

definition ex_entry :: stream_entry where
  "ex_entry = \<lparr>en_log = ex_log, en_owner = ''alice'', en_fingerprint = ''f'', en_ended_at = None\<rparr>"

definition ex_retaining :: stream_registry where
  "ex_retaining = ex_registry\<lparr>rg_entries := [(''i'', ex_entry)]\<rparr>"

lemma ex_retaining_reached: "reach registry_init (registry_step fr) ex_retaining"
proof -
  have "registry_init ex_registry"
    by (simp add: registry_init_def ex_registry_def new_registry_def validate_stream_capacity_def ex_streams_config_def)
  then have "reach registry_init (registry_step fr) ex_registry" by (rule reach_init)
  moreover have "registry_begin 0 ''e'' ex_stream_handle [\<lparr>er_required = True, er_capability_id = LANGGRAPH_STREAMS\<rparr>] ex_registry
      = (ex_retaining, Inr (Some ''e''))"
    by (simp add: registry_begin_def streams_required_def prune_def ex_registry_def ex_stream_handle_def ex_retaining_def
        ex_entry_def add_entry_def make_room_def ex_streams_config_def stream_limits_of_def limits_post_init_def
        new_log_def ex_log_def ex_limits_def Let_def)
  then have "registry_step fr ex_registry ex_retaining" by (rule rs_begin)
  ultimately show ?thesis by (rule reach_step)
qed

theorem registry_bounded_witness:
  "length (rg_entries ex_retaining) = 1 \<and> length (rg_entries ex_retaining) \<le> sc_max_logs (rg_configuration ex_retaining)"
  using registry_bounded [OF ex_retaining_reached] by (simp add: ex_retaining_def)


end
