(* ===== verification/Forks.thy ===== *)
theory Forks
  imports Ownership Py_Text
begin

text \<open>
  Decisions of competitive forks (\<^verbatim>\<open>forks.py\<close>): the identity of a fork, the decision a branch
  proposes, the table that keeps the first claim, and the receipt of the losers' cleanup. A row
  holds the content of its JSON text, whose objects read back with sorted keys. SHA-256 is the
  parameter \<open>sha\<close>. The write of a claim and of a receipt is fenced by the execution lease.
\<close>

section \<open>Data\<close>

record fork_identity =
  fi_invocation_id :: string
  fi_workflow_fingerprint :: string
  fi_task_reference :: string
  fi_occurrence :: "(string \<times> int) list"

definition fork_identity_post_init :: "fork_identity \<Rightarrow> fork_identity res" where
  "fork_identity_post_init i =
     bindE (guardE (fi_invocation_id i \<noteq> [] \<and> fi_workflow_fingerprint i \<noteq> [] \<and> fi_task_reference i \<noteq> []) ValueError) (\<lambda>_.
     bindE (guardE (\<not> (fi_occurrence i = [] \<or> list_ex (\<lambda>(r, n). r = [] \<or> n < 1) (fi_occurrence i))) ValueError) (\<lambda>_.
       Inr i))"

text \<open>The canonical text: keys in sorted order, separators without blanks.\<close>

definition fork_key :: "(string \<Rightarrow> string) \<Rightarrow> fork_identity \<Rightarrow> string" where
  "fork_key sha i =
     sha (case json_dumps True (\<lambda>_. []) (PList [PStr ''owa/competitive-fork/v1'',
            PDict [(''invocation_id'', PStr (fi_invocation_id i)),
                   (''occurrence'', PList (map (\<lambda>(r, n). PList [PStr r, PInt n]) (fi_occurrence i))),
                   (''task_reference'', PStr (fi_task_reference i)),
                   (''workflow_fingerprint'', PStr (fi_workflow_fingerprint i))]]) of
          Inr t \<Rightarrow> t | Inl _ \<Rightarrow> [])"

record fork_decision =
  fd_winner :: int
  fd_status :: string
  fd_output :: pyval
  fd_context :: pyval
  fd_error :: pyval
  fd_operation_id :: "string option"
  fd_cancellation_intents :: "int list"
  fd_drained :: bool
  fd_error_status_code :: "int option"

definition fork_decision_post_init :: "fork_decision \<Rightarrow> fork_decision res" where
  "fork_decision_post_init d =
     bindE (guardE (0 \<le> fd_winner d) ValueError) (\<lambda>_.
     bindE (guardE (fd_status d \<in> {''completed'', ''faulted'', ''ended''}) ValueError) (\<lambda>_.
     bindE (guardE ((fd_status d = ''faulted'') = (fd_error d \<noteq> PNone)) ValueError) (\<lambda>_.
     bindE (guardE (case fd_error_status_code d of None \<Rightarrow> True | Some c \<Rightarrow> 100 \<le> c \<and> c \<le> 599) ValueError) (\<lambda>_.
     bindE (guardE (\<not> (length (remdups (fd_cancellation_intents d)) \<noteq> length (fd_cancellation_intents d)
        \<or> list_ex (\<lambda>i. i < 0 \<or> i = fd_winner d) (fd_cancellation_intents d))) ValueError) (\<lambda>_.
       Inr d)))))"

record fork_row =
  fw_payload :: fork_decision
  fw_drained :: int

type_synonym fork_table = "string \<rightharpoonup> fork_row"

section \<open>Operations\<close>

definition validate_decision :: "fork_decision \<Rightarrow> unit res" where
  "validate_decision d =
     bindE (validate_expression_data 0 64 (fd_output d)) (\<lambda>_.
     bindE (validate_expression_data 0 64 (fd_context d)) (\<lambda>_.
       validate_expression_data 0 64 (fd_error d)))"

definition fork_get :: "(string \<Rightarrow> string) \<Rightarrow> fork_table \<Rightarrow> fork_identity \<Rightarrow> fork_decision option res" where
  "fork_get sha tbl i =
     reraise {} WorkflowExecutionError
       (case tbl (fork_key sha i) of
          None \<Rightarrow> Inr None
        | Some row \<Rightarrow>
            bindE (guardE (fw_drained row \<in> {0, 1}) ValueError) (\<lambda>_.
            bindE (validate_decision (fw_payload row)) (\<lambda>_.
            bindE (fork_decision_post_init ((fw_payload row)\<lparr>fd_drained := (fw_drained row \<noteq> 0)\<rparr>)) (\<lambda>d.
              Inr (Some d)))))"

text \<open>What is stored of a decision: the receipt is a column of its own, objects are sorted.\<close>

definition fork_payload :: "fork_decision \<Rightarrow> fork_decision" where
  "fork_payload d = d\<lparr>fd_drained := False, fd_output := sort_keys (fd_output d),
     fd_context := sort_keys (fd_context d), fd_error := sort_keys (fd_error d)\<rparr>"

definition insert_decision :: "string \<Rightarrow> fork_decision \<Rightarrow> fork_table \<Rightarrow> fork_table" where
  "insert_decision key p tbl =
     (case tbl key of None \<Rightarrow> tbl(key \<mapsto> \<lparr>fw_payload = p, fw_drained = 0\<rparr>) | Some _ \<Rightarrow> tbl)"

definition fork_claim ::
  "(string \<Rightarrow> string) \<Rightarrow> ownership_table \<Rightarrow> rat \<Rightarrow> fork_table \<Rightarrow> fork_identity \<Rightarrow> fork_decision \<Rightarrow>
   execution_lease option \<Rightarrow> fork_table \<times> fork_decision res" where
  "fork_claim sha own now tbl i d lease =
     (case reraise {InvocationStateConflict} WorkflowExecutionError
             (bindE (validate_decision d) (\<lambda>_.
                owned_write_transaction own now lease (fi_invocation_id i) (fi_workflow_fingerprint i)
                  (Inr (insert_decision (fork_key sha i) (fork_payload d) tbl)))) of
        Inl e \<Rightarrow> (tbl, Inl e)
      | Inr tbl' \<Rightarrow>
          (tbl', bindE (fork_get sha tbl' i) (\<lambda>recorded.
                   case recorded of None \<Rightarrow> Inl WorkflowExecutionError | Some r \<Rightarrow> Inr r)))"

definition mark_drained ::
  "(string \<Rightarrow> string) \<Rightarrow> ownership_table \<Rightarrow> rat \<Rightarrow> fork_table \<Rightarrow> fork_identity \<Rightarrow>
   execution_lease option \<Rightarrow> fork_table res" where
  "mark_drained sha own now tbl i lease =
     reraise {InvocationStateConflict} WorkflowExecutionError
       (owned_write_transaction own now lease (fi_invocation_id i) (fi_workflow_fingerprint i)
          (case tbl (fork_key sha i) of
             None \<Rightarrow> Inl ValueError
           | Some row \<Rightarrow> Inr (tbl(fork_key sha i \<mapsto> row\<lparr>fw_drained := 1\<rparr>))))"

section \<open>The table is write-once\<close>

interpretation decisions: write_once "\<lambda>tbl k. map_option fw_payload (tbl k)" insert_decision
  by unfold_locales (auto simp: insert_decision_def split: option.splits)

section \<open>The machine\<close>

text \<open>Workers claim and acknowledge with any lease, under any ownership table and clock.\<close>

inductive fork_step :: "(string \<Rightarrow> string) \<Rightarrow> fork_table \<Rightarrow> fork_table \<Rightarrow> bool" for sha where
  fs_claim: "fork_decision_post_init d = Inr d \<Longrightarrow> fork_claim sha own now tbl i d lease = (tbl', r) \<Longrightarrow>
     fork_step sha tbl tbl'"
| fs_drain: "mark_drained sha own now tbl i lease = Inr tbl' \<Longrightarrow> fork_step sha tbl tbl'"

definition fork_row_ok :: "fork_row \<Rightarrow> bool" where
  "fork_row_ok row \<longleftrightarrow> fw_drained row \<in> {0, 1} \<and> validate_decision (fw_payload row) = Inr () \<and>
     fork_decision_post_init (fw_payload row) = Inr (fw_payload row) \<and> \<not> fd_drained (fw_payload row)"

definition fork_inv :: "fork_table \<Rightarrow> bool" where
  "fork_inv tbl \<longleftrightarrow> (\<forall>k row. tbl k = Some row \<longrightarrow> fork_row_ok row)"

definition fork_rel :: "fork_table \<Rightarrow> fork_table \<Rightarrow> bool" where
  "fork_rel s t \<longleftrightarrow> (\<forall>k row. s k = Some row \<longrightarrow>
     (\<exists>row'. t k = Some row' \<and> fw_payload row' = fw_payload row \<and> (fw_drained row = 1 \<longrightarrow> fw_drained row' = 1)))"

lemma post_init_drained [simp]:
  "fork_decision_post_init (d\<lparr>fd_drained := b\<rparr>) = Inr e \<longleftrightarrow>
   fork_decision_post_init d = Inr d \<and> e = d\<lparr>fd_drained := b\<rparr>"
  by (auto simp: fork_decision_post_init_def)

lemma sort_keys_PNone [simp]: "sort_keys v = PNone \<longleftrightarrow> v = PNone"
  by (cases v) auto

lemma payload_ok:
  "fork_decision_post_init d = Inr d \<Longrightarrow> validate_decision d = Inr () \<Longrightarrow>
   fork_row_ok \<lparr>fw_payload = fork_payload d, fw_drained = 0\<rparr>"
  by (auto simp: fork_row_ok_def fork_payload_def fork_decision_post_init_def validate_decision_def)

lemma fork_claim_table:
  "fork_claim sha own now tbl i d lease = (tbl', r) \<Longrightarrow>
   tbl' = tbl \<or> validate_decision d = Inr () \<and> tbl' = insert_decision (fork_key sha i) (fork_payload d) tbl"
  by (auto simp: fork_claim_def owned_write_transaction_def split: sum.splits option.splits if_splits)

lemma mark_drained_table:
  "mark_drained sha own now tbl i lease = Inr tbl' \<Longrightarrow>
   \<exists>row. tbl (fork_key sha i) = Some row \<and> tbl' = tbl(fork_key sha i \<mapsto> row\<lparr>fw_drained := 1\<rparr>)"
  by (auto simp: mark_drained_def owned_write_transaction_def split: option.splits if_splits)

lemma fork_row_ok_drain: "fork_row_ok row \<Longrightarrow> fork_row_ok (row\<lparr>fw_drained := 1\<rparr>)"
  by (simp add: fork_row_ok_def)

lemma fork_inv_step: "fork_inv s \<Longrightarrow> fork_step sha s t \<Longrightarrow> fork_inv t"
proof (erule fork_step.cases, goal_cases)
  case (1 d own now tbl i lease tbl' r)
  then show ?case using fork_claim_table [OF 1(5)] payload_ok [OF 1(4)]
    by (auto simp: fork_inv_def insert_decision_def split: option.splits if_splits)
next
  case (2 own now tbl i lease tbl')
  then show ?case using mark_drained_table [OF 2(4)]
    by (auto simp: fork_inv_def fork_row_ok_drain split: if_splits)
qed

lemma fork_rel_step: "fork_step sha s t \<Longrightarrow> fork_rel s t"
proof (erule fork_step.cases, goal_cases)
  case (1 d own now tbl i lease tbl' r)
  then show ?case using fork_claim_table [OF 1(4)]
    by (auto simp: fork_rel_def insert_decision_def split: option.splits)
next
  case (2 own now tbl i lease tbl')
  then show ?case using mark_drained_table [OF 2(3)] by (auto simp: fork_rel_def)
qed

interpretation forks: invariant_system "\<lambda>s. s = Map.empty" "fork_step sha" fork_inv for sha
  by unfold_locales (auto simp: fork_inv_def [of Map.empty] intro: fork_inv_step)

interpretation forks_mono: monotone_system "fork_step sha" fork_inv fork_rel for sha
proof
  show "fork_rel s u" if "fork_rel s t" "fork_rel t u" for s t u
    using that unfolding fork_rel_def by (metis (no_types, lifting))
qed (auto simp: fork_rel_def [of s s for s] intro: fork_inv_step fork_rel_step)

lemma fork_get_row:
  assumes "fork_inv tbl"
  shows "fork_get sha tbl i = Inr (map_option (\<lambda>row. (fw_payload row)\<lparr>fd_drained := fw_drained row = 1\<rparr>) (tbl (fork_key sha i)))"
proof (cases "tbl (fork_key sha i)")
  case (Some row)
  with assms have "fork_row_ok row" by (simp add: fork_inv_def)
  then have "fw_drained row \<in> {0, 1}" "validate_decision (fw_payload row) = Inr ()"
    "fork_decision_post_init (fw_payload row) = Inr (fw_payload row)" by (auto simp: fork_row_ok_def)
  moreover from this(3) have
    "fork_decision_post_init ((fw_payload row)\<lparr>fd_drained := b\<rparr>) = Inr ((fw_payload row)\<lparr>fd_drained := b\<rparr>)" for b by simp
  ultimately show ?thesis using Some by (auto simp: fork_get_def simp del: post_init_drained)
qed (simp add: fork_get_def)

section \<open>Properties\<close>

text \<open>
  \<^bold>\<open>C25.\<close> The winner of a competitive fork is decided once. After a decision can be read, any
  number of claims and cleanup receipts by any workers later it reads the same (only its
  \<^verbatim>\<open>drained\<close> flag may have turned on), and whatever a later claim proposes, the claimant is
  handed that decision or an exception.
\<close>

theorem winner_decided_once:
  assumes "reach (\<lambda>s. s = Map.empty) (fork_step sha) s" and "(fork_step sha)\<^sup>*\<^sup>* s t"
    and "fork_get sha s i = Inr (Some d)"
  shows "\<exists>b. (fd_drained d \<longrightarrow> b) \<and> fork_get sha t i = Inr (Some (d\<lparr>fd_drained := b\<rparr>)) \<and>
    (\<forall>own now proposal lease. snd (fork_claim sha own now t i proposal lease) \<in>
       {Inr (d\<lparr>fd_drained := b\<rparr>), Inl InvocationStateConflict, Inl WorkflowExecutionError})"
proof -
  have inv: "fork_inv s" by (rule forks.reach_inv [OF assms(1)])
  note run = forks_mono.run_rel [OF assms(2) inv]
  obtain row where row: "s (fork_key sha i) = Some row" "d = (fw_payload row)\<lparr>fd_drained := fw_drained row = 1\<rparr>"
    using assms(3) fork_get_row [OF inv] by auto
  with run obtain row' where row': "t (fork_key sha i) = Some row'" "fw_payload row' = fw_payload row"
    "fw_drained row = 1 \<longrightarrow> fw_drained row' = 1" by (auto simp: fork_rel_def)
  define b where "b = (fw_drained row' = 1)"
  have get: "fork_get sha t i = Inr (Some (d\<lparr>fd_drained := b\<rparr>))"
    using fork_get_row [OF run [THEN conjunct2]] row row' by (simp add: b_def)
  moreover have "snd (fork_claim sha own now t i proposal lease) \<in>
       {Inr (d\<lparr>fd_drained := b\<rparr>), Inl InvocationStateConflict, Inl WorkflowExecutionError}" for own now proposal lease
  proof -
    have "insert_decision (fork_key sha i) p t = t" for p using row'(1) by (simp add: insert_decision_def)
    then show ?thesis using get
      by (auto simp: fork_claim_def owned_write_transaction_def reraise_eq_Inl split: sum.splits option.splits if_splits)
  qed
  ultimately show ?thesis using row row' by (auto simp: b_def)
qed

text \<open>
  A claim that is refused leaves no trace, and an unfenced claim of a well-formed decision
  always returns the committed winner: its own proposal, as it reads back, if it is the first.
\<close>

theorem claim_records_winner:
  assumes "reach (\<lambda>s. s = Map.empty) (fork_step sha) s"
    and "fork_decision_post_init d = Inr d" and "validate_decision d = Inr ()"
  shows "(\<exists>w. snd (fork_claim sha own now s i d None) = Inr w \<and> fork_get sha (fst (fork_claim sha own now s i d None)) i = Inr (Some w)) \<and>
    (fork_get sha s i = Inr None \<longrightarrow> snd (fork_claim sha own now s i d None) = Inr (fork_payload d)) \<and>
    (snd (fork_claim sha own now s i d lease) = Inl e \<longrightarrow> fst (fork_claim sha own now s i d lease) = s)"
proof -
  let ?t = "insert_decision (fork_key sha i) (fork_payload d) s"
  have inv: "fork_inv s" by (rule forks.reach_inv [OF assms(1)])
  have t: "fork_claim sha own now s i d None = (?t, bindE (fork_get sha ?t i)
      (\<lambda>recorded. case recorded of None \<Rightarrow> Inl WorkflowExecutionError | Some r \<Rightarrow> Inr r))"
    using assms(3) by (simp add: fork_claim_def)
  have "fork_inv ?t" using fork_inv_step [OF inv fs_claim [OF assms(2) t]] .
  note get = fork_get_row [OF this]
  have new: "s (fork_key sha i) = None \<Longrightarrow> ?t (fork_key sha i) = Some \<lparr>fw_payload = fork_payload d, fw_drained = 0\<rparr>"
    by (simp add: insert_decision_def)
  have "?t (fork_key sha i) \<noteq> None" by (auto simp: insert_decision_def split: option.splits)
  then have ex: "\<exists>w. snd (fork_claim sha own now s i d None) = Inr w \<and> fork_get sha (fst (fork_claim sha own now s i d None)) i = Inr (Some w)"
    using t get by auto
  have first: "snd (fork_claim sha own now s i d None) = Inr (fork_payload d)" if "fork_get sha s i = Inr None"
    using that t get new fork_get_row [OF inv] by (simp add: fork_payload_def)
  have "fst (fork_claim sha own now s i d lease) = s" if r: "snd (fork_claim sha own now s i d lease) = Inl e"
  proof (rule ccontr)
    assume "fst (fork_claim sha own now s i d lease) \<noteq> s"
    then have "fork_claim sha own now s i d lease = fork_claim sha own now s i d None"
      by (auto simp: fork_claim_def owned_write_transaction_def split: sum.splits option.splits if_splits)
    with ex r show False by auto
  qed
  with ex first show ?thesis by blast
qed

definition ex_fork :: fork_identity where
  "ex_fork = \<lparr>fi_invocation_id = ''i'', fi_workflow_fingerprint = ''f'', fi_task_reference = ''/do/0'', fi_occurrence = [(''/do/0'', 1)]\<rparr>"

definition ex_decision :: "int \<Rightarrow> fork_decision" where
  "ex_decision w = \<lparr>fd_winner = w, fd_status = ''completed'', fd_output = PDict [(''b'', PInt 1), (''a'', PInt 2)], fd_context = PNone,
     fd_error = PNone, fd_operation_id = None, fd_cancellation_intents = [w + 1], fd_drained = False, fd_error_status_code = None\<rparr>"

lemma ex_decision_ok: "0 \<le> w \<Longrightarrow> fork_decision_post_init (ex_decision w) = Inr (ex_decision w) \<and> validate_decision (ex_decision w) = Inr ()"
  by (simp add: ex_decision_def fork_decision_post_init_def validate_decision_def validate_accepts MAX_SAFE_INTEGER_def)

definition ex_forks :: fork_table where
  "ex_forks = fst (fork_claim id Map.empty 0 Map.empty ex_fork (ex_decision 0) None)"

lemma ex_empty_reached: "reach (\<lambda>s. s = Map.empty) (fork_step id) Map.empty"
  by (rule reach_init) simp

lemma ex_forks_step: "fork_step id Map.empty ex_forks"
  using fs_claim [of "ex_decision 0" id Map.empty 0 Map.empty ex_fork None] ex_decision_ok [of 0]
  by (simp add: ex_forks_def) (metis prod.collapse)

theorem claim_records_winner_witness:
  "snd (fork_claim id Map.empty 0 Map.empty ex_fork (ex_decision 0) None) = Inr (fork_payload (ex_decision 0))"
proof -
  have "fork_get id Map.empty ex_fork = Inr None" by (simp add: fork_get_def)
  then show ?thesis using claim_records_winner [OF ex_empty_reached] ex_decision_ok [of 0] by simp
qed

text \<open>A second claimant, with another winner, is handed the first decision.\<close>

theorem winner_decided_once_witness:
  "snd (fork_claim id Map.empty 1 ex_forks ex_fork (ex_decision 5) None) = Inr (fork_payload (ex_decision 0))"
proof -
  have reached: "reach (\<lambda>s. s = Map.empty) (fork_step id) ex_forks"
    by (rule reach_step) (rule ex_empty_reached, rule ex_forks_step)
  have key: "ex_forks (fork_key id ex_fork) = Some \<lparr>fw_payload = fork_payload (ex_decision 0), fw_drained = 0\<rparr>"
    using ex_decision_ok [of 0] by (simp add: ex_forks_def fork_claim_def insert_decision_def)
  have get: "fork_get id ex_forks ex_fork = Inr (Some (fork_payload (ex_decision 0)))"
    using fork_get_row [OF forks.reach_inv [OF reached]] key by (simp add: fork_payload_def)
  from winner_decided_once [OF reached _ get] obtain b where
    b: "fork_get id ex_forks ex_fork = Inr (Some ((fork_payload (ex_decision 0))\<lparr>fd_drained := b\<rparr>))" by blast
  with get have "(fork_payload (ex_decision 0))\<lparr>fd_drained := b\<rparr> = fork_payload (ex_decision 0)" by simp
  moreover have "snd (fork_claim id Map.empty 1 ex_forks ex_fork (ex_decision 5) None) = Inr (fork_payload (ex_decision 0))"
    using ex_decision_ok [of 5] key get by (simp add: fork_claim_def insert_decision_def)
  ultimately show ?thesis by blast
qed

end
