(* ===== verification/Workflow_Helpers.thy ===== *)
theory Workflow_Helpers
  imports Py_Text
begin

text \<open>
  The pure helpers of \<^verbatim>\<open>workflow.py\<close> and \<^verbatim>\<open>definitions.py\<close>: JSON pointers, the walk over task lists, the
  validation of transitions and of emit, listen and run configurations, durations, retry counts
  and the error value a catch handler sees. A parsed workflow definition is a JSON value. The
  lemmas show that pointers round-trip and that every reference the walk yields resolves, in the
  workflow it walks, to the definition it yields with it.
\<close>

section \<open>Pointers\<close>

text \<open>\<^verbatim>\<open>s.replace(a, r)\<close> for a one-character and for a two-character pattern.\<close>

definition replace1 :: "char \<Rightarrow> string \<Rightarrow> string \<Rightarrow> string" where
  "replace1 a r s = concat (map (\<lambda>c. if c = a then r else [c]) s)"

fun replace2 :: "char \<Rightarrow> char \<Rightarrow> char \<Rightarrow> string \<Rightarrow> string" where
  "replace2 a b r (x # y # s) = (if x = a \<and> y = b then r # replace2 a b r s else x # replace2 a b r (y # s))"
| "replace2 a b r s = s"

definition pointer_token :: "string \<Rightarrow> string" where
  "pointer_token name = replace1 CHR ''/'' ''~1'' (replace1 CHR ''~'' ''~0'' name)"

definition pointer_name :: "string \<Rightarrow> string" where
  "pointer_name token = replace2 CHR ''~'' CHR ''0'' CHR ''~'' (replace2 CHR ''~'' CHR ''1'' CHR ''/'' token)"

lemma replace1_simps [simp]:
  "replace1 a r [] = []"
  "replace1 a r (x # s) = (if x = a then r else [x]) @ replace1 a r s"
  "replace1 a r (s @ t) = replace1 a r s @ replace1 a r t"
  by (simp_all add: replace1_def)

lemma pointer_token_simps [simp]:
  "pointer_token [] = []"
  "pointer_token (c # s) = (if c = CHR ''~'' then ''~0'' else if c = CHR ''/'' then ''~1'' else [c]) @ pointer_token s"
  by (simp_all add: pointer_token_def)

lemma pointer_token_no_slash: "CHR ''/'' \<notin> set (pointer_token s)"
  by (induction s) auto

lemma replace2_step:
  "x \<noteq> a \<Longrightarrow> replace2 a b r (x # s) = x # replace2 a b r s"
  by (cases s) auto

text \<open>Decoding the first layer leaves exactly the escaped tildes.\<close>

lemma pointer_first_layer:
  "replace2 CHR ''~'' CHR ''1'' CHR ''/'' (pointer_token s) = replace1 CHR ''~'' ''~0'' s"
proof (induction s)
  case (Cons c s)
  show ?case
  proof (cases "c = CHR ''~''")
    case True
    then show ?thesis using Cons by (simp add: replace2_step)
  next
    case False
    then show ?thesis using Cons by (cases "c = CHR ''/''") (simp_all add: replace2_step)
  qed
qed simp

lemma pointer_second_layer: "replace2 CHR ''~'' CHR ''0'' CHR ''~'' (replace1 CHR ''~'' ''~0'' s) = s"
  by (induction s) (simp_all add: replace2_step)

lemma pointer_roundtrip [simp]: "pointer_name (pointer_token s) = s"
  by (simp add: pointer_name_def pointer_first_layer pointer_second_layer)

fun str_lstrip :: "char \<Rightarrow> string \<Rightarrow> string" where
  "str_lstrip c [] = []"
| "str_lstrip c (x # s) = (if x = c then str_lstrip c s else x # s)"

definition pointer_step :: "pyval \<Rightarrow> string \<Rightarrow> pyval option" where
  "pointer_step v token =
     (let name = pointer_name token in
      case v of
        PDict d \<Rightarrow> Some (case dict_get d name of None \<Rightarrow> PNone | Some x \<Rightarrow> x)
      | PList xs \<Rightarrow>
          if is_decimal name then Some (if undec name < length xs then xs ! undec name else PNone) else None
      | _ \<Rightarrow> None)"

fun follow :: "pyval \<Rightarrow> string list \<Rightarrow> pyval" where
  "follow v [] = v"
| "follow v (t # ts) = (case pointer_step v t of None \<Rightarrow> PNone | Some w \<Rightarrow> follow w ts)"

definition definition_at_pointer :: "pyval \<Rightarrow> string \<Rightarrow> pyval" where
  "definition_at_pointer source reference = follow source (str_split CHR ''/'' (str_lstrip CHR ''/'' reference))"

section \<open>Task lists\<close>

definition task_body :: "pyval \<Rightarrow> pyval list" where
  "task_body value =
     (let value = (case value of PDict d \<Rightarrow> (case dict_get d ''do'' of Some v \<Rightarrow> v | None \<Rightarrow> value) | _ \<Rightarrow> value)
      in case value of PList xs \<Rightarrow> xs | PDict d \<Rightarrow> [PDict d] | _ \<Rightarrow> [])"

definition list_field :: "(string \<times> pyval) list \<Rightarrow> string \<Rightarrow> pyval list option" where
  "list_field d k = (case dict_get d k of Some (PList xs) \<Rightarrow> Some xs | _ \<Rightarrow> None)"

definition opt_list :: "'a option \<Rightarrow> 'a list" where
  "opt_list x = (case x of None \<Rightarrow> [] | Some a \<Rightarrow> [a])"

definition case_bodies :: "pyval \<Rightarrow> pyval list list" where
  "case_bodies entry =
     (case entry of
        PDict e \<Rightarrow>
          (case (if length e = 1 then snd (hd e) else entry) of
             PDict c \<Rightarrow> (case dict_get c ''do'' of None \<Rightarrow> [] | Some PNone \<Rightarrow> [] | Some v \<Rightarrow> [task_body v])
           | _ \<Rightarrow> [])
      | _ \<Rightarrow> [])"

definition nested_task_lists :: "(string \<times> pyval) list \<Rightarrow> pyval list list" where
  "nested_task_lists d =
     opt_list (list_field d ''do'')
     @ (case dict_get d ''for'' of Some (PDict _) \<Rightarrow> opt_list (list_field d ''do'') | _ \<Rightarrow> [])
     @ (case dict_get d ''fork'' of
          Some (PDict f) \<Rightarrow> (case list_field f ''branches'' of Some bs \<Rightarrow> map task_body bs | None \<Rightarrow> [])
        | _ \<Rightarrow> [])
     @ opt_list (list_field d ''try'')
     @ (case dict_get d ''catch'' of Some (PDict c) \<Rightarrow> opt_list (list_field c ''do'') | _ \<Rightarrow> [])
     @ (case list_field d ''switch'' of Some es \<Rightarrow> concat (map case_bodies es) | None \<Rightarrow> [])"

definition task_scopes :: "(string \<times> pyval) list \<Rightarrow> (string \<times> pyval list) list" where
  "task_scopes d =
     (case list_field d ''do'' of Some ts \<Rightarrow> [(''do'', ts)] | None \<Rightarrow> [])
     @ (case list_field d ''try'' of Some ts \<Rightarrow> [(''try'', ts)] | None \<Rightarrow> [])
     @ (case dict_get d ''catch'' of
          Some (PDict c) \<Rightarrow> (case list_field c ''do'' of Some ts \<Rightarrow> [(''catch/do'', ts)] | None \<Rightarrow> [])
        | _ \<Rightarrow> [])
     @ (if dict_get d ''listen'' \<noteq> None then
          (case dict_get d ''foreach'' of
             Some (PDict i) \<Rightarrow> (case list_field i ''do'' of Some ts \<Rightarrow> [(''foreach/do'', ts)] | None \<Rightarrow> [])
           | _ \<Rightarrow> [])
        else [])
     @ (case dict_get d ''fork'' of
          Some (PDict f) \<Rightarrow> (case list_field f ''branches'' of
             Some bs \<Rightarrow> map (\<lambda>(i, b). (''fork/branches/'' @ dec i, task_body b)) (enumerate 0 bs)
           | None \<Rightarrow> [])
        | _ \<Rightarrow> [])"

definition walk_item :: "string \<Rightarrow> bool \<Rightarrow> nat \<Rightarrow> pyval \<Rightarrow> (string \<times> pyval) list" where
  "walk_item pre indexed index item =
     (case item of
        PDict d \<Rightarrow> map (\<lambda>(name, definition).
          ((if indexed then pre @ ''/'' @ dec index else pre) @ ''/'' @ pointer_token name, definition)) d
      | _ \<Rightarrow> [(pre @ ''/'' @ dec index, item)])"

definition walk_tasks :: "pyval \<Rightarrow> string \<Rightarrow> bool \<Rightarrow> (string \<times> pyval) list" where
  "walk_tasks task_list pre indexed =
     (case task_list of
        PList xs \<Rightarrow> concat (map (\<lambda>(i, item). walk_item pre indexed i item) (enumerate 0 xs))
      | _ \<Rightarrow> [])"

section \<open>Validation\<close>

definition get_field :: "pyval \<Rightarrow> string \<Rightarrow> pyval" where
  "get_field v k = (case v of PDict d \<Rightarrow> (case dict_get d k of Some x \<Rightarrow> x | None \<Rightarrow> PNone) | _ \<Rightarrow> PNone)"

definition has_field :: "pyval \<Rightarrow> string \<Rightarrow> bool" where
  "has_field v k = (case v of PDict d \<Rightarrow> dict_get d k \<noteq> None | _ \<Rightarrow> False)"

definition target_ok :: "string set \<Rightarrow> pyval \<Rightarrow> bool" where
  "target_ok names target =
     (case target of
        PNone \<Rightarrow> True
      | PStr t \<Rightarrow> t \<in> {''continue'', ''exit'', ''end''} \<or> t \<in> names
      | _ \<Rightarrow> False)"

text \<open>The loop over the switch cases: names seen so far and defaults counted.\<close>

fun validate_cases :: "string set \<Rightarrow> (string \<times> pyval) list \<Rightarrow> string set \<Rightarrow> nat \<Rightarrow> nat res" where
  "validate_cases names [] seen defaults = Inr defaults"
| "validate_cases names ((name, c) # cs) seen defaults =
     (if name \<in> seen then Inl WorkflowSemanticError
      else bindE (guardE (target_ok names (get_field c ''then'')) WorkflowSemanticError) (\<lambda>_.
        validate_cases names cs (insert name seen) (defaults + (if has_field c ''when'' then 0 else 1))))"

definition switch_cases :: "(string \<times> pyval) list \<Rightarrow> (string \<times> pyval) list" where
  "switch_cases d =
     (case list_field d ''switch'' of
        Some es \<Rightarrow> concat (map (\<lambda>e. case e of PDict kvs \<Rightarrow> kvs | _ \<Rightarrow> []) es)
      | None \<Rightarrow> [])"

definition validate_transitions :: "(string \<times> pyval) list \<Rightarrow> string set \<Rightarrow> unit res" where
  "validate_transitions d names =
     bindE (guardE (target_ok names (get_field (PDict d) ''then'')) WorkflowSemanticError) (\<lambda>_.
     bindE (case dict_get d ''catch'' of
              Some (PDict c) \<Rightarrow> guardE (target_ok names (get_field (PDict c) ''then'')) WorkflowSemanticError
            | _ \<Rightarrow> Inr ()) (\<lambda>_.
     bindE (validate_cases names (switch_cases d) {} 0) (\<lambda>defaults.
       guardE (defaults \<le> 1) WorkflowSemanticError)))"

text \<open>
  The next three validators run after the schema check; their recursion over \<^verbatim>\<open>until\<close> strategies is
  structural.
\<close>

definition validate_emit_capability :: "pyval \<Rightarrow> unit res" where
  "validate_emit_capability definition =
     bindE (guardE (is_mapping definition) WorkflowSemanticError) (\<lambda>_.
       guardE (is_mapping (get_field definition ''event'') \<and>
               is_mapping (get_field (get_field definition ''event'') ''with'')) WorkflowSemanticError)"

definition rule_ok :: "pyval \<Rightarrow> bool" where
  "rule_ok rule \<longleftrightarrow> is_mapping rule \<and> is_str (get_field rule ''from'')"

definition filter_ok :: "pyval \<Rightarrow> bool" where
  "filter_ok selected \<longleftrightarrow>
     is_mapping selected \<and>
     (case get_field selected ''with'' of PDict w \<Rightarrow> w \<noteq> [] | _ \<Rightarrow> False) \<and>
     (case selected of
        PDict d \<Rightarrow> (case dict_get d ''correlate'' of
                      None \<Rightarrow> True
                    | Some (PDict rules) \<Rightarrow> list_all (\<lambda>r. rule_ok (snd r)) rules
                    | Some _ \<Rightarrow> False)
      | _ \<Rightarrow> False)"

definition strategy_modes :: "(string \<times> pyval) list \<Rightarrow> string list" where
  "strategy_modes d = filter (\<lambda>mode. dict_get d mode \<noteq> None) [''one'', ''all'', ''any'']"

lemma dict_get_size [termination_simp]: "dict_get d k = Some v \<Longrightarrow> size v < Suc (size_list (size_prod (\<lambda>_. 0) size) d)"
proof (induction d)
  case (Cons p d)
  then show ?case by (cases p) (auto split: if_splits)
qed simp

function validate_strategy :: "pyval \<Rightarrow> unit res" where
  "validate_strategy value =
     (case value of
        PDict d \<Rightarrow>
          (case strategy_modes d of
             [mode] \<Rightarrow>
               (let v = get_field value mode in
                case (if mode = ''one'' then PList [v] else v) of
                  PList filters \<Rightarrow>
                    bindE (guardE (list_all filter_ok filters) WorkflowSemanticError) (\<lambda>_.
                      if mode = ''any'' then
                        (case dict_get d ''until'' of
                           None \<Rightarrow> Inr ()
                         | Some until \<Rightarrow>
                             if is_mapping until then validate_strategy until
                             else guardE (until = PNone \<or> is_str until) WorkflowSemanticError)
                      else Inr ())
                | _ \<Rightarrow> Inl WorkflowSemanticError)
           | _ \<Rightarrow> Inl WorkflowSemanticError)
      | _ \<Rightarrow> Inl WorkflowSemanticError)"
  by pat_completeness auto

termination
  by (relation "measure size") (auto dest!: dict_get_size)

declare validate_strategy.simps [simp del]

definition validate_listen_capability :: "pyval \<Rightarrow> unit res" where
  "validate_listen_capability definition =
     bindE (guardE (is_mapping definition) WorkflowSemanticError) (\<lambda>_.
       validate_strategy (get_field definition ''to''))"

definition awaited :: "pyval \<Rightarrow> pyval" where
  "awaited definition = (if has_field definition ''await'' then get_field definition ''await'' else PBool True)"

definition validate_run_capability :: "pyval \<Rightarrow> unit res" where
  "validate_run_capability definition =
     bindE (guardE (is_mapping definition) WorkflowSemanticError) (\<lambda>_.
     let detached = awaited definition = PBool False \<and> has_field definition ''workflow'' in
     bindE (guardE (awaited definition = PBool True \<or> detached) UnsupportedWorkflowFeature) (\<lambda>_.
     bindE (guardE (\<not> (has_field definition ''return'' \<and> \<not> detached)) UnsupportedWorkflowFeature) (\<lambda>_.
     bindE (guardE (\<not> has_field definition ''container'') UnsupportedWorkflowFeature) (\<lambda>_.
     bindE (guardE (\<not> (has_field definition ''shell'' \<or> has_field definition ''script'')) UnsupportedWorkflowFeature) (\<lambda>_.
     bindE (guardE (is_mapping (get_field definition ''workflow'')) WorkflowSemanticError) (\<lambda>_.
       guardE (list_all (has_field (get_field definition ''workflow'')) [''namespace'', ''name'', ''version''])
         WorkflowSemanticError))))))"

section \<open>Every reference of the walk resolves\<close>

lemma replace2_id: "a \<notin> set s \<Longrightarrow> replace2 a b r s = s"
  by (induction s) (auto simp: replace2_step)

lemma pointer_name_id: "CHR ''~'' \<notin> set s \<Longrightarrow> pointer_name s = s"
  by (simp add: pointer_name_def replace2_id)

lemma decimal_no_special: "is_decimal s \<Longrightarrow> CHR ''~'' \<notin> set s \<and> CHR ''/'' \<notin> set s"
  by (auto simp: is_decimal_def list_all_iff is_digit_def)

lemma pointer_name_dec [simp]: "pointer_name (dec n) = dec n"
  using decimal_no_special [OF dec_decimal [of n]] by (simp add: pointer_name_id)

lemma str_split_app: "str_split c (a @ c # b) = str_split c a @ str_split c b"
proof (induction a)
  case (Cons x a)
  show ?case
  proof (cases "x = c")
    case False
    obtain p ps where "str_split c a = p # ps" by (cases "str_split c a") auto
    then show ?thesis using Cons False by simp
  qed (use Cons in simp)
qed simp

lemma str_lstrip_app: "str_lstrip c a \<noteq> [] \<Longrightarrow> str_lstrip c (a @ b) = str_lstrip c a @ b"
  by (induction a) auto

lemma follow_append: "follow v (a @ b) = follow (follow v a) b"
proof (induction a arbitrary: v)
  case (Cons t a)
  have "follow PNone b = PNone" by (cases b) (simp_all add: pointer_step_def)
  then show ?case using Cons by (simp split: option.splits)
qed simp

lemma definition_at_pointer_app:
  "str_lstrip CHR ''/'' pre \<noteq> [] \<Longrightarrow>
   definition_at_pointer w (pre @ ''/'' @ r) = follow (definition_at_pointer w pre) (str_split CHR ''/'' r)"
  by (simp add: definition_at_pointer_def str_lstrip_app str_split_app follow_append)

lemma pointer_step_index: "i < length xs \<Longrightarrow> pointer_step (PList xs) (dec i) = Some (xs ! i)"
  by (simp add: pointer_step_def)

text \<open>
  \<^bold>\<open>C31.\<close> Task references are sound pointers: when \<open>pre\<close> points at a task list of a workflow, every
  reference \<^verbatim>\<open>_walk_tasks\<close> yields for it resolves in that workflow, by \<^verbatim>\<open>definition_at_pointer\<close>, to the
  definition yielded with it, whatever characters the task names contain.
\<close>

theorem walk_references_resolve:
  assumes "definition_at_pointer w pre = PList xs" and "str_lstrip CHR ''/'' pre \<noteq> []"
    and "\<forall>d. PDict d \<in> set xs \<longrightarrow> dict_wf d"
    and "(reference, definition) \<in> set (walk_tasks (PList xs) pre True)"
  shows "definition_at_pointer w reference = definition"
proof -
  from assms(4) obtain i where i: "i < length xs" and it: "(reference, definition) \<in> set (walk_item pre True i (xs ! i))"
    by (auto simp: walk_tasks_def in_set_enumerate_eq)
  have noslash: "CHR ''/'' \<notin> set (dec i)" using decimal_no_special [OF dec_decimal [of i]] by simp
  show ?thesis
  proof (cases "\<exists>d. xs ! i = PDict d")
    case True
    then obtain d where d: "xs ! i = PDict d" by blast
    with it obtain name where name: "(name, definition) \<in> set d"
      and reference: "reference = pre @ ''/'' @ (dec i @ CHR ''/'' # pointer_token name)" by (auto simp: walk_item_def)
    have "dict_wf d" using assms(3) d i nth_mem by metis
    then have "dict_get d name = Some definition" using name by (simp add: dict_wf_def)
    then have "pointer_step (PDict d) (pointer_token name) = Some definition" by (simp add: pointer_step_def)
    then show ?thesis unfolding reference definition_at_pointer_app [OF assms(2)] assms(1)
      using i d noslash pointer_step_index [OF i]
      by (simp add: str_split_append str_split_no_sep pointer_token_no_slash)
  next
    case False
    then have "reference = pre @ ''/'' @ dec i" "definition = xs ! i"
      using it by (auto simp: walk_item_def split: pyval.splits)
    then show ?thesis using definition_at_pointer_app [OF assms(2)] assms(1) i noslash pointer_step_index [OF i]
      by (simp add: str_split_no_sep)
  qed
qed

definition ex_workflow :: pyval where
  "ex_workflow = PDict [(''do'', PList [PDict [(''a/b~c'', PDict [(''set'', PInt 1)])]])]"

theorem walk_references_resolve_witness:
  "walk_tasks (get_field ex_workflow ''do'') ''/do'' True = [(''/do/0/a~1b~0c'', PDict [(''set'', PInt 1)])] \<and>
   definition_at_pointer ex_workflow ''/do/0/a~1b~0c'' = PDict [(''set'', PInt 1)]"
proof -
  have xs: "definition_at_pointer ex_workflow ''/do'' = PList [PDict [(''a/b~c'', PDict [(''set'', PInt 1)])]]"
    by (simp add: definition_at_pointer_def ex_workflow_def pointer_step_def pointer_name_id)
  have walk: "walk_tasks (PList [PDict [(''a/b~c'', PDict [(''set'', PInt 1)])]]) ''/do'' True
      = [(''/do/0/a~1b~0c'', PDict [(''set'', PInt 1)])]"
    by (simp add: walk_tasks_def walk_item_def dec.simps owa_eval)
  from walk_references_resolve [OF xs, of "''/do/0/a~1b~0c''" "PDict [(''set'', PInt 1)]"] walk show ?thesis
    by (simp add: dict_wf_def get_field_def ex_workflow_def)
qed

end
