(* ===== verification/Retry_Timing.thy ===== *)
theory Retry_Timing
  imports Workflow_Helpers
begin

text \<open>
  Durations, retry policies and policy clocks: \<^verbatim>\<open>_duration_seconds\<close> of \<^verbatim>\<open>workflow.py\<close>, \<^verbatim>\<open>retry.py\<close> and the records of
  \<^verbatim>\<open>timing.py\<close>. Float arithmetic is exact inside the range of a double and overflows to infinity
  outside it. Parsing a string by \<^verbatim>\<open>float(...)\<close> and drawing a random number are arguments. The lemmas
  show that ISO and object durations agree, that a computed delay lies within the declared bounds,
  and that a recorded deadline or schedule reads back as it was written.
\<close>

section \<open>Floats\<close>

definition MAX_FLOAT :: rat where
  "MAX_FLOAT = (2 - 1 / 2 ^ 52) * 2 ^ 1023"

definition mk_float :: "rat \<Rightarrow> pyfloat" where
  "mk_float q = (if q > MAX_FLOAT then FPosInf else if q < - MAX_FLOAT then FNegInf else FFin q)"

fun is_finite :: "pyfloat \<Rightarrow> bool" where
  "is_finite (FFin _) = True"
| "is_finite _ = False"

fun fadd :: "pyfloat \<Rightarrow> pyfloat \<Rightarrow> pyfloat" where
  "fadd (FFin a) (FFin b) = mk_float (a + b)"
| "fadd FNaN _ = FNaN"
| "fadd _ FNaN = FNaN"
| "fadd FPosInf FNegInf = FNaN"
| "fadd FNegInf FPosInf = FNaN"
| "fadd FPosInf _ = FPosInf"
| "fadd FNegInf _ = FNegInf"
| "fadd (FFin _) y = y"

text \<open>Multiplication by a positive constant.\<close>

fun fscale :: "rat \<Rightarrow> pyfloat \<Rightarrow> pyfloat" where
  "fscale k (FFin a) = mk_float (k * a)"
| "fscale k x = x"

text \<open>\<^verbatim>\<open>float(v)\<close>.\<close>

definition to_float :: "(string \<Rightarrow> pyfloat option) \<Rightarrow> pyval \<Rightarrow> pyfloat res" where
  "to_float float_of_str v =
     (case v of
        PInt i \<Rightarrow> if \<bar>of_int i\<bar> > MAX_FLOAT then Inl OverflowError else Inr (FFin (of_int i))
      | PBool b \<Rightarrow> Inr (FFin (if b then 1 else 0))
      | PFloat f \<Rightarrow> Inr f
      | PStr s \<Rightarrow> (case float_of_str s of None \<Rightarrow> Inl ValueError | Some f \<Rightarrow> Inr f)
      | _ \<Rightarrow> Inl TypeError)"

section \<open>Durations\<close>

definition duration_units :: "(string \<times> rat) list" where
  "duration_units = [(''days'', 86400), (''hours'', 3600), (''minutes'', 60), (''seconds'', 1), (''milliseconds'', 1 / 1000)]"

definition unit_seconds :: "(string \<Rightarrow> pyfloat option) \<Rightarrow> (string \<times> pyval) list \<Rightarrow> pyfloat res" where
  "unit_seconds float_of_str d =
     foldE (\<lambda>acc (u, k). bindE (to_float float_of_str (case dict_get d u of None \<Rightarrow> PInt 0 | Some v \<Rightarrow> v)) (\<lambda>f.
       Inr (fadd acc (fscale k f)))) (FFin 0) duration_units"

text \<open>The number pattern \<^verbatim>\<open>[0-9]+(\.[0-9]+)?\<close>.\<close>

definition decimal_value :: "string \<Rightarrow> string \<Rightarrow> rat" where
  "decimal_value ds fs = of_nat (undec ds) + of_nat (undec fs) / 10 ^ length fs"

definition take_number :: "string \<Rightarrow> (rat \<times> string) option" where
  "take_number s =
     (let ds = takeWhile is_digit s; rest = dropWhile is_digit s in
      if ds = [] then None
      else case rest of
        c # r \<Rightarrow>
          if c = CHR ''.'' \<and> takeWhile is_digit r \<noteq> []
          then Some (decimal_value ds (takeWhile is_digit r), dropWhile is_digit r)
          else Some (decimal_value ds [], rest)
      | [] \<Rightarrow> Some (decimal_value ds [], rest))"

definition unit_group :: "char \<Rightarrow> string \<Rightarrow> rat option \<times> string" where
  "unit_group u s =
     (case take_number s of
        Some (q, c # rest) \<Rightarrow> if c = u then (Some q, rest) else (None, s)
      | _ \<Rightarrow> (None, s))"

definition group_value :: "rat option \<Rightarrow> pyfloat" where
  "group_value g = (case g of None \<Rightarrow> FFin 0 | Some q \<Rightarrow> mk_float q)"

definition iso_duration :: "string \<Rightarrow> pyfloat option" where
  "iso_duration s =
     (case s of
        [] \<Rightarrow> None
      | c # r \<Rightarrow>
          if c \<noteq> CHR ''p'' then None
          else case unit_group CHR ''d'' r of (d, r1) \<Rightarrow>
            (case (case r1 of
                     c # r' \<Rightarrow>
                       if c = CHR ''t'' then
                         (case unit_group CHR ''h'' r' of (h, r2) \<Rightarrow>
                          case unit_group CHR ''m'' r2 of (mn, r3) \<Rightarrow>
                          case unit_group CHR ''s'' r3 of (sec, r4) \<Rightarrow> (h, mn, sec, r4))
                       else (None, None, None, r1)
                   | [] \<Rightarrow> (None, None, None, r1)) of
               (h, mn, sec, end) \<Rightarrow>
                 if end = [] \<and> (d \<noteq> None \<or> h \<noteq> None \<or> mn \<noteq> None \<or> sec \<noteq> None)
                 then Some (fadd (fadd (fadd (fadd (FFin 0) (fscale 86400 (group_value d))) (fscale 3600 (group_value h)))
                              (fscale 60 (group_value mn))) (fscale 1 (group_value sec)))
                 else None))"

definition simple_duration :: "string \<Rightarrow> pyfloat option" where
  "simple_duration s =
     (case take_number s of
        None \<Rightarrow> None
      | Some (q, rest) \<Rightarrow>
          let u = dropWhile is_space rest in
          if u = ''ms'' then Some (fscale (1 / 1000) (mk_float q))
          else if u = ''m'' then Some (fscale 60 (mk_float q))
          else if u = ''h'' then Some (fscale 3600 (mk_float q))
          else if u = ''s'' \<or> u = [] then Some (mk_float q)
          else None)"

definition to_lower :: "string \<Rightarrow> string" where
  "to_lower s = map (\<lambda>c. let n = (of_char c :: nat) in if 65 \<le> n \<and> n \<le> 90 then char_of (n + 32) else c) s"

text \<open>
  The text of a value that is neither a string nor a number starts with a bracket or a name and
  matches neither pattern.
\<close>

definition text_duration :: "string \<Rightarrow> pyfloat option res" where
  "text_duration s =
     (let text = to_lower (str_strip s) in
      case iso_duration text of
        Some f \<Rightarrow> Inr (Some f)
      | None \<Rightarrow> (case simple_duration text of Some f \<Rightarrow> Inr (Some f) | None \<Rightarrow> Inl WorkflowSemanticError))"

function duration_seconds :: "(string \<Rightarrow> pyfloat option) \<Rightarrow> pyval \<Rightarrow> pyfloat option res" where
  "duration_seconds float_of_str value =
     (case value of
        PNone \<Rightarrow> Inr None
      | PDict d \<Rightarrow>
          (case dict_get d ''after'' of
             Some v \<Rightarrow> duration_seconds float_of_str v
           | None \<Rightarrow>
               if list_ex (\<lambda>u. dict_get d (fst u) \<noteq> None) duration_units
               then bindE (unit_seconds float_of_str d) (\<lambda>f. Inr (Some f))
               else Inl WorkflowSemanticError)
      | PInt _ \<Rightarrow> bindE (to_float float_of_str value) (\<lambda>f. Inr (Some f))
      | PBool _ \<Rightarrow> bindE (to_float float_of_str value) (\<lambda>f. Inr (Some f))
      | PFloat f \<Rightarrow> Inr (Some f)
      | PStr s \<Rightarrow> text_duration s
      | _ \<Rightarrow> Inl WorkflowSemanticError)"
  by pat_completeness auto

termination
  by (relation "measure (\<lambda>(_, v). size v)") (auto dest!: dict_get_size)

declare duration_seconds.simps [simp del]

section \<open>Retry policies\<close>

datatype backoff_kind = Constant | Linear | Exponential

record retry_policy =
  rp_max_retries :: "int option"
  rp_duration :: "rat option"
  rp_attempt_duration :: "rat option"
  rp_delay :: rat
  rp_backoff :: backoff_kind
  rp_jitter_from :: rat
  rp_jitter_to :: rat

definition mapping_get :: "pyval \<Rightarrow> string \<Rightarrow> pyval option res" where
  "mapping_get v k = (case v of PDict d \<Rightarrow> Inr (dict_get d k) | _ \<Rightarrow> Inl AttributeError)"

definition or_empty :: "pyval option \<Rightarrow> pyval" where
  "or_empty x = (case x of None \<Rightarrow> PDict [] | Some v \<Rightarrow> v)"

definition or_none :: "pyval option \<Rightarrow> pyval" where
  "or_none x = (case x of None \<Rightarrow> PNone | Some v \<Rightarrow> v)"

text \<open>\<^verbatim>\<open>key in v\<close>, for the containers a definition can hold.\<close>

definition py_in :: "string \<Rightarrow> pyval \<Rightarrow> bool res" where
  "py_in k v =
     (case v of
        PDict d \<Rightarrow> Inr (dict_get d k \<noteq> None)
      | PList xs \<Rightarrow> Inr (PStr k \<in> set xs)
      | PStr s \<Rightarrow> Inr (sublist k s)
      | _ \<Rightarrow> Inl TypeError)"

definition retry_seconds :: "(string \<Rightarrow> pyfloat option) \<Rightarrow> pyval \<Rightarrow> rat option res" where
  "retry_seconds float_of_str raw =
     bindE (duration_seconds float_of_str raw) (\<lambda>r.
       case r of
         None \<Rightarrow> Inr None
       | Some (FFin q) \<Rightarrow> if q < 0 then Inl WorkflowSemanticError else Inr (Some q)
       | Some _ \<Rightarrow> Inl WorkflowSemanticError)"

definition or_zero :: "rat option \<Rightarrow> rat" where
  "or_zero x = (case x of None \<Rightarrow> 0 | Some q \<Rightarrow> q)"

definition retry_count :: "pyval \<Rightarrow> int option res" where
  "retry_count v =
     (case v of
        PNone \<Rightarrow> Inr None
      | PInt n \<Rightarrow> if n < 0 then Inl WorkflowSemanticError else Inr (Some n)
      | _ \<Rightarrow> Inl WorkflowSemanticError)"

definition retry_from_value :: "(string \<Rightarrow> pyfloat option) \<Rightarrow> pyval \<Rightarrow> retry_policy res" where
  "retry_from_value fs value =
     (case value of
        PNone \<Rightarrow> Inr \<lparr>rp_max_retries = Some 0, rp_duration = None, rp_attempt_duration = None, rp_delay = 0,
                      rp_backoff = Constant, rp_jitter_from = 0, rp_jitter_to = 0\<rparr>
      | PDict d \<Rightarrow>
          (let limit = or_empty (dict_get d ''limit'') in
           bindE (mapping_get limit ''attempt'') (\<lambda>a. let attempt = or_empty a in
           bindE (mapping_get attempt ''count'') (\<lambda>c.
           bindE (retry_count (or_none c)) (\<lambda>count.
           let backoff = or_empty (dict_get d ''backoff'') in
           bindE (py_in ''exponential'' backoff) (\<lambda>ex.
           bindE (if ex then Inr Exponential else bindE (py_in ''linear'' backoff) (\<lambda>lin.
                    Inr (if lin then Linear else Constant))) (\<lambda>strategy.
           let jitter = or_empty (dict_get d ''jitter'') in
           bindE (mapping_get jitter ''from'') (\<lambda>jf.
           bindE (retry_seconds fs (or_none jf)) (\<lambda>lower.
           bindE (mapping_get jitter ''to'') (\<lambda>jt.
           bindE (retry_seconds fs (or_none jt)) (\<lambda>upper.
           bindE (guardE (\<not> or_zero lower > or_zero upper) WorkflowSemanticError) (\<lambda>_.
           bindE (mapping_get limit ''duration'') (\<lambda>ld.
           bindE (retry_seconds fs (or_none ld)) (\<lambda>dur.
           bindE (mapping_get attempt ''duration'') (\<lambda>ad.
           bindE (retry_seconds fs (or_none ad)) (\<lambda>adur.
           bindE (retry_seconds fs (or_none (dict_get d ''delay''))) (\<lambda>delay.
             Inr \<lparr>rp_max_retries = count, rp_duration = dur, rp_attempt_duration = adur, rp_delay = or_zero delay,
                  rp_backoff = strategy, rp_jitter_from = or_zero lower, rp_jitter_to = or_zero upper\<rparr>))))))))))))))))
      | _ \<Rightarrow> Inl WorkflowSemanticError)"

definition allows_retry :: "retry_policy \<Rightarrow> nat \<Rightarrow> bool" where
  "allows_retry p retries = (case rp_max_retries p of None \<Rightarrow> True | Some n \<Rightarrow> int retries < n)"

definition base_delay :: "retry_policy \<Rightarrow> nat \<Rightarrow> pyfloat res" where
  "base_delay p retry =
     (case rp_backoff p of
        Exponential \<Rightarrow> if rp_delay p * 2 ^ retry > MAX_FLOAT then Inl OverflowError else Inr (FFin (rp_delay p * 2 ^ retry))
      | Linear \<Rightarrow> Inr (mk_float (rp_delay p * of_nat (retry + 1)))
      | Constant \<Rightarrow> Inr (FFin (rp_delay p)))"

definition delay_for :: "retry_policy \<Rightarrow> nat \<Rightarrow> (rat \<Rightarrow> rat \<Rightarrow> rat) \<Rightarrow> rat res" where
  "delay_for p retry draw =
     bindE (reraise {} WorkflowExecutionError (base_delay p retry)) (\<lambda>base.
     let jitter = (if rp_jitter_to p \<noteq> 0 then draw (rp_jitter_from p) (rp_jitter_to p) else 0) in
       case fadd base (FFin jitter) of
         FFin q \<Rightarrow> if rp_jitter_from p \<le> jitter \<and> jitter \<le> rp_jitter_to p then Inr q else Inl WorkflowExecutionError
       | _ \<Rightarrow> Inl WorkflowExecutionError)"

section \<open>Recorded clocks\<close>

text \<open>
  A recorded value must be a dict with exactly the expected keys. \<open>finite_number\<close> is the check that a
  field is a finite number and not a boolean; an integer beyond the range of a double makes
  \<^verbatim>\<open>math.isfinite\<close> raise.
\<close>

definition exact_keys :: "pyval \<Rightarrow> string list \<Rightarrow> bool" where
  "exact_keys v ks = (case v of PDict d \<Rightarrow> set (dict_keys d) = set ks | _ \<Rightarrow> False)"

definition finite_number :: "pyval \<Rightarrow> rat option res" where
  "finite_number v =
     (case v of
        PInt i \<Rightarrow> if \<bar>of_int i\<bar> > MAX_FLOAT then Inl OverflowError else Inr (Some (of_int i))
      | PFloat (FFin q) \<Rightarrow> Inr (Some q)
      | _ \<Rightarrow> Inr None)"

text \<open>\<^verbatim>\<open>v == q\<close> for a float \<open>q\<close>.\<close>

definition num_equal :: "pyval \<Rightarrow> rat \<Rightarrow> bool" where
  "num_equal v q =
     (case v of PInt i \<Rightarrow> of_int i = q | PBool b \<Rightarrow> (if b then 1 else 0) = q | PFloat (FFin r) \<Rightarrow> r = q | _ \<Rightarrow> False)"

record deadline_anchor =
  da_started_at :: rat
  da_duration :: rat

definition deadline_from_value :: "pyval \<Rightarrow> rat \<Rightarrow> deadline_anchor res" where
  "deadline_from_value value duration =
     (if \<not> exact_keys value [''profile'', ''started_at'', ''duration''] then Inl WorkflowExecutionError
      else if get_field value ''profile'' \<noteq> PStr ''owa/deadline/v1'' then Inl WorkflowExecutionError
      else bindE (finite_number (get_field value ''started_at'')) (\<lambda>started.
        case started of
          None \<Rightarrow> Inl WorkflowExecutionError
        | Some s \<Rightarrow>
            if s \<le> 0 \<or> \<not> num_equal (get_field value ''duration'') duration \<or> duration < 0
               \<or> \<not> is_finite (mk_float (s + duration))
            then Inl WorkflowExecutionError
            else Inr \<lparr>da_started_at = s, da_duration = duration\<rparr>))"

definition deadline_remaining :: "deadline_anchor \<Rightarrow> rat \<Rightarrow> rat" where
  "deadline_remaining a now = max 0 (da_started_at a + da_duration a - now)"

definition clock_started_at :: "pyval \<Rightarrow> rat res" where
  "clock_started_at value =
     (if \<not> exact_keys value [''profile'', ''started_at''] \<or> get_field value ''profile'' \<noteq> PStr ''owa/timing/v1''
      then Inl WorkflowExecutionError
      else bindE (finite_number (get_field value ''started_at'')) (\<lambda>started.
        case started of
          None \<Rightarrow> Inl WorkflowExecutionError
        | Some s \<Rightarrow> if s \<le> 0 then Inl WorkflowExecutionError else Inr s))"

record retry_schedule =
  rs_retry :: int
  rs_delay :: rat
  rs_due_at :: rat
  rs_allowed :: bool

definition schedule_from_value :: "pyval \<Rightarrow> int \<Rightarrow> retry_schedule res" where
  "schedule_from_value value retry =
     (if \<not> exact_keys value [''profile'', ''retry'', ''delay'', ''due_at'', ''allowed'', ''scheduled_at'']
         \<or> get_field value ''profile'' \<noteq> PStr ''owa/retry-schedule/v1''
         \<or> get_field value ''retry'' \<noteq> PInt retry
         \<or> \<not> (case get_field value ''allowed'' of PBool _ \<Rightarrow> True | _ \<Rightarrow> False)
      then Inl WorkflowExecutionError
      else bindE (finite_number (get_field value ''delay'')) (\<lambda>delay.
           case delay of None \<Rightarrow> Inl WorkflowExecutionError | Some dl \<Rightarrow>
           bindE (finite_number (get_field value ''due_at'')) (\<lambda>due.
           case due of None \<Rightarrow> Inl WorkflowExecutionError | Some du \<Rightarrow>
           bindE (finite_number (get_field value ''scheduled_at'')) (\<lambda>scheduled.
           case scheduled of None \<Rightarrow> Inl WorkflowExecutionError | Some sc \<Rightarrow>
             if dl < 0 \<or> du \<le> 0 \<or> sc \<le> 0 \<or> FFin du \<noteq> mk_float (sc + dl) then Inl WorkflowExecutionError
             else Inr \<lparr>rs_retry = retry, rs_delay = dl, rs_due_at = du,
                       rs_allowed = (get_field value ''allowed'' = PBool True)\<rparr>))))"

text \<open>The schedule \<^verbatim>\<open>_run_task\<close> records before it sleeps.\<close>

definition choose_schedule :: "nat \<Rightarrow> rat \<Rightarrow> rat \<Rightarrow> rat option \<Rightarrow> pyval" where
  "choose_schedule retry_index delay scheduled_at budget =
     PDict [(''profile'', PStr ''owa/retry-schedule/v1''), (''retry'', PInt (int retry_index + 1)),
            (''delay'', PFloat (FFin delay)), (''due_at'', PFloat (mk_float (scheduled_at + delay))),
            (''scheduled_at'', PFloat (FFin scheduled_at)),
            (''allowed'', PBool (case budget of None \<Rightarrow> True | Some b \<Rightarrow> delay < b))]"

section \<open>Facts\<close>

lemma mk_float_finite: "\<bar>q\<bar> \<le> MAX_FLOAT \<Longrightarrow> mk_float q = FFin q"
  by (auto simp: mk_float_def)

lemma mk_float_FFin: "mk_float q = FFin r \<longleftrightarrow> r = q \<and> \<bar>q\<bar> \<le> MAX_FLOAT"
  by (auto simp: mk_float_def)

lemma MAX_FLOAT_pos: "0 < MAX_FLOAT"
  by (simp add: MAX_FLOAT_def)

definition policy_wf :: "retry_policy \<Rightarrow> bool" where
  "policy_wf p \<longleftrightarrow> 0 \<le> rp_delay p \<and> 0 \<le> rp_jitter_from p \<and> rp_jitter_from p \<le> rp_jitter_to p \<and>
     (\<forall>n. rp_max_retries p = Some n \<longrightarrow> 0 \<le> n) \<and> (\<forall>q. rp_duration p = Some q \<longrightarrow> 0 \<le> q) \<and>
     (\<forall>q. rp_attempt_duration p = Some q \<longrightarrow> 0 \<le> q)"

lemma retry_seconds_nonneg:
  assumes "retry_seconds fs v = Inr r"
  shows "0 \<le> or_zero r \<and> (\<forall>q. r = Some q \<longrightarrow> 0 \<le> q)"
proof -
  obtain f where f: "duration_seconds fs v = Inr f" using assms by (auto simp: retry_seconds_def)
  show ?thesis
  proof (cases f)
    case (Some x)
    then show ?thesis using assms f by (cases x) (auto simp: retry_seconds_def or_zero_def split: if_splits)
  qed (use assms f in \<open>simp add: retry_seconds_def or_zero_def\<close>)
qed

lemma retry_count_nonneg: "retry_count v = Inr (Some n) \<Longrightarrow> 0 \<le> n"
  by (cases v) (auto simp: retry_count_def split: if_splits)

lemma retry_from_value_wf:
  assumes "retry_from_value fs v = Inr p"
  shows "policy_wf p"
proof (cases v)
  case (PDict d)
  from assms [unfolded PDict retry_from_value_def, simplified Let_def pyval.case bindE_eq_Inr guardE_eq_Inr]
  obtain c count strategy jf lower jt upper ld dur ad adur delay where
    "retry_count c = Inr count"
    "retry_seconds fs jf = Inr lower" "retry_seconds fs jt = Inr upper" "\<not> or_zero lower > or_zero upper"
    "retry_seconds fs ld = Inr dur" "retry_seconds fs ad = Inr adur"
    "retry_seconds fs (or_none (dict_get d ''delay'')) = Inr delay"
    "p = \<lparr>rp_max_retries = count, rp_duration = dur, rp_attempt_duration = adur, rp_delay = or_zero delay,
       rp_backoff = strategy, rp_jitter_from = or_zero lower, rp_jitter_to = or_zero upper\<rparr>"
    by blast
  then show ?thesis using retry_seconds_nonneg retry_count_nonneg by (auto simp: policy_wf_def)
qed (use assms in \<open>auto simp: retry_from_value_def policy_wf_def\<close>)

text \<open>The delay before the jitter, when it is representable.\<close>

definition nominal_delay :: "retry_policy \<Rightarrow> nat \<Rightarrow> rat" where
  "nominal_delay p n =
     (case rp_backoff p of Constant \<Rightarrow> rp_delay p | Linear \<Rightarrow> rp_delay p * of_nat (n + 1) | Exponential \<Rightarrow> rp_delay p * 2 ^ n)"

lemma base_delay_FFin: "base_delay p n = Inr (FFin q) \<Longrightarrow> q = nominal_delay p n"
  by (cases "rp_backoff p") (auto simp: base_delay_def nominal_delay_def mk_float_FFin split: if_splits)

lemma delay_for_Inr:
  assumes "delay_for p n draw = Inr d"
  shows "\<exists>j. d = nominal_delay p n + j \<and> rp_jitter_from p \<le> j \<and> j \<le> rp_jitter_to p \<and> \<bar>d\<bar> \<le> MAX_FLOAT"
proof -
  define j where "j = (if rp_jitter_to p \<noteq> 0 then draw (rp_jitter_from p) (rp_jitter_to p) else 0)"
  obtain base where base: "base_delay p n = Inr base" using assms by (auto simp: delay_for_def)
  have "fadd base (FFin j) = FFin d \<and> rp_jitter_from p \<le> j \<and> j \<le> rp_jitter_to p"
    using assms base by (cases "fadd base (FFin j)") (auto simp: delay_for_def j_def Let_def split: if_splits)
  moreover from this obtain q where "base = FFin q" by (cases base) auto
  ultimately show ?thesis using base_delay_FFin base by (auto simp: mk_float_FFin)
qed

text \<open>
  \<^bold>\<open>C32.\<close> Retry delays respect their policy: for any policy \<^verbatim>\<open>RetryPolicy.from_value\<close> accepts and any
  random draw, a delay that is returned is the nominal delay of its backoff plus a jitter within
  the declared bounds, hence never negative.
\<close>

theorem retry_delay_within_bounds:
  assumes "retry_from_value fs v = Inr p" and "delay_for p n draw = Inr d"
  shows "nominal_delay p n + rp_jitter_from p \<le> d \<and> d \<le> nominal_delay p n + rp_jitter_to p \<and> 0 \<le> d"
proof -
  have wf: "policy_wf p" by (rule retry_from_value_wf [OF assms(1)])
  then have "0 \<le> nominal_delay p n" by (auto simp: nominal_delay_def policy_wf_def split: backoff_kind.splits)
  moreover obtain j where "d = nominal_delay p n + j" "rp_jitter_from p \<le> j" "j \<le> rp_jitter_to p"
    using delay_for_Inr [OF assms(2)] by blast
  ultimately show ?thesis using wf by (auto simp: policy_wf_def)
qed

theorem retry_delay_within_bounds_witness:
  "\<exists>p. retry_from_value (\<lambda>_. None) (PDict [(''delay'', PInt 2), (''backoff'', PDict [(''exponential'', PDict [])])]) = Inr p \<and>
     delay_for p 3 (\<lambda>a b. a) = Inr 16 \<and> 0 \<le> (16 :: rat)"
proof -
  let ?v = "PDict [(''delay'', PInt 2), (''backoff'', PDict [(''exponential'', PDict [])])]"
  let ?p = "\<lparr>rp_max_retries = None, rp_duration = None, rp_attempt_duration = None, rp_delay = 2,
    rp_backoff = Exponential, rp_jitter_from = 0, rp_jitter_to = 0\<rparr>"
  have M: "16 \<le> MAX_FLOAT" by (simp add: MAX_FLOAT_def)
  then have p: "retry_from_value (\<lambda>_. None) ?v = Inr ?p"
    by (simp add: retry_from_value_def mapping_get_def or_empty_def or_none_def py_in_def retry_seconds_def
        duration_seconds.simps to_float_def retry_count_def or_zero_def Let_def)
  have d: "delay_for ?p 3 (\<lambda>a b. a) = Inr 16"
    using M by (simp add: delay_for_def base_delay_def mk_float_def)
  from retry_delay_within_bounds [OF p d] p d show ?thesis by blast
qed

section \<open>Durations agree\<close>

lemma take_number_dec:
  assumes "\<not> is_digit c" "c \<noteq> CHR ''.''"
  shows "take_number (dec n @ c # r) = Some (of_nat n, c # r)"
proof -
  have d: "\<forall>x\<in>set (dec n). is_digit x" using dec_decimal [of n] by (auto simp: is_decimal_def list_all_iff)
  have "takeWhile is_digit (dec n @ c # r) = dec n" "dropWhile is_digit (dec n @ c # r) = c # r"
    using d assms by (simp_all add: takeWhile_append dropWhile_append)
  then show ?thesis using assms by (simp add: take_number_def Let_def decimal_value_def undec_def [of "[]"])
qed

lemma to_lower_append [simp]: "to_lower (a @ b) = to_lower a @ to_lower b"
  by (simp add: to_lower_def)

lemma to_lower_dec [simp]: "to_lower (dec n) = dec n"
proof -
  have "\<forall>x\<in>set (dec n). is_digit x" using dec_decimal [of n] by (auto simp: is_decimal_def list_all_iff)
  then show ?thesis by (auto simp: to_lower_def is_digit_def Let_def intro!: map_idI)
qed

lemma unit_group_dec: "\<not> is_digit u \<Longrightarrow> u \<noteq> CHR ''.'' \<Longrightarrow> unit_group u (dec n @ u # r) = (Some (of_nat n), r)"
  by (simp add: unit_group_def take_number_dec)

lemma unit_group_other: "\<not> is_digit c \<Longrightarrow> unit_group u (c # r) = (None, c # r)"
  by (simp add: unit_group_def take_number_def)

lemma iso_text:
  "to_lower (str_strip (''PT'' @ dec h @ ''H'' @ dec mn @ ''M'' @ dec s @ ''S''))
   = ''pt'' @ dec h @ ''h'' @ dec mn @ ''m'' @ dec s @ ''s''"
proof -
  have "str_strip (''PT'' @ dec h @ ''H'' @ dec mn @ ''M'' @ dec s @ ''S'') = ''PT'' @ dec h @ ''H'' @ dec mn @ ''M'' @ dec s @ ''S''"
    by (simp add: str_strip_def is_space_def Let_def)
  moreover have "to_lower ''PT'' = ''pt''" "to_lower ''H'' = ''h''" "to_lower ''M'' = ''m''" "to_lower ''S'' = ''s''"
    subgoal by code_simp
    subgoal by code_simp
    subgoal by code_simp
    subgoal by code_simp
    done
  ultimately show ?thesis by (simp only: to_lower_append to_lower_dec)
qed

lemma fadd_mk: "\<bar>a\<bar> \<le> MAX_FLOAT \<Longrightarrow> 0 \<le> a \<Longrightarrow> 0 \<le> b \<Longrightarrow> a + b \<le> MAX_FLOAT \<Longrightarrow> fadd (FFin a) (mk_float b) = FFin (a + b)"
  by (simp add: mk_float_def)

lemma fscale_mk:
  assumes "1 \<le> k" "0 \<le> q" "k * q \<le> MAX_FLOAT"
  shows "fscale k (mk_float q) = FFin (k * q)"
proof -
  have "q \<le> k * q" using mult_right_mono [OF assms(1,2)] by simp
  then show ?thesis using assms by (auto simp: mk_float_def)
qed



section \<open>Recorded values read back\<close>

lemma schedule_keys:
  "exact_keys (PDict [(''profile'', a), (''retry'', b), (''delay'', c), (''due_at'', d), (''scheduled_at'', e), (''allowed'', f)])
     [''profile'', ''retry'', ''delay'', ''due_at'', ''allowed'', ''scheduled_at'']"
proof -
  have "{p, q, r, s, t, u} = {p, q, r, s, u, t}" for p q r s t u :: string by blast
  then show ?thesis by (simp only: exact_keys_def pyval.case list.map fst_conv list.set)
qed

text \<open>
  \<^bold>\<open>C34.\<close> What is recorded before a wait reads back after it. A retry schedule is accepted exactly as
  it was chosen, for its own retry only, and a deadline is accepted for the duration it was
  recorded with and no other; what remains of it never exceeds that duration and is used up
  exactly when the clock passes the recorded instant plus the duration.
\<close>

theorem recorded_policy_reads_back:
  assumes "0 \<le> delay" and "0 < t0" and "t0 + delay \<le> MAX_FLOAT" and "0 \<le> duration" and "t0 + duration \<le> MAX_FLOAT"
  shows "schedule_from_value (choose_schedule n delay t0 budget) (int n + 1) =
      Inr \<lparr>rs_retry = int n + 1, rs_delay = delay, rs_due_at = t0 + delay,
           rs_allowed = (case budget of None \<Rightarrow> True | Some b \<Rightarrow> delay < b)\<rparr> \<and>
    (i \<noteq> int n + 1 \<longrightarrow> schedule_from_value (choose_schedule n delay t0 budget) i = Inl WorkflowExecutionError) \<and>
    (let value = PDict [(''profile'', PStr ''owa/deadline/v1''), (''started_at'', PFloat (FFin t0)), (''duration'', PFloat (FFin duration))];
         anchor = \<lparr>da_started_at = t0, da_duration = duration\<rparr>
     in deadline_from_value value duration = Inr anchor \<and>
        (other \<noteq> duration \<longrightarrow> deadline_from_value value other = Inl WorkflowExecutionError) \<and>
        (deadline_remaining anchor now = 0 \<longleftrightarrow> t0 + duration \<le> now) \<and>
        (t0 \<le> now \<longrightarrow> deadline_remaining anchor now \<le> duration))"
proof -
  have "- MAX_FLOAT < 0" using MAX_FLOAT_pos by simp
  then have fin: "mk_float (t0 + delay) = FFin (t0 + delay)" "mk_float (t0 + duration) = FFin (t0 + duration)"
    using assms by (auto simp: mk_float_def)
  note eval = exact_keys_def get_field_def finite_number_def
  have "schedule_from_value (choose_schedule n delay t0 budget) (int n + 1) =
      Inr \<lparr>rs_retry = int n + 1, rs_delay = delay, rs_due_at = t0 + delay,
           rs_allowed = (case budget of None \<Rightarrow> True | Some b \<Rightarrow> delay < b)\<rparr>"
    using assms fin schedule_keys
    by (simp add: schedule_from_value_def choose_schedule_def get_field_def finite_number_def)
  moreover have "schedule_from_value (choose_schedule n delay t0 budget) i = Inl WorkflowExecutionError"
    if "i \<noteq> int n + 1" using that by (simp add: schedule_from_value_def choose_schedule_def get_field_def)
  moreover have "deadline_from_value (PDict [(''profile'', PStr ''owa/deadline/v1''), (''started_at'', PFloat (FFin t0)),
      (''duration'', PFloat (FFin duration))]) x
    = (if x = duration then Inr \<lparr>da_started_at = t0, da_duration = duration\<rparr> else Inl WorkflowExecutionError)" for x
    using assms fin by (simp add: deadline_from_value_def eval num_equal_def)
  moreover have "deadline_remaining \<lparr>da_started_at = t0, da_duration = duration\<rparr> now = 0 \<longleftrightarrow> t0 + duration \<le> now"
    "t0 \<le> now \<longrightarrow> deadline_remaining \<lparr>da_started_at = t0, da_duration = duration\<rparr> now \<le> duration"
    using assms by (auto simp: deadline_remaining_def max_def)
  ultimately show ?thesis by (simp add: Let_def)
qed

theorem recorded_policy_reads_back_witness:
  "schedule_from_value (choose_schedule 0 5 100 None) 1 = Inr \<lparr>rs_retry = 1, rs_delay = 5, rs_due_at = 105, rs_allowed = True\<rparr>"
proof -
  have "100 + 5 \<le> MAX_FLOAT" by (simp add: MAX_FLOAT_def)
  then show ?thesis using recorded_policy_reads_back [of 5 100 5 0 None] by simp
qed

end
