(* ===== verification/Workflow_Executor.thy ===== *)
theory Workflow_Executor
  imports Retry_Timing
begin

text \<open>
  The engine-neutral executor of \<^verbatim>\<open>workflow.py\<close> (\<^verbatim>\<open>WorkflowExecutor\<close> without a scope executor): task
  sequences with their transitions, one task with its data flow, retries and deadlines, and the
  task kinds set, switch, for, do, try and raise. An action of the model maps a state to the state
  it leaves and a value or a fault; the state is returned with a fault too, since Python objects
  keep what was written before the raise. \<open>None\<close> means that the fuel ran out: fuel bounds the depth of
  nested scopes, the iterations of one sequence and the attempts of one try.

  The environment holds what the executor calls: the expression evaluator, the JSON Schema
  validator, the cancellation checkpoint, clocks and recorded deadlines, and the tasks that leave
  the process (calls, events, sub-workflows, forks and waits). A deadline is checked before and
  after its operation; its preemptive cancellation is not modelled.
\<close>

section \<open>Faults and errors\<close>

record fault =
  f_exn :: exn
  f_message :: string
  f_details :: "(string \<times> pyval) list"
  f_status :: nat

definition mk_fault :: "exn \<Rightarrow> string \<Rightarrow> (string \<times> pyval) list \<Rightarrow> fault" where
  "mk_fault e msg details = \<lparr>f_exn = e, f_message = msg, f_details = details, f_status = exn_status_code e\<rparr>"

definition uncatchable :: "exn \<Rightarrow> bool" where
  "uncatchable e \<longleftrightarrow> e \<in> {InvocationCancelled, InvocationStateConflict, EffectRecoveryRequired, NativeMemoryRecoveryRequired}"

definition error_details :: "fault \<Rightarrow> (string \<times> pyval) list" where
  "error_details f =
     (case exn_code (f_exn f) of
        Some code \<Rightarrow> [(''code'', PStr code), (''message'', PStr (f_message f)), (''details'', PDict (f_details f))]
      | None \<Rightarrow> [(''code'', PStr ''workflow_execution_error''), (''message'', PStr (f_message f)), (''details'', PDict [])])"

definition set_default :: "string \<Rightarrow> pyval \<Rightarrow> (string \<times> pyval) list \<Rightarrow> (string \<times> pyval) list" where
  "set_default k v d = (case dict_get d k of None \<Rightarrow> dict_set k v d | Some _ \<Rightarrow> d)"

definition error_category :: "pyval \<Rightarrow> string" where
  "error_category code =
     (if code = PStr ''configuration_error'' \<or> code = PStr ''unsupported_workflow_feature'' then ''configuration''
      else if code = PStr ''workflow_schema_error'' \<or> code = PStr ''workflow_semantic_error'' then ''validation''
      else if code = PStr ''expression_error'' then ''expression''
      else if code = PStr ''model_error'' \<or> code = PStr ''tool_error'' then ''communication''
      else if code = PStr ''approval_authorization_error'' then ''authorization''
      else ''runtime'')"

definition catch_error_value :: "(string \<times> pyval) list \<Rightarrow> nat \<Rightarrow> (string \<times> pyval) list" where
  "catch_error_value error status_code =
     (let popped = dict_del ''details'' error;
          value = (case dict_get error ''details'' of
                     Some (PDict details) \<Rightarrow> fold (\<lambda>(k, v) d. dict_set k v d) details popped
                   | _ \<Rightarrow> popped);
          value = set_default ''status'' (PInt (int status_code)) value;
          status = get_field (PDict value) ''status'';
          category = (if num_equal status 401 then ''authentication''
                      else if num_equal status 403 then ''authorization''
                      else error_category (get_field (PDict error) ''code''));
          value = set_default ''type'' (PStr (''https://serverlessworkflow.io/spec/1.0.0/errors/'' @ category)) value;
          value = set_default ''title'' (case dict_get error ''code'' of None \<Rightarrow> PStr ''workflow_execution_error'' | Some c \<Rightarrow> c) value
      in set_default ''detail'' (case dict_get error ''message'' of None \<Rightarrow> PStr ''workflow execution failed'' | Some c \<Rightarrow> c) value)"

text \<open>\<^verbatim>\<open>int(v)\<close>; digits may be grouped by single underscores.\<close>

fun digit_groups :: "string \<Rightarrow> bool" where
  "digit_groups [] = False"
| "digit_groups [c] = is_digit c"
| "digit_groups (c # d # s) = (is_digit c \<and> (if d = CHR ''_'' then digit_groups s else digit_groups (d # s)))"

definition int_of_str :: "string \<Rightarrow> int option" where
  "int_of_str text =
     (let s = str_strip text;
          neg = (s \<noteq> [] \<and> hd s = CHR ''-'');
          body = (if s \<noteq> [] \<and> (hd s = CHR ''-'' \<or> hd s = CHR ''+'') then tl s else s);
          n = int (undec (filter is_digit body))
      in if digit_groups body then Some (if neg then - n else n) else None)"

definition to_int :: "pyval \<Rightarrow> int res" where
  "to_int v =
     (case v of
        PInt i \<Rightarrow> Inr i
      | PBool b \<Rightarrow> Inr (if b then 1 else 0)
      | PFloat (FFin q) \<Rightarrow> Inr (if q < 0 then \<lceil>q\<rceil> else \<lfloor>q\<rfloor>)
      | PFloat FNaN \<Rightarrow> Inl ValueError
      | PFloat _ \<Rightarrow> Inl OverflowError
      | PStr s \<Rightarrow> (case int_of_str s of None \<Rightarrow> Inl ValueError | Some n \<Rightarrow> Inr n)
      | _ \<Rightarrow> Inl TypeError)"

section \<open>State\<close>

record flow_control =
  fl_ended :: bool
  fl_output :: pyval
  fl_context :: pyval

datatype event = Event string string "(string \<times> nat) list"

record exec_state =
  es_data :: pyval
  es_outputs :: "(string \<times> pyval) list"
  es_variables :: "(string \<times> pyval) list"
  es_context :: pyval
  es_jump_to :: "string option"
  es_stop :: bool
  es_scope_exit :: bool
  es_transition_selected :: bool
  es_flow :: flow_control
  es_task_visits :: "string \<Rightarrow> nat"
  es_execution_path :: "(string \<times> nat) list"
  es_trace :: "event list"

type_synonym 'a exec = "exec_state \<Rightarrow> (exec_state \<times> (fault + 'a)) option"

record exec_env =
  env_evaluate :: "pyval \<Rightarrow> pyval \<Rightarrow> (string \<times> pyval) list \<Rightarrow> fault + pyval"
  env_schema_error :: "pyval \<Rightarrow> pyval \<Rightarrow> (string \<times> string) option"
  env_functions :: "(string \<times> pyval) list"
  env_source_references :: "(string \<times> string) list"
  env_checkpoint :: "exec_state \<Rightarrow> fault option"
  env_now :: "exec_state \<Rightarrow> pyval"
  env_str :: "pyval \<Rightarrow> string"
  env_float_of_str :: "string \<Rightarrow> pyfloat option"
  env_deadline_remaining :: "exec_state \<Rightarrow> pyfloat \<Rightarrow> fault + rat"
  env_expired :: "exec_state \<Rightarrow> rat \<Rightarrow> bool"
  env_attempt_timeout :: "retry_policy \<Rightarrow> nat \<Rightarrow> exec_state \<Rightarrow> fault + rat option"
  env_scheduled :: "exec_state \<Rightarrow> bool"
  env_retry_ready :: "retry_policy \<Rightarrow> nat \<Rightarrow> exec_state \<Rightarrow> fault + bool"
  env_workflow_remaining :: "exec_state \<Rightarrow> pyfloat \<Rightarrow> fault + rat"
  env_interrupted :: "exec_state \<Rightarrow> bool"
  env_catalog_tasks :: "(string \<times> pyval) list"
  env_admit :: "exec_state \<Rightarrow> fault option"
  env_set_status :: "string \<Rightarrow> exec_state \<Rightarrow> fault option"
  env_handle_waiting :: "exec_state \<Rightarrow> bool"
  env_leaf :: "string \<Rightarrow> pyval \<Rightarrow> exec_state \<Rightarrow> exec_state \<times> (fault + pyval)"

section \<open>Actions\<close>

definition retM :: "'a \<Rightarrow> 'a exec" where
  "retM a = (\<lambda>s. Some (s, Inr a))"

definition failM :: "fault \<Rightarrow> 'a exec" where
  "failM f = (\<lambda>s. Some (s, Inl f))"

definition bindM :: "'a exec \<Rightarrow> ('a \<Rightarrow> 'b exec) \<Rightarrow> 'b exec" where
  "bindM m k = (\<lambda>s. case m s of None \<Rightarrow> None | Some (s', Inl f) \<Rightarrow> Some (s', Inl f) | Some (s', Inr a) \<Rightarrow> k a s')"

definition getM :: "exec_state exec" where
  "getM = (\<lambda>s. Some (s, Inr s))"

definition modM :: "(exec_state \<Rightarrow> exec_state) \<Rightarrow> unit exec" where
  "modM g = (\<lambda>s. Some (g s, Inr ()))"

definition liftM :: "fault + 'a \<Rightarrow> 'a exec" where
  "liftM r = (\<lambda>s. Some (s, r))"

text \<open>An exception of a helper with no message of its own.\<close>

definition liftE :: "'a res \<Rightarrow> 'a exec" where
  "liftE r = liftM (case r of Inl e \<Rightarrow> Inl (mk_fault e [] []) | Inr a \<Rightarrow> Inr a)"

definition tryM :: "'a exec \<Rightarrow> (fault \<Rightarrow> 'a exec) \<Rightarrow> 'a exec" where
  "tryM m h = (\<lambda>s. case m s of None \<Rightarrow> None | Some (s', Inl f) \<Rightarrow> h f s' | Some (s', Inr a) \<Rightarrow> Some (s', Inr a))"

definition checkpointM :: "exec_env \<Rightarrow> unit exec" where
  "checkpointM env = (\<lambda>s. case env_checkpoint env s of None \<Rightarrow> Some (s, Inr ()) | Some f \<Rightarrow> Some (s, Inl f))"

definition emitM :: "string \<Rightarrow> string \<Rightarrow> unit exec" where
  "emitM kind reference = modM (\<lambda>s. s\<lparr>es_trace := es_trace s @ [Event kind reference (es_execution_path s)]\<rparr>)"

definition evalM :: "exec_env \<Rightarrow> pyval \<Rightarrow> pyval \<Rightarrow> pyval exec" where
  "evalM env e data = (\<lambda>s. Some (s, env_evaluate env e data (es_variables s)))"

definition condM :: "exec_env \<Rightarrow> pyval \<Rightarrow> pyval \<Rightarrow> bool exec" where
  "condM env e data = bindM (evalM env e data) (\<lambda>r. retM (r \<noteq> PNone \<and> r \<noteq> PBool False))"

definition set_var :: "string \<Rightarrow> pyval \<Rightarrow> exec_state \<Rightarrow> exec_state" where
  "set_var k v s = s\<lparr>es_variables := dict_set k v (es_variables s)\<rparr>"

definition del_var :: "string \<Rightarrow> exec_state \<Rightarrow> exec_state" where
  "del_var k s = s\<lparr>es_variables := dict_del k (es_variables s)\<rparr>"

definition set_context :: "pyval \<Rightarrow> exec_state \<Rightarrow> exec_state" where
  "set_context c s = set_var ''context'' c (s\<lparr>es_context := c\<rparr>)"

definition copy_state :: "exec_state \<Rightarrow> exec_state" where
  "copy_state s = set_context (es_context s)
     (s\<lparr>es_jump_to := None, es_stop := False, es_scope_exit := False, es_transition_selected := False\<rparr>)"

section \<open>Transitions and task data\<close>

definition apply_transition :: "pyval \<Rightarrow> exec_state \<Rightarrow> exec_state" where
  "apply_transition transition s =
     (if transition = PNone then s
      else let s = s\<lparr>es_transition_selected := True\<rparr> in
        if transition = PStr ''continue'' then s
        else if transition = PStr ''exit'' then s\<lparr>es_scope_exit := True\<rparr>
        else if transition = PStr ''end'' then
          (let s = s\<lparr>es_stop := True\<rparr> in
           if fl_ended (es_flow s) then s
           else s\<lparr>es_flow := \<lparr>fl_ended = True, fl_output = es_data s, fl_context = es_context s\<rparr>\<rparr>)
        else case transition of PStr t \<Rightarrow> s\<lparr>es_jump_to := Some t\<rparr> | _ \<Rightarrow> s)"

definition validate_data_schema :: "exec_env \<Rightarrow> pyval \<Rightarrow> pyval \<Rightarrow> string \<Rightarrow> unit exec" where
  "validate_data_schema env specification value label =
     (let document = get_field (get_field specification ''schema'') ''document'' in
      case document of
        PDict _ \<Rightarrow>
          (case env_schema_error env document value of
             None \<Rightarrow> retM ()
           | Some (path, validator) \<Rightarrow>
               failM (mk_fault WorkflowSemanticError (label @ '' schema validation failed at '' @ path)
                 [(''path'', PStr path), (''validator'', PStr validator),
                  (''type'', PStr ''https://serverlessworkflow.io/spec/1.0.0/errors/validation''), (''status'', PInt 400)]))
      | PBool _ \<Rightarrow>
          (case env_schema_error env document value of
             None \<Rightarrow> retM ()
           | Some (path, validator) \<Rightarrow>
               failM (mk_fault WorkflowSemanticError (label @ '' schema validation failed at '' @ path)
                 [(''path'', PStr path), (''validator'', PStr validator),
                  (''type'', PStr ''https://serverlessworkflow.io/spec/1.0.0/errors/validation''), (''status'', PInt 400)]))
      | _ \<Rightarrow> retM ())"

text \<open>\<^verbatim>\<open>spec["as"]\<close> or \<^verbatim>\<open>spec["from"]\<close> applied to a value, which is kept when there is none.\<close>

definition transformM :: "exec_env \<Rightarrow> pyval \<Rightarrow> string \<Rightarrow> pyval \<Rightarrow> pyval \<Rightarrow> pyval exec" where
  "transformM env spec key input otherwise =
     (if has_field spec key then evalM env (get_field spec key) input else retM otherwise)"

definition apply_task_data :: "exec_env \<Rightarrow> pyval \<Rightarrow> pyval \<Rightarrow> pyval exec" where
  "apply_task_data env definition result =
     bindM (liftE (validate_expression_data 0 64 result)) (\<lambda>_.
     bindM (modM (\<lambda>s. case dict_get (es_variables s) ''task'' of
              Some (PDict t) \<Rightarrow> set_var ''task'' (PDict (dict_set ''output'' result t)) s | _ \<Rightarrow> s)) (\<lambda>_.
     bindM (transformM env (get_field definition ''output'') ''as'' result result) (\<lambda>output.
     bindM (validate_data_schema env (get_field definition ''output'') output ''task output'') (\<lambda>_.
     bindM (modM (set_var ''output'' output)) (\<lambda>_.
     bindM getM (\<lambda>s.
     bindM (transformM env (get_field definition ''export'') ''as'' output (es_context s)) (\<lambda>exported.
     bindM (validate_data_schema env (get_field definition ''export'') exported ''task export'') (\<lambda>_.
     bindM (modM (set_context exported)) (\<lambda>_. retM output)))))))))"

section \<open>Policies\<close>

definition str_of :: "exec_env \<Rightarrow> pyval \<Rightarrow> string" where
  "str_of env v = (case v of PStr s \<Rightarrow> s | _ \<Rightarrow> env_str env v)"

definition nested_prefix :: "exec_env \<Rightarrow> exec_state \<Rightarrow> string \<Rightarrow> string" where
  "nested_prefix env s sfx =
     str_of env (case dict_get (es_variables s) ''_execution_reference'' of
       Some v \<Rightarrow> v
     | None \<Rightarrow> (case dict_get (es_variables s) ''_task_reference'' of Some v \<Rightarrow> v | None \<Rightarrow> PStr ''/do''))
     @ ''/'' @ sfx"

definition timeout_fault :: "string \<Rightarrow> (string \<times> pyval) list \<Rightarrow> fault" where
  "timeout_fault message details =
     (mk_fault WorkflowExecutionError message
        (dict_set ''instance'' (case dict_get details ''instance'' of Some v \<Rightarrow> v | None \<Rightarrow> PStr ''/do'')
          (dict_set ''status'' (PInt 408)
            (dict_set ''type'' (PStr ''https://serverlessworkflow.io/spec/1.0.0/errors/timeout'') details))))\<lparr>f_status := 408\<rparr>"

definition run_timed :: "exec_env \<Rightarrow> 'a exec \<Rightarrow> rat option \<Rightarrow> fault \<Rightarrow> 'a exec" where
  "run_timed env operation seconds timeout =
     (case seconds of
        None \<Rightarrow> operation
      | Some t \<Rightarrow>
          if t \<le> 0 then failM timeout
          else bindM operation (\<lambda>result.
                 bindM getM (\<lambda>s. if env_expired env s t then failM timeout else retM result)))"

datatype task_result = Skipped pyval | Produced pyval

definition retry_attempts :: "pyval \<Rightarrow> int res" where
  "retry_attempts definition =
     (case get_field definition ''retry'' of
        PDict d \<Rightarrow>
          bindE (to_int (case dict_get d ''max_attempts'' of
                   Some v \<Rightarrow> v | None \<Rightarrow> (case dict_get d ''limit'' of Some v \<Rightarrow> v | None \<Rightarrow> PInt 0))) (\<lambda>n. Inr (n + 1))
      | PNone \<Rightarrow> Inr 1
      | v \<Rightarrow> bindE (to_int v) (\<lambda>n. Inr (n + 1)))"

definition prepare_attempt :: "(string \<times> nat) list \<Rightarrow> string \<Rightarrow> pyval \<Rightarrow> nat \<Rightarrow> exec_state \<Rightarrow> exec_state" where
  "prepare_attempt path reference raw attempt s =
     del_var ''output'' (del_var ''input''
       (s\<lparr>es_execution_path := path @ [(reference @ ''/@attempt'', attempt + 1)], es_data := raw\<rparr>))"

text \<open>The attempts of \<^verbatim>\<open>_run_with_policy\<close>: \<open>left\<close> more after this one.\<close>

fun policy_loop ::
  "exec_env \<Rightarrow> task_result exec \<Rightarrow> (string \<times> nat) list \<Rightarrow> string \<Rightarrow> pyval \<Rightarrow> rat option \<Rightarrow> fault \<Rightarrow> nat \<Rightarrow> nat \<Rightarrow>
   task_result exec" where
  "policy_loop env body path reference raw remaining timeout attempt left =
     tryM (bindM (modM (prepare_attempt path reference raw attempt)) (\<lambda>_.
           bindM (checkpointM env) (\<lambda>_.
           bindM (emitM ''TaskProgress'' reference) (\<lambda>_.
             run_timed env body remaining timeout))))
       (\<lambda>f. if uncatchable (f_exn f) then failM f
            else case left of
              0 \<Rightarrow> failM f
            | Suc n \<Rightarrow> bindM (emitM ''TaskRetried'' reference) (\<lambda>_.
                policy_loop env body path reference raw remaining timeout (attempt + 1) n))"

declare policy_loop.simps [simp del]

definition run_with_policy ::
  "exec_env \<Rightarrow> task_result exec \<Rightarrow> string \<Rightarrow> pyval \<Rightarrow> string \<Rightarrow> task_result exec" where
  "run_with_policy env body name definition reference =
     bindM (liftE (retry_attempts definition)) (\<lambda>attempts.
     bindM (liftE (duration_seconds (env_float_of_str env) (get_field definition ''timeout''))) (\<lambda>timeout.
     bindM getM (\<lambda>s.
     bindM (case timeout of None \<Rightarrow> retM None
            | Some t \<Rightarrow> bindM (liftM (env_deadline_remaining env s t)) (\<lambda>r. retM (Some r))) (\<lambda>remaining.
       policy_loop env body (es_execution_path s) reference (es_data s) remaining
         (timeout_fault (''task '' @ name @ '' timed out'')
            [(''task'', PStr name), (''timeout_seconds'', case timeout of None \<Rightarrow> PNone | Some t \<Rightarrow> PFloat t),
             (''instance'', PStr reference)])
         0 (nat (max 1 attempts) - 1)))))"

section \<open>Task kinds\<close>

text \<open>\<^verbatim>\<open>_run_tasks\<close> on a nested scope is the argument \<open>rec\<close>: tasks, prefix, indexed.\<close>

type_synonym scope_runner = "pyval list \<Rightarrow> string \<Rightarrow> bool \<Rightarrow> unit exec"

definition dataM :: "pyval exec" where
  "dataM = (\<lambda>s. Some (s, Inr (es_data s)))"

fun switch_loop :: "exec_env \<Rightarrow> pyval list \<Rightarrow> pyval option \<Rightarrow> pyval exec" where
  "switch_loop env [] dflt =
     (case dflt of
        None \<Rightarrow> dataM
      | Some c \<Rightarrow> bindM (modM (apply_transition (get_field c ''then''))) (\<lambda>_. dataM))"
| "switch_loop env (entry # entries) dflt =
     (case entry of
        PDict ((_, c) # _) \<Rightarrow>
          if \<not> has_field c ''when'' then switch_loop env entries (Some c)
          else bindM dataM (\<lambda>data. bindM (condM env (get_field c ''when'') data) (\<lambda>hit.
            if hit then bindM (modM (apply_transition (get_field c ''then''))) (\<lambda>_. dataM)
            else switch_loop env entries dflt))
      | _ \<Rightarrow> failM (mk_fault AttributeError [] []))"

definition run_switch :: "exec_env \<Rightarrow> pyval \<Rightarrow> pyval exec" where
  "run_switch env switch =
     (case switch of PList entries \<Rightarrow> switch_loop env entries None | _ \<Rightarrow> failM (mk_fault TypeError [] []))"

text \<open>Run an action on a copy of the state; what the sink and the flow saw stays.\<close>

definition share :: "exec_state \<Rightarrow> exec_state \<Rightarrow> exec_state" where
  "share child s = s\<lparr>es_flow := es_flow child, es_trace := es_trace child\<rparr>"

definition on_child :: "(exec_state \<Rightarrow> exec_state) \<Rightarrow> 'a exec \<Rightarrow> (exec_state \<times> 'a) exec" where
  "on_child prepare m =
     (\<lambda>s. case m (prepare (copy_state s)) of
        None \<Rightarrow> None
      | Some (c, Inl f) \<Rightarrow> Some (share c s, Inl f)
      | Some (c, Inr a) \<Rightarrow> Some (share c s, Inr (c, a)))"

definition first_field :: "pyval \<Rightarrow> string list \<Rightarrow> pyval \<Rightarrow> pyval" where
  "first_field v ks d =
     (case filter (has_field v) ks of [] \<Rightarrow> d | k # _ \<Rightarrow> get_field v k)"

fun for_loop ::
  "exec_env \<Rightarrow> scope_runner \<Rightarrow> pyval \<Rightarrow> pyval \<Rightarrow> pyval list \<Rightarrow> string \<Rightarrow> string \<Rightarrow> nat \<Rightarrow> pyval list \<Rightarrow> pyval list \<Rightarrow>
   pyval list exec" where
  "for_loop env rec definition task_input body var at_name index [] results = retM results"
| "for_loop env rec definition task_input body var at_name index (value # values) results =
     bindM (on_child (\<lambda>c. set_var at_name (PInt (int index)) (set_var var value c))
       (bindM (if has_field definition ''while''
               then condM env (get_field definition ''while'') task_input else retM True) (\<lambda>go.
          if go then bindM getM (\<lambda>c. bindM (rec body (nested_prefix env c ''do'') True) (\<lambda>_. retM True))
          else retM False))) (\<lambda>(c, ran).
     if \<not> ran then retM results
     else bindM (modM (\<lambda>s. set_context (es_context c) (s\<lparr>es_data := es_data c, es_task_visits := es_task_visits c\<rparr>))) (\<lambda>_.
       if es_stop c then bindM (modM (\<lambda>s. s\<lparr>es_stop := True\<rparr>)) (\<lambda>_. retM (results @ [es_data c]))
       else for_loop env rec definition task_input body var at_name (index + 1) values (results @ [es_data c])))"

definition run_for :: "exec_env \<Rightarrow> scope_runner \<Rightarrow> pyval \<Rightarrow> pyval exec" where
  "run_for env rec definition =
     (let configuration = get_field definition ''for'' in
      if \<not> is_mapping configuration then failM (mk_fault WorkflowSemanticError ''for configuration must be an object'' [])
      else bindM dataM (\<lambda>task_input.
        bindM (evalM env (first_field configuration [''in'', ''over''] (PList [])) task_input) (\<lambda>values.
        case values of
          PList vs \<Rightarrow>
            bindM (for_loop env rec definition task_input (task_body (first_field definition [''do'', ''body''] (PList [])))
                     (str_of env (first_field configuration [''each'', ''as''] (PStr ''item'')))
                     (str_of env (first_field configuration [''at''] (PStr ''index''))) 0 vs []) (\<lambda>results.
              if py_eq (get_field definition ''output'') (PStr ''array'') then retM (PList results)
              else if results = [] then dataM else retM (last results))
        | _ \<Rightarrow> failM (mk_fault WorkflowSemanticError ''for.in must evaluate to an array'' []))))"

section \<open>Try\<close>

definition default_field :: "pyval \<Rightarrow> (string \<times> pyval) list \<Rightarrow> (string \<times> string) list \<Rightarrow> pyval" where
  "default_field d error ks =
     (case filter (\<lambda>(in_details, k). if in_details = ''d'' then has_field d k else dict_get error k \<noteq> None) ks of
        [] \<Rightarrow> PNone
      | (in_details, k) # _ \<Rightarrow> if in_details = ''d'' then get_field d k else get_field (PDict error) k)"

text \<open>The value a filter key is compared with: from the details, then from the error itself.\<close>

definition error_field :: "(string \<times> pyval) list \<Rightarrow> string \<Rightarrow> pyval" where
  "error_field error key =
     (let d = (case dict_get error ''details'' of Some (PDict x) \<Rightarrow> PDict x | _ \<Rightarrow> PDict []) in
      if key = ''type'' then default_field d error [(''d'', ''type''), (''e'', ''type''), (''e'', ''code'')]
      else if key = ''status'' then default_field d error [(''d'', ''status''), (''e'', ''status''), (''e'', ''status_code'')]
      else if key = ''instance'' then default_field d error [(''d'', ''instance''), (''e'', ''instance'')]
      else if key = ''title'' then default_field d error [(''d'', ''title''), (''e'', ''title''), (''e'', ''code'')]
      else if key = ''detail'' then default_field d error [(''d'', ''detail''), (''e'', ''detail''), (''e'', ''message'')]
      else PNone)"

definition guarded :: "exec_env \<Rightarrow> pyval \<Rightarrow> bool exec" where
  "guarded env spec =
     bindM dataM (\<lambda>data.
     bindM (if get_field spec ''when'' \<noteq> PNone then condM env (get_field spec ''when'') data else retM True) (\<lambda>ok.
       if \<not> ok then retM False
       else if get_field spec ''exceptWhen'' \<noteq> PNone
            then bindM (condM env (get_field spec ''exceptWhen'') data) (\<lambda>no. retM (\<not> no))
            else retM True))"

definition catch_matches :: "exec_env \<Rightarrow> pyval \<Rightarrow> (string \<times> pyval) list \<Rightarrow> bool exec" where
  "catch_matches env catch error =
     (let filters = get_field (get_field catch ''errors'') ''with'' in
      if (case filters of PDict fs \<Rightarrow> list_ex (\<lambda>(k, v). \<not> py_eq (error_field error k) v) fs | _ \<Rightarrow> False)
      then retM False else guarded env catch)"

definition retry_allowed :: "exec_env \<Rightarrow> pyval \<Rightarrow> bool exec" where
  "retry_allowed env retry = (if is_mapping retry then guarded env retry else retM True)"

definition catch_block :: "exec_env \<Rightarrow> scope_runner \<Rightarrow> pyval \<Rightarrow> pyval exec" where
  "catch_block env rec catch =
     bindM getM (\<lambda>s.
     bindM (rec (task_body (if has_field catch ''do'' then get_field catch ''do'' else PList []))
              (nested_prefix env s ''catch/do'') True) (\<lambda>_.
     bindM (modM (apply_transition (get_field catch ''then''))) (\<lambda>_. dataM)))"

definition try_body :: "exec_env \<Rightarrow> scope_runner \<Rightarrow> pyval \<Rightarrow> unit exec" where
  "try_body env rec definition =
     bindM getM (\<lambda>s. rec (task_body (get_field definition ''try'')) (nested_prefix env s ''try'') True)"

definition retry_attempt :: "exec_env \<Rightarrow> scope_runner \<Rightarrow> pyval \<Rightarrow> retry_policy \<Rightarrow> nat \<Rightarrow> unit exec" where
  "retry_attempt env rec definition policy attempt =
     (if attempt = 0 then try_body env rec definition
      else bindM getM (\<lambda>s. bindM (liftM (env_attempt_timeout env policy attempt s)) (\<lambda>timeout.
        run_timed env (try_body env rec definition) timeout
          (timeout_fault ''retry attempt timed out''
             [(''instance'', get_field (PDict (es_variables s)) ''_task_reference''), (''retry_attempt'', PInt (int attempt)),
              (''timeout_seconds'', case timeout of None \<Rightarrow> PNone | Some t \<Rightarrow> PFloat (FFin t))]))))"

definition failed_reference :: "exec_env \<Rightarrow> (string \<times> pyval) list \<Rightarrow> string \<Rightarrow> string" where
  "failed_reference env error task_reference =
     (case get_field (PDict error) ''details'' of
        PDict d \<Rightarrow> (case dict_get d ''instance'' of Some v \<Rightarrow> str_of env v | None \<Rightarrow> task_reference)
      | _ \<Rightarrow> task_reference)"

text \<open>
  The handler of one failed attempt decides: \<open>Some v\<close> is the result of the catch block, \<open>None\<close> asks for
  another attempt.
\<close>

definition handle_failure ::
  "exec_env \<Rightarrow> scope_runner \<Rightarrow> pyval \<Rightarrow> retry_policy \<Rightarrow> string \<Rightarrow> nat \<Rightarrow> fault \<Rightarrow> pyval option exec" where
  "handle_failure env rec catch policy task_reference attempt f =
     (if uncatchable (f_exn f) then failM f
      else if \<not> is_mapping catch then failM (mk_fault AttributeError [] [])
      else let error = error_details f;
               catch_error = catch_error_value error (f_status f);
               as_name = (if has_field catch ''as'' then get_field catch ''as'' else PStr ''error'') in
        bindM (modM (case as_name of PStr n \<Rightarrow> set_var n (PDict catch_error) | _ \<Rightarrow> id)) (\<lambda>_.
        bindM (catch_matches env catch catch_error) (\<lambda>matches.
        if \<not> matches then failM f
        else bindM getM (\<lambda>s.
          bindM (if \<not> allows_retry policy attempt then retM False
                 else if env_scheduled env s then retM True else retry_allowed env (get_field catch ''retry'')) (\<lambda>again.
          bindM (if again then bindM getM (\<lambda>s. liftM (env_retry_ready env policy attempt s)) else retM False) (\<lambda>ready.
            if ready then bindM (emitM ''TaskRetried'' (failed_reference env error task_reference)) (\<lambda>_. retM None)
            else bindM (catch_block env rec catch) (\<lambda>v. retM (Some v))))))))"

fun try_loop ::
  "exec_env \<Rightarrow> scope_runner \<Rightarrow> pyval \<Rightarrow> pyval \<Rightarrow> retry_policy \<Rightarrow> string \<Rightarrow> (string \<times> nat) list \<Rightarrow> nat \<Rightarrow> nat \<Rightarrow> pyval exec" where
  "try_loop env rec definition catch policy reference path attempt 0 = (\<lambda>s. None)"
| "try_loop env rec definition catch policy reference path attempt (Suc fuel) =
     bindM (modM (\<lambda>s. s\<lparr>es_execution_path := path @ [(reference @ ''/@catch-attempt'', attempt + 1)]\<rparr>)) (\<lambda>_.
     bindM (tryM (bindM (retry_attempt env rec definition policy attempt) (\<lambda>_. bindM dataM (\<lambda>v. retM (Some v))))
              (handle_failure env rec catch policy reference attempt)) (\<lambda>outcome.
       case outcome of
         Some v \<Rightarrow> retM v
       | None \<Rightarrow> try_loop env rec definition catch policy reference path (attempt + 1) fuel))"

definition run_try :: "exec_env \<Rightarrow> nat \<Rightarrow> scope_runner \<Rightarrow> pyval \<Rightarrow> pyval exec" where
  "run_try env fuel rec definition =
     (let catch = (if truthy (get_field definition ''catch'') then get_field definition ''catch''
                   else get_field definition ''except'') in
      if catch = PNone then bindM (try_body env rec definition) (\<lambda>_. dataM)
      else bindM (liftE (retry_from_value (env_float_of_str env) (get_field catch ''retry''))) (\<lambda>policy.
        bindM getM (\<lambda>s.
          try_loop env rec definition catch policy
            (str_of env (case dict_get (es_variables s) ''_task_reference'' of Some v \<Rightarrow> v | None \<Rightarrow> PStr ''/do''))
            (es_execution_path s) 0 fuel)))"

section \<open>One task\<close>

definition or_val :: "pyval \<Rightarrow> pyval \<Rightarrow> pyval" where
  "or_val a b = (if truthy a then a else b)"

definition run_raise :: "exec_env \<Rightarrow> pyval \<Rightarrow> pyval exec" where
  "run_raise env value =
     bindM getM (\<lambda>s.
     bindM (case value of
         PDict d \<Rightarrow>
           (let error = (case dict_get d ''error'' of Some e \<Rightarrow> e | None \<Rightarrow> value) in
            case error of
              PDict _ \<Rightarrow> bindM (evalM env error (es_data s)) (\<lambda>e.
                (case e of
                   PDict ed \<Rightarrow>
                     retM (or_val (get_field e ''detail'') (or_val (get_field e ''title'') (get_field e ''type'')),
                           dict_set ''instance'' (case dict_get (es_variables s) ''_task_reference'' of Some v \<Rightarrow> v | None \<Rightarrow> PStr ''/do'') ed)
                 | _ \<Rightarrow> failM (mk_fault AttributeError [] [])))
            | _ \<Rightarrow> retM (error, []))
       | _ \<Rightarrow> retM (value, [])) (\<lambda>(message, details).
     bindM (evalM env message (es_data s)) (\<lambda>text.
       failM (mk_fault WorkflowExecutionError (str_of env text) details))))"

definition keep_vars :: "string list \<Rightarrow> exec_state \<Rightarrow> exec_state \<Rightarrow> exec_state" where
  "keep_vars ks c s = fold (\<lambda>k s. case dict_get (es_variables c) k of Some v \<Rightarrow> set_var k v s | None \<Rightarrow> s) ks s"

definition call_function :: "exec_env \<Rightarrow> scope_runner \<Rightarrow> string \<Rightarrow> pyval \<Rightarrow> pyval \<Rightarrow> pyval exec" where
  "call_function env rec call function payload =
     bindM getM (\<lambda>s.
     bindM (on_child (\<lambda>c. c\<lparr>es_data := payload\<rparr>)
              (rec [PDict [(call, function)]] (nested_prefix env s ''call'') False)) (\<lambda>(c, _).
     bindM (modM (\<lambda>s. keep_vars [''event'', ''resume_input''] c (set_context (es_context c) s\<lparr>es_stop := es_stop c\<rparr>))) (\<lambda>_.
       retM (es_data c))))"

definition leafM :: "exec_env \<Rightarrow> string \<Rightarrow> pyval \<Rightarrow> pyval exec" where
  "leafM env kind v = (\<lambda>s. Some (env_leaf env kind v s))"

definition run_call :: "exec_env \<Rightarrow> scope_runner \<Rightarrow> pyval \<Rightarrow> pyval \<Rightarrow> pyval exec" where
  "run_call env rec call payload =
     (case call of
        PStr name \<Rightarrow>
          (case dict_get (env_functions env) name of
             Some function \<Rightarrow> call_function env rec name function payload
           | None \<Rightarrow> leafM env (''call:'' @ name) payload)
      | _ \<Rightarrow> leafM env (''call:'' @ env_str env call) payload)"

definition produced :: "pyval exec \<Rightarrow> task_result exec" where
  "produced m = bindM m (\<lambda>v. retM (Produced v))"

text \<open>The branches of \<^verbatim>\<open>_run_task\<close> after the input was prepared, in the order of the code.\<close>

definition run_kind :: "exec_env \<Rightarrow> nat \<Rightarrow> scope_runner \<Rightarrow> string \<Rightarrow> pyval \<Rightarrow> pyval \<Rightarrow> pyval exec" where
  "run_kind env fuel rec name definition task_input =
     (if has_field definition ''set'' then evalM env (get_field definition ''set'') task_input
      else if has_field definition ''call'' then
        bindM (if has_field definition ''with'' then evalM env (get_field definition ''with'') task_input else retM task_input) (\<lambda>payload.
          run_call env rec (get_field definition ''call'') payload)
      else if has_field definition ''emit'' then leafM env ''emit'' (get_field definition ''emit'')
      else if has_field definition ''listen'' then leafM env ''listen'' definition
      else if has_field definition ''run'' then leafM env ''run'' (get_field definition ''run'')
      else if has_field definition ''switch'' then run_switch env (get_field definition ''switch'')
      else if has_field definition ''for'' then run_for env rec definition
      else if has_field definition ''fork'' then leafM env ''fork'' (get_field definition ''fork'')
      else if has_field definition ''do'' then
        bindM getM (\<lambda>s. bindM (rec (task_body (get_field definition ''do'')) (nested_prefix env s ''do'') True) (\<lambda>_. dataM))
      else if has_field definition ''try'' then run_try env fuel rec definition
      else if has_field definition ''wait'' then leafM env ''wait'' (get_field definition ''wait'')
      else if has_field definition ''raise'' then run_raise env (get_field definition ''raise'')
      else failM (mk_fault UnsupportedWorkflowFeature (''unsupported task '' @ name) []))"

definition run_task :: "exec_env \<Rightarrow> nat \<Rightarrow> scope_runner \<Rightarrow> string \<Rightarrow> pyval \<Rightarrow> task_result exec" where
  "run_task env fuel rec name definition =
     bindM dataM (\<lambda>raw_input.
     bindM (if has_field definition ''if'' then condM env (get_field definition ''if'') raw_input else retM True) (\<lambda>go.
       if \<not> go then retM (Skipped raw_input)
       else
         bindM (validate_data_schema env (get_field definition ''input'') raw_input (''task '' @ name @ '' input'')) (\<lambda>_.
         bindM (transformM env (get_field definition ''input'') ''from'' raw_input raw_input) (\<lambda>task_input.
         bindM (modM (\<lambda>s. set_var ''input'' task_input (s\<lparr>es_data := task_input\<rparr>))) (\<lambda>_.
           produced (run_kind env fuel rec name definition task_input))))))"


section \<open>A task in its scope\<close>

definition count_visit :: "string \<Rightarrow> exec_state \<Rightarrow> exec_state" where
  "count_visit r s = s\<lparr>es_task_visits := (es_task_visits s)(r := es_task_visits s r + 1)\<rparr>"

definition task_value :: "exec_env \<Rightarrow> string \<Rightarrow> pyval \<Rightarrow> string \<Rightarrow> string \<Rightarrow> exec_state \<Rightarrow> pyval" where
  "task_value env name definition reference execution_reference s =
     PDict [(''name'', PStr name), (''reference'', PStr reference),
       (''definition'',
          case dict_get (env_catalog_tasks env) execution_reference of
            Some imported \<Rightarrow> imported
          | None \<Rightarrow> or_val
              (definition_at_pointer
                 (case dict_get (es_variables s) ''workflow'' of
                    Some (PDict w) \<Rightarrow> (case dict_get w ''definition'' of Some d \<Rightarrow> d | None \<Rightarrow> PDict [])
                  | _ \<Rightarrow> PDict []) reference)
              definition),
       (''input'', es_data s), (''startedAt'', env_now env s)]"

definition enter_task :: "exec_env \<Rightarrow> string \<Rightarrow> pyval \<Rightarrow> string \<Rightarrow> string \<Rightarrow> exec_state \<Rightarrow> exec_state" where
  "enter_task env name definition reference execution_reference s =
     set_var ''task'' (task_value env name definition reference execution_reference s)
       (set_var ''_task_name'' (PStr name)
         (set_var ''_execution_reference'' (PStr execution_reference)
           (set_var ''_task_reference'' (PStr reference)
             (del_var ''task'' (del_var ''output'' (del_var ''input''
               (s\<lparr>es_execution_path := es_execution_path s @ [(execution_reference, es_task_visits s execution_reference)]\<rparr>)))))))"

text \<open>The handlers of one task's failure: what they report and what they raise.\<close>

definition failure_event :: "exec_env \<Rightarrow> exec_state \<Rightarrow> fault \<Rightarrow> string" where
  "failure_event env s f =
     (if f_exn f = InvocationCancelled then (if env_interrupted env s then ''TaskProgress'' else ''TaskCancelled'')
      else if f_exn f = NativeMemoryRecoveryRequired then ''TaskWaiting''
      else ''TaskFaulted'')"

definition failure_raised :: "string \<Rightarrow> string \<Rightarrow> string \<Rightarrow> fault \<Rightarrow> fault" where
  "failure_raised name reference execution_reference f =
     (if f_exn f = InvocationCancelled \<or> f_exn f = NativeMemoryRecoveryRequired then f
      else if exn_code (f_exn f) \<noteq> None
      then f\<lparr>f_details := set_default ''instance'' (PStr reference) (f_details f)\<rparr>
      else mk_fault WorkflowExecutionError (''task '' @ name @ '' failed'')
             ((''task'', PStr name) # (if execution_reference \<noteq> reference then [(''instance'', PStr reference)] else [])))"

definition task_failed :: "exec_env \<Rightarrow> string \<Rightarrow> string \<Rightarrow> string \<Rightarrow> fault \<Rightarrow> 'a exec" where
  "task_failed env name reference execution_reference f =
     bindM getM (\<lambda>s. bindM (emitM (failure_event env s f) reference) (\<lambda>_.
       failM (failure_raised name reference execution_reference f)))"

definition leave_task :: "string \<Rightarrow> exec_state \<Rightarrow> pyval \<Rightarrow> exec_state \<Rightarrow> exec_state" where
  "leave_task name c output s =
     (keep_vars [''event'', ''resume_input''] c
       (set_context (es_context c)
         (s\<lparr>es_outputs := dict_set name output (es_outputs c), es_task_visits := es_task_visits c, es_data := output\<rparr>)))
     \<lparr>es_jump_to := es_jump_to c, es_stop := es_stop c, es_scope_exit := es_scope_exit c,
      es_transition_selected := es_transition_selected c\<rparr>"

definition attempt_task :: "exec_env \<Rightarrow> nat \<Rightarrow> scope_runner \<Rightarrow> string \<Rightarrow> pyval \<Rightarrow> string \<Rightarrow> pyval exec" where
  "attempt_task env fuel rec name definition reference =
     bindM (run_with_policy env (run_task env fuel rec name definition) name definition reference) (\<lambda>result.
       case result of Skipped data \<Rightarrow> retM data | Produced v \<Rightarrow> apply_task_data env definition v)"

definition run_task_item ::
  "exec_env \<Rightarrow> nat \<Rightarrow> scope_runner \<Rightarrow> string \<Rightarrow> pyval \<Rightarrow> string \<Rightarrow> string \<Rightarrow> unit exec" where
  "run_task_item env fuel rec name definition reference execution_reference =
     bindM (modM (count_visit execution_reference)) (\<lambda>_.
     bindM (on_child (enter_task env name definition reference execution_reference)
              (bindM (emitM ''TaskStarted'' reference) (\<lambda>_.
                 tryM (attempt_task env fuel rec name definition reference)
                   (task_failed env name reference execution_reference)))) (\<lambda>(c, output).
     bindM (modM (leave_task name c output)) (\<lambda>_.
     bindM (modM (\<lambda>s. s\<lparr>es_trace := es_trace s @ [Event ''TaskCompleted'' reference (es_execution_path c)]\<rparr>)) (\<lambda>_.
       modM (\<lambda>s. if \<not> es_transition_selected s \<and> \<not> es_stop s then apply_transition (get_field definition ''then'') s else s)))))"

section \<open>Task sequences\<close>

fun target_index :: "nat \<Rightarrow> string \<Rightarrow> pyval list \<Rightarrow> nat option" where
  "target_index i target [] = None"
| "target_index i target (t # ts) = (if has_field t target then Some i else target_index (i + 1) target ts)"

definition single_item :: "pyval \<Rightarrow> (string \<times> pyval) option" where
  "single_item item = (case item of PDict [p] \<Rightarrow> Some p | _ \<Rightarrow> None)"

definition next_index :: "pyval list \<Rightarrow> string \<Rightarrow> nat \<Rightarrow> nat option exec" where
  "next_index tasks name index =
     bindM getM (\<lambda>s.
       if es_stop s then retM None
       else if es_scope_exit s then bindM (modM (\<lambda>s. s\<lparr>es_scope_exit := False\<rparr>)) (\<lambda>_. retM None)
       else case es_jump_to s of
         None \<Rightarrow> retM (Some (index + 1))
       | Some target \<Rightarrow>
           bindM (modM (\<lambda>s. s\<lparr>es_jump_to := None\<rparr>)) (\<lambda>_.
             case target_index 0 target tasks of
               None \<Rightarrow> failM (mk_fault WorkflowExecutionError (''task transition target not found: '' @ target) [(''task'', PStr name)])
             | Some i \<Rightarrow> retM (Some i)))"

definition sequence_step ::
  "exec_env \<Rightarrow> nat \<Rightarrow> scope_runner \<Rightarrow> pyval list \<Rightarrow> string \<Rightarrow> bool \<Rightarrow> nat \<Rightarrow> nat option exec" where
  "sequence_step env fuel rec tasks pre indexed index =
     bindM getM (\<lambda>s.
       if fl_ended (es_flow s) then bindM (modM (\<lambda>s. s\<lparr>es_stop := True\<rparr>)) (\<lambda>_. retM None)
       else bindM (checkpointM env) (\<lambda>_.
         case single_item (tasks ! index) of
           None \<Rightarrow> failM (mk_fault WorkflowExecutionError (''invalid task at sequence index '' @ dec index) [])
         | Some (name, definition) \<Rightarrow>
             if \<not> is_mapping definition
             then failM (mk_fault WorkflowExecutionError (''task '' @ name @ '' definition must be an object'') [])
             else let reference = (if indexed then pre @ ''/'' @ dec index else pre) @ ''/'' @ pointer_token name;
                      original = (case dict_get (env_source_references env) reference of Some r \<Rightarrow> r | None \<Rightarrow> reference) in
               bindM (run_task_item env fuel rec name definition original reference) (\<lambda>_.
                 next_index tasks name index)))"

fun task_loop ::
  "exec_env \<Rightarrow> nat \<Rightarrow> scope_runner \<Rightarrow> pyval list \<Rightarrow> string \<Rightarrow> bool \<Rightarrow> nat \<Rightarrow> nat \<Rightarrow> unit exec" where
  "task_loop env fuel rec tasks pre indexed index 0 = (\<lambda>s. None)"
| "task_loop env fuel rec tasks pre indexed index (Suc k) =
     (if length tasks \<le> index then retM ()
      else bindM (sequence_step env fuel rec tasks pre indexed index) (\<lambda>next.
        case next of None \<Rightarrow> retM () | Some i \<Rightarrow> task_loop env fuel rec tasks pre indexed i k))"

fun run_tasks :: "exec_env \<Rightarrow> nat \<Rightarrow> scope_runner" where
  "run_tasks env 0 = (\<lambda>tasks pre indexed s. None)"
| "run_tasks env (Suc n) = (\<lambda>tasks pre indexed. task_loop env n (run_tasks env n) tasks pre indexed 0 n)"

section \<open>A workflow\<close>

record wf_plan =
  pl_source :: pyval
  pl_execution_source :: pyval
  pl_invocation_id :: string
  pl_engine :: pyval
  pl_version :: string

definition initial_state :: "exec_env \<Rightarrow> wf_plan \<Rightarrow> pyval \<Rightarrow> exec_state" where
  "initial_state env plan input =
     (let s = \<lparr>es_data = input, es_outputs = [], es_variables = [], es_context = PDict [], es_jump_to = None, es_stop = False,
               es_scope_exit = False, es_transition_selected = False,
               es_flow = \<lparr>fl_ended = False, fl_output = PNone, fl_context = PNone\<rparr>,
               es_task_visits = (\<lambda>_. 0), es_execution_path = [], es_trace = []\<rparr>
      in s\<lparr>es_variables :=
        [(''runtime'', PDict [(''name'', PStr ''open-workflow-agent''), (''version'', PStr (pl_version plan)),
                              (''metadata'', PDict [(''engine'', pl_engine plan)])]),
         (''workflow'', PDict [(''id'', PStr (pl_invocation_id plan)), (''definition'', pl_source plan), (''input'', input),
                               (''startedAt'', env_now env s)])]\<rparr>)"

definition statusM :: "exec_env \<Rightarrow> string \<Rightarrow> unit exec" where
  "statusM env status = (\<lambda>s. case env_set_status env status s of None \<Rightarrow> Some (s, Inr ()) | Some f \<Rightarrow> Some (s, Inl f))"

definition prepare_workflow :: "exec_env \<Rightarrow> pyval \<Rightarrow> pyval \<Rightarrow> unit exec" where
  "prepare_workflow env workflow input =
     bindM getM (\<lambda>s.
     bindM (case env_admit env s of None \<Rightarrow> retM () | Some f \<Rightarrow> failM f) (\<lambda>_.
     bindM (liftE (validate_expression_data 0 64 input)) (\<lambda>_.
     bindM (validate_data_schema env (get_field workflow ''input'') input ''workflow input'') (\<lambda>_.
     bindM (transformM env (get_field workflow ''input'') ''from'' input (es_data s)) (\<lambda>data.
       modM (\<lambda>s. set_context data (s\<lparr>es_data := data\<rparr>)))))))"

definition py_iter :: "pyval \<Rightarrow> pyval list res" where
  "py_iter v = (case v of PList xs \<Rightarrow> Inr xs | PDict d \<Rightarrow> Inr (map (\<lambda>p. PStr (fst p)) d)
     | PStr s \<Rightarrow> Inr (map (\<lambda>c. PStr [c]) s) | _ \<Rightarrow> Inl TypeError)"

definition run_workflow :: "exec_env \<Rightarrow> nat \<Rightarrow> pyval \<Rightarrow> unit exec" where
  "run_workflow env fuel workflow =
     bindM (liftE (duration_seconds (env_float_of_str env) (get_field workflow ''timeout''))) (\<lambda>timeout.
     bindM getM (\<lambda>s.
     bindM (case timeout of None \<Rightarrow> retM None
            | Some t \<Rightarrow> bindM (liftM (env_workflow_remaining env s t)) (\<lambda>r. retM (Some r))) (\<lambda>remaining.
     bindM (liftE (py_iter (if has_field workflow ''do'' then get_field workflow ''do'' else PList []))) (\<lambda>tasks.
       run_timed env (run_tasks env fuel tasks ''/do'' True) remaining
         (timeout_fault ''workflow timed out'' [(''timeout_seconds'', case timeout of None \<Rightarrow> PNone | Some t \<Rightarrow> PFloat t)])))))"

definition workflow_output :: "exec_env \<Rightarrow> pyval \<Rightarrow> pyval exec" where
  "workflow_output env workflow =
     (let output = get_field workflow ''output'' in
      bindM getM (\<lambda>s.
      bindM (if has_field output ''as''
             then liftM (env_evaluate env (get_field output ''as'') (es_data s)
                    (filter (\<lambda>p. fst p \<in> {''context'', ''workflow'', ''runtime''}) (es_variables s)))
             else retM (es_data s)) (\<lambda>result.
      bindM (liftE (validate_expression_data 0 64 result)) (\<lambda>_.
      bindM (validate_data_schema env output result ''workflow output'') (\<lambda>_. retM result)))))"

definition workflow_failed :: "exec_env \<Rightarrow> fault \<Rightarrow> 'a exec" where
  "workflow_failed env f =
     bindM getM (\<lambda>s.
       if f_exn f = InvocationCancelled then
         (if env_interrupted env s then failM f
          else bindM (statusM env ''cancelled'') (\<lambda>_. bindM (emitM ''WorkflowCancelled'' []) (\<lambda>_. failM f)))
       else if f_exn f = NativeMemoryRecoveryRequired then
         bindM (statusM env ''waiting'') (\<lambda>_. bindM (emitM ''WorkflowWaiting'' []) (\<lambda>_. failM f))
       else bindM (statusM env ''faulted'') (\<lambda>_. bindM (emitM ''WorkflowFaulted'' []) (\<lambda>_. failM f)))"

definition workflow_body :: "exec_env \<Rightarrow> nat \<Rightarrow> pyval \<Rightarrow> pyval \<Rightarrow> pyval exec" where
  "workflow_body env fuel workflow input =
     bindM (prepare_workflow env workflow input) (\<lambda>_.
     bindM (run_workflow env fuel workflow) (\<lambda>_.
     bindM (workflow_output env workflow) (\<lambda>result.
     bindM getM (\<lambda>s.
     bindM (if fl_ended (es_flow s) \<and> env_handle_waiting env s then statusM env ''running'' else retM ()) (\<lambda>_.
     bindM (statusM env ''completed'') (\<lambda>_. retM result))))))"

definition execute :: "exec_env \<Rightarrow> nat \<Rightarrow> wf_plan \<Rightarrow> pyval \<Rightarrow> (exec_state \<times> (fault + pyval)) option" where
  "execute env fuel plan input =
     bindM (emitM ''WorkflowStarted'' []) (\<lambda>_.
     bindM (tryM (workflow_body env fuel (pl_execution_source plan) input) (workflow_failed env)) (\<lambda>result.
     bindM (emitM ''WorkflowCompleted'' []) (\<lambda>_. retM result)))
     (initial_state env plan input)"

end
