(* ===== verification/Executor_Laws.thy ===== *)
theory Executor_Laws
  imports Workflow_Executor
begin

text \<open>
  What every run of the executor keeps. The flow control and the event sink are the two objects all
  scopes of one execution share; a relation on them that holds across the primitive steps (a progress
  note, the first \<^verbatim>\<open>end\<close>, a task bracketed by its start and its terminal event) holds across every run. The locale
  \<open>shared_log\<close> proves that once, by induction on the fuel; its interpretations give the theorems:
  the log only grows, the first end wins, events are well nested, nothing starts after cancellation.
\<close>

section \<open>Relations on the shared objects\<close>

type_synonym shared = "flow_control \<times> event list"

definition shared_of :: "exec_state \<Rightarrow> shared" where
  "shared_of s = (es_flow s, es_trace s)"

definition keeps :: "(shared \<Rightarrow> shared \<Rightarrow> bool) \<Rightarrow> 'a exec \<Rightarrow> bool" where
  "keeps Q m \<longleftrightarrow> (\<forall>s s' r. m s = Some (s', r) \<longrightarrow> Q (shared_of s) (shared_of s'))"

lemma keepsD: "keeps Q m \<Longrightarrow> m s = Some (s', r) \<Longrightarrow> Q (shared_of s) (shared_of s')"
  unfolding keeps_def by blast

text \<open>
  What is asked of the environment: tasks that leave the process keep the relation, a checkpoint
  that passes opens the log for a start, and an interruption is only reported where \<open>ends\<close> allows it.
\<close>

definition env_respects :: "(shared \<Rightarrow> shared \<Rightarrow> bool) \<Rightarrow> (shared \<Rightarrow> bool) \<Rightarrow> string set \<Rightarrow> exec_env \<Rightarrow> bool" where
  "env_respects Q open_at ends env \<longleftrightarrow>
     (\<forall>kind v s. Q (shared_of s) (shared_of (fst (env_leaf env kind v s)))) \<and>
     (\<forall>s. env_checkpoint env s = None \<and> \<not> fl_ended (es_flow s) \<longrightarrow> open_at (shared_of s)) \<and>
     (\<forall>s. env_interrupted env s \<longrightarrow> ''TaskProgress'' \<in> ends)"

named_theorems shared_simps \<open>updates that leave the shared objects alone\<close>

lemma shared_of_unchanged [shared_simps]:
  "shared_of (set_var k v s) = shared_of s"
  "shared_of (del_var k s) = shared_of s"
  "shared_of (set_context cv s) = shared_of s"
  "shared_of (copy_state s) = shared_of s"
  "shared_of (share c s) = shared_of c"
  "shared_of (s\<lparr>es_data := d\<rparr>) = shared_of s"
  "shared_of (s\<lparr>es_outputs := outs\<rparr>) = shared_of s"
  "shared_of (s\<lparr>es_stop := b\<rparr>) = shared_of s"
  "shared_of (s\<lparr>es_scope_exit := b\<rparr>) = shared_of s"
  "shared_of (s\<lparr>es_jump_to := j\<rparr>) = shared_of s"
  "shared_of (s\<lparr>es_transition_selected := b\<rparr>) = shared_of s"
  "shared_of (s\<lparr>es_task_visits := vs\<rparr>) = shared_of s"
  "shared_of (s\<lparr>es_execution_path := p\<rparr>) = shared_of s"
  by (simp_all add: shared_of_def set_var_def del_var_def set_context_def copy_state_def share_def)

lemma shared_of_keep_vars [shared_simps]: "shared_of (keep_vars ks c s) = shared_of s"
proof (induction ks arbitrary: s)
  case (Cons k ks)
  have "keep_vars (k # ks) c s = keep_vars ks c (case dict_get (es_variables c) k of Some v \<Rightarrow> set_var k v s | None \<Rightarrow> s)"
    by (simp add: keep_vars_def)
  then show ?case by (simp add: Cons shared_simps split: option.splits)
qed (simp add: keep_vars_def)

lemma shared_of_task [shared_simps]:
  "shared_of (enter_task env name d r x s) = shared_of s"
  "shared_of (leave_task name c v s) = shared_of s"
  "shared_of (count_visit r s) = shared_of s"
  "shared_of (prepare_attempt path r raw k s) = shared_of s"
  by (simp_all add: enter_task_def leave_task_def count_visit_def prepare_attempt_def shared_simps)

text \<open>A failing task closes its bracket with one event.\<close>

lemma task_failed_run:
  "task_failed env name r x f c =
     Some (c\<lparr>es_trace := es_trace c @ [Event (failure_event env c f) r (es_execution_path c)]\<rparr>, Inl (failure_raised name r x f))"
  by (simp add: task_failed_def bindM_def getM_def emitM_def modM_def failM_def)

section \<open>The laws of one relation\<close>

locale shared_log =
  fixes Q :: "shared \<Rightarrow> shared \<Rightarrow> bool"
    and open_at :: "shared \<Rightarrow> bool"
    and ends :: "string set"
  assumes Q_refl: "Q x x"
    and Q_trans: "Q x y \<Longrightarrow> Q y z \<Longrightarrow> Q x z"
    and Q_note: "K \<in> {''TaskProgress'', ''TaskRetried''} \<Longrightarrow> Q (f, t) (f, t @ [Event K r p])"
    and Q_end: "\<not> fl_ended f \<Longrightarrow> Q (f, t) (\<lparr>fl_ended = True, fl_output = d, fl_context = c\<rparr>, t)"
    and Q_task: "open_at (f, t) \<Longrightarrow> Q (f, t @ [Event ''TaskStarted'' r p]) (f', t') \<Longrightarrow> K \<in> ends \<Longrightarrow>
        Q (f, t) (f', t' @ [Event K r p'])"
    and ends_all: "{''TaskCompleted'', ''TaskFaulted'', ''TaskCancelled'', ''TaskWaiting''} \<subseteq> ends"
begin

lemma keeps_ret: "keeps Q (retM a)" and keeps_fail: "keeps Q (failM f)" and keeps_get: "keeps Q getM"
  and keeps_lift: "keeps Q (liftM r)" and keeps_data: "keeps Q dataM"
  by (auto simp: keeps_def retM_def failM_def getM_def liftM_def dataM_def intro: Q_refl)

lemma keeps_liftE: "keeps Q (liftE r)"
  by (simp add: liftE_def keeps_lift)

lemma keeps_bind: "keeps Q m \<Longrightarrow> (\<And>a. keeps Q (k a)) \<Longrightarrow> keeps Q (bindM m k)"
  unfolding keeps_def bindM_def
  by (auto split: option.splits sum.splits) (meson Q_trans)

lemma keeps_try: "keeps Q m \<Longrightarrow> (\<And>f. keeps Q (h f)) \<Longrightarrow> keeps Q (tryM m h)"
  unfolding keeps_def tryM_def
  by (auto split: option.splits sum.splits) (meson Q_trans)

lemma keeps_mod: "(\<And>s. Q (shared_of s) (shared_of (g s))) \<Longrightarrow> keeps Q (modM g)"
  by (auto simp: keeps_def modM_def)

lemma keeps_mod_same: "(\<And>s. shared_of (g s) = shared_of s) \<Longrightarrow> keeps Q (modM g)"
  by (auto simp: keeps_def modM_def Q_refl)

lemma keeps_if: "(b \<Longrightarrow> keeps Q m) \<Longrightarrow> (\<not> b \<Longrightarrow> keeps Q m') \<Longrightarrow> keeps Q (if b then m else m')"
  by simp

lemma keeps_none: "keeps Q (\<lambda>s. None)"
  by (simp add: keeps_def)

lemma keeps_checkpoint: "keeps Q (checkpointM env)"
  by (auto simp: keeps_def checkpointM_def Q_refl split: option.splits)

lemma keeps_emit: "K \<in> {''TaskProgress'', ''TaskRetried''} \<Longrightarrow> keeps Q (emitM K r)"
  unfolding emitM_def by (rule keeps_mod) (simp add: shared_of_def Q_note)

lemma keeps_eval: "keeps Q (evalM env e d)"
  by (auto simp: keeps_def evalM_def Q_refl)

lemma keeps_on_child: "(\<And>s. shared_of (prepare s) = shared_of s) \<Longrightarrow> keeps Q m \<Longrightarrow> keeps Q (on_child prepare m)"
  unfolding keeps_def on_child_def
  by (auto simp: shared_simps split: option.splits sum.splits) (metis shared_of_unchanged(4))+

lemma Q_apply_transition: "Q (shared_of s) (shared_of (apply_transition v s))"
  by (auto simp: apply_transition_def Let_def shared_of_def Q_refl Q_end split: pyval.splits)

lemma keeps_transition: "keeps Q (modM (apply_transition v))"
  by (rule keeps_mod) (rule Q_apply_transition)

lemmas keeps_basic = keeps_ret keeps_fail keeps_get keeps_lift keeps_data keeps_liftE keeps_bind keeps_try keeps_if
  keeps_none keeps_checkpoint keeps_eval keeps_transition

lemma keeps_cond: "keeps Q (condM env e d)"
  unfolding condM_def by (intro keeps_basic)

lemma keeps_validate: "keeps Q (validate_data_schema env spec v lab)"
  unfolding validate_data_schema_def Let_def
  by (auto intro: keeps_ret keeps_fail split: pyval.splits option.splits)

lemma keeps_transform: "keeps Q (transformM env spec key i w)"
  unfolding transformM_def by (intro keeps_basic)

lemma keeps_apply_task_data: "keeps Q (apply_task_data env d r)"
  unfolding apply_task_data_def
  by (intro keeps_basic keeps_validate keeps_transform keeps_mod_same)
    (auto simp: shared_simps split: option.splits pyval.splits)

lemma keeps_timed: "keeps Q m \<Longrightarrow> keeps Q (run_timed env m t f)"
  unfolding run_timed_def
  by (cases t) (simp_all add: keeps_bind keeps_get keeps_if keeps_ret keeps_fail)

lemma keeps_policy_loop:
  "keeps Q body \<Longrightarrow> keeps Q (policy_loop env body path r raw rem tmo k left)"
proof (induction left arbitrary: k)
  case 0
  then show ?case
    by (subst policy_loop.simps) (auto intro!: keeps_basic keeps_timed keeps_emit keeps_mod_same simp: shared_simps)
next
  case (Suc n)
  then show ?case
    by (subst policy_loop.simps) (auto intro!: keeps_basic keeps_timed keeps_emit keeps_mod_same simp: shared_simps)
qed

lemma keeps_policy: "keeps Q body \<Longrightarrow> keeps Q (run_with_policy env body name d r)"
  unfolding run_with_policy_def
  by (intro keeps_basic keeps_policy_loop) (auto intro!: keeps_basic split: option.splits)

lemma keeps_switch: "keeps Q (run_switch env sw)"
proof -
  have "keeps Q (switch_loop env es d)" for es d
    by (induction env es d rule: switch_loop.induct)
      (auto intro!: keeps_basic keeps_cond split: option.splits pyval.splits list.splits)
  then show ?thesis by (auto simp: run_switch_def intro: keeps_fail split: pyval.splits)
qed

lemma keeps_for_loop:
  "(\<And>ts p i. keeps Q (rec ts p i)) \<Longrightarrow> keeps Q (for_loop env rec d ti body var ix k vs rs)"
proof (induction env rec d ti body var ix k vs rs rule: for_loop.induct)
  case (2 env rec d ti body var ix k v vs rs)
  note rec = "2.prems"
  have body: "keeps Q (on_child (\<lambda>c. set_var ix (PInt (int k)) (set_var var v c))
      (bindM (if has_field d ''while'' then condM env (get_field d ''while'') ti else retM True) (\<lambda>go.
         if go then bindM getM (\<lambda>c. bindM (rec body (nested_prefix env c ''do'') True) (\<lambda>_. retM True)) else retM False)))"
    by (intro keeps_on_child keeps_basic keeps_cond rec) (simp add: shared_simps)
  show ?case
    unfolding for_loop.simps
    by (rule keeps_bind [OF body])
      (auto intro!: keeps_basic keeps_mod_same "2.IH" rec simp: shared_simps)
qed (simp add: keeps_ret)

lemma keeps_for: "(\<And>ts p i. keeps Q (rec ts p i)) \<Longrightarrow> keeps Q (run_for env rec d)"
  unfolding run_for_def Let_def
  by (auto intro!: keeps_basic keeps_for_loop split: pyval.splits)

lemma keeps_guarded: "keeps Q (guarded env spec)"
  unfolding guarded_def by (intro keeps_basic keeps_cond)

lemma keeps_matches: "keeps Q (catch_matches env c e)" and keeps_allowed: "keeps Q (retry_allowed env r)"
  unfolding catch_matches_def retry_allowed_def Let_def by (intro keeps_basic keeps_guarded)+

lemma keeps_catch_block: "(\<And>ts p i. keeps Q (rec ts p i)) \<Longrightarrow> keeps Q (catch_block env rec c)"
  unfolding catch_block_def by (intro keeps_basic)

lemma keeps_attempt: "(\<And>ts p i. keeps Q (rec ts p i)) \<Longrightarrow> keeps Q (retry_attempt env rec d pol k)"
  unfolding retry_attempt_def try_body_def by (intro keeps_basic keeps_timed)

lemma keeps_handle: "(\<And>ts p i. keeps Q (rec ts p i)) \<Longrightarrow> keeps Q (handle_failure env rec c pol r k f)"
  unfolding handle_failure_def Let_def
  by (intro keeps_basic keeps_matches keeps_allowed keeps_catch_block keeps_emit keeps_mod_same)
    (auto simp: shared_simps split: pyval.splits)

lemma keeps_try_loop:
  "(\<And>ts p i. keeps Q (rec ts p i)) \<Longrightarrow> keeps Q (try_loop env rec d c pol r path k n)"
proof (induction env rec d c pol r path k n rule: try_loop.induct)
  case (2 env rec d c pol r path k n)
  show ?case
    unfolding try_loop.simps
    by (intro keeps_basic keeps_attempt keeps_handle "2.prems" keeps_mod_same)
      (auto simp: shared_simps intro: keeps_ret "2.IH" [simplified] "2.prems" split: option.splits)
qed (simp add: keeps_none)

lemma keeps_run_try: "(\<And>ts p i. keeps Q (rec ts p i)) \<Longrightarrow> keeps Q (run_try env n rec d)"
  unfolding run_try_def Let_def try_body_def by (intro keeps_basic keeps_try_loop)

lemma keeps_raise: "keeps Q (run_raise env v)"
  unfolding run_raise_def Let_def
  by (auto intro!: keeps_basic split: pyval.splits option.splits)

lemma keeps_call: "(\<And>ts p i. keeps Q (rec ts p i)) \<Longrightarrow> keeps Q (call_function env rec c f p)"
  unfolding call_function_def
  by (auto intro!: keeps_basic keeps_on_child keeps_mod_same simp: shared_simps)

lemma keeps_leaf: "env_respects Q open_at ends env \<Longrightarrow> keeps Q (leafM env kind v)"
  unfolding keeps_def leafM_def env_respects_def by (metis fst_conv option.inject)

lemma keeps_run_call:
  "env_respects Q open_at ends env \<Longrightarrow> (\<And>ts p i. keeps Q (rec ts p i)) \<Longrightarrow> keeps Q (run_call env rec c payload)"
  unfolding run_call_def
  by (cases c) (simp_all add: keeps_leaf keeps_call split: option.splits)

lemma keeps_kind:
  "env_respects Q open_at ends env \<Longrightarrow> (\<And>ts p i. keeps Q (rec ts p i)) \<Longrightarrow> keeps Q (run_kind env n rec name d ti)"
  unfolding run_kind_def
  by (intro keeps_basic keeps_leaf keeps_run_call keeps_switch keeps_for keeps_run_try keeps_raise)

lemma keeps_attempt_task:
  "env_respects Q open_at ends env \<Longrightarrow> (\<And>ts p i. keeps Q (rec ts p i)) \<Longrightarrow> keeps Q (attempt_task env n rec name d r)"
  unfolding attempt_task_def run_task_def produced_def
  by (auto intro!: keeps_basic keeps_policy keeps_cond keeps_validate keeps_transform keeps_kind keeps_mod_same
      keeps_apply_task_data simp: shared_simps split: task_result.splits)

lemma failure_event_ends: "env_respects Q open_at ends env \<Longrightarrow> failure_event env c f \<in> ends"
  using ends_all by (auto simp: failure_event_def env_respects_def)

lemma bracket:
  assumes env: "env_respects Q open_at ends env" and rec: "\<And>ts p i. keeps Q (rec ts p i)"
    and opened: "open_at (shared_of s)" and K: "K \<in> ends"
    and run: "attempt_task env n rec name d r (s\<lparr>es_trace := es_trace s @ [Event ''TaskStarted'' r p]\<rparr>) = Some (c, res)"
  shows "Q (shared_of s) (es_flow c, es_trace c @ [Event K r p'])"
proof -
  have "Q (es_flow s, es_trace s @ [Event ''TaskStarted'' r p]) (es_flow c, es_trace c)"
    using keepsD [OF keeps_attempt_task [OF env rec] run] by (simp add: shared_of_def)
  then show ?thesis using Q_task opened K by (simp add: shared_of_def)
qed

lemma keeps_item:
  assumes env: "env_respects Q open_at ends env" and rec: "\<And>ts p i. keeps Q (rec ts p i)"
    and opened: "open_at (shared_of s)"
    and run: "run_task_item env n rec name d r x s = Some (s', res)"
  shows "Q (shared_of s) (shared_of s')"
proof -
  define c0 where "c0 = enter_task env name d r x (copy_state (count_visit x s))"
  have c0: "shared_of c0 = shared_of s" by (simp add: c0_def shared_simps)
  then have opened': "open_at (shared_of c0)" using opened by simp
  let ?c1 = "c0\<lparr>es_trace := es_trace c0 @ [Event ''TaskStarted'' r (es_execution_path c0)]\<rparr>"
  obtain c a where body: "attempt_task env n rec name d r ?c1 = Some (c, a)"
    using run by (auto simp: run_task_item_def bindM_def modM_def on_child_def emitM_def tryM_def c0_def split: option.splits)
  note close = bracket [OF env rec opened' _ body]
  show ?thesis
  proof (cases a)
    case (Inl f)
    let ?K = "failure_event env c f" and ?p = "es_execution_path c"
    have "s' = share (c\<lparr>es_trace := es_trace c @ [Event ?K r ?p]\<rparr>) (count_visit x s)"
      using run body Inl
      by (simp add: run_task_item_def bindM_def modM_def on_child_def emitM_def tryM_def c0_def task_failed_run)
    then show ?thesis
      using close [OF failure_event_ends [OF env], of c f ?p] c0 by (simp add: shared_simps) (simp add: shared_of_def)
  next
    case (Inr out)
    define s2 where "s2 = (leave_task name c out (share c (count_visit x s)))"
    have s2: "shared_of s2 = shared_of c" by (simp add: s2_def shared_simps)
    define s3 where "s3 = s2\<lparr>es_trace := es_trace s2 @ [Event ''TaskCompleted'' r (es_execution_path c)]\<rparr>"
    have "s' = (if \<not> es_transition_selected s3 \<and> \<not> es_stop s3 then apply_transition (get_field d ''then'') s3 else s3)"
      using run body Inr
      by (simp add: run_task_item_def bindM_def modM_def on_child_def emitM_def tryM_def c0_def s3_def s2_def)
        (auto split: if_splits)
    then have "Q (shared_of s3) (shared_of s')" by (simp add: Q_refl Q_apply_transition)
    moreover have "Q (shared_of c0) (shared_of s3)"
      using close [of "''TaskCompleted''" "es_execution_path c"] ends_all s2 by (simp add: s3_def shared_of_def)
    ultimately show ?thesis using c0 Q_trans by metis
  qed
qed

lemma keeps_next: "keeps Q (next_index tasks name i)"
  unfolding next_index_def
  by (auto intro!: keeps_basic keeps_mod_same simp: shared_simps split: option.splits)

lemma keeps_step:
  assumes env: "env_respects Q open_at ends env" and rec: "\<And>ts p i. keeps Q (rec ts p i)"
  shows "keeps Q (sequence_step env n rec tasks pre ix i)"
  unfolding keeps_def
proof (intro allI impI)
  fix s s' res
  assume run: "sequence_step env n rec tasks pre ix i s = Some (s', res)"
  show "Q (shared_of s) (shared_of s')"
  proof (cases "fl_ended (es_flow s) \<or> env_checkpoint env s \<noteq> None \<or>
      (case single_item (tasks ! i) of None \<Rightarrow> True | Some (_, d) \<Rightarrow> \<not> is_mapping d)")
    case True
    then have "shared_of s' = shared_of s"
      using run
      by (auto simp: sequence_step_def bindM_def getM_def modM_def retM_def failM_def checkpointM_def shared_simps
          split: option.splits prod.splits if_splits)
    then show ?thesis by (simp add: Q_refl)
  next
    case False
    then obtain name d where item: "single_item (tasks ! i) = Some (name, d)" "is_mapping d"
      by (auto split: option.splits)
    have opened: "open_at (shared_of s)" using False env by (auto simp: env_respects_def)
    obtain r x where "bindM (run_task_item env n rec name d r x) (\<lambda>_. next_index tasks name i) s = Some (s', res)"
      using False item run by (auto simp: sequence_step_def bindM_def getM_def checkpointM_def Let_def)
    then obtain s1 a where item_run: "run_task_item env n rec name d r x s = Some (s1, a)"
      and rest: "s' = s1 \<or> (\<exists>b. next_index tasks name i s1 = Some (s', b))"
      by (auto simp: bindM_def split: option.splits sum.splits)
    have "Q (shared_of s) (shared_of s1)" by (rule keeps_item [OF env rec opened item_run])
    then show ?thesis using rest keepsD [OF keeps_next] Q_trans by blast
  qed
qed

lemma keeps_loop:
  assumes "env_respects Q open_at ends env" "\<And>ts p i. keeps Q (rec ts p i)"
  shows "keeps Q (task_loop env n rec tasks pre ix i k)"
proof (induction k arbitrary: i)
  case (Suc k)
  show ?case
    unfolding task_loop.simps
    by (intro keeps_basic keeps_step assms) (auto intro: keeps_ret Suc split: option.splits)
qed (simp add: keeps_none)

lemma keeps_run_tasks:
  assumes "env_respects Q open_at ends env"
  shows "keeps Q (run_tasks env n tasks pre ix)"
proof (induction n arbitrary: tasks pre ix)
  case (Suc n)
  then show ?case by (simp add: keeps_loop assms)
qed (simp add: keeps_none)

lemma keeps_prepare: "keeps Q (prepare_workflow env w i)"
  unfolding prepare_workflow_def
  by (intro keeps_basic keeps_validate keeps_transform keeps_mod_same)
    (auto simp: shared_simps intro: keeps_ret keeps_fail split: option.splits)

lemma keeps_workflow: "env_respects Q open_at ends env \<Longrightarrow> keeps Q (run_workflow env n w)"
  unfolding run_workflow_def
  by (intro keeps_basic keeps_timed keeps_run_tasks) (auto intro!: keeps_basic split: option.splits)

lemma keeps_output: "keeps Q (workflow_output env w)"
  unfolding workflow_output_def Let_def by (intro keeps_basic keeps_validate)

lemma keeps_status: "keeps Q (statusM env st)"
  by (auto simp: keeps_def statusM_def Q_refl split: option.splits)

lemma keeps_body: "env_respects Q open_at ends env \<Longrightarrow> keeps Q (workflow_body env n w i)"
  unfolding workflow_body_def
  by (intro keeps_basic keeps_prepare keeps_workflow keeps_output keeps_status)

end

section \<open>The log only grows and the first end wins\<close>

definition first_end :: "shared \<Rightarrow> shared \<Rightarrow> bool" where
  "first_end x y \<longleftrightarrow> prefix (snd x) (snd y) \<and> (fl_ended (fst x) \<longrightarrow> fst y = fst x)"

definition all_ends :: "string set" where
  "all_ends = {''TaskCompleted'', ''TaskFaulted'', ''TaskCancelled'', ''TaskWaiting'', ''TaskProgress''}"

interpretation fe: shared_log first_end "\<lambda>_. True" all_ends
  by unfold_locales (auto simp: first_end_def all_ends_def prefix_def)

section \<open>Well-nested events\<close>

definition task_ends :: "string set" where
  "task_ends = {''TaskCompleted'', ''TaskFaulted'', ''TaskCancelled'', ''TaskWaiting''}"

text \<open>
  Nested events: notes (progress, retries, and what a waiting task reports) and tasks, each from its
  start to the terminal event that names it, with nested events between them.
\<close>

definition task_notes :: "string set" where
  "task_notes = {''TaskProgress'', ''TaskRetried'', ''TaskWaiting'', ''WorkflowWaiting'', ''WorkflowResumed''}"

inductive nested :: "event list \<Rightarrow> bool" where
  nested_empty: "nested []"
| nested_note: "K \<in> task_notes \<Longrightarrow> nested es \<Longrightarrow> nested (Event K r p # es)"
| nested_task: "K \<in> task_ends \<Longrightarrow> nested es \<Longrightarrow> nested fs \<Longrightarrow>
    nested (Event ''TaskStarted'' r p # es @ Event K r p' # fs)"

lemma nested_append: "nested es \<Longrightarrow> nested fs \<Longrightarrow> nested (es @ fs)"
proof (induction rule: nested.induct)
  case (nested_task K es gs r p p')
  then show ?case using nested.nested_task [of K es "gs @ fs" r p p'] by simp
qed (auto intro: nested.intros)

definition well_nested :: "shared \<Rightarrow> shared \<Rightarrow> bool" where
  "well_nested x y \<longleftrightarrow> (\<exists>es. snd y = snd x @ es \<and> nested es)"

interpretation wn: shared_log well_nested "\<lambda>_. True" task_ends
proof
  show "well_nested x z" if "well_nested x y" "well_nested y z" for x y z
    using that by (auto simp: well_nested_def intro: nested_append)
  show "well_nested (f, t) (f', t' @ [Event K r p'])"
    if inner: "well_nested (f, t @ [Event ''TaskStarted'' r p]) (f', t')" and K: "K \<in> task_ends" for f t r p f' t' K p'
  proof -
    obtain es where es: "t' = t @ Event ''TaskStarted'' r p # es" "nested es"
      using inner by (auto simp: well_nested_def)
    have "nested (Event ''TaskStarted'' r p # es @ [Event K r p'])"
      using nested_task [OF K es(2) nested_empty] by simp
    then show ?thesis using es(1) by (simp add: well_nested_def)
  qed
qed (auto simp: well_nested_def task_ends_def task_notes_def intro: nested.intros)

section \<open>Nothing starts after cancellation\<close>

fun is_start :: "event \<Rightarrow> bool" where
  "is_start (Event K r p) = (K = ''TaskStarted'')"

definition stopped_at :: "(event list \<Rightarrow> bool) \<Rightarrow> event list \<Rightarrow> bool" where
  "stopped_at P t \<longleftrightarrow> (\<exists>i\<in>{..length t}. P (take i t))"

text \<open>After the first point of the log at which \<open>P\<close> holds, no task starts.\<close>

definition quiet_after :: "(event list \<Rightarrow> bool) \<Rightarrow> event list \<Rightarrow> bool" where
  "quiet_after P t \<longleftrightarrow> (\<forall>i\<in>{..length t}. P (take i t) \<longrightarrow> \<not> list_ex is_start (drop i t))"

lemma quiet_after_snoc:
  "quiet_after P (t @ [e]) \<longleftrightarrow> quiet_after P t \<and> (is_start e \<longrightarrow> \<not> stopped_at P t)"
  by (auto simp: quiet_after_def stopped_at_def le_Suc_eq)
    (metis append_Nil2 atMost_iff diff_is_0_eq drop_0 le_SucI list_ex_iff list.set_intros(1) take_0)

definition stays_quiet :: "(event list \<Rightarrow> bool) \<Rightarrow> shared \<Rightarrow> shared \<Rightarrow> bool" where
  "stays_quiet P x y \<longleftrightarrow> (quiet_after P (snd x) \<longrightarrow> quiet_after P (snd y))"

interpretation sq: shared_log "stays_quiet P" "\<lambda>x. \<not> stopped_at P (snd x)" all_ends for P
  by unfold_locales (auto simp: stays_quiet_def quiet_after_snoc all_ends_def)

end
