(* ===== verification/Executor_Theorems.thy ===== *)
theory Executor_Theorems
  imports Executor_Laws
begin

text \<open>
  The properties of the executor as a whole: how its events bracket, who decides the end, what a
  failing task leaves behind, which failures no retry or catch may swallow, and that fuel only
  decides whether a result is there, never which one.
\<close>

section \<open>A plain environment\<close>

text \<open>
  Expressions are literal values, schemas accept everything, nothing is cancelled and every task that
  leaves the process returns its argument.
\<close>

definition plain_env :: exec_env where
  "plain_env = \<lparr>env_evaluate = (\<lambda>e data vars. Inr e), env_schema_error = (\<lambda>d v. None), env_functions = [],
     env_source_references = [], env_checkpoint = (\<lambda>s. None), env_now = (\<lambda>s. PNone), env_str = (\<lambda>v. []),
     env_float_of_str = (\<lambda>s. None), env_deadline_remaining = (\<lambda>s t. Inr 1), env_expired = (\<lambda>s t. False),
     env_attempt_timeout = (\<lambda>p k s. Inr None), env_scheduled = (\<lambda>s. False), env_retry_ready = (\<lambda>p k s. Inr True),
     env_workflow_remaining = (\<lambda>s t. Inr 1), env_interrupted = (\<lambda>s. False), env_catalog_tasks = [],
     env_admit = (\<lambda>s. None), env_set_status = (\<lambda>st s. None), env_handle_waiting = (\<lambda>s. False),
     env_leaf = (\<lambda>kind v s. (s, Inr v))\<rparr>"

definition plan_of :: "pyval list \<Rightarrow> wf_plan" where
  "plan_of tasks = (let w = PDict [(''do'', PList tasks)] in
     \<lparr>pl_source = w, pl_execution_source = w, pl_invocation_id = ''i'', pl_engine = PNone, pl_version = ''0''\<rparr>)"

definition events_of :: "exec_state \<Rightarrow> (string \<times> string) list" where
  "events_of s = map (\<lambda>e. case e of Event K r p \<Rightarrow> (K, r)) (es_trace s)"

section \<open>Evaluating concrete runs\<close>

text \<open>Actions are evaluated at a state only: what follows an action is left alone until its result is known.\<close>

named_theorems exec_eval \<open>equations that run the executor on a concrete state\<close>

fun chain :: "(exec_state \<times> (fault + 'a)) option \<Rightarrow> ('a \<Rightarrow> 'b exec) \<Rightarrow> (exec_state \<times> (fault + 'b)) option" where
  "chain None k = None"
| "chain (Some (s, Inl f)) k = Some (s, Inl f)"
| "chain (Some (s, Inr a)) k = k a s"

fun rescue :: "(exec_state \<times> (fault + 'a)) option \<Rightarrow> (fault \<Rightarrow> 'a exec) \<Rightarrow> (exec_state \<times> (fault + 'a)) option" where
  "rescue None h = None"
| "rescue (Some (s, Inl f)) h = h f s"
| "rescue (Some (s, Inr a)) h = Some (s, Inr a)"

lemma exec_stop:
  "bindM m k = bindM m k" "tryM m h = tryM m h" "on_child g m = on_child g m"
  by (rule refl)+

lemma chain_cong: "r = r' \<Longrightarrow> chain r k = chain r' k" and rescue_cong: "q = q' \<Longrightarrow> rescue q h = rescue q' h"
  by simp_all

lemma exec_apply [exec_eval]:
  "bindM m k s = chain (m s) k"
  "tryM m h s = rescue (m s) h"
  "retM a s = Some (s, Inr a)" "failM f s = Some (s, Inl f)" "getM s = Some (s, Inr s)" "modM g s = Some (g s, Inr ())"
  "liftM res s = Some (s, res)" "dataM s = Some (s, Inr (es_data s))" "evalM env e dt s = Some (s, env_evaluate env e dt (es_variables s))"
  "emitM K r s = Some (s\<lparr>es_trace := es_trace s @ [Event K r (es_execution_path s)]\<rparr>, Inr ())"
  "leafM env kind v s = Some (env_leaf env kind v s)"
  "checkpointM env s = (case env_checkpoint env s of None \<Rightarrow> Some (s, Inr ()) | Some f \<Rightarrow> Some (s, Inl f))"
  "statusM env st s = (case env_set_status env st s of None \<Rightarrow> Some (s, Inr ()) | Some f \<Rightarrow> Some (s, Inl f))"
  by (simp_all add: bindM_def tryM_def retM_def failM_def getM_def modM_def liftM_def dataM_def evalM_def emitM_def
      leafM_def checkpointM_def statusM_def split: option.split sum.split)

lemma on_child_apply [exec_eval]:
  "on_child g m s = (case m (g (copy_state s)) of None \<Rightarrow> None | Some (c, Inl f) \<Rightarrow> Some (share c s, Inl f)
     | Some (c, Inr a) \<Rightarrow> Some (share c s, Inr (c, a)))"
  by (simp add: on_child_def)

lemma run_tasks_apply [exec_eval]:
  "run_tasks env (numeral n) tasks pre ix s =
     task_loop env (pred_numeral n) (run_tasks env (pred_numeral n)) tasks pre ix 0 (pred_numeral n) s"
  by (simp add: numeral_eq_Suc)

lemma task_loop_apply [exec_eval]:
  "task_loop env fuel rec tasks pre ix i (numeral k) s =
     (if length tasks \<le> i then Some (s, Inr ())
      else chain (sequence_step env fuel rec tasks pre ix i s) (\<lambda>next.
        case next of None \<Rightarrow> retM () | Some j \<Rightarrow> task_loop env fuel rec tasks pre ix j (pred_numeral k)))"
  by (simp add: numeral_eq_Suc exec_apply)

lemma try_loop_apply [exec_eval]:
  "try_loop env rec d c pol r path k (numeral n) s =
     chain (rescue (chain (retry_attempt env rec d pol k (s\<lparr>es_execution_path := path @ [(r @ ''/@catch-attempt'', k + 1)]\<rparr>))
              (\<lambda>_. bindM dataM (\<lambda>v. retM (Some v)))) (handle_failure env rec c pol r k))
       (\<lambda>outcome. case outcome of Some v \<Rightarrow> retM v
          | None \<Rightarrow> try_loop env rec d c pol r path (k + 1) (pred_numeral n))"
  unfolding numeral_eq_Suc try_loop.simps exec_apply chain.simps ..

lemma plain_env_select [exec_eval]:
  "env_evaluate plain_env e dt vs = Inr e" "env_schema_error plain_env d v = None" "env_functions plain_env = []"
  "env_source_references plain_env = []" "env_checkpoint plain_env s = None" "env_now plain_env s = PNone"
  "env_interrupted plain_env s = False" "env_catalog_tasks plain_env = []" "env_admit plain_env s = None"
  "env_set_status plain_env st s = None" "env_handle_waiting plain_env s = False"
  "env_leaf plain_env kind v s = (s, Inr v)" "env_retry_ready plain_env p k s = Inr True"
  "env_attempt_timeout plain_env p k s = Inr None"
  by (simp_all add: plain_env_def)

lemmas exec_defs [exec_eval] =
  execute_def workflow_body_def prepare_workflow_def run_workflow_def workflow_output_def workflow_failed_def initial_state_def
  sequence_step_def next_index_def run_task_item_def attempt_task_def run_with_policy_def run_task_def run_kind_def
  apply_task_data_def validate_data_schema_def transformM_def liftE_def condM_def task_failed_def
  count_visit_def enter_task_def leave_task_def share_def copy_state_def set_context_def set_var_def del_var_def
  prepare_attempt_def keep_vars_def task_value_def single_item_def run_timed_def produced_def retry_attempts_def
  validate_expression_data.simps duration_seconds.simps definition_at_pointer_def pointer_step_def or_val_def get_field_def has_field_def pointer_name_def MAX_SAFE_INTEGER_def guardE_def truthy.simps
  policy_loop.simps py_iter_def apply_transition_def nested_prefix_def str_of_def plan_of_def

lemmas exec_run = exec_eval owa_eval dec.simps Let_def

section \<open>Events\<close>

definition final_event :: "fault + pyval \<Rightarrow> string" where
  "final_event r = (case r of
     Inr _ \<Rightarrow> ''WorkflowCompleted''
   | Inl f \<Rightarrow> if f_exn f = InvocationCancelled then ''WorkflowCancelled''
              else if f_exn f = NativeMemoryRecoveryRequired then ''WorkflowWaiting'' else ''WorkflowFaulted'')"

lemma execute_run:
  assumes "execute env n plan i = Some (s', r)"
  obtains s1 r1 where
    "workflow_body env n (pl_execution_source plan) i
       ((initial_state env plan i)\<lparr>es_trace := [Event ''WorkflowStarted'' [] []]\<rparr>) = Some (s1, r1)"
    "bindM (case r1 of Inl f \<Rightarrow> workflow_failed env f | Inr v \<Rightarrow> retM v)
       (\<lambda>v. bindM (emitM ''WorkflowCompleted'' []) (\<lambda>_. retM v)) s1 = Some (s', r)"
  using assms
  by (auto simp: execute_def bindM_def emitM_def modM_def tryM_def initial_state_def Let_def retM_def
      split: option.splits sum.splits)

lemma finish_event:
  assumes "\<forall>st s. env_set_status env st s = None" "\<forall>s. \<not> env_interrupted env s"
    and "bindM (case r1 of Inl f \<Rightarrow> workflow_failed env f | Inr v \<Rightarrow> retM v)
       (\<lambda>v. bindM (emitM ''WorkflowCompleted'' []) (\<lambda>_. retM v)) s1 = Some (s', r)"
  shows "es_trace s' = es_trace s1 @ [Event (final_event r) [] (es_execution_path s1)]"
  using assms
  by (auto simp: workflow_failed_def bindM_def getM_def emitM_def modM_def retM_def failM_def statusM_def final_event_def
      split: sum.splits if_splits)




definition ended_state :: exec_state where
  "ended_state = apply_transition (PStr ''end'') (initial_state plain_env (plan_of []) (PInt 7))"


text \<open>
  \<^bold>\<open>C17.\<close> Cancellation is honoured at every level of nesting. If the cancellation token, once it is set at
  some point of the execution (the condition \<open>P\<close> on the events so far), fails every later checkpoint, then
  from that point on no task starts, in any scope, attempt or catch block.
\<close>

theorem no_start_after_cancellation:
  assumes "execute env n plan i = Some (s', r)"
    and "\<forall>s. stopped_at P (es_trace s) \<longrightarrow> env_checkpoint env s \<noteq> None"
    and "\<forall>kind v s. quiet_after P (es_trace s) \<longrightarrow> quiet_after P (es_trace (fst (env_leaf env kind v s)))"
  shows "quiet_after P (es_trace s')"
proof -
  have env: "env_respects (stays_quiet P) (\<lambda>x. \<not> stopped_at P (snd x)) all_ends env"
    using assms(2,3) by (auto simp: env_respects_def stays_quiet_def shared_of_def all_ends_def)
  obtain s1 r1 where body: "workflow_body env n (pl_execution_source plan) i
       ((initial_state env plan i)\<lparr>es_trace := [Event ''WorkflowStarted'' [] []]\<rparr>) = Some (s1, r1)"
    and rest: "bindM (case r1 of Inl f \<Rightarrow> workflow_failed env f | Inr v \<Rightarrow> retM v)
       (\<lambda>v. bindM (emitM ''WorkflowCompleted'' []) (\<lambda>_. retM v)) s1 = Some (s', r)"
    using assms(1) by (rule execute_run)
  have "quiet_after P [Event ''WorkflowStarted'' [] []]"
    using quiet_after_snoc [of P "[]"] by (simp add: quiet_after_def)
  then have "quiet_after P (es_trace s1)"
    using keepsD [OF sq.keeps_body [OF env] body] by (auto simp: stays_quiet_def shared_of_def)
  then show ?thesis
    using rest
    by (auto simp: workflow_failed_def bindM_def getM_def emitM_def modM_def retM_def failM_def statusM_def quiet_after_snoc
        split: sum.splits if_splits option.splits)
qed

text \<open>The token is cancelled once five events were reported: the second task starts, its attempt does not.\<close>

definition cancelling_env :: exec_env where
  "cancelling_env = plain_env\<lparr>env_checkpoint :=
     (\<lambda>s. if 5 \<le> length (es_trace s) then Some (mk_fault InvocationCancelled [] []) else None)\<rparr>"

theorem no_start_after_cancellation_witness:
  "\<exists>s' f. execute cancelling_env 5
       (plan_of [PDict [(''a'', PDict [(''set'', PInt 1)])], PDict [(''b'', PDict [(''set'', PInt 2)])],
                 PDict [(''c'', PDict [(''set'', PInt 3)])]]) PNone = Some (s', Inl f) \<and>
     f_exn f = InvocationCancelled \<and> 5 < length (es_trace s') \<and> quiet_after (\<lambda>t. 5 \<le> length t) (es_trace s')"
proof -
  let ?run = "execute cancelling_env 5
       (plan_of [PDict [(''a'', PDict [(''set'', PInt 1)])], PDict [(''b'', PDict [(''set'', PInt 2)])],
                 PDict [(''c'', PDict [(''set'', PInt 3)])]]) PNone"
  have "\<exists>s' f. ?run = Some (s', Inl f) \<and> f_exn f = InvocationCancelled \<and> 5 < length (es_trace s')"
    by (simp add: exec_run cancelling_env_def mk_fault_def failure_event_def failure_raised_def uncatchable_def
        cong: exec_stop chain_cong rescue_cong del: run_tasks.simps task_loop.simps One_nat_def)
  then obtain s' f where run: "?run = Some (s', Inl f)" and f: "f_exn f = InvocationCancelled" "5 < length (es_trace s')"
    by blast
  have "quiet_after (\<lambda>t. 5 \<le> length t) (es_trace s')"
    by (rule no_start_after_cancellation [OF run]) (auto simp: cancelling_env_def plain_env_def stopped_at_def)
  then show ?thesis using run f by blast
qed

section \<open>Failing tasks\<close>



section \<open>A lost transition\<close>

definition outer_task :: "(string \<times> pyval) list \<Rightarrow> pyval list" where
  "outer_task flow =
     [PDict [(''outer'', PDict [(''do'', PList [PDict [(''inner'', PDict ([(''set'', PInt 1)] @ flow))]]), (''then'', PStr ''end'')])],
      PDict [(''after'', PDict [(''set'', PInt 2)])]]"


end
