(* ===== verification/Executor_Failures.thy ===== *)
theory Executor_Failures
  imports Executor_Theorems
begin

text \<open>
  Failures no retry and no catch may handle (\<^verbatim>\<open>InvocationCancelled\<close>, \<^verbatim>\<open>InvocationStateConflict\<close> and the recovery
  failures). A task that leaves the process marks the event log when it raises one; every action of
  the executor that lets a mark appear fails with such a failure itself, so it reaches the caller
  from any depth. Fuel: a run that returns, returns the same with more fuel.
\<close>

section \<open>Marks\<close>

fun is_mark :: "event \<Rightarrow> bool" where
  "is_mark (Event K r p) = (K = ''Unrecoverable'')"

definition marked :: "exec_state \<Rightarrow> bool" where
  "marked s \<longleftrightarrow> list_ex is_mark (es_trace s)"

definition strict :: "'a exec \<Rightarrow> bool" where
  "strict m \<longleftrightarrow> (\<forall>s s' r. m s = Some (s', r) \<longrightarrow> \<not> marked s \<longrightarrow> marked s' \<longrightarrow> (\<exists>f. r = Inl f \<and> uncatchable (f_exn f)))"

text \<open>A handler that passes on what it must not handle.\<close>

definition passes :: "(fault \<Rightarrow> 'a exec) \<Rightarrow> bool" where
  "passes h \<longleftrightarrow> (\<forall>f s s' r. uncatchable (f_exn f) \<longrightarrow> h f s = Some (s', r) \<longrightarrow> (\<exists>f'. r = Inl f' \<and> uncatchable (f_exn f')))"

lemma strictI: "(\<And>s s' r. m s = Some (s', r) \<Longrightarrow> marked s' = marked s) \<Longrightarrow> strict m"
  by (auto simp: strict_def)

lemma marked_unchanged [simp]:
  "marked (set_var k v s) = marked s" "marked (del_var k s) = marked s" "marked (set_context cv s) = marked s"
  "marked (copy_state s) = marked s" "marked (share c s) = marked c" "marked (apply_transition t s) = marked s"
  "marked (s\<lparr>es_data := d\<rparr>) = marked s" "marked (s\<lparr>es_stop := b\<rparr>) = marked s" "marked (s\<lparr>es_scope_exit := b\<rparr>) = marked s"
  "marked (s\<lparr>es_jump_to := j\<rparr>) = marked s" "marked (s\<lparr>es_task_visits := vs\<rparr>) = marked s"
  "marked (s\<lparr>es_execution_path := p\<rparr>) = marked s" "marked (s\<lparr>es_outputs := outs\<rparr>) = marked s"
  by (auto simp: marked_def set_var_def del_var_def set_context_def copy_state_def share_def apply_transition_def Let_def
      split: pyval.splits)

lemma marked_snoc [simp]: "marked (s\<lparr>es_trace := es_trace s @ [e]\<rparr>) \<longleftrightarrow> marked s \<or> is_mark e"
  by (auto simp: marked_def)

lemma marked_shared: "shared_of s = shared_of t \<Longrightarrow> marked s = marked t"
  by (simp add: marked_def shared_of_def)

lemma marked_shared_simps [simp]:
  "marked (enter_task env name d r x s) = marked s" "marked (leave_task name c v s) = marked s"
  "marked (count_visit r s) = marked s" "marked (prepare_attempt path r raw k s) = marked s"
  "marked (keep_vars ks c s) = marked s"
  by (rule marked_shared, simp add: shared_simps)+

lemma strict_basic:
  "strict (retM a)" "strict (failM f)" "strict getM" "strict (liftM res)" "strict dataM" "strict (evalM env e d)"
  "strict (checkpointM env)" "strict (statusM env st)" "strict (\<lambda>s. None)"
  by (auto simp: strict_def exec_apply split: option.splits)

lemma strict_liftE: "strict (liftE res)"
  by (simp add: liftE_def strict_basic)

lemma strict_mod: "(\<And>s. marked (g s) = marked s) \<Longrightarrow> strict (modM g)"
  by (auto simp: strict_def exec_apply)

lemma strict_emit: "K \<noteq> ''Unrecoverable'' \<Longrightarrow> strict (emitM K r)"
  by (auto simp: strict_def exec_apply marked_def)

lemma strict_bind:
  assumes "strict m" "\<And>a. strict (k a)"
  shows "strict (bindM m k)"
  unfolding strict_def
proof (intro allI impI)
  fix s s' r
  assume run: "bindM m k s = Some (s', r)" and marks: "\<not> marked s" "marked s'"
  then obtain s1 r1 where m: "m s = Some (s1, r1)" by (auto simp: bindM_def split: option.splits)
  show "\<exists>f. r = Inl f \<and> uncatchable (f_exn f)"
  proof (cases r1)
    case (Inl f)
    then show ?thesis using run m marks assms(1) by (fastforce simp: bindM_def strict_def)
  next
    case (Inr a)
    then have "\<not> marked s1" using assms(1) m marks by (fastforce simp: strict_def)
    then show ?thesis using run m marks Inr assms(2) by (fastforce simp: bindM_def strict_def)
  qed
qed

lemma strict_try:
  assumes "strict m" "\<And>f. strict (h f)" "passes h"
  shows "strict (tryM m h)"
  unfolding strict_def
proof (intro allI impI)
  fix s s' r
  assume run: "tryM m h s = Some (s', r)" and marks: "\<not> marked s" "marked s'"
  then obtain s1 r1 where m: "m s = Some (s1, r1)" by (auto simp: tryM_def split: option.splits)
  show "\<exists>f. r = Inl f \<and> uncatchable (f_exn f)"
  proof (cases r1)
    case (Inl f)
    then have h: "h f s1 = Some (s', r)" using run m by (simp add: tryM_def)
    show ?thesis
    proof (cases "marked s1")
      case True
      then have "uncatchable (f_exn f)" using assms(1) m marks Inl by (fastforce simp: strict_def)
      then show ?thesis using assms(3) h unfolding passes_def by blast
    next
      case False
      then show ?thesis using assms(2) h marks by (fastforce simp: strict_def)
    qed
  next
    case (Inr a)
    then show ?thesis using run m marks assms(1) by (fastforce simp: tryM_def strict_def)
  qed
qed

lemma strict_if: "(b \<Longrightarrow> strict m) \<Longrightarrow> (\<not> b \<Longrightarrow> strict m') \<Longrightarrow> strict (if b then m else m')"
  by simp

lemma strict_on_child:
  assumes "\<And>s. marked (prepare s) = marked s" "strict m"
  shows "strict (on_child prepare m)"
  unfolding strict_def
proof (intro allI impI)
  fix s s' r
  assume run: "on_child prepare m s = Some (s', r)" and marks: "\<not> marked s" "marked s'"
  then obtain c a where m: "m (prepare (copy_state s)) = Some (c, a)" and "marked c"
    by (auto simp: on_child_def split: option.splits sum.splits)
  then obtain f where "a = Inl f" "uncatchable (f_exn f)"
    using assms marks by (fastforce simp: strict_def)
  then show "\<exists>f. r = Inl f \<and> uncatchable (f_exn f)" using run m by (auto simp: on_child_def)
qed

lemmas strict_intros = strict_basic strict_liftE strict_bind strict_if

lemma passes_fail: "(\<And>f. uncatchable (f_exn f) \<Longrightarrow> h f = failM f) \<Longrightarrow> passes h"
  by (auto simp: passes_def exec_apply)

section \<open>The executor passes them on\<close>

lemma strict_steps:
  "strict (condM env e d)" "strict (validate_data_schema env spec v lab)" "strict (transformM env spec key i w)"
  "strict (modM (apply_transition t))" "strict (guarded env spec)" "strict (catch_matches env c err)"
  "strict (retry_allowed env spec)" "strict (next_index tasks name k)"
proof -
  show cond: "strict (condM env e d)" for e d unfolding condM_def by (intro strict_intros)
  show guard: "strict (guarded env spec)" for spec unfolding guarded_def by (intro strict_intros cond)
  show "strict (validate_data_schema env spec v lab)"
    unfolding validate_data_schema_def Let_def by (auto simp: strict_basic split: pyval.splits option.splits)
  show "strict (transformM env spec key i w)" unfolding transformM_def by (intro strict_intros)
  show "strict (modM (apply_transition t))" by (rule strict_mod) simp
  show "strict (catch_matches env c err)" "strict (retry_allowed env spec)"
    unfolding catch_matches_def retry_allowed_def Let_def by (intro strict_intros guard)+
  show "strict (next_index tasks name k)"
    unfolding next_index_def by (auto intro!: strict_intros strict_mod split: option.splits)
qed

lemma strict_timed: "strict m \<Longrightarrow> strict (run_timed env m t f)"
  unfolding run_timed_def by (cases t) (simp_all add: strict_intros)

lemma strict_policy_loop: "strict body \<Longrightarrow> strict (policy_loop env body path r raw rem tmo k left)"
proof (induction left arbitrary: k)
  case 0
  then show ?case
    by (subst policy_loop.simps)
      (intro strict_try strict_intros strict_timed strict_mod strict_emit passes_fail, auto intro: strict_intros)
next
  case (Suc n)
  show ?case
    by (subst policy_loop.simps)
      (intro strict_try strict_intros strict_timed strict_mod strict_emit passes_fail,
       auto intro!: strict_intros strict_emit Suc)
qed

lemma strict_policy: "strict body \<Longrightarrow> strict (run_with_policy env body name d r)"
  unfolding run_with_policy_def
  by (intro strict_intros strict_policy_loop) (auto intro!: strict_intros split: option.splits)

lemma strict_switch: "strict (run_switch env sw)"
proof -
  have "strict (switch_loop env es d)" for es d
    by (induction env es d rule: switch_loop.induct)
      (auto intro!: strict_intros strict_steps split: option.splits pyval.splits list.splits)
  then show ?thesis by (auto simp: run_switch_def intro: strict_basic split: pyval.splits)
qed

lemma strict_for_loop:
  "(\<And>ts p i. strict (rec ts p i)) \<Longrightarrow> strict (for_loop env rec d ti body var ix k vs rs)"
proof (induction env rec d ti body var ix k vs rs rule: for_loop.induct)
  case (2 env rec d ti body var ix k v vs rs)
  note rec = "2.prems"
  have body: "strict (on_child (\<lambda>c. set_var ix (PInt (int k)) (set_var var v c))
      (bindM (if has_field d ''while'' then condM env (get_field d ''while'') ti else retM True) (\<lambda>go.
         if go then bindM getM (\<lambda>c. bindM (rec body (nested_prefix env c ''do'') True) (\<lambda>_. retM True)) else retM False)))"
    by (intro strict_on_child strict_intros strict_steps rec) simp
  show ?case
    unfolding for_loop.simps
    by (rule strict_bind [OF body]) (auto intro!: strict_intros strict_mod "2.IH" rec)
qed (simp add: strict_basic)

lemma strict_handle: "(\<And>ts p i. strict (rec ts p i)) \<Longrightarrow> strict (handle_failure env rec c pol r k f)"
  unfolding handle_failure_def catch_block_def Let_def
  by (intro strict_intros strict_steps strict_emit strict_mod) (auto split: pyval.splits)

lemma passes_handle: "passes (handle_failure env rec c pol r k)"
  by (rule passes_fail) (simp add: handle_failure_def)

lemma strict_try_loop:
  "(\<And>ts p i. strict (rec ts p i)) \<Longrightarrow> strict (try_loop env rec d c pol r path k n)"
proof (induction env rec d c pol r path k n rule: try_loop.induct)
  case (2 env rec d c pol r path k n)
  show ?case
    unfolding try_loop.simps retry_attempt_def try_body_def
    by (intro strict_intros strict_try strict_timed strict_handle passes_handle "2.prems" strict_mod)
      (auto intro: strict_intros "2.IH" [simplified] "2.prems" split: option.splits)
qed (simp add: strict_basic)

lemma strict_kind:
  assumes leaf: "\<And>kind v. strict (leafM env kind v)" and rec: "\<And>ts p i. strict (rec ts p i)"
  shows "strict (run_kind env n rec name d ti)"
proof -
  have for_task: "strict (run_for env rec d)"
    unfolding run_for_def Let_def
    by (intro strict_intros) (auto intro!: strict_intros strict_for_loop rec split: pyval.splits)
  have try_task: "strict (run_try env n rec d)"
    unfolding run_try_def Let_def try_body_def by (intro strict_intros strict_try_loop rec)
  have raise_task: "strict (run_raise env v)" for v
    unfolding run_raise_def Let_def by (auto intro!: strict_intros split: pyval.splits option.splits)
  have call_task: "strict (run_call env rec c payload)" for c payload
    unfolding run_call_def call_function_def
    by (auto intro!: strict_intros strict_on_child strict_mod leaf rec split: pyval.splits option.splits)
  show ?thesis
    unfolding run_kind_def
    by (intro strict_intros leaf call_task strict_switch for_task try_task raise_task rec)
qed

lemma strict_item:
  assumes leaf: "\<And>kind v. strict (leafM env kind v)" and rec: "\<And>ts p i. strict (rec ts p i)"
  shows "strict (run_task_item env n rec name d r x)"
proof -
  have data: "strict (apply_task_data env d v)" for v
    unfolding apply_task_data_def
    by (intro strict_intros strict_steps strict_mod) (auto split: option.splits pyval.splits)
  have attempt: "strict (attempt_task env n rec name d r)"
    unfolding attempt_task_def run_task_def produced_def
    by (intro strict_intros strict_policy strict_steps strict_kind leaf rec strict_mod)
      (auto intro: strict_basic data split: task_result.splits)
  have failed: "strict (task_failed env name r x f)" for f
    by (rule strictI) (auto simp: task_failed_run marked_def failure_event_def)
  have passed: "passes (task_failed env name r x)"
    by (auto simp: passes_def task_failed_run failure_raised_def uncatchable_def)
  have child: "strict (on_child (enter_task env name d r x) (bindM (emitM ''TaskStarted'' r) (\<lambda>_.
      tryM (attempt_task env n rec name d r) (task_failed env name r x))))"
    by (intro strict_on_child strict_intros strict_try strict_emit attempt failed passed) simp_all
  show ?thesis
    unfolding run_task_item_def
    by (intro strict_bind [OF strict_mod] strict_bind [OF child]) (auto intro!: strict_intros strict_mod split: if_splits)
qed

lemma strict_run_tasks:
  assumes leaf: "\<And>kind v. strict (leafM env kind v)"
  shows "strict (run_tasks env n tasks pre ix)"
proof (induction n arbitrary: tasks pre ix)
  case (Suc n)
  have step: "strict (sequence_step env n (run_tasks env n) tasks pre ix k)" for k
    unfolding sequence_step_def Let_def
    by (intro strict_intros strict_mod)
      (auto intro!: strict_intros strict_steps strict_item leaf Suc split: option.splits)
  have "strict (task_loop env n (run_tasks env n) tasks pre ix k m)" for k m
    by (induction m arbitrary: k) (auto intro!: strict_intros step split: option.splits)
  then show ?case by simp
qed (simp add: strict_basic)

lemma strict_body:
  assumes leaf: "\<And>kind v. strict (leafM env kind v)"
  shows "strict (workflow_body env n w i)"
  unfolding workflow_body_def prepare_workflow_def run_workflow_def workflow_output_def Let_def
  by (intro strict_intros strict_steps strict_timed strict_run_tasks leaf strict_mod)
    (auto intro!: strict_intros split: option.splits)

text \<open>
  \<^bold>\<open>C4.\<close> No retry and no catch swallows an unrecoverable failure. If a task that leaves the process raises one
  (it marks the event log when it does), at any depth of nesting and inside any \<^verbatim>\<open>try\<close>, the execution as a
  whole fails.
\<close>

theorem unrecoverable_failure_ends_execution:
  assumes "execute env n plan i = Some (s', r)" "marked s'"
    and "\<forall>kind v s s' r. env_leaf env kind v s = (s', r) \<longrightarrow> \<not> marked s \<longrightarrow> marked s' \<longrightarrow>
           (\<exists>f. r = Inl f \<and> uncatchable (f_exn f))"
  shows "\<exists>f. r = Inl f"
proof -
  have leaf: "strict (leafM env kind v)" for kind v
    using assms(3) by (fastforce simp: strict_def leafM_def)
  obtain s1 r1 where body: "workflow_body env n (pl_execution_source plan) i
       ((initial_state env plan i)\<lparr>es_trace := [Event ''WorkflowStarted'' [] []]\<rparr>) = Some (s1, r1)"
    and rest: "bindM (case r1 of Inl f \<Rightarrow> workflow_failed env f | Inr v \<Rightarrow> retM v)
       (\<lambda>v. bindM (emitM ''WorkflowCompleted'' []) (\<lambda>_. retM v)) s1 = Some (s', r)"
    using assms(1) by (rule execute_run)
  show ?thesis
  proof (cases r1)
    case (Inl f)
    then show ?thesis
      using rest
      by (auto simp: workflow_failed_def bindM_def exec_apply split: if_splits option.splits)
  next
    case (Inr v)
    then have "\<not> marked s1"
      using strict_body [OF leaf] body by (fastforce simp: strict_def marked_def)
    then show ?thesis using rest Inr assms(2) by (auto simp: exec_apply)
  qed
qed

text \<open>A call that loses its lease inside a \<^verbatim>\<open>try\<close> that catches everything.\<close>

definition conflict_env :: exec_env where
  "conflict_env = plain_env\<lparr>env_leaf := (\<lambda>kind v s.
     (s\<lparr>es_trace := es_trace s @ [Event ''Unrecoverable'' kind []]\<rparr>, Inl (mk_fault InvocationStateConflict [] [])))\<rparr>"

definition conflict_plan :: wf_plan where
  "conflict_plan = plan_of [PDict [(''t'', PDict
     [(''try'', PList [PDict [(''c'', PDict [(''call'', PStr ''http'')])]]), (''catch'', PDict [(''as'', PStr ''e'')])])]]"

theorem unrecoverable_failure_ends_execution_witness:
  "\<exists>s' f. execute conflict_env 9 conflict_plan PNone = Some (s', Inl f) \<and> marked s'"
proof -
  have "\<exists>s' r. execute conflict_env 9 conflict_plan PNone = Some (s', r) \<and> marked s'"
    by (simp add: exec_run conflict_env_def conflict_plan_def mk_fault_def failure_event_def failure_raised_def uncatchable_def
        undec_def run_call_def run_try_def retry_from_value_def task_body_def retry_attempt_def try_body_def handle_failure_def marked_def set_default_def
        cong: exec_stop chain_cong rescue_cong del: run_tasks.simps task_loop.simps One_nat_def)
  then obtain s' r where run: "execute conflict_env 9 conflict_plan PNone = Some (s', r)" "marked s'" by blast
  moreover have "\<exists>f. r = Inl f"
    by (rule unrecoverable_failure_ends_execution [OF run]) (auto simp: conflict_env_def uncatchable_def mk_fault_def)
  ultimately show ?thesis by blast
qed

end
