(* ===== verification/Executor_Fuel.thy ===== *)
theory Executor_Fuel
  imports Executor_Theorems
begin

text \<open>
  Fuel decides whether a run has a result, never which one. One action extends another when it
  returns at least as often and the same; every construct of the executor is monotone in that order.
\<close>

section \<open>The order on actions\<close>

definition extends :: "'a exec \<Rightarrow> 'a exec \<Rightarrow> bool" where
  "extends m m' \<longleftrightarrow> (\<forall>s x. m s = Some x \<longrightarrow> m' s = Some x)"

definition extends_scope :: "scope_runner \<Rightarrow> scope_runner \<Rightarrow> bool" where
  "extends_scope rec rec' \<longleftrightarrow> (\<forall>ts p ix. extends (rec ts p ix) (rec' ts p ix))"

lemma ext_refl: "extends m m" and ext_none: "extends (\<lambda>s. None) m"
  by (simp_all add: extends_def)

lemma ext_rec: "extends_scope rec rec' \<Longrightarrow> extends (rec ts p ix) (rec' ts p ix)"
  by (simp add: extends_scope_def)

lemma ext_bind: "extends m m' \<Longrightarrow> (\<And>a. extends (k a) (k' a)) \<Longrightarrow> extends (bindM m k) (bindM m' k')"
  unfolding extends_def bindM_def by (fastforce split: option.splits sum.splits)

lemma ext_try: "extends m m' \<Longrightarrow> (\<And>f. extends (h f) (h' f)) \<Longrightarrow> extends (tryM m h) (tryM m' h')"
  unfolding extends_def tryM_def by (fastforce split: option.splits sum.splits)

lemma ext_if: "(b \<Longrightarrow> extends m m') \<Longrightarrow> (\<not> b \<Longrightarrow> extends q q') \<Longrightarrow> extends (if b then m else q) (if b then m' else q')"
  by simp

lemma ext_on_child: "extends m m' \<Longrightarrow> extends (on_child g m) (on_child g m')"
  unfolding extends_def on_child_def by (fastforce split: option.splits sum.splits)

lemma ext_timed: "extends m m' \<Longrightarrow> extends (run_timed env m t f) (run_timed env m' t f)"
  unfolding run_timed_def by (cases t) (simp_all add: ext_bind ext_refl ext_if)

lemma ext_option: "(x = None \<Longrightarrow> extends m m') \<Longrightarrow> (\<And>a. x = Some a \<Longrightarrow> extends (k a) (k' a)) \<Longrightarrow>
    extends (case x of None \<Rightarrow> m | Some a \<Rightarrow> k a) (case x of None \<Rightarrow> m' | Some a \<Rightarrow> k' a)"
  by (simp split: option.splits)

section \<open>The executor is monotone\<close>

lemma ext_policy_loop:
  "extends body body' \<Longrightarrow> extends (policy_loop env body path r raw rem tmo k left) (policy_loop env body' path r raw rem tmo k left)"
proof (induction left arbitrary: k)
  case 0
  then show ?case
    by (subst (1 2) policy_loop.simps) (auto intro!: ext_try ext_bind ext_timed ext_refl)
next
  case (Suc n)
  then show ?case
    by (subst (1 2) policy_loop.simps) (auto intro!: ext_try ext_bind ext_timed ext_refl)
qed

lemma ext_policy: "extends body body' \<Longrightarrow> extends (run_with_policy env body name d r) (run_with_policy env body' name d r)"
  unfolding run_with_policy_def by (intro ext_bind ext_refl ext_policy_loop)

lemma ext_for_loop:
  "extends_scope rec rec' \<Longrightarrow>
   extends (for_loop env rec d ti body var ix k vs rs) (for_loop env rec' d ti body var ix k vs rs)"
proof (induction vs arbitrary: k rs)
  case (Cons v vs)
  have "extends (on_child (\<lambda>c. set_var ix (PInt (int k)) (set_var var v c))
      (bindM (if has_field d ''while'' then condM env (get_field d ''while'') ti else retM True) (\<lambda>go.
         if go then bindM getM (\<lambda>c. bindM (rec body (nested_prefix env c ''do'') True) (\<lambda>_. retM True)) else retM False)))
     (on_child (\<lambda>c. set_var ix (PInt (int k)) (set_var var v c))
      (bindM (if has_field d ''while'' then condM env (get_field d ''while'') ti else retM True) (\<lambda>go.
         if go then bindM getM (\<lambda>c. bindM (rec' body (nested_prefix env c ''do'') True) (\<lambda>_. retM True)) else retM False)))"
    by (intro ext_on_child ext_bind ext_refl ext_if ext_rec [OF Cons.prems])
  then show ?case
    unfolding for_loop.simps by (rule ext_bind) (auto intro!: ext_bind ext_refl Cons)
qed (simp add: ext_refl)

lemma ext_handle:
  assumes rec: "extends_scope rec rec'"
  shows "extends (handle_failure env rec c pol r k f) (handle_failure env rec' c pol r k f)"
  unfolding handle_failure_def catch_block_def Let_def by (intro ext_if ext_bind ext_rec [OF rec] ext_refl)

lemma ext_try_loop:
  assumes rec: "extends_scope rec rec'" and fuel: "n \<le> n'"
  shows "extends (try_loop env rec d c pol r path k n) (try_loop env rec' d c pol r path k n')"
  using fuel
proof (induction n arbitrary: k n')
  case (Suc n)
  then obtain m where m: "n' = Suc m" "n \<le> m" by (cases n') auto
  show ?case
    unfolding m try_loop.simps retry_attempt_def try_body_def
    by (intro ext_bind ext_try ext_if ext_timed ext_refl ext_handle ext_rec [OF rec] rec ext_option Suc.IH m)
qed (simp add: ext_none)

lemma ext_kind:
  assumes rec: "extends_scope rec rec'" and fuel: "n \<le> n'"
  shows "extends (run_kind env n rec name d ti) (run_kind env n' rec' name d ti)"
proof -
  have for_task: "extends (run_for env rec d) (run_for env rec' d)"
    unfolding run_for_def Let_def
    by (intro ext_if ext_bind ext_refl) (auto intro!: ext_bind ext_refl ext_for_loop rec split: pyval.splits)
  have try_task: "extends (run_try env n rec d) (run_try env n' rec' d)"
    unfolding run_try_def Let_def try_body_def by (intro ext_if ext_bind ext_refl ext_rec [OF rec] rec ext_try_loop fuel)
  have call_task: "extends (run_call env rec c payload) (run_call env rec' c payload)" for c payload
    unfolding run_call_def call_function_def
    by (auto intro!: ext_bind ext_refl ext_on_child ext_rec [OF rec] split: pyval.splits option.splits)
  show ?thesis
    unfolding run_kind_def by (intro ext_if ext_bind ext_refl ext_rec [OF rec] for_task try_task call_task)
qed

lemma ext_item:
  assumes rec: "extends_scope rec rec'" and fuel: "n \<le> n'"
  shows "extends (run_task_item env n rec name d r x) (run_task_item env n' rec' name d r x)"
  unfolding run_task_item_def attempt_task_def run_task_def produced_def
  by (intro ext_bind ext_on_child ext_try ext_policy ext_if ext_kind rec fuel ext_refl)

lemma ext_step:
  assumes rec: "extends_scope rec rec'" and fuel: "n \<le> n'"
  shows "extends (sequence_step env n rec tasks pre ix k) (sequence_step env n' rec' tasks pre ix k)"
  unfolding sequence_step_def Let_def
  by (intro ext_bind ext_if ext_refl) (auto intro!: ext_bind ext_refl ext_item rec fuel split: option.splits)

lemma ext_loop:
  assumes rec: "extends_scope rec rec'" and fuel: "n \<le> n'" and le: "k \<le> k'"
  shows "extends (task_loop env n rec tasks pre ix i k) (task_loop env n' rec' tasks pre ix i k')"
  using le
proof (induction k arbitrary: i k')
  case (Suc k)
  then obtain m where m: "k' = Suc m" "k \<le> m" by (cases k') auto
  show ?case
    unfolding m task_loop.simps by (intro ext_bind ext_if ext_refl ext_step rec fuel ext_option Suc.IH m)
qed (simp add: ext_none)

lemma ext_run_tasks: "n \<le> n' \<Longrightarrow> extends_scope (run_tasks env n) (run_tasks env n')"
proof (induction n arbitrary: n')
  case (Suc n)
  then obtain m where m: "n' = Suc m" "n \<le> m" by (cases n') auto
  then have rec: "extends_scope (run_tasks env n) (run_tasks env m)" by (simp add: Suc)
  show ?case
    unfolding m(1) run_tasks.simps extends_scope_def by (intro allI ext_loop rec m(2))
qed (simp add: extends_scope_def ext_none)



end
