(* ===== verification/Effect_Journal.thy ===== *)
theory Effect_Journal
  imports Ownership Retry_Timing
begin

text \<open>
  The journal of workflow actions (\<^verbatim>\<open>effects.py\<close>, \<^verbatim>\<open>_effect_storage.py\<close>): action identities and their keys, receipts
  and their stored form, and the operations that admit an intent, record an internal decision and
  store an outcome. The two tables are maps from keys to rows; a stored JSON text is the value it
  reads back as, together with its size in octets. An operation returns the journal it commits and
  its result, since a check after the commit may still raise.

  The environment holds SHA-256, the text of a float, the checks other components contribute to a
  read (\<open>je_verify\<close>), the authorisation participants of the transactions (their own tables are not part
  of the journal) and the reservation tables of child workflows.
\<close>

section \<open>Identities\<close>

record effect_identity =
  ei_invocation_id :: string
  ei_fingerprint :: string
  ei_task_reference :: string
  ei_occurrence :: "(string \<times> int) list"
  ei_operation :: string

definition make_identity :: "effect_identity \<Rightarrow> effect_identity res" where
  "make_identity i =
     (if ei_invocation_id i = [] \<or> ei_fingerprint i = [] \<or> ei_task_reference i = [] \<or> ei_operation i = []
         \<or> ei_occurrence i = [] \<or> list_ex (\<lambda>(r, n). r = [] \<or> n < 1) (ei_occurrence i)
      then Inl ValueError else Inr i)"

text \<open>\<^verbatim>\<open>asdict\<close>, with the tuples as the lists JSON makes of them.\<close>

definition identity_value :: "effect_identity \<Rightarrow> pyval" where
  "identity_value i = PDict
     [(''invocation_id'', PStr (ei_invocation_id i)), (''workflow_fingerprint'', PStr (ei_fingerprint i)),
      (''task_reference'', PStr (ei_task_reference i)),
      (''occurrence'', PList (map (\<lambda>(r, n). PList [PStr r, PInt n]) (ei_occurrence i))),
      (''operation'', PStr (ei_operation i))]"

definition occurrence_item :: "pyval \<Rightarrow> (string \<times> int) res" where
  "occurrence_item v = (case v of PList [PStr r, PInt n] \<Rightarrow> Inr (r, n) | _ \<Rightarrow> Inl ValueError)"

definition str_field :: "pyval \<Rightarrow> string \<Rightarrow> string res" where
  "str_field v k = (case get_field v k of PStr s \<Rightarrow> Inr s | _ \<Rightarrow> Inl ValueError)"

definition identity_from_value :: "pyval \<Rightarrow> effect_identity res" where
  "identity_from_value raw =
     (if \<not> exact_keys raw [''invocation_id'', ''workflow_fingerprint'', ''task_reference'', ''occurrence'', ''operation'']
      then Inl ValueError
      else case get_field raw ''occurrence'' of
        PList path \<Rightarrow>
          bindE (mapE occurrence_item path) (\<lambda>occurrence.
          bindE (str_field raw ''invocation_id'') (\<lambda>iid.
          bindE (str_field raw ''workflow_fingerprint'') (\<lambda>fp.
          bindE (str_field raw ''task_reference'') (\<lambda>r.
          bindE (str_field raw ''operation'') (\<lambda>operation.
            make_identity \<lparr>ei_invocation_id = iid, ei_fingerprint = fp, ei_task_reference = r,
                           ei_occurrence = occurrence, ei_operation = operation\<rparr>)))))
      | _ \<Rightarrow> Inl ValueError)"

section \<open>Receipts\<close>

text \<open>\<^verbatim>\<open>re.fullmatch(r"[a-f0-9]{64}", s)\<close>\<close>

definition is_digest :: "string \<Rightarrow> bool" where
  "is_digest s \<longleftrightarrow> length s = 64 \<and> list_all (\<lambda>c. c \<in> set ''0123456789abcdef'') s"

record child_dependency =
  cd_invocation_id :: string
  cd_record_digest :: string
  cd_binding_digest :: "string option"
  cd_budget_digest :: "string option"

definition opt_ok :: "('a \<Rightarrow> bool) \<Rightarrow> 'a option \<Rightarrow> bool" where
  "opt_ok p x = (case x of None \<Rightarrow> True | Some a \<Rightarrow> p a)"

definition make_child :: "child_dependency \<Rightarrow> child_dependency res" where
  "make_child c =
     (if cd_invocation_id c = [] \<or> \<not> is_digest (cd_record_digest c)
         \<or> (cd_binding_digest c = None) \<noteq> (cd_budget_digest c = None)
         \<or> \<not> opt_ok is_digest (cd_binding_digest c) \<or> \<not> opt_ok is_digest (cd_budget_digest c)
      then Inl ValueError else Inr c)"

text \<open>Pre-marker dependencies keep their two-field form.\<close>

definition child_value :: "child_dependency \<Rightarrow> pyval" where
  "child_value c = PDict
     ([(''invocation_id'', PStr (cd_invocation_id c)), (''record_digest'', PStr (cd_record_digest c))] @
      (case (cd_binding_digest c, cd_budget_digest c) of
         (Some b, Some g) \<Rightarrow> [(''binding_digest'', PStr b), (''budget_digest'', PStr g)] | _ \<Rightarrow> []))"

definition child_from_value :: "pyval \<Rightarrow> child_dependency res" where
  "child_from_value v =
     bindE (str_field v ''invocation_id'') (\<lambda>iid.
     bindE (str_field v ''record_digest'') (\<lambda>digest.
       if exact_keys v [''invocation_id'', ''record_digest'']
       then make_child \<lparr>cd_invocation_id = iid, cd_record_digest = digest, cd_binding_digest = None, cd_budget_digest = None\<rparr>
       else if exact_keys v [''invocation_id'', ''record_digest'', ''binding_digest'', ''budget_digest'']
       then bindE (str_field v ''binding_digest'') (\<lambda>b.
            bindE (str_field v ''budget_digest'') (\<lambda>g.
              make_child \<lparr>cd_invocation_id = iid, cd_record_digest = digest, cd_binding_digest = Some b, cd_budget_digest = Some g\<rparr>))
       else Inl ValueError))"

record external_dependency =
  xd_admission_digest :: string
  xd_outcome_digest :: string

definition make_external :: "external_dependency \<Rightarrow> external_dependency res" where
  "make_external x = (if is_digest (xd_admission_digest x) \<and> is_digest (xd_outcome_digest x) then Inr x else Inl ValueError)"

definition external_value :: "external_dependency \<Rightarrow> pyval" where
  "external_value x = PDict [(''admission_digest'', PStr (xd_admission_digest x)), (''outcome_digest'', PStr (xd_outcome_digest x))]"

definition external_from_value :: "pyval \<Rightarrow> external_dependency res" where
  "external_from_value v =
     (if \<not> exact_keys v [''admission_digest'', ''outcome_digest''] then Inl ValueError
      else bindE (str_field v ''admission_digest'') (\<lambda>a.
           bindE (str_field v ''outcome_digest'') (\<lambda>b.
             make_external \<lparr>xd_admission_digest = a, xd_outcome_digest = b\<rparr>)))"

record effect_receipt =
  rc_request_digest :: string
  rc_owner :: string
  rc_status :: string
  rc_output :: pyval
  rc_error :: pyval
  rc_error_status_code :: "int option"
  rc_operation_id :: "string option"
  rc_child :: "child_dependency option"
  rc_external :: "external_dependency option"

definition common_error :: "pyval \<Rightarrow> bool" where
  "common_error e \<longleftrightarrow> is_mapping e \<and>
     (case get_field e ''code'' of PStr _ \<Rightarrow> True | _ \<Rightarrow> False) \<and>
     (case get_field e ''message'' of PStr _ \<Rightarrow> True | _ \<Rightarrow> False) \<and> is_mapping (get_field e ''details'')"

definition make_receipt :: "effect_receipt \<Rightarrow> effect_receipt res" where
  "make_receipt r =
     bindE (guardE (is_digest (rc_request_digest r)) ValueError) (\<lambda>_.
     bindE (guardE (rc_owner r \<noteq> []) ValueError) (\<lambda>_.
     bindE (guardE (rc_status r \<in> {''pending'', ''completed'', ''faulted''}) ValueError) (\<lambda>_.
     bindE (validate_expression_data 0 64 (rc_output r)) (\<lambda>_.
     bindE (validate_expression_data 0 64 (rc_error r)) (\<lambda>_.
     bindE (guardE ((rc_status r = ''faulted'') = (rc_error r \<noteq> PNone)) ValueError) (\<lambda>_.
     bindE (guardE (rc_status r = ''completed'' \<or> rc_output r = PNone) ValueError) (\<lambda>_.
     bindE (guardE (rc_error r = PNone \<or> common_error (rc_error r)) ValueError) (\<lambda>_.
     bindE (guardE (opt_ok (\<lambda>n. rc_error r \<noteq> PNone \<and> 100 \<le> n \<and> n \<le> 599) (rc_error_status_code r)) ValueError) (\<lambda>_.
     bindE (guardE (rc_child r = None \<or> rc_status r \<noteq> ''pending'') ValueError) (\<lambda>_.
     bindE (guardE (rc_external r = None \<or> rc_status r \<noteq> ''pending'' \<and> rc_child r = None) ValueError) (\<lambda>_.
       Inr r)))))))))))"

definition opt_value :: "('a \<Rightarrow> pyval) \<Rightarrow> 'a option \<Rightarrow> pyval" where
  "opt_value f x = (case x of None \<Rightarrow> PNone | Some a \<Rightarrow> f a)"

definition receipt_payload :: "effect_receipt \<Rightarrow> pyval" where
  "receipt_payload r = PDict
     ([(''request_digest'', PStr (rc_request_digest r)), (''owner'', PStr (rc_owner r)), (''status'', PStr (rc_status r)),
       (''output'', rc_output r), (''error'', rc_error r),
       (''error_status_code'', opt_value PInt (rc_error_status_code r)),
       (''operation_id'', opt_value PStr (rc_operation_id r))]
      @ (case rc_child r of None \<Rightarrow> [] | Some c \<Rightarrow> [(''child_invocation'', child_value c)])
      @ (case rc_external r of None \<Rightarrow> [] | Some x \<Rightarrow> [(''external_outcome'', external_value x)]))"

text \<open>An optional field of the saved payload.\<close>

definition opt_field :: "pyval \<Rightarrow> string \<Rightarrow> (pyval \<Rightarrow> 'a res) \<Rightarrow> 'a option res" where
  "opt_field v k f = (case get_field v k of PNone \<Rightarrow> Inr None | x \<Rightarrow> bindE (f x) (\<lambda>a. Inr (Some a)))"

definition receipt_from_payload :: "pyval \<Rightarrow> effect_receipt res" where
  "receipt_from_payload v =
     (case v of
        PDict d \<Rightarrow>
          bindE (guardE (set (dict_keys d) \<subseteq> set [''request_digest'', ''owner'', ''status'', ''output'', ''error'', ''error_status_code'',
              ''operation_id'', ''child_invocation'', ''external_outcome''] \<and> has_field v ''request_digest'' \<and> has_field v ''owner'') TypeError) (\<lambda>_.
          bindE (opt_field v ''external_outcome'' external_from_value) (\<lambda>external.
          bindE (opt_field v ''child_invocation'' child_from_value) (\<lambda>child.
          bindE (str_field v ''request_digest'') (\<lambda>digest.
          bindE (str_field v ''owner'') (\<lambda>owner.
          bindE (if has_field v ''status'' then str_field v ''status'' else Inr ''pending'') (\<lambda>status.
          bindE (opt_field v ''error_status_code'' (\<lambda>x. case x of PInt n \<Rightarrow> Inr n | _ \<Rightarrow> Inl ValueError)) (\<lambda>code.
          bindE (opt_field v ''operation_id'' (\<lambda>x. case x of PStr s \<Rightarrow> Inr s | _ \<Rightarrow> Inl ValueError)) (\<lambda>opid.
            make_receipt \<lparr>rc_request_digest = digest, rc_owner = owner, rc_status = status,
              rc_output = get_field v ''output'', rc_error = get_field v ''error'', rc_error_status_code = code,
              rc_operation_id = opid, rc_child = child, rc_external = external\<rparr>))))))))
      | _ \<Rightarrow> Inl AttributeError)"

section \<open>The journal\<close>

record effect_row =
  er_owner :: string
  er_status :: string
  er_payload :: pyval
  er_octets :: nat
  er_length :: nat

record index_row =
  ix_invocation_id :: string
  ix_fingerprint :: string
  ix_payload :: pyval
  ix_length :: nat

record journal =
  jr_effects :: "string \<rightharpoonup> effect_row"
  jr_index :: "string \<rightharpoonup> index_row"

record journal_env =
  je_sha256 :: "string \<Rightarrow> string"
  je_float_repr :: "rat \<Rightarrow> string"
  je_verify :: "effect_identity \<Rightarrow> effect_receipt \<Rightarrow> unit res"
  je_intent :: "effect_identity \<Rightarrow> effect_receipt \<Rightarrow> bool \<Rightarrow> unit res"
  je_seal :: "effect_identity \<Rightarrow> effect_receipt \<Rightarrow> unit res"
  je_capture :: "string \<Rightarrow> child_dependency res"
  je_binding :: "string \<rightharpoonup> string"

definition digest_of :: "journal_env \<Rightarrow> bool \<Rightarrow> pyval \<Rightarrow> string res" where
  "digest_of env ascii v =
     bindE (json_dumps ascii (je_float_repr env) (sort_keys v)) (\<lambda>text. Inr (je_sha256 env text))"

definition effect_key :: "journal_env \<Rightarrow> effect_identity \<Rightarrow> string" where
  "effect_key env i =
     (case digest_of env True (PList [PStr ''owa/workflow-effect/v1'', identity_value i]) of Inr k \<Rightarrow> k | Inl _ \<Rightarrow> [])"

definition effect_request_digest :: "journal_env \<Rightarrow> string \<Rightarrow> pyval \<Rightarrow> string res" where
  "effect_request_digest env operation payload =
     bindE (validate_expression_data 0 64 payload) (\<lambda>_. digest_of env False (PList [PStr operation, payload]))"

text \<open>
  The row of a receipt, with the octets and the characters of its text; the texts differ in the
  escapes the writers choose. An identity has no float in it.
\<close>

definition text_octets :: "journal_env \<Rightarrow> bool \<Rightarrow> pyval \<Rightarrow> nat" where
  "text_octets env ascii v = (case json_spaced ascii (je_float_repr env) v of Inr t \<Rightarrow> utf8_length t | Inl _ \<Rightarrow> 0)"

definition text_length :: "(rat \<Rightarrow> string) \<Rightarrow> bool \<Rightarrow> pyval \<Rightarrow> nat" where
  "text_length float_repr ascii v = (case json_spaced ascii float_repr v of Inr t \<Rightarrow> length t | Inl _ \<Rightarrow> 0)"

definition receipt_row :: "journal_env \<Rightarrow> bool \<Rightarrow> effect_receipt \<Rightarrow> effect_row" where
  "receipt_row env ascii r =
     \<lparr>er_owner = rc_owner r, er_status = rc_status r, er_payload = receipt_payload r,
      er_octets = text_octets env ascii (receipt_payload r),
      er_length = text_length (je_float_repr env) ascii (receipt_payload r)\<rparr>"

definition identity_row :: "effect_identity \<Rightarrow> index_row" where
  "identity_row i = \<lparr>ix_invocation_id = ei_invocation_id i, ix_fingerprint = ei_fingerprint i, ix_payload = identity_value i,
     ix_length = text_length (\<lambda>_. []) True (identity_value i)\<rparr>"

definition starts_with :: "string \<Rightarrow> string \<Rightarrow> bool" where
  "starts_with p s \<longleftrightarrow> take (length p) s = p"

text \<open>\<^verbatim>\<open>INSERT ... ON CONFLICT DO NOTHING\<close>\<close>

definition insert_new :: "'k \<Rightarrow> 'v \<Rightarrow> ('k \<rightharpoonup> 'v) \<Rightarrow> ('k \<rightharpoonup> 'v)" where
  "insert_new k v m = (case m k of None \<Rightarrow> m(k \<mapsto> v) | Some _ \<Rightarrow> m)"

section \<open>Reading\<close>

definition size_limit :: "string \<Rightarrow> nat option" where
  "size_limit operation =
     (if list_ex (\<lambda>p. starts_with p operation) [''policy:memory-read:v1:'', ''policy:memory-mutation:v1:'', ''policy:state-update:v1:'']
      then Some 4096
      else if operation = ''policy:lineage-binding:v1'' then Some 2097152 else None)"

definition child_binding_ok :: "effect_identity \<Rightarrow> effect_receipt \<Rightarrow> bool" where
  "child_binding_ok i r =
     (if ei_operation i = ''run:workflow'' \<and> rc_status r \<noteq> ''pending'' then rc_child r \<noteq> None
      else rc_child r = None \<or> ei_operation i = ''policy:child-wake:v1'')"

definition schedule_ok :: "effect_identity \<Rightarrow> effect_receipt \<Rightarrow> unit res" where
  "schedule_ok i r =
     (if ei_operation i = ''policy:retry-schedule:v1'' then
        bindE (guardE (rc_status r = ''completed'') ValueError) (\<lambda>_.
        bindE (schedule_from_value (rc_output r) (snd (last (ei_occurrence i)))) (\<lambda>_. Inr ()))
      else Inr ())"

definition get_effect :: "journal_env \<Rightarrow> journal \<Rightarrow> effect_identity \<Rightarrow> effect_receipt option res" where
  "get_effect env j i =
     reraise {} WorkflowExecutionError
       (case jr_effects j (effect_key env i) of
          None \<Rightarrow> Inr None
        | Some row \<Rightarrow>
            bindE (guardE (opt_ok (\<lambda>n. er_octets row \<le> n) (size_limit (ei_operation i))) TypeError) (\<lambda>_.
            bindE (receipt_from_payload (er_payload row)) (\<lambda>r.
            bindE (guardE (rc_owner r = er_owner row \<and> rc_status r = er_status row) ValueError) (\<lambda>_.
            bindE (je_verify env i r) (\<lambda>_.
            bindE (guardE (child_binding_ok i r) ValueError) (\<lambda>_.
            bindE (schedule_ok i r) (\<lambda>_. Inr (Some r))))))))"

section \<open>Intents and decisions\<close>

text \<open>The lease, the ownership table and the storage clock an owned transaction consults.\<close>

record fence =
  fn_table :: ownership_table
  fn_now :: rat
  fn_lease :: "execution_lease option"

definition owned :: "fence \<Rightarrow> effect_identity \<Rightarrow> 'a res \<Rightarrow> 'a res" where
  "owned fc i body = owned_write_transaction (fn_table fc) (fn_now fc) (fn_lease fc) (ei_invocation_id i) (ei_fingerprint i) body"

definition pending_receipt :: "string \<Rightarrow> string \<Rightarrow> string option \<Rightarrow> effect_receipt" where
  "pending_receipt digest owner opid =
     \<lparr>rc_request_digest = digest, rc_owner = owner, rc_status = ''pending'', rc_output = PNone, rc_error = PNone,
      rc_error_status_code = None, rc_operation_id = opid, rc_child = None, rc_external = None\<rparr>"

definition put_intent :: "journal_env \<Rightarrow> journal \<Rightarrow> effect_identity \<Rightarrow> effect_receipt \<Rightarrow> journal" where
  "put_intent env j i r =
     j\<lparr>jr_index := insert_new (effect_key env i) (identity_row i) (jr_index j),
       jr_effects := insert_new (effect_key env i) (receipt_row env True r) (jr_effects j)\<rparr>"

definition begin_body ::
  "journal_env \<Rightarrow> journal \<Rightarrow> effect_identity \<Rightarrow> effect_receipt \<Rightarrow> journal res" where
  "begin_body env j i proposed =
     bindE (get_effect env j i) (\<lambda>existing.
       let pending = (case existing of Some r \<Rightarrow> r | None \<Rightarrow> proposed) in
       bindE (if rc_status pending = ''pending''
              then je_intent env i pending (existing = None \<and> jr_index j (effect_key env i) = None)
              else Inr ()) (\<lambda>_.
         Inr (put_intent env j i proposed)))"

definition begin_effect ::
  "journal_env \<Rightarrow> journal \<Rightarrow> fence \<Rightarrow> effect_identity \<Rightarrow> string \<Rightarrow> string \<Rightarrow> string option \<Rightarrow> journal \<times> effect_receipt res" where
  "begin_effect env j fc i digest owner opid =
     (case reraise {InvocationStateConflict} WorkflowExecutionError
             (bindE (make_receipt (pending_receipt digest owner opid)) (\<lambda>proposed.
                owned fc i (begin_body env j i proposed))) of
        Inl e \<Rightarrow> (j, Inl e)
      | Inr j' \<Rightarrow>
          (j', bindE (get_effect env j' i) (\<lambda>recorded.
             case recorded of
               None \<Rightarrow> Inl WorkflowExecutionError
             | Some r \<Rightarrow> if rc_request_digest r \<noteq> digest then Inl WorkflowExecutionError else Inr r)))"

definition insert_receipt :: "journal_env \<Rightarrow> journal \<Rightarrow> effect_identity \<Rightarrow> effect_receipt \<Rightarrow> journal res" where
  "insert_receipt env j i r =
     bindE (case jr_index j (effect_key env i) of
              None \<Rightarrow> Inr ()
            | Some row \<Rightarrow> bindE (identity_from_value (ix_payload row)) (\<lambda>stored.
                guardE (ix_invocation_id row = ei_invocation_id i \<and> ix_fingerprint row = ei_fingerprint i \<and> stored = i)
                  WorkflowExecutionError)) (\<lambda>_.
     let j' = j\<lparr>jr_index := insert_new (effect_key env i) (identity_row i) (jr_index j),
                jr_effects := insert_new (effect_key env i) (receipt_row env False r) (jr_effects j)\<rparr> in
     case jr_effects j' (effect_key env i) of
       None \<Rightarrow> Inl WorkflowExecutionError
     | Some row \<Rightarrow>
         bindE (guardE (er_owner row = rc_owner r \<and> er_status row = rc_status r \<and>
             json_dumps True (je_float_repr env) (sort_keys (er_payload row)) =
             json_dumps True (je_float_repr env) (sort_keys (receipt_payload r))) WorkflowExecutionError) (\<lambda>_. Inr j'))"

definition insert_completed_receipt :: "journal_env \<Rightarrow> journal \<Rightarrow> effect_identity \<Rightarrow> effect_receipt \<Rightarrow> journal res" where
  "insert_completed_receipt env j i r =
     (if rc_status r \<noteq> ''completed'' then Inl WorkflowExecutionError else insert_receipt env j i r)"

definition insert_pending_receipt :: "journal_env \<Rightarrow> journal \<Rightarrow> effect_identity \<Rightarrow> effect_receipt \<Rightarrow> journal res" where
  "insert_pending_receipt env j i r =
     (if rc_status r \<noteq> ''pending'' then Inl WorkflowExecutionError else insert_receipt env j i r)"

definition decision_receipt :: "string \<Rightarrow> pyval \<Rightarrow> effect_receipt" where
  "decision_receipt digest output = (pending_receipt digest ''policy'' None)\<lparr>rc_status := ''completed'', rc_output := output\<rparr>"

definition record_body ::
  "journal_env \<Rightarrow> journal \<Rightarrow> effect_identity \<Rightarrow> string \<Rightarrow> pyval res \<Rightarrow> (journal \<times> effect_receipt) res" where
  "record_body env j i digest create_value =
     bindE (get_effect env j i) (\<lambda>existing.
     bindE (case existing of
              Some _ \<Rightarrow> Inr j
            | None \<Rightarrow>
                bindE create_value (\<lambda>output.
                bindE (validate_expression_data 0 64 output) (\<lambda>_.
                bindE (make_receipt (decision_receipt digest output)) (\<lambda>proposed.
                  insert_completed_receipt env j i proposed)))) (\<lambda>j'.
     bindE (get_effect env j' i) (\<lambda>recorded.
       case recorded of
         None \<Rightarrow> Inl WorkflowExecutionError
       | Some r \<Rightarrow> if rc_status r \<noteq> ''completed'' \<or> rc_request_digest r \<noteq> digest
                    then Inl WorkflowExecutionError else Inr (j', r))))"

definition record_value ::
  "journal_env \<Rightarrow> journal \<Rightarrow> fence \<Rightarrow> effect_identity \<Rightarrow> string \<Rightarrow> pyval res \<Rightarrow> journal \<times> effect_receipt res" where
  "record_value env j fc i digest create_value =
     (if \<not> starts_with ''policy:'' (ei_operation i) then (j, Inl WorkflowExecutionError)
      else case reraise {InvocationStateConflict} WorkflowExecutionError (owned fc i (record_body env j i digest create_value)) of
             Inl e \<Rightarrow> (j, Inl e)
           | Inr (j', r) \<Rightarrow> (j', Inr r))"

section \<open>Outcomes\<close>

record outcome =
  oc_output :: pyval
  oc_error :: pyval
  oc_error_status :: "int option"
  oc_operation_id :: "string option"
  oc_child :: "child_dependency option"

definition or_else :: "'a option \<Rightarrow> 'a option \<Rightarrow> 'a option" where
  "or_else a b = (case a of None \<Rightarrow> b | Some _ \<Rightarrow> a)"

definition with_outcome :: "effect_receipt \<Rightarrow> outcome \<Rightarrow> child_dependency option \<Rightarrow> effect_receipt" where
  "with_outcome r oc child =
     r\<lparr>rc_status := (if oc_error oc \<noteq> PNone then ''faulted'' else ''completed''), rc_output := oc_output oc, rc_error := oc_error oc,
       rc_error_status_code := oc_error_status oc, rc_operation_id := or_else (oc_operation_id oc) (rc_operation_id r),
       rc_child := child\<rparr>"

text \<open>\<^verbatim>\<open>UPDATE ... WHERE identity=? AND owner=? AND status='pending'\<close>\<close>

definition put_outcome :: "journal_env \<Rightarrow> journal \<Rightarrow> effect_identity \<Rightarrow> string \<Rightarrow> effect_receipt \<Rightarrow> journal" where
  "put_outcome env j i owner r =
     (case jr_effects j (effect_key env i) of
        None \<Rightarrow> j
      | Some row \<Rightarrow>
          if er_owner row = owner \<and> er_status row = ''pending''
          then j\<lparr>jr_effects := (jr_effects j)(effect_key env i \<mapsto>
                   row\<lparr>er_status := rc_status r, er_payload := receipt_payload r,
                       er_octets := text_octets env False (receipt_payload r),
                       er_length := text_length (je_float_repr env) False (receipt_payload r)\<rparr>)\<rparr>
          else j)"

definition finish :: "journal_env \<Rightarrow> journal \<Rightarrow> effect_identity \<Rightarrow> string \<Rightarrow> outcome \<Rightarrow> journal \<times> effect_receipt res" where
  "finish env j i owner oc =
     (case get_effect env j i of
        Inl e \<Rightarrow> (j, Inl e)
      | Inr None \<Rightarrow> (j, Inl WorkflowExecutionError)
      | Inr (Some recorded) \<Rightarrow>
          if rc_owner recorded \<noteq> owner then (j, Inl WorkflowExecutionError)
          else case make_receipt (with_outcome recorded oc (oc_child oc)) of
            Inl _ \<Rightarrow> (j, Inl WorkflowExecutionError)
          | Inr proposed \<Rightarrow>
              (let j' = put_outcome env j i owner proposed in
               (j', bindE (get_effect env j' i) (\<lambda>completed.
                  case completed of
                    None \<Rightarrow> Inl WorkflowExecutionError
                  | Some r \<Rightarrow> if rc_owner r \<noteq> owner \<or> rc_status r = ''pending'' then Inl WorkflowExecutionError else Inr r))))"

definition owned_body ::
  "journal_env \<Rightarrow> journal \<Rightarrow> fence \<Rightarrow> effect_identity \<Rightarrow> string \<Rightarrow> outcome \<Rightarrow> (journal \<times> effect_receipt) res" where
  "owned_body env j fc i owner oc =
     bindE (get_effect env j i) (\<lambda>recorded.
       case recorded of
         None \<Rightarrow> Inl WorkflowExecutionError
       | Some r \<Rightarrow>
           if rc_owner r \<noteq> owner then Inl WorkflowExecutionError
           else if rc_status r \<noteq> ''pending'' then Inr (j, r)
           else bindE (make_receipt (with_outcome r oc (or_else (oc_child oc) (rc_child r)))) (\<lambda>proposed.
                bindE (je_seal env i proposed) (\<lambda>_.
                let j' = put_outcome env j i owner proposed in
                bindE (get_effect env j' i) (\<lambda>completed.
                bindE (guardE (completed = Some proposed) WorkflowExecutionError) (\<lambda>_.
                bindE (guardE (case fn_lease fc of None \<Rightarrow> False | Some l \<Rightarrow> write_guard (fn_table fc) (fn_now fc) l)
                         InvocationStateConflict) (\<lambda>_.
                  Inr (j', proposed)))))))"

definition finish_owned ::
  "journal_env \<Rightarrow> journal \<Rightarrow> fence \<Rightarrow> effect_identity \<Rightarrow> string \<Rightarrow> outcome \<Rightarrow> journal \<times> effect_receipt res" where
  "finish_owned env j fc i owner oc =
     (if fn_lease fc = None then (j, Inl InvocationStateConflict)
      else case reraise {InvocationStateConflict} WorkflowExecutionError (owned fc i (owned_body env j fc i owner oc)) of
             Inl e \<Rightarrow> (j, Inl e)
           | Inr (j', r) \<Rightarrow> (j', Inr r))"

definition finish_grpc ::
  "journal_env \<Rightarrow> journal \<Rightarrow> fence \<Rightarrow> effect_identity \<Rightarrow> string \<Rightarrow> outcome \<Rightarrow> journal \<times> effect_receipt res" where
  "finish_grpc env j fc i owner oc =
     (if ei_operation i \<noteq> ''call:grpc'' \<or> fn_lease fc = None then (j, Inl InvocationStateConflict)
      else finish_owned env j fc i owner (oc\<lparr>oc_child := None\<rparr>))"

text \<open>\<^verbatim>\<open>finish_child\<close> asks for the truth value of the error, the other operations whether there is one.\<close>

definition truthy_error :: "pyval \<Rightarrow> bool" where
  "truthy_error e \<longleftrightarrow> e \<noteq> PNone \<and> e \<noteq> PDict []"

definition child_body ::
  "journal_env \<Rightarrow> journal \<Rightarrow> effect_identity \<Rightarrow> string \<Rightarrow> string \<Rightarrow> outcome \<Rightarrow> (journal \<times> effect_receipt option) res" where
  "child_body env j i digest child_id oc =
     bindE (get_effect env j i) (\<lambda>recorded.
       case recorded of
         None \<Rightarrow> Inl WorkflowExecutionError
       | Some r \<Rightarrow>
           if rc_request_digest r \<noteq> digest then Inl WorkflowExecutionError
           else if rc_status r \<noteq> ''pending'' then Inr (j, Some r)
           else bindE (je_capture env child_id) (\<lambda>dependency.
                bindE (guardE (je_binding env (effect_key env i) = Some child_id) WorkflowExecutionError) (\<lambda>_.
                bindE (make_receipt ((with_outcome r oc (Some dependency))
                    \<lparr>rc_status := (if truthy_error (oc_error oc) then ''faulted'' else ''completed''),
                     rc_operation_id := rc_operation_id r\<rparr>)) (\<lambda>proposed.
                bindE (je_seal env i proposed) (\<lambda>_.
                  Inr (put_outcome env j i (rc_owner r) proposed, None))))))"

definition finish_child ::
  "journal_env \<Rightarrow> journal \<Rightarrow> fence \<Rightarrow> effect_identity \<Rightarrow> string \<Rightarrow> string \<Rightarrow> outcome \<Rightarrow> journal \<times> effect_receipt res" where
  "finish_child env j fc i digest child_id oc =
     (if ei_operation i \<noteq> ''run:workflow'' \<or> fn_lease fc = None then (j, Inl InvocationStateConflict)
      else case owned fc i (child_body env j i digest child_id oc) of
             Inl e \<Rightarrow> (j, Inl e)
           | Inr (j', Some r) \<Rightarrow> (j', Inr r)
           | Inr (j', None) \<Rightarrow>
               (j', bindE (get_effect env j' i) (\<lambda>completed.
                  case completed of
                    None \<Rightarrow> Inl WorkflowExecutionError
                  | Some r \<Rightarrow> if rc_status r = ''pending'' then Inl WorkflowExecutionError else Inr r)))"

section \<open>Stored forms read back\<close>

lemma exact_keys_PDict [simp]: "exact_keys (PDict d) ks \<longleftrightarrow> set (dict_keys d) = set ks"
  by (simp add: exact_keys_def)

lemma not_exact_keys: "k \<in> set (dict_keys d) \<Longrightarrow> k \<notin> set ks \<Longrightarrow> \<not> exact_keys (PDict d) ks"
  by auto

lemma occurrence_items: "mapE occurrence_item (map (\<lambda>(r, n). PList [PStr r, PInt n]) xs) = Inr xs"
  by (induction xs) (auto simp: occurrence_item_def)

lemma identity_reads_back: "make_identity i = Inr i \<Longrightarrow> identity_from_value (identity_value i) = Inr i"
  by (cases i) (simp add: identity_from_value_def identity_value_def get_field_def str_field_def occurrence_items)

definition child_ok :: "child_dependency \<Rightarrow> bool" where
  "child_ok c \<longleftrightarrow> make_child c = Inr c"

definition external_ok :: "external_dependency \<Rightarrow> bool" where
  "external_ok x \<longleftrightarrow> make_external x = Inr x"

lemma make_child_Inr: "make_child c = Inr d \<longleftrightarrow> child_ok c \<and> d = c"
  by (auto simp: child_ok_def make_child_def split: if_splits)

lemma make_external_Inr: "make_external x = Inr y \<longleftrightarrow> external_ok x \<and> y = x"
  by (auto simp: external_ok_def make_external_def split: if_splits)

lemma child_reads_back:
  assumes "child_ok c"
  shows "child_from_value (child_value c) = Inr c"
proof (cases "cd_binding_digest c")
  case None
  then have "cd_budget_digest c = None" using assms by (auto simp: child_ok_def make_child_def split: if_splits)
  then show ?thesis
    using None assms
    by (cases c) (simp add: child_from_value_def child_value_def get_field_def str_field_def make_child_Inr)
next
  case (Some b)
  then obtain g where g: "cd_budget_digest c = Some g"
    using assms by (cases "cd_budget_digest c") (auto simp: child_ok_def make_child_def split: if_splits)
  let ?v = "child_value c"
  have "\<not> exact_keys ?v [''invocation_id'', ''record_digest'']"
    unfolding child_value_def by (rule not_exact_keys [of "''binding_digest''"]) (simp_all add: Some g)
  moreover have "exact_keys ?v [''invocation_id'', ''record_digest'', ''binding_digest'', ''budget_digest'']"
    using Some g by (simp add: child_value_def)
  moreover have "str_field ?v ''invocation_id'' = Inr (cd_invocation_id c)" "str_field ?v ''record_digest'' = Inr (cd_record_digest c)"
    "str_field ?v ''binding_digest'' = Inr b" "str_field ?v ''budget_digest'' = Inr g"
    using Some g by (simp_all add: child_value_def str_field_def get_field_def)
  ultimately show ?thesis using Some g assms by (cases c) (simp add: child_from_value_def make_child_Inr)
qed

lemma external_reads_back: "external_ok x \<Longrightarrow> external_from_value (external_value x) = Inr x"
  by (cases x) (simp add: external_from_value_def external_value_def get_field_def str_field_def make_external_Inr)

definition receipt_ok :: "effect_receipt \<Rightarrow> bool" where
  "receipt_ok r \<longleftrightarrow> make_receipt r = Inr r \<and> opt_ok child_ok (rc_child r) \<and> opt_ok external_ok (rc_external r)"

lemma make_receipt_eq: "make_receipt r = Inr r' \<Longrightarrow> r' = r"
  by (auto simp: make_receipt_def)

lemma child_from_value_ok: "child_from_value v = Inr c \<Longrightarrow> child_ok c"
  by (auto simp: child_from_value_def make_child_Inr split: if_splits)

lemma external_from_value_ok: "external_from_value v = Inr x \<Longrightarrow> external_ok x"
  by (auto simp: external_from_value_def make_external_Inr split: if_splits)

lemma opt_field_ok: "opt_field v k f = Inr x \<Longrightarrow> (\<And>w a. f w = Inr a \<Longrightarrow> P a) \<Longrightarrow> opt_ok P x"
  by (auto simp: opt_field_def opt_ok_def split: pyval.splits)

lemma receipt_from_payload_ok:
  assumes "receipt_from_payload v = Inr r"
  shows "receipt_ok r"
proof -
  obtain d where v: "v = PDict d" using assms by (auto simp: receipt_from_payload_def split: pyval.splits)
  obtain x c digest owner status code opid where
    x: "opt_field v ''external_outcome'' external_from_value = Inr x" and
    c: "opt_field v ''child_invocation'' child_from_value = Inr c" and
    r: "make_receipt \<lparr>rc_request_digest = digest, rc_owner = owner, rc_status = status,
          rc_output = get_field v ''output'', rc_error = get_field v ''error'', rc_error_status_code = code,
          rc_operation_id = opid, rc_child = c, rc_external = x\<rparr> = Inr r"
    using assms unfolding receipt_from_payload_def v pyval.case by (auto simp only: bindE_eq_Inr)
  have "opt_ok external_ok x" "opt_ok child_ok c"
    using opt_field_ok [OF x] opt_field_ok [OF c] child_from_value_ok external_from_value_ok by blast+
  then show ?thesis using r make_receipt_eq [OF r] by (auto simp: receipt_ok_def)
qed

lemma opt_field_value:
  assumes "get_field v k = opt_value g x" "\<And>a. x = Some a \<Longrightarrow> g a \<noteq> PNone \<and> f (g a) = Inr a"
  shows "opt_field v k f = Inr x"
  using assms by (cases x) (auto simp: opt_field_def opt_value_def split: pyval.splits)

lemma receipt_fields:
  "get_field (receipt_payload r) ''request_digest'' = PStr (rc_request_digest r)"
  "get_field (receipt_payload r) ''owner'' = PStr (rc_owner r)"
  "get_field (receipt_payload r) ''status'' = PStr (rc_status r)"
  "get_field (receipt_payload r) ''output'' = rc_output r"
  "get_field (receipt_payload r) ''error'' = rc_error r"
  "get_field (receipt_payload r) ''error_status_code'' = opt_value PInt (rc_error_status_code r)"
  "get_field (receipt_payload r) ''operation_id'' = opt_value PStr (rc_operation_id r)"
  "get_field (receipt_payload r) ''child_invocation'' = opt_value child_value (rc_child r)"
  "get_field (receipt_payload r) ''external_outcome'' = opt_value external_value (rc_external r)"
  by (simp_all add: receipt_payload_def get_field_def opt_value_def split: option.split)

text \<open>
  Receipts round-trip: the payload the journal stores for a valid receipt (pre-marker child
  dependencies and absent dependencies in their short forms) is read back as exactly that receipt.
\<close>

theorem receipt_reads_back:
  assumes "receipt_ok r"
  shows "receipt_from_payload (receipt_payload r) = Inr r"
proof -
  let ?v = "receipt_payload r"
  obtain d where d: "?v = PDict d" by (simp add: receipt_payload_def)
  have keys: "set (dict_keys d) \<subseteq> set [''request_digest'', ''owner'', ''status'', ''output'', ''error'', ''error_status_code'',
      ''operation_id'', ''child_invocation'', ''external_outcome'']"
    using d by (auto simp: receipt_payload_def split: option.splits)
  have present: "has_field ?v ''request_digest''" "has_field ?v ''owner''" "has_field ?v ''status''"
    by (simp_all add: receipt_payload_def has_field_def)
  have child: "opt_field ?v ''child_invocation'' child_from_value = Inr (rc_child r)"
    using assms
    by (intro opt_field_value [OF receipt_fields(8)]) (auto simp: receipt_ok_def opt_ok_def child_reads_back, simp add: child_value_def)
  have external: "opt_field ?v ''external_outcome'' external_from_value = Inr (rc_external r)"
    using assms
    by (intro opt_field_value [OF receipt_fields(9)]) (auto simp: receipt_ok_def opt_ok_def external_reads_back, simp add: external_value_def)
  have code: "opt_field ?v ''error_status_code'' (\<lambda>x. case x of PInt n \<Rightarrow> Inr n | _ \<Rightarrow> Inl ValueError) = Inr (rc_error_status_code r)"
    by (intro opt_field_value [OF receipt_fields(6)]) simp
  have opid: "opt_field ?v ''operation_id'' (\<lambda>x. case x of PStr s \<Rightarrow> Inr s | _ \<Rightarrow> Inl ValueError) = Inr (rc_operation_id r)"
    by (intro opt_field_value [OF receipt_fields(7)]) simp
  have "make_receipt \<lparr>rc_request_digest = rc_request_digest r, rc_owner = rc_owner r, rc_status = rc_status r,
      rc_output = rc_output r, rc_error = rc_error r, rc_error_status_code = rc_error_status_code r,
      rc_operation_id = rc_operation_id r, rc_child = rc_child r, rc_external = rc_external r\<rparr> = Inr r"
    using assms by (cases r) (simp add: receipt_ok_def)
  then show ?thesis
    using keys present child external code opid unfolding receipt_from_payload_def d [symmetric]
    by (simp add: d) (simp flip: d add: str_field_def receipt_fields)
qed

definition ex_digest :: string where
  "ex_digest = replicate 64 CHR ''a''"

lemma ex_digest_ok [simp]: "is_digest ex_digest"
  by (simp add: is_digest_def ex_digest_def list_all_iff)

theorem receipt_reads_back_witness:
  "receipt_from_payload (receipt_payload ((pending_receipt ex_digest ''w'' (Some ''op''))
     \<lparr>rc_status := ''completed'', rc_output := PInt 7, rc_child := Some \<lparr>cd_invocation_id = ''c'', cd_record_digest = ex_digest,
        cd_binding_digest = None, cd_budget_digest = None\<rparr>\<rparr>)) =
   Inr ((pending_receipt ex_digest ''w'' (Some ''op''))
     \<lparr>rc_status := ''completed'', rc_output := PInt 7, rc_child := Some \<lparr>cd_invocation_id = ''c'', cd_record_digest = ex_digest,
        cd_binding_digest = None, cd_budget_digest = None\<rparr>\<rparr>)"
  by (rule receipt_reads_back)
    (simp add: receipt_ok_def make_receipt_def pending_receipt_def child_ok_def make_child_def opt_ok_def
      validate_expression_data.simps MAX_SAFE_INTEGER_def)

section \<open>The journal only grows\<close>

interpretation once: write_once "\<lambda>m k. m k" insert_new
  by unfold_locales (auto simp: insert_new_def split: option.splits)

text \<open>
  Rows are never deleted, an intent keeps its owner and its request, an outcome is final and index
  entries never change.
\<close>

definition row_receipt :: "effect_row \<Rightarrow> effect_receipt option" where
  "row_receipt row = (case receipt_from_payload (er_payload row) of Inr r \<Rightarrow> Some r | Inl _ \<Rightarrow> None)"

definition row_later :: "effect_row \<Rightarrow> effect_row \<Rightarrow> bool" where
  "row_later row row' \<longleftrightarrow> er_owner row' = er_owner row \<and> (er_status row \<noteq> ''pending'' \<longrightarrow> row' = row) \<and>
     (\<forall>r. row_receipt row = Some r \<longrightarrow> (\<exists>r'. row_receipt row' = Some r' \<and> rc_request_digest r' = rc_request_digest r))"

definition journal_grows :: "journal \<Rightarrow> journal \<Rightarrow> bool" where
  "journal_grows j j' \<longleftrightarrow>
     (\<forall>k row. jr_index j k = Some row \<longrightarrow> jr_index j' k = Some row) \<and>
     (\<forall>k row. jr_effects j k = Some row \<longrightarrow> (\<exists>row'. jr_effects j' k = Some row' \<and> row_later row row'))"

lemma row_later_refl: "row_later row row"
  by (simp add: row_later_def)

lemma row_later_trans: "row_later a b \<Longrightarrow> row_later b c \<Longrightarrow> row_later a c"
  unfolding row_later_def by metis

lemma journal_grows_refl: "journal_grows j j"
  by (auto simp: journal_grows_def intro: row_later_refl)

lemma journal_grows_trans: "journal_grows a b \<Longrightarrow> journal_grows b c \<Longrightarrow> journal_grows a c"
  unfolding journal_grows_def using row_later_trans by meson

lemma insert_grows:
  "journal_grows j (j\<lparr>jr_index := insert_new k v (jr_index j), jr_effects := insert_new k' w (jr_effects j)\<rparr>)"
  by (auto simp: journal_grows_def once.first_write_kept intro: row_later_refl)

lemma get_effect_row:
  assumes "get_effect env j i = Inr (Some r)"
  obtains row where "jr_effects j (effect_key env i) = Some row" "receipt_from_payload (er_payload row) = Inr r"
    "er_owner row = rc_owner r" "er_status row = rc_status r" "receipt_ok r"
proof -
  obtain row where "jr_effects j (effect_key env i) = Some row" "receipt_from_payload (er_payload row) = Inr r"
    "er_owner row = rc_owner r" "er_status row = rc_status r"
    using assms by (auto simp: get_effect_def split: option.splits)
  then show ?thesis using that receipt_from_payload_ok by blast
qed

lemma get_effect_None:
  "get_effect env j i = Inr None \<longleftrightarrow> jr_effects j (effect_key env i) = None"
  by (auto simp: get_effect_def split: option.splits)

lemma outcome_receipt_ok:
  assumes "receipt_ok r" "make_receipt (with_outcome r oc c) = Inr p" "opt_ok child_ok c"
  shows "receipt_ok p \<and> rc_request_digest p = rc_request_digest r"
  using assms make_receipt_eq [OF assms(2)] by (auto simp: receipt_ok_def with_outcome_def)

lemma put_outcome_grows:
  assumes row: "jr_effects j (effect_key env i) = Some row" "receipt_from_payload (er_payload row) = Inr r"
    and p: "receipt_ok p" "rc_request_digest p = rc_request_digest r"
  shows "journal_grows j (put_outcome env j i owner p)"
  using row p receipt_reads_back [OF p(1)]
  by (auto simp: journal_grows_def put_outcome_def row_later_def row_receipt_def)

lemma begin_grows: "journal_grows j (fst (begin_effect env j fc i digest owner opid))"
proof (cases "reraise {InvocationStateConflict} WorkflowExecutionError
             (bindE (make_receipt (pending_receipt digest owner opid)) (\<lambda>proposed. owned fc i (begin_body env j i proposed)))")
  case (Inr j')
  then obtain p where "begin_body env j i p = Inr j'"
    by (auto simp: owned_def owned_write_transaction_def split: option.splits if_splits)
  then have "j' = put_intent env j i p" by (auto simp: begin_body_def Let_def)
  then show ?thesis unfolding begin_effect_def Inr by (simp add: put_intent_def insert_grows)
qed (simp add: begin_effect_def journal_grows_refl)

lemma insert_receipt_grows: "insert_receipt env j i r = Inr j' \<Longrightarrow> journal_grows j j'"
  by (auto simp: insert_receipt_def Let_def insert_grows split: option.splits)

lemma insert_completed_grows: "insert_completed_receipt env j i r = Inr j' \<Longrightarrow> journal_grows j j'"
  by (auto simp: insert_completed_receipt_def insert_receipt_grows split: if_splits)

lemma record_body_grows: "record_body env j i digest v = Inr (j', r) \<Longrightarrow> journal_grows j j'"
  by (auto simp: record_body_def insert_completed_receipt_def split: option.splits if_splits
      intro: journal_grows_refl insert_receipt_grows)

lemma record_grows: "journal_grows j (fst (record_value env j fc i digest v))"
  by (auto simp: record_value_def owned_def owned_write_transaction_def split: sum.splits option.splits if_splits prod.splits
      intro: journal_grows_refl record_body_grows)

lemma finish_grows:
  assumes "opt_ok child_ok (oc_child oc)"
  shows "journal_grows j (fst (finish env j i owner oc))"
proof (cases "\<exists>recorded p. get_effect env j i = Inr (Some recorded) \<and> rc_owner recorded = owner \<and>
    make_receipt (with_outcome recorded oc (oc_child oc)) = Inr p")
  case True
  then obtain recorded p where get: "get_effect env j i = Inr (Some recorded)" and own: "rc_owner recorded = owner"
    and p: "make_receipt (with_outcome recorded oc (oc_child oc)) = Inr p" by blast
  obtain row where row: "jr_effects j (effect_key env i) = Some row" "receipt_from_payload (er_payload row) = Inr recorded"
    "receipt_ok recorded" using get by (rule get_effect_row)
  have "journal_grows j (put_outcome env j i owner p)"
    using outcome_receipt_ok [OF row(3) p assms] by (intro put_outcome_grows [OF row(1,2)]) simp_all
  then show ?thesis using get own p by (simp add: finish_def Let_def)
next
  case False
  then have "fst (finish env j i owner oc) = j"
    by (auto simp: finish_def Let_def split: sum.splits option.splits)
  then show ?thesis by (simp add: journal_grows_refl)
qed

lemma owned_body_grows:
  assumes "owned_body env j fc i owner oc = Inr (j', q)" "opt_ok child_ok (oc_child oc)"
  shows "journal_grows j j'"
proof -
  obtain r where get: "get_effect env j i = Inr (Some r)"
    using assms(1) by (auto simp: owned_body_def split: option.splits)
  show ?thesis
  proof (cases "rc_status r = ''pending''")
    case True
    obtain row where row: "jr_effects j (effect_key env i) = Some row" "receipt_from_payload (er_payload row) = Inr r"
      "receipt_ok r" using get by (rule get_effect_row)
    obtain p where p: "make_receipt (with_outcome r oc (or_else (oc_child oc) (rc_child r))) = Inr p"
      and j': "j' = put_outcome env j i owner p"
      using assms(1) get True by (auto simp: owned_body_def Let_def split: if_splits)
    have "opt_ok child_ok (or_else (oc_child oc) (rc_child r))"
      using assms(2) row(3) by (auto simp: or_else_def receipt_ok_def split: option.splits)
    from outcome_receipt_ok [OF row(3) p this] show ?thesis
      unfolding j' by (intro put_outcome_grows [OF row(1,2)]) simp_all
  next
    case False
    then have "j' = j" using assms(1) get by (auto simp: owned_body_def split: if_splits)
    then show ?thesis by (simp add: journal_grows_refl)
  qed
qed

lemma finish_owned_grows: "opt_ok child_ok (oc_child oc) \<Longrightarrow> journal_grows j (fst (finish_owned env j fc i owner oc))"
  by (auto simp: finish_owned_def owned_def owned_write_transaction_def split: sum.splits option.splits if_splits prod.splits
      intro: journal_grows_refl owned_body_grows)

lemma finish_grpc_grows: "journal_grows j (fst (finish_grpc env j fc i owner oc))"
  by (auto simp: finish_grpc_def opt_ok_def intro: journal_grows_refl finish_owned_grows)

lemma child_body_grows:
  assumes "child_body env j i digest cid oc = Inr (j', q)" "\<forall>c d. je_capture env c = Inr d \<longrightarrow> child_ok d"
  shows "journal_grows j j'"
proof -
  obtain r where get: "get_effect env j i = Inr (Some r)"
    using assms(1) by (auto simp: child_body_def split: option.splits)
  obtain row where row: "jr_effects j (effect_key env i) = Some row" "receipt_from_payload (er_payload row) = Inr r"
    "receipt_ok r" using get by (rule get_effect_row)
  consider "j' = j" | d p where "je_capture env cid = Inr d" "j' = put_outcome env j i (rc_owner r) p"
      "make_receipt ((with_outcome r oc (Some d))\<lparr>rc_status := (if truthy_error (oc_error oc) then ''faulted'' else ''completed''),
                     rc_operation_id := rc_operation_id r\<rparr>) = Inr p"
    using assms(1) get by (auto simp: child_body_def split: if_splits)
  then show ?thesis
  proof cases
    case 2
    then have "receipt_ok p \<and> rc_request_digest p = rc_request_digest r"
      using make_receipt_eq [OF 2(3)] row(3) assms(2) by (auto simp: receipt_ok_def with_outcome_def opt_ok_def)
    then show ?thesis unfolding 2(2) by (intro put_outcome_grows [OF row(1,2)]) simp_all
  qed (simp add: journal_grows_refl)
qed

lemma finish_child_grows:
  "\<forall>c d. je_capture env c = Inr d \<longrightarrow> child_ok d \<Longrightarrow> journal_grows j (fst (finish_child env j fc i digest cid oc))"
  by (auto simp: finish_child_def owned_def owned_write_transaction_def split: sum.splits option.splits if_splits prod.splits
      intro: journal_grows_refl child_body_grows)

text \<open>
  Every worker may call every operation, with whatever lease it believes to hold and at whatever
  reading of the storage clock; a failed call may still have committed.
\<close>

inductive journal_step :: "journal_env \<Rightarrow> journal \<Rightarrow> journal \<Rightarrow> bool" for env where
  begins: "journal_step env j (fst (begin_effect env j fc i digest owner opid))"
| records: "journal_step env j (fst (record_value env j fc i digest v))"
| inserts: "receipt_ok r \<Longrightarrow> insert_completed_receipt env j i r = Inr j' \<Longrightarrow> journal_step env j j'"
| inserts_pending: "receipt_ok r \<Longrightarrow> insert_pending_receipt env j i r = Inr j' \<Longrightarrow> journal_step env j j'"
| finishes: "opt_ok child_ok (oc_child oc) \<Longrightarrow> journal_step env j (fst (finish env j i owner oc))"
| finishes_owned: "opt_ok child_ok (oc_child oc) \<Longrightarrow> journal_step env j (fst (finish_owned env j fc i owner oc))"
| finishes_grpc: "journal_step env j (fst (finish_grpc env j fc i owner oc))"
| finishes_child: "\<forall>c d. je_capture env c = Inr d \<longrightarrow> child_ok d \<Longrightarrow>
    journal_step env j (fst (finish_child env j fc i digest cid oc))"

lemma journal_step_grows: "journal_step env j j' \<Longrightarrow> journal_grows j j'"
  by (cases rule: journal_step.cases)
    (auto simp: insert_completed_receipt_def insert_pending_receipt_def split: if_splits
      intro: begin_grows record_grows insert_receipt_grows finish_grows finish_owned_grows finish_grpc_grows finish_child_grows)

interpretation grow: monotone_system "journal_step env" "\<lambda>_. True" journal_grows for env
  by unfold_locales (auto intro: journal_grows_refl journal_grows_trans journal_step_grows)

text \<open>
  \<^bold>\<open>C9.\<close> Outcomes are final. However workers, retries and recoveries interleave, with live or stale leases,
  the stored receipt of a finished action never changes, the intent of an unfinished one keeps its
  first owner and is never forgotten.
\<close>

theorem outcome_is_final:
  assumes "(journal_step env)\<^sup>*\<^sup>* j j'" "jr_effects j (effect_key env i) = Some row"
  shows "\<exists>row'. jr_effects j' (effect_key env i) = Some row' \<and> er_owner row' = er_owner row \<and>
           (er_status row \<noteq> ''pending'' \<longrightarrow> row' = row)"
proof -
  have "journal_grows j j'" by (rule grow.run_rel_only [OF assms(1)]) simp
  then show ?thesis using assms(2) unfolding journal_grows_def row_later_def by blast
qed

text \<open>A journal with one admitted call, and the same journal after the call was answered.\<close>

definition toy_digest :: "string \<Rightarrow> string" where
  "toy_digest t = take 64 (filter (\<lambda>c. c \<in> set ''0123456789abcdef'') t @ replicate 64 CHR ''0'')"

lemma padded_filter: "z \<in> H \<Longrightarrow> c \<in> set (take n (filter (\<lambda>c. c \<in> H) t @ replicate n z)) \<Longrightarrow> c \<in> H"
  by (auto dest!: in_set_takeD)

lemma toy_digest_ok [simp]: "is_digest (toy_digest t)"
  unfolding is_digest_def list_all_iff
proof (intro conjI ballI)
  fix c
  assume "c \<in> set (toy_digest t)"
  then show "c \<in> set ''0123456789abcdef''" unfolding toy_digest_def by (rule padded_filter [rotated]) simp
qed (simp add: toy_digest_def)

definition plain_journal_env :: journal_env where
  "plain_journal_env = \<lparr>je_sha256 = toy_digest, je_float_repr = (\<lambda>q. ''0.0''), je_verify = (\<lambda>i r. Inr ()),
     je_intent = (\<lambda>i r b. Inr ()), je_seal = (\<lambda>i r. Inr ()), je_capture = (\<lambda>c. Inl WorkflowExecutionError),
     je_binding = Map.empty\<rparr>"

lemma plain_journal_select [simp]:
  "je_verify plain_journal_env i r = Inr ()" "je_intent plain_journal_env i r b = Inr ()" "je_seal plain_journal_env i r = Inr ()"
  by (simp_all add: plain_journal_env_def)

lemma pending_select [simp]:
  "rc_request_digest (pending_receipt d w op) = d" "rc_owner (pending_receipt d w op) = w"
  "rc_status (pending_receipt d w op) = ''pending''" "rc_child (pending_receipt d w op) = None"
  "rc_request_digest (decision_receipt d v) = d" "rc_owner (decision_receipt d v) = ''policy''"
  "rc_status (decision_receipt d v) = ''completed''" "rc_output (decision_receipt d v) = v" "rc_child (decision_receipt d v) = None"
  by (simp_all add: pending_receipt_def decision_receipt_def)

definition no_fence :: fence where
  "no_fence = \<lparr>fn_table = Map.empty, fn_now = 1, fn_lease = None\<rparr>"

definition ex_call :: effect_identity where
  "ex_call = \<lparr>ei_invocation_id = ''i'', ei_fingerprint = ''f'', ei_task_reference = ''/do/0/a'',
     ei_occurrence = [(''/do/0/a'', 1)], ei_operation = ''call:http''\<rparr>"

definition empty_journal :: journal where
  "empty_journal = \<lparr>jr_effects = Map.empty, jr_index = Map.empty\<rparr>"

definition ex_answer :: outcome where
  "ex_answer = \<lparr>oc_output = PInt 7, oc_error = PNone, oc_error_status = None, oc_operation_id = None, oc_child = None\<rparr>"

lemma get_effect_plain:
  assumes "jr_effects j (effect_key plain_journal_env ex_call) = Some (receipt_row plain_journal_env b r)"
    and "receipt_ok r" "rc_child r = None"
  shows "get_effect plain_journal_env j ex_call = Inr (Some r)"
  using assms receipt_reads_back [OF assms(2)]
  by (simp add: get_effect_def receipt_row_def size_limit_def starts_with_def ex_call_def opt_ok_def
      child_binding_ok_def schedule_ok_def)

lemma ex_pending_ok: "is_digest d \<Longrightarrow> w \<noteq> [] \<Longrightarrow> receipt_ok (pending_receipt d w op)"
  by (simp add: receipt_ok_def make_receipt_def pending_receipt_def opt_ok_def validate_expression_data.simps)

lemma ex_begin:
  assumes "is_digest d" "w \<noteq> []"
  shows "begin_effect plain_journal_env empty_journal no_fence ex_call d w op =
     (put_intent plain_journal_env empty_journal ex_call (pending_receipt d w op), Inr (pending_receipt d w op))"
proof -
  let ?r = "pending_receipt d w op"
  have "make_receipt ?r = Inr ?r" using ex_pending_ok [OF assms] by (simp add: receipt_ok_def)
  moreover have "begin_body plain_journal_env empty_journal ex_call ?r = Inr (put_intent plain_journal_env empty_journal ex_call ?r)"
    by (simp add: begin_body_def get_effect_None [THEN iffD2] empty_journal_def)
  moreover have "get_effect plain_journal_env (put_intent plain_journal_env empty_journal ex_call ?r) ex_call = Inr (Some ?r)"
    using ex_pending_ok [OF assms]
    by (intro get_effect_plain) (simp_all add: put_intent_def insert_new_def empty_journal_def)
  ultimately show ?thesis
    by (simp add: begin_effect_def owned_def no_fence_def)
qed

lemma ex_begin_again:
  assumes "is_digest d" "w \<noteq> []" "w' \<noteq> []"
  shows "begin_effect plain_journal_env (put_intent plain_journal_env empty_journal ex_call (pending_receipt d w op)) no_fence ex_call d w' op' =
     (put_intent plain_journal_env empty_journal ex_call (pending_receipt d w op), Inr (pending_receipt d w op))"
proof -
  let ?j = "put_intent plain_journal_env empty_journal ex_call (pending_receipt d w op)"
  have get: "get_effect plain_journal_env ?j ex_call = Inr (Some (pending_receipt d w op))"
    using ex_pending_ok [OF assms(1,2)]
    by (intro get_effect_plain) (simp_all add: put_intent_def insert_new_def empty_journal_def)
  have ok: "make_receipt (pending_receipt d w' op') = Inr (pending_receipt d w' op')"
    using ex_pending_ok [OF assms(1,3)] by (simp add: receipt_ok_def)
  have same: "put_intent plain_journal_env ?j ex_call r = ?j" for r
    by (simp add: put_intent_def insert_new_def empty_journal_def)
  show ?thesis
    by (simp add: begin_effect_def ok owned_def no_fence_def begin_body_def get same)
qed

definition ex_answered :: journal where
  "ex_answered = put_outcome plain_journal_env (put_intent plain_journal_env empty_journal ex_call (pending_receipt ex_digest ''w'' None))
     ex_call ''w'' (with_outcome (pending_receipt ex_digest ''w'' None) ex_answer None)"

definition ex_receipt :: effect_receipt where
  "ex_receipt = with_outcome (pending_receipt ex_digest ''w'' None) ex_answer None"

lemma ex_receipt_ok: "receipt_ok ex_receipt" and ex_receipt_make: "make_receipt ex_receipt = Inr ex_receipt"
  by (simp_all add: receipt_ok_def make_receipt_def ex_receipt_def with_outcome_def pending_receipt_def ex_answer_def opt_ok_def
      or_else_def validate_expression_data.simps MAX_SAFE_INTEGER_def)

lemma ex_answered_row:
  "jr_effects ex_answered (effect_key plain_journal_env ex_call) = Some (receipt_row plain_journal_env False ex_receipt)"
  by (simp add: ex_answered_def put_outcome_def put_intent_def insert_new_def empty_journal_def receipt_row_def
      pending_receipt_def with_outcome_def ex_receipt_def)

lemma ex_answered_get: "get_effect plain_journal_env ex_answered ex_call = Inr (Some ex_receipt)"
  by (rule get_effect_plain [OF ex_answered_row ex_receipt_ok]) (simp add: ex_receipt_def with_outcome_def)

theorem outcome_is_final_witness:
  "\<exists>row'. jr_effects (fst (finish plain_journal_env ex_answered ex_call ''w'' (ex_answer\<lparr>oc_output := PInt 8\<rparr>)))
       (effect_key plain_journal_env ex_call) = Some row' \<and> er_payload row' = receipt_payload ex_receipt"
proof -
  let ?j = "fst (finish plain_journal_env ex_answered ex_call ''w'' (ex_answer\<lparr>oc_output := PInt 8\<rparr>))"
  have "journal_step plain_journal_env ex_answered ?j"
    by (rule finishes) (simp add: ex_answer_def opt_ok_def)
  then have "(journal_step plain_journal_env)\<^sup>*\<^sup>* ex_answered ?j" by simp
  from outcome_is_final [OF this ex_answered_row] show ?thesis by (auto simp: receipt_row_def ex_receipt_def with_outcome_def ex_answer_def)
qed

section \<open>First intents and decisions are replayed\<close>

lemma begin_committed:
  assumes "begin_effect env j fc i digest owner opid = (j1, Inr r)"
  shows "get_effect env j1 i = Inr (Some r)" "rc_request_digest r = digest"
    and "jr_index j1 (effect_key env i) \<noteq> None" "jr_effects j1 (effect_key env i) \<noteq> None"
    and "j1 = put_intent env j i (pending_receipt digest owner opid)"
proof -
  obtain p where p: "make_receipt (pending_receipt digest owner opid) = Inr p" and body: "owned fc i (begin_body env j i p) = Inr j1"
    using assms by (auto simp: begin_effect_def split: sum.splits)
  have j1: "j1 = put_intent env j i (pending_receipt digest owner opid)"
    using body make_receipt_eq [OF p]
    by (auto simp: begin_body_def owned_def owned_write_transaction_def Let_def split: option.splits if_splits)
  show "get_effect env j1 i = Inr (Some r)" "rc_request_digest r = digest"
    using assms by (auto simp: begin_effect_def split: sum.splits option.splits if_splits)
  show "jr_index j1 (effect_key env i) \<noteq> None" "jr_effects j1 (effect_key env i) \<noteq> None"
    unfolding j1 put_intent_def by (simp_all add: insert_new_def split: option.splits)
  show "j1 = put_intent env j i (pending_receipt digest owner opid)" by (rule j1)
qed

lemma put_intent_known:
  "jr_index j (effect_key env i) \<noteq> None \<Longrightarrow> jr_effects j (effect_key env i) \<noteq> None \<Longrightarrow> put_intent env j i r = j"
  by (auto simp: put_intent_def insert_new_def)

text \<open>
  The first intent decides. Once an action was admitted, a later attempt to admit it (another worker,
  another attempt, any owner) that is answered is answered with the first receipt, changes nothing,
  and must ask for the very same request.
\<close>

theorem first_intent_decides:
  assumes "begin_effect env j fc i digest owner opid = (j1, Inr r1)"
    and "begin_effect env j1 fc' i digest' owner' opid' = (j2, Inr r2)"
  shows "r2 = r1 \<and> j2 = j1 \<and> digest' = digest"
proof -
  note first = begin_committed [OF assms(1)] and second = begin_committed [OF assms(2)]
  have "j2 = j1" using second(5) put_intent_known [OF first(3,4)] by simp
  then show ?thesis using first(1,2) second(1,2) by auto
qed

theorem first_intent_decides_witness:
  "\<exists>j1 r1 r2. begin_effect plain_journal_env empty_journal no_fence ex_call ex_digest ''w'' None = (j1, Inr r1) \<and> rc_owner r1 = ''w'' \<and>
     begin_effect plain_journal_env j1 no_fence ex_call ex_digest ''v'' None = (j1, Inr r2) \<and> r2 = r1"
proof -
  have first: "begin_effect plain_journal_env empty_journal no_fence ex_call ex_digest ''w'' None =
      (put_intent plain_journal_env empty_journal ex_call (pending_receipt ex_digest ''w'' None), Inr (pending_receipt ex_digest ''w'' None))"
    by (rule ex_begin) simp_all
  have second: "begin_effect plain_journal_env (put_intent plain_journal_env empty_journal ex_call (pending_receipt ex_digest ''w'' None))
      no_fence ex_call ex_digest ''v'' None =
      (put_intent plain_journal_env empty_journal ex_call (pending_receipt ex_digest ''w'' None), Inr (pending_receipt ex_digest ''w'' None))"
    by (rule ex_begin_again) simp_all
  from first_intent_decides [OF first second] first second show ?thesis by auto
qed

text \<open>
  An internal decision is made once. After a policy decision (a clock reading, a random delay, a
  deadline) was recorded, asking again under the same request returns the recorded receipt and
  never the value drawn later, whatever that is, even when drawing it would raise.
\<close>

theorem recorded_decision_replayed:
  assumes "record_value env j fc i digest v = (j1, Inr r)" and "owned fc' i (Inr ()) = Inr ()"
  shows "record_value env j1 fc' i digest v' = (j1, Inr r)"
proof -
  have op: "starts_with ''policy:'' (ei_operation i)" using assms(1) by (auto simp: record_value_def split: if_splits)
  have "record_body env j i digest v = Inr (j1, r)"
    using assms(1) op
    by (auto simp: record_value_def owned_def owned_write_transaction_def split: sum.splits option.splits if_splits)
  then have get: "get_effect env j1 i = Inr (Some r)" "rc_status r = ''completed''" "rc_request_digest r = digest"
    by (auto simp: record_body_def split: option.splits if_splits)
  then have "record_body env j1 i digest v' = Inr (j1, r)" by (simp add: record_body_def)
  moreover have "owned fc' i b = b" for b :: "(journal \<times> effect_receipt) res"
    using assms(2) by (auto simp: owned_def owned_write_transaction_def split: option.splits if_splits)
  ultimately show ?thesis using op by (simp add: record_value_def)
qed

definition ex_clock :: effect_identity where
  "ex_clock = ex_call\<lparr>ei_operation := ''policy:clock:v1''\<rparr>"

theorem recorded_decision_replayed_witness:
  "\<exists>j1 r. record_value plain_journal_env empty_journal no_fence ex_clock ex_digest (Inr (PInt 7)) = (j1, Inr r) \<and> rc_output r = PInt 7 \<and>
     record_value plain_journal_env j1 no_fence ex_clock ex_digest (Inl OverflowError) = (j1, Inr r)"
proof -
  let ?r = "decision_receipt ex_digest (PInt 7)"
  let ?k = "effect_key plain_journal_env ex_clock"
  let ?j = "empty_journal\<lparr>jr_index := [?k \<mapsto> identity_row ex_clock], jr_effects := [?k \<mapsto> receipt_row plain_journal_env False ?r]\<rparr>"
  have ok: "receipt_ok ?r" and make: "make_receipt ?r = Inr ?r"
    by (simp_all add: receipt_ok_def make_receipt_def decision_receipt_def pending_receipt_def opt_ok_def
        validate_expression_data.simps MAX_SAFE_INTEGER_def)
  have insert: "insert_completed_receipt plain_journal_env empty_journal ex_clock ?r = Inr ?j"
    by (simp add: insert_completed_receipt_def insert_receipt_def insert_new_def empty_journal_def receipt_row_def)
  have get: "get_effect plain_journal_env ?j ex_clock = Inr (Some ?r)"
    using receipt_reads_back [OF ok]
    by (simp add: get_effect_def receipt_row_def size_limit_def starts_with_def ex_clock_def opt_ok_def
        child_binding_ok_def schedule_ok_def)
  have absent: "get_effect plain_journal_env empty_journal ex_clock = Inr None"
    by (simp add: get_effect_None empty_journal_def)
  have "record_body plain_journal_env empty_journal ex_clock ex_digest (Inr (PInt 7)) = Inr (?j, ?r)"
    using insert get make absent by (simp add: record_body_def validate_expression_data.simps MAX_SAFE_INTEGER_def)
  then have "record_value plain_journal_env empty_journal no_fence ex_clock ex_digest (Inr (PInt 7)) = (?j, Inr ?r)"
    by (simp add: record_value_def owned_def no_fence_def) (simp add: starts_with_def ex_clock_def)
  from recorded_decision_replayed [OF this, of no_fence "Inl OverflowError"] this show ?thesis
    by (auto simp: no_fence_def owned_def)
qed

end
