(* ===== verification/Effect_Dispatch.thy ===== *)
theory Effect_Dispatch
  imports Effect_Journal Workflow_Executor
begin

text \<open>
  How the executor runs an action through the journal (\<^verbatim>\<open>workflow.py\<close>: \<^verbatim>\<open>_run_effect_scoped\<close>, \<^verbatim>\<open>_store_effect_outcome\<close>,
  \<^verbatim>\<open>_effect_result\<close>). Admitting an action either replays its receipt, gives the right to dispatch it, or
  fails; the dispatch itself happens outside the journal, and its answer is settled afterwards.
  Between the two, other workers run, the process may die and the answer may never come. The
  admission of prepared OpenAPI and A2A calls and the recovery of trusted HTTP receivers are not
  modelled.
\<close>

section \<open>Admission\<close>

datatype admission = Replay effect_receipt | Dispatch string

definition recovery_required :: "'a res \<Rightarrow> 'a res" where
  "recovery_required r =
     (case r of Inl e \<Rightarrow> Inl (if e = WorkflowExecutionError then EffectRecoveryRequired else e) | Inr a \<Rightarrow> Inr a)"

text \<open>An expired retry budget only reconciles what is known.\<close>

definition reconcile_action :: "journal_env \<Rightarrow> journal \<Rightarrow> effect_identity \<Rightarrow> string \<Rightarrow> pyval \<Rightarrow> admission res" where
  "reconcile_action env j i call payload =
     bindE (get_effect env j i) (\<lambda>known.
       case known of
         None \<Rightarrow> Inl WorkflowExecutionError
       | Some r \<Rightarrow>
           if rc_status r = ''pending'' then Inl EffectRecoveryRequired
           else bindE (effect_request_digest env call payload) (\<lambda>digest.
             if rc_request_digest r \<noteq> digest then Inl EffectRecoveryRequired else Inr (Replay r)))"

definition admit_action ::
  "journal_env \<Rightarrow> journal \<Rightarrow> fence \<Rightarrow> effect_identity \<Rightarrow> string \<Rightarrow> pyval \<Rightarrow> string \<Rightarrow> string option \<Rightarrow> bool \<Rightarrow> bool \<Rightarrow>
   journal \<times> admission res" where
  "admit_action env j fc i call payload owner opid native_memory reconcile =
     (if reconcile then (j, reconcile_action env j i call payload)
      else case effect_request_digest env call payload of
        Inl e \<Rightarrow> (j, Inl e)
      | Inr digest \<Rightarrow>
          (case begin_effect env j fc i digest owner opid of
             (j', Inl e) \<Rightarrow> (j', recovery_required (Inl e))
           | (j', Inr r) \<Rightarrow>
               (j', if rc_status r \<noteq> ''pending'' then Inr (Replay r)
                    else if rc_owner r = owner then Inr (Dispatch owner)
                    else if native_memory then Inr (Dispatch (rc_owner r))
                    else Inl EffectRecoveryRequired)))"

section \<open>Settlement\<close>

text \<open>What a dispatch may come to: a value, or an exception with its fault.\<close>

definition uncertain :: "exn \<Rightarrow> bool" where
  "uncertain e \<longleftrightarrow> e \<in> {McpOutcomeUncertain, ModelOutcomeUncertain, A2AOutcomeUncertain, OpenApiOutcomeUncertain, GrpcOutcomeUncertain}"

definition fault_outcome :: "string \<Rightarrow> string \<Rightarrow> fault \<Rightarrow> outcome" where
  "fault_outcome task_name opid f =
     (let f = (if exn_code (f_exn f) \<noteq> None then f
               else mk_fault WorkflowExecutionError (''task '' @ task_name @ '' failed'') [(''task'', PStr task_name)])
      in \<lparr>oc_output = PNone, oc_error = PDict (error_details f), oc_error_status = Some (int (f_status f)),
          oc_operation_id = Some opid, oc_child = None\<rparr>)"

definition value_outcome :: "pyval \<Rightarrow> string \<Rightarrow> child_dependency option \<Rightarrow> outcome" where
  "value_outcome v opid child =
     \<lparr>oc_output = v, oc_error = PNone, oc_error_status = None, oc_operation_id = Some opid, oc_child = child\<rparr>"

definition store_outcome ::
  "journal_env \<Rightarrow> journal \<Rightarrow> fence \<Rightarrow> effect_identity \<Rightarrow> string \<Rightarrow> bool \<Rightarrow> outcome \<Rightarrow> journal \<times> effect_receipt res" where
  "store_outcome env j fc i owner protected oc =
     (let (j', r) = (if protected then finish_owned env j fc i owner oc
                     else if ei_operation i = ''call:grpc'' then finish_grpc env j fc i owner oc
                     else finish env j i owner oc)
      in (j', recovery_required r))"

definition effect_error_type :: "string \<Rightarrow> exn" where
  "effect_error_type code =
     (case filter (\<lambda>e. exn_code e = Some code)
        [InvocationCancelled, WorkflowSemanticError, UnsupportedWorkflowFeature, ExpressionError, ToolError, ModelError,
         AgentError, KnowledgeError, MemoryError] of
        [] \<Rightarrow> WorkflowExecutionError | e # _ \<Rightarrow> e)"

definition effect_result :: "effect_receipt \<Rightarrow> fault + pyval" where
  "effect_result r =
     (if rc_error r \<noteq> PNone then
        (let kind = effect_error_type (case get_field (rc_error r) ''code'' of PStr c \<Rightarrow> c | _ \<Rightarrow> []) in
         Inl \<lparr>f_exn = kind,
              f_message = (case get_field (rc_error r) ''message'' of PStr m \<Rightarrow> m | _ \<Rightarrow> []),
              f_details = (case get_field (rc_error r) ''details'' of PDict d \<Rightarrow> d | _ \<Rightarrow> []),
              f_status = (case rc_error_status_code r of Some n \<Rightarrow> nat n | None \<Rightarrow> exn_status_code kind)\<rparr>)
      else Inr (rc_output r))"

text \<open>
  The answer of a dispatch. A value that is no JSON data counts as a failure of the dispatch; an
  uncertain outcome, a cancellation or a lost lease leave the intent pending.
\<close>

definition settle_action ::
  "journal_env \<Rightarrow> journal \<Rightarrow> fence \<Rightarrow> effect_identity \<Rightarrow> string \<Rightarrow> bool \<Rightarrow> string \<Rightarrow> string \<Rightarrow> child_dependency option \<Rightarrow>
   (fault + pyval) \<Rightarrow> journal \<times> (fault + pyval)" where
  "settle_action env j fc i owner protected task_name opid child answer =
     (let answer = (case answer of
            Inr v \<Rightarrow> (case validate_expression_data 0 64 v of Inl e \<Rightarrow> Inl (mk_fault e [] []) | Inr _ \<Rightarrow> Inr v)
          | Inl f \<Rightarrow> Inl f)
      in case answer of
        Inl f \<Rightarrow>
          if uncertain (f_exn f) then (j, Inl (f\<lparr>f_exn := EffectRecoveryRequired\<rparr>))
          else if f_exn f = InvocationCancelled \<or> f_exn f = InvocationStateConflict then (j, Inl f)
          else (case store_outcome env j fc i owner protected ((fault_outcome task_name opid f)\<lparr>oc_child := child\<rparr>) of
                  (j', Inl e) \<Rightarrow> (j', Inl (mk_fault e [] []))
                | (j', Inr r) \<Rightarrow> (j', Inl f))
      | Inr v \<Rightarrow>
          (case store_outcome env j fc i owner protected (value_outcome v opid child) of
             (j', Inl e) \<Rightarrow> (j', Inl (mk_fault e [] []))
           | (j', Inr r) \<Rightarrow> (j', effect_result r)))"

section \<open>Workers\<close>

text \<open>
  The journal, and a history of every dispatch that was allowed, by key and owner. A worker draws a
  fresh owner for every attempt (\<^verbatim>\<open>uuid4\<close>), so no stored row carries it. Any other operation on the
  journal may happen in between; calls of native memory handlers, which may adopt an earlier intent,
  are not dispatched by the steps below.
\<close>

record dispatch_state =
  ds_journal :: journal
  ds_history :: "(string \<times> string) list"

inductive dispatch_step :: "journal_env \<Rightarrow> dispatch_state \<Rightarrow> dispatch_state \<Rightarrow> bool" for env where
  admits: "\<forall>k row. jr_effects (ds_journal s) k = Some row \<longrightarrow> er_owner row \<noteq> owner \<Longrightarrow>
    admit_action env (ds_journal s) fc i call payload owner opid False reconcile = (j', Inr (Dispatch o')) \<Longrightarrow>
    dispatch_step env s (s\<lparr>ds_journal := j', ds_history := (effect_key env i, o') # ds_history s\<rparr>)"
| refuses: "\<forall>k row. jr_effects (ds_journal s) k = Some row \<longrightarrow> er_owner row \<noteq> owner \<Longrightarrow>
    admit_action env (ds_journal s) fc i call payload owner opid False reconcile = (j', r) \<Longrightarrow> \<forall>o'. r \<noteq> Inr (Dispatch o') \<Longrightarrow>
    dispatch_step env s (s\<lparr>ds_journal := j'\<rparr>)"
| settles: "(effect_key env i, owner) \<in> set (ds_history s) \<Longrightarrow> opt_ok child_ok child \<Longrightarrow>
    settle_action env (ds_journal s) fc i owner protected name opid child answer = (j', r) \<Longrightarrow>
    dispatch_step env s (s\<lparr>ds_journal := j'\<rparr>)"
| others: "journal_step env (ds_journal s) j' \<Longrightarrow> dispatch_step env s (s\<lparr>ds_journal := j'\<rparr>)"

definition dispatch_init :: "dispatch_state \<Rightarrow> bool" where
  "dispatch_init s \<longleftrightarrow> ds_history s = []"

definition dispatch_inv :: "dispatch_state \<Rightarrow> bool" where
  "dispatch_inv s \<longleftrightarrow> distinct (map fst (ds_history s)) \<and>
     (\<forall>(k, w) \<in> set (ds_history s). \<exists>row. jr_effects (ds_journal s) k = Some row \<and> er_owner row = w)"

lemma inv_grows: "dispatch_inv s \<Longrightarrow> journal_grows (ds_journal s) j' \<Longrightarrow> dispatch_inv (s\<lparr>ds_journal := j'\<rparr>)"
  unfolding dispatch_inv_def journal_grows_def row_later_def by fastforce

lemma admit_grows: "journal_grows j (fst (admit_action env j fc i call payload owner opid nm rc))"
  using begin_grows [of j env fc i _ owner opid]
  by (auto simp: admit_action_def journal_grows_refl split: sum.splits prod.splits) (metis fst_conv)+

lemma store_grows: "opt_ok child_ok (oc_child oc) \<Longrightarrow> journal_grows j (fst (store_outcome env j fc i owner protected oc))"
  using finish_owned_grows [of oc j env fc i owner] finish_grpc_grows [of j env fc i owner oc] finish_grows [of oc j env i owner]
  by (auto simp: store_outcome_def split: prod.splits)

lemma settle_grows:
  assumes "opt_ok child_ok child"
  shows "journal_grows j (fst (settle_action env j fc i owner protected name opid child answer))"
proof -
  have "opt_ok child_ok (oc_child (value_outcome v opid child))" "opt_ok child_ok (oc_child ((fault_outcome name opid f)\<lparr>oc_child := child\<rparr>))" for v f
    using assms by (simp_all add: value_outcome_def)
  note stored = store_grows [OF this(1)] store_grows [OF this(2)]
  show ?thesis
    unfolding settle_action_def Let_def
    by (auto simp: journal_grows_refl split: sum.splits prod.splits if_splits) (metis stored fst_conv)+
qed

lemma reconcile_no_dispatch: "reconcile_action env j i call payload \<noteq> Inr (Dispatch w)"
  by (auto simp: reconcile_action_def split: option.split if_split)

lemma admit_dispatchE:
  assumes "admit_action env j fc i call payload owner opid False reconcile = (j', Inr (Dispatch w))"
  obtains digest r where "begin_effect env j fc i digest owner opid = (j', Inr r)" "rc_owner r = owner" "w = owner"
proof -
  have "\<not> reconcile" using assms reconcile_no_dispatch by (auto simp: admit_action_def)
  then obtain digest where digest: "effect_request_digest env call payload = Inr digest"
    using assms by (cases "effect_request_digest env call payload") (auto simp: admit_action_def)
  obtain j1 res where run: "begin_effect env j fc i digest owner opid = (j1, res)" by fastforce
  show ?thesis
  proof (cases res)
    case (Inl e)
    then show ?thesis using assms run digest \<open>\<not> reconcile\<close> by (simp add: admit_action_def recovery_required_def)
  next
    case (Inr r)
    have "j1 = j' \<and> rc_owner r = owner \<and> w = owner"
      using assms run digest Inr \<open>\<not> reconcile\<close> by (simp add: admit_action_def split: if_splits)
    then show ?thesis using that [of digest r] run Inr by blast
  qed
qed

text \<open>The right to dispatch comes with the first row of the key.\<close>

lemma dispatch_first:
  assumes "admit_action env j fc i call payload owner opid False reconcile = (j', Inr (Dispatch w))"
    and fresh: "\<forall>k row. jr_effects j k = Some row \<longrightarrow> er_owner row \<noteq> owner"
  shows "jr_effects j (effect_key env i) = None" "\<exists>row. jr_effects j' (effect_key env i) = Some row \<and> er_owner row = w"
proof -
  obtain digest r where run: "begin_effect env j fc i digest owner opid = (j', Inr r)" and r: "rc_owner r = owner" "w = owner"
    by (rule admit_dispatchE [OF assms(1)])
  obtain row where row: "jr_effects j' (effect_key env i) = Some row" "er_owner row = rc_owner r"
    using get_effect_row [OF begin_committed(1) [OF run]] by metis
  show "\<exists>row. jr_effects j' (effect_key env i) = Some row \<and> er_owner row = w" using row r by simp
  show "jr_effects j (effect_key env i) = None"
  proof (rule ccontr)
    assume "jr_effects j (effect_key env i) \<noteq> None"
    then obtain old where old: "jr_effects j (effect_key env i) = Some old" by blast
    have "journal_grows j j'" using begin_grows [of j env fc i digest owner opid] run by simp
    then have "er_owner row = er_owner old" using old row(1) by (fastforce simp: journal_grows_def row_later_def)
    then show False using fresh old row r by auto
  qed
qed

lemma dispatch_inv_step: "dispatch_inv s \<Longrightarrow> dispatch_step env s t \<Longrightarrow> dispatch_inv t"
proof (erule dispatch_step.cases, goal_cases)
  case (1 s' owner fc i call payload opid reconcile j' w)
  have grows: "journal_grows (ds_journal s) j'"
    using admit_grows [of "ds_journal s" env fc i call payload owner opid False reconcile] 1 by simp
  have first: "jr_effects (ds_journal s) (effect_key env i) = None"
    and row: "\<exists>row. jr_effects j' (effect_key env i) = Some row \<and> er_owner row = w"
    using dispatch_first [of env "ds_journal s" fc i call payload owner opid reconcile j' w] 1 by simp_all
  have "effect_key env i \<notin> fst ` set (ds_history s)"
    using 1(1) first by (fastforce simp: dispatch_inv_def)
  moreover have "dispatch_inv (s\<lparr>ds_journal := j'\<rparr>)" using inv_grows 1(1) grows by blast
  ultimately show ?case using 1 row by (auto simp: dispatch_inv_def)
next
  case (2 s' owner fc i call payload opid reconcile j' r)
  then show ?case
    using admit_grows [of "ds_journal s" env fc i call payload owner opid False reconcile] inv_grows by simp
next
  case (3 i owner s' child fc protected name opid answer j' r)
  then show ?case
    using settle_grows [of child "ds_journal s" env fc i owner protected name opid answer] inv_grows by simp
next
  case (4 s' j')
  then show ?case using journal_step_grows inv_grows by blast
qed

interpretation disp: invariant_system dispatch_init "dispatch_step env" dispatch_inv for env
proof unfold_locales
  show "dispatch_inv s" if "dispatch_init s" for s
    using that by (simp add: dispatch_init_def dispatch_inv_def)
qed (rule dispatch_inv_step)


text \<open>Two attempts at one call: the first may dispatch it, the second finds its intent unresolved.\<close>

definition ex_request :: string where
  "ex_request = toy_digest (case json_dumps False (je_float_repr plain_journal_env) (sort_keys (PList [PStr ''http'', PNone])) of Inr t \<Rightarrow> t | Inl _ \<Rightarrow> [])"

lemma ex_request_digest: "effect_request_digest plain_journal_env ''http'' PNone = Inr ex_request"
  by (simp add: effect_request_digest_def ex_request_def digest_of_def validate_expression_data.simps plain_journal_env_def)


section \<open>Replay\<close>

lemma finish_stored: "finish env j i owner oc = (j', Inr r) \<Longrightarrow> get_effect env j' i = Inr (Some r) \<and> rc_status r \<noteq> ''pending''"
  by (auto simp: finish_def Let_def split: sum.splits option.splits if_splits)

lemma owned_body_stored:
  assumes "owned_body env j fc i owner oc = Inr (j', r)"
  shows "get_effect env j' i = Inr (Some r) \<and> rc_status r \<noteq> ''pending''"
proof -
  obtain r0 where get: "get_effect env j i = Inr (Some r0)" using assms by (auto simp: owned_body_def split: option.splits)
  show ?thesis
  proof (cases "rc_status r0 = ''pending''")
    case True
    then have p: "make_receipt (with_outcome r0 oc (or_else (oc_child oc) (rc_child r0))) = Inr r"
      and stored: "get_effect env j' i = Inr (Some r)"
      using assms get by (auto simp: owned_body_def Let_def split: if_splits)
    have "rc_status r \<noteq> ''pending''" unfolding make_receipt_eq [OF p] by (simp add: with_outcome_def)
    then show ?thesis using stored by simp
  next
    case False
    then show ?thesis using assms get by (auto simp: owned_body_def split: if_splits)
  qed
qed

lemma finish_owned_stored:
  "finish_owned env j fc i owner oc = (j', Inr r) \<Longrightarrow> get_effect env j' i = Inr (Some r) \<and> rc_status r \<noteq> ''pending''"
  by (rule owned_body_stored [of env j fc i owner oc])
    (auto simp: finish_owned_def owned_def owned_write_transaction_def split: sum.splits option.splits if_splits)

lemma store_stored:
  assumes "store_outcome env j fc i owner protected oc = (j', Inr r)"
  shows "get_effect env j' i = Inr (Some r) \<and> rc_status r \<noteq> ''pending''"
proof -
  consider "finish_owned env j fc i owner oc = (j', Inr r)" | "finish_owned env j fc i owner (oc\<lparr>oc_child := None\<rparr>) = (j', Inr r)"
    | "finish env j i owner oc = (j', Inr r)"
    using assms
    by (auto simp: store_outcome_def finish_grpc_def recovery_required_def Let_def split: prod.splits sum.splits if_splits)
  then show ?thesis using finish_owned_stored finish_stored by cases blast+
qed

lemma settle_stored:
  assumes "settle_action env j fc i owner protected name opid child answer = (j', Inr v)"
  obtains r where "get_effect env j' i = Inr (Some r)" "rc_status r \<noteq> ''pending''" "effect_result r = Inr v"
proof -
  obtain w r where "store_outcome env j fc i owner protected (value_outcome w opid child) = (j', Inr r)" "effect_result r = Inr v"
    using assms by (auto simp: settle_action_def Let_def split: sum.splits prod.splits if_splits)
  then show ?thesis using store_stored that by blast
qed

lemma settled_get_stable:
  assumes "journal_grows j j'" "get_effect env j i = Inr (Some r)" "rc_status r \<noteq> ''pending''"
  shows "get_effect env j' i = Inr (Some r)"
proof -
  obtain row where "jr_effects j (effect_key env i) = Some row" "er_status row = rc_status r"
    using assms(2) by (rule get_effect_row)
  then have "jr_effects j' (effect_key env i) = jr_effects j (effect_key env i)"
    using assms(1,3) by (fastforce simp: journal_grows_def row_later_def)
  then show ?thesis using assms(2) by (simp add: get_effect_def)
qed

lemma grows_digest:
  assumes "journal_grows j j'" "get_effect env j i = Inr (Some r0)" "get_effect env j' i = Inr (Some r)"
  shows "rc_request_digest r = rc_request_digest r0"
proof -
  obtain row0 where row0: "jr_effects j (effect_key env i) = Some row0" "receipt_from_payload (er_payload row0) = Inr r0"
    using assms(2) by (rule get_effect_row)
  obtain row where row: "jr_effects j' (effect_key env i) = Some row" "receipt_from_payload (er_payload row) = Inr r"
    using assms(3) by (rule get_effect_row)
  have "row_later row0 row" using assms(1) row0(1) row(1) unfolding journal_grows_def by fastforce
  then show ?thesis using row0(2) row(2) by (simp add: row_later_def row_receipt_def)
qed

lemma admit_replays:
  assumes get: "get_effect env j i = Inr (Some r)" and settled: "rc_status r \<noteq> ''pending''"
    and digest: "effect_request_digest env call payload = Inr (rc_request_digest r)"
    and owner: "owner \<noteq> []" and fence: "owned fc i (Inr ()) = Inr ()"
  shows "snd (admit_action env j fc i call payload owner opid nm reconcile) = Inr (Replay r)"
proof (cases reconcile)
  case True
  then show ?thesis using get settled digest by (simp add: admit_action_def reconcile_action_def)
next
  case False
  let ?p = "pending_receipt (rc_request_digest r) owner opid"
  obtain row where ok: "receipt_ok r" using get by (rule get_effect_row)
  then have "is_digest (rc_request_digest r)" by (auto simp: receipt_ok_def make_receipt_def)
  then have make: "make_receipt ?p = Inr ?p" using ex_pending_ok [OF _ owner] by (simp add: receipt_ok_def)
  have open_fence: "owned fc i b = b" for b :: "journal res"
    using fence by (auto simp: owned_def owned_write_transaction_def split: option.splits if_splits)
  have "get_effect env (put_intent env j i ?p) i = Inr (Some r)"
    by (rule settled_get_stable [OF _ get settled]) (simp add: put_intent_def insert_grows)
  then have "begin_effect env j fc i (rc_request_digest r) owner opid = (put_intent env j i ?p, Inr r)"
    using get settled by (simp add: begin_effect_def make open_fence begin_body_def)
  then show ?thesis using False digest settled by (simp add: admit_action_def)
qed

text \<open>
  \<^bold>\<open>C10.\<close> An answered action is replayed, never dispatched again. If settling a dispatch returned a value,
  then after any further activity on the journal every later admission of the same request, by any
  worker that may write and even under an expired retry budget, replays a receipt that yields
  exactly that value.
\<close>

theorem answered_action_replayed:
  assumes "settle_action env j fc i owner protected name opid child answer = (j1, Inr v)" "opt_ok child_ok child"
    and "get_effect env j i = Inr (Some r0)" "effect_request_digest env call payload = Inr (rc_request_digest r0)"
    and "(journal_step env)\<^sup>*\<^sup>* j1 j2" "owner' \<noteq> []" "owned fc' i (Inr ()) = Inr ()"
  shows "\<exists>r. snd (admit_action env j2 fc' i call payload owner' opid' nm reconcile) = Inr (Replay r) \<and> effect_result r = Inr v"
proof -
  obtain r where r: "get_effect env j1 i = Inr (Some r)" "rc_status r \<noteq> ''pending''" "effect_result r = Inr v"
    by (rule settle_stored [OF assms(1)])
  have "journal_grows j j1"
    using settle_grows [OF assms(2), of j env fc i owner protected name opid answer] assms(1) by simp
  then have digest: "rc_request_digest r = rc_request_digest r0" by (rule grows_digest [OF _ assms(3) r(1)])
  have "journal_grows j1 j2" by (rule grow.run_rel_only [OF assms(5)]) simp
  then have "get_effect env j2 i = Inr (Some r)" by (rule settled_get_stable [OF _ r(1,2)])
  from admit_replays [OF this r(2) _ assms(6,7)] show ?thesis using assms(4) digest r(3) by auto
qed

theorem answered_action_replayed_witness:
  "\<exists>j1. settle_action plain_journal_env (put_intent plain_journal_env empty_journal ex_call (pending_receipt ex_request ''w'' None))
       no_fence ex_call ''w'' False ''a'' ''op'' None (Inr (PInt 7)) = (j1, Inr (PInt 7)) \<and>
     (\<exists>r. snd (admit_action plain_journal_env j1 no_fence ex_call ''http'' PNone ''v'' None False False) = Inr (Replay r) \<and>
          effect_result r = Inr (PInt 7))"
proof -
  let ?p = "pending_receipt ex_request ''w'' None"
  let ?j = "put_intent plain_journal_env empty_journal ex_call ?p"
  let ?oc = "value_outcome (PInt 7) ''op'' None"
  let ?r = "with_outcome ?p ?oc None"
  have digest: "is_digest ex_request" by (simp add: ex_request_def)
  have get: "get_effect plain_journal_env ?j ex_call = Inr (Some ?p)"
    by (rule get_effect_plain) (simp_all add: put_intent_def insert_new_def empty_journal_def ex_pending_ok digest)
  have ok: "receipt_ok ?r" and make: "make_receipt ?r = Inr ?r"
    using digest
    by (simp_all add: receipt_ok_def make_receipt_def with_outcome_def pending_receipt_def value_outcome_def opt_ok_def or_else_def
        validate_expression_data.simps MAX_SAFE_INTEGER_def)
  let ?j1 = "put_outcome plain_journal_env ?j ex_call ''w'' ?r"
  have row: "jr_effects ?j1 (effect_key plain_journal_env ex_call) = Some (receipt_row plain_journal_env False ?r)"
    by (simp add: put_outcome_def put_intent_def insert_new_def empty_journal_def receipt_row_def with_outcome_def)
  have stored: "get_effect plain_journal_env ?j1 ex_call = Inr (Some ?r)"
    by (rule get_effect_plain [OF row ok]) (simp add: with_outcome_def)
  have "finish plain_journal_env ?j ex_call ''w'' ?oc = (?j1, Inr ?r)"
    using make stored by (simp add: finish_def get value_outcome_def) (simp add: with_outcome_def)
  then have settled: "settle_action plain_journal_env ?j no_fence ex_call ''w'' False ''a'' ''op'' None (Inr (PInt 7)) = (?j1, Inr (PInt 7))"
    by (simp add: settle_action_def store_outcome_def recovery_required_def validate_expression_data.simps MAX_SAFE_INTEGER_def ex_call_def)
      (simp add: effect_result_def with_outcome_def value_outcome_def)
  from answered_action_replayed [OF settled _ get _ rtranclp.rtrancl_refl, of "''http''" PNone "''v''" no_fence None False False] settled
  show ?thesis by (auto simp: ex_request_digest no_fence_def owned_def opt_ok_def)
qed

end
