(* ===== verification/Effect_Spec.thy ===== *)
theory Effect_Spec
  imports Effect_Dispatch
begin

text \<open>
  What the journal promises, without tables, payloads and transactions: one cell per action, empty,
  holding the intent of its first owner, or holding its outcome. A cell is filled once and answered
  once, by the owner of its intent and for its request. Every operation of the journal refines
  that specification.
\<close>

section \<open>The specification\<close>

datatype cell = Absent | Intent string string | Outcome effect_receipt | Corrupt

type_synonym cells = "string \<Rightarrow> cell"

inductive cell_step :: "cells \<Rightarrow> cells \<Rightarrow> bool" where
  stays: "cell_step c c"
| admitted: "c k = Absent \<Longrightarrow> cell_step c (c(k := Intent w d))"
| decided: "c k = Absent \<Longrightarrow> rc_status r \<noteq> ''pending'' \<Longrightarrow> cell_step c (c(k := Outcome r))"
| answered: "c k = Intent w d \<Longrightarrow> rc_owner r = w \<Longrightarrow> rc_request_digest r = d \<Longrightarrow> rc_status r \<noteq> ''pending'' \<Longrightarrow>
    cell_step c (c(k := Outcome r))"

definition row_cell :: "effect_row \<Rightarrow> cell" where
  "row_cell row =
     (case row_receipt row of
        None \<Rightarrow> Corrupt
      | Some r \<Rightarrow>
          if er_owner row \<noteq> rc_owner r \<or> er_status row \<noteq> rc_status r then Corrupt
          else if rc_status r = ''pending'' then Intent (rc_owner r) (rc_request_digest r)
          else Outcome r)"

definition cell_of :: "journal \<Rightarrow> cells" where
  "cell_of j k = (case jr_effects j k of None \<Rightarrow> Absent | Some row \<Rightarrow> row_cell row)"

section \<open>The refinement\<close>

lemma row_cell_receipt:
  "receipt_ok r \<Longrightarrow> row_cell (receipt_row env b r) =
     (if rc_status r = ''pending'' then Intent (rc_owner r) (rc_request_digest r) else Outcome r)"
  using receipt_reads_back [of r] by (simp add: row_cell_def row_receipt_def receipt_row_def)

lemma insert_step:
  assumes "receipt_ok r" "jr_effects j' = insert_new k (receipt_row env b r) (jr_effects j)"
  shows "cell_step (cell_of j) (cell_of j')"
proof (cases "jr_effects j k")
  case None
  have "cell_of j' = (cell_of j)(k := row_cell (receipt_row env b r))"
    using None assms(2) by (auto simp: cell_of_def insert_new_def)
  moreover have "cell_of j k = Absent" using None by (simp add: cell_of_def)
  ultimately show ?thesis
    using row_cell_receipt [OF assms(1), of env b] by (auto intro: admitted decided)
next
  case (Some row)
  then have "cell_of j' = cell_of j" using assms(2) by (auto simp: cell_of_def insert_new_def)
  then show ?thesis by (simp add: stays)
qed

lemma outcome_step:
  assumes get: "get_effect env j i = Inr (Some r)" and p: "receipt_ok p" "rc_request_digest p = rc_request_digest r"
    "rc_owner p = rc_owner r" "rc_status p \<noteq> ''pending''"
  shows "cell_step (cell_of j) (cell_of (put_outcome env j i owner p))"
proof -
  let ?k = "effect_key env i"
  obtain row where row: "jr_effects j ?k = Some row" "receipt_from_payload (er_payload row) = Inr r"
    "er_owner row = rc_owner r" "er_status row = rc_status r" using get by (rule get_effect_row)
  show ?thesis
  proof (cases "er_owner row = owner \<and> er_status row = ''pending''")
    case True
    have "cell_of j ?k = Intent (rc_owner r) (rc_request_digest r)"
      using row True by (simp add: cell_of_def row_cell_def row_receipt_def)
    moreover have "cell_of (put_outcome env j i owner p) = (cell_of j)(?k := Outcome p)"
      using row True p receipt_reads_back [OF p(1)]
      by (auto simp: cell_of_def put_outcome_def row_cell_def row_receipt_def)
    ultimately show ?thesis using answered p by metis
  next
    case False
    then have "put_outcome env j i owner p = j" using row by (auto simp: put_outcome_def)
    then show ?thesis by (simp add: stays)
  qed
qed

lemma begin_step: "cell_step (cell_of j) (cell_of (fst (begin_effect env j fc i digest owner opid)))"
proof (cases "reraise {InvocationStateConflict} WorkflowExecutionError
             (bindE (make_receipt (pending_receipt digest owner opid)) (\<lambda>proposed. owned fc i (begin_body env j i proposed)))")
  case (Inr j')
  then obtain p where p: "make_receipt (pending_receipt digest owner opid) = Inr p" and "begin_body env j i p = Inr j'"
    by (auto simp: owned_def owned_write_transaction_def split: option.splits if_splits)
  then have j': "j' = put_intent env j i p" by (auto simp: begin_body_def Let_def)
  have "receipt_ok p" using p make_receipt_eq [OF p] by (simp add: receipt_ok_def pending_receipt_def opt_ok_def)
  then have "cell_step (cell_of j) (cell_of j')" unfolding j' by (rule insert_step) (simp add: put_intent_def)
  then show ?thesis unfolding begin_effect_def Inr by simp
qed (simp add: begin_effect_def stays)

lemma insert_receipt_step: "receipt_ok r \<Longrightarrow> insert_receipt env j i r = Inr j' \<Longrightarrow> cell_step (cell_of j) (cell_of j')"
  by (rule insert_step [of r _ "effect_key env i" env False]) (auto simp: insert_receipt_def Let_def split: option.splits)

lemma record_step: "cell_step (cell_of j) (cell_of (fst (record_value env j fc i digest v)))"
proof -
  have "cell_step (cell_of j) (cell_of j')" if run: "record_body env j i digest v = Inr (j', r)" for j' r
  proof (cases "j' = j")
    case False
    then obtain p where p: "make_receipt (decision_receipt digest p) = Inr (decision_receipt digest p)"
      and ins: "insert_completed_receipt env j i (decision_receipt digest p) = Inr j'"
      using run by (auto simp: record_body_def split: option.splits if_splits dest: make_receipt_eq)
    have "receipt_ok (decision_receipt digest p)"
      using p by (simp add: receipt_ok_def decision_receipt_def pending_receipt_def opt_ok_def)
    then show ?thesis using ins by (auto simp: insert_completed_receipt_def intro: insert_receipt_step split: if_splits)
  qed (simp add: stays)
  then show ?thesis
    by (auto simp: record_value_def owned_def owned_write_transaction_def stays split: sum.splits option.splits if_splits prod.splits)
qed

lemma with_outcome_facts:
  assumes "receipt_ok r" "make_receipt (with_outcome r oc c) = Inr p" "opt_ok child_ok c"
  shows "receipt_ok p" "rc_request_digest p = rc_request_digest r" "rc_owner p = rc_owner r" "rc_status p \<noteq> ''pending''"
  using outcome_receipt_ok [OF assms] make_receipt_eq [OF assms(2)] by (auto simp: with_outcome_def)

lemma finish_step:
  assumes "opt_ok child_ok (oc_child oc)"
  shows "cell_step (cell_of j) (cell_of (fst (finish env j i owner oc)))"
proof (cases "\<exists>r p. get_effect env j i = Inr (Some r) \<and> rc_owner r = owner \<and> make_receipt (with_outcome r oc (oc_child oc)) = Inr p")
  case True
  then obtain r p where get: "get_effect env j i = Inr (Some r)" and own: "rc_owner r = owner"
    and p: "make_receipt (with_outcome r oc (oc_child oc)) = Inr p" by blast
  obtain row where ok: "receipt_ok r" using get by (rule get_effect_row)
  have "cell_step (cell_of j) (cell_of (put_outcome env j i owner p))"
    by (rule outcome_step [OF get with_outcome_facts [OF ok p assms]])
  then show ?thesis using get own p by (simp add: finish_def Let_def)
next
  case False
  then have "fst (finish env j i owner oc) = j" by (auto simp: finish_def Let_def split: sum.splits option.splits)
  then show ?thesis by (simp add: stays)
qed

lemma owned_body_step:
  assumes run: "owned_body env j fc i owner oc = Inr (j', q)" and child: "opt_ok child_ok (oc_child oc)"
  shows "cell_step (cell_of j) (cell_of j')"
proof (cases "j' = j")
  case False
  then obtain r p where get: "get_effect env j i = Inr (Some r)"
    and p: "make_receipt (with_outcome r oc (or_else (oc_child oc) (rc_child r))) = Inr p" and j': "j' = put_outcome env j i owner p"
    using run by (auto simp: owned_body_def Let_def split: option.splits if_splits)
  obtain row where ok: "receipt_ok r" using get by (rule get_effect_row)
  have "opt_ok child_ok (or_else (oc_child oc) (rc_child r))"
    using child ok by (auto simp: or_else_def receipt_ok_def split: option.splits)
  then show ?thesis unfolding j' by (intro outcome_step [OF get with_outcome_facts [OF ok p]])
qed (simp add: stays)

lemma finish_owned_step:
  "opt_ok child_ok (oc_child oc) \<Longrightarrow> cell_step (cell_of j) (cell_of (fst (finish_owned env j fc i owner oc)))"
  by (auto simp: finish_owned_def owned_def owned_write_transaction_def split: sum.splits option.splits if_splits prod.splits
      intro: stays owned_body_step)

lemma child_body_step:
  assumes run: "child_body env j i digest cid oc = Inr (j', q)" and env: "\<forall>c d. je_capture env c = Inr d \<longrightarrow> child_ok d"
  shows "cell_step (cell_of j) (cell_of j')"
proof (cases "j' = j")
  case False
  let ?w = "\<lambda>r d. (with_outcome r oc (Some d))\<lparr>rc_status := (if truthy_error (oc_error oc) then ''faulted'' else ''completed''),
                     rc_operation_id := rc_operation_id r\<rparr>"
  obtain r where get: "get_effect env j i = Inr (Some r)" using run by (auto simp: child_body_def split: option.splits)
  obtain d p where d: "je_capture env cid = Inr d" and p: "make_receipt (?w r d) = Inr p"
    and j': "j' = put_outcome env j i (rc_owner r) p"
    using run False get by (auto simp: child_body_def split: if_splits)
  obtain row where ok: "receipt_ok r" using get by (rule get_effect_row)
  have "receipt_ok p \<and> rc_request_digest p = rc_request_digest r \<and> rc_owner p = rc_owner r \<and> rc_status p \<noteq> ''pending''"
    using p make_receipt_eq [OF p] ok d env by (auto simp: receipt_ok_def with_outcome_def opt_ok_def)
  then show ?thesis unfolding j' by (intro outcome_step [OF get]) simp_all
qed (simp add: stays)

lemma finish_child_step:
  "\<forall>c d. je_capture env c = Inr d \<longrightarrow> child_ok d \<Longrightarrow> cell_step (cell_of j) (cell_of (fst (finish_child env j fc i digest cid oc)))"
  by (auto simp: finish_child_def owned_def owned_write_transaction_def split: sum.splits option.splits if_splits prod.splits
      intro: stays child_body_step)

text \<open>
  \<^bold>\<open>C5.\<close> The journal refines its specification. Every operation (admitting an intent, recording a decision,
  inserting a receipt, storing an outcome in any of the four ways), successful or not, changes at
  most the one cell of its action, and only from empty to an intent or a decision, or from an intent
  to an outcome of the same owner and request.
\<close>

theorem journal_refines_cells:
  assumes "journal_step env j j'"
  shows "cell_step (cell_of j) (cell_of j')"
  using assms
  by (cases rule: journal_step.cases)
    (auto simp: insert_completed_receipt_def insert_pending_receipt_def finish_grpc_def opt_ok_def split: if_splits
      intro: begin_step record_step insert_receipt_step finish_step finish_owned_step finish_child_step stays)

theorem journal_refines_cells_witness:
  "cell_step (cell_of empty_journal) (cell_of (put_intent plain_journal_env empty_journal ex_call (pending_receipt ex_digest ''w'' None))) \<and>
   cell_of (put_intent plain_journal_env empty_journal ex_call (pending_receipt ex_digest ''w'' None)) (effect_key plain_journal_env ex_call)
     = Intent ''w'' ex_digest"
proof -
  have run: "begin_effect plain_journal_env empty_journal no_fence ex_call ex_digest ''w'' None =
      (put_intent plain_journal_env empty_journal ex_call (pending_receipt ex_digest ''w'' None), Inr (pending_receipt ex_digest ''w'' None))"
    by (rule ex_begin) simp_all
  have "journal_step plain_journal_env empty_journal (fst (begin_effect plain_journal_env empty_journal no_fence ex_call ex_digest ''w'' None))"
    by (rule begins)
  from journal_refines_cells [OF this] run show ?thesis
    by (simp add: cell_of_def put_intent_def insert_new_def empty_journal_def row_cell_receipt ex_pending_ok)
qed

end
