(* ===== verification/Timers.thy ===== *)
theory Timers
  imports Effect_Journal
begin

text \<open>
  Durable waits (\<^verbatim>\<open>timers.py\<close>): a timer is armed once, woken once (because it is due or because a
  resume was requested), claimed by one dispatcher at a time and consumed or cancelled. The table
  is an association list in insertion order beside the effect journal, which holds the arming and
  the wake receipts. Every operation runs in one transaction, so an operation that raises leaves
  the store unchanged; the clock reading is an argument.
\<close>

section \<open>Rows, registrations, wakes and claims\<close>

record timer_row =
  tr_invocation_id :: string
  tr_fingerprint :: string
  tr_payload :: pyval
  tr_state :: string
  tr_due_at :: rat
  tr_wake_at :: rat
  tr_claim_owner :: "string option"
  tr_generation :: int
  tr_lease_until :: "rat option"

record timer_store =
  ts_journal :: journal
  ts_timers :: "(string \<times> timer_row) list"
  ts_admission :: bool
  ts_max_pending :: int

record timer_registration =
  tg_identity :: effect_identity
  tg_armed_at :: rat
  tg_due_at :: rat
  tg_duration :: rat
  tg_receipt :: effect_receipt
  tg_source :: pyval
  tg_wake_at :: rat
  tg_deadline_at :: pyval

record timer_wake =
  tw_timer_key :: string
  tw_due_at :: rat
  tw_reason :: string
  tw_resume_input :: pyval
  tw_receipt :: effect_receipt

record timer_claim =
  tc_registration :: timer_registration
  tc_owner :: string
  tc_generation :: int
  tc_lease_until :: rat

record timer_suspension =
  tu_identity :: effect_identity
  tu_due_at :: rat

text \<open>A finite number that is not a boolean, and one that is positive.\<close>

definition some_number :: "exn \<Rightarrow> pyval \<Rightarrow> rat res" where
  "some_number e v = bindE (finite_number v) (\<lambda>x. case x of None \<Rightarrow> Inl e | Some q \<Rightarrow> Inr q)"

definition positive_number :: "exn \<Rightarrow> pyval \<Rightarrow> rat res" where
  "positive_number e v = bindE (some_number e v) (\<lambda>q. bindE (guardE (0 < q) e) (\<lambda>_. Inr q))"

definition require :: "exn \<Rightarrow> 'a option \<Rightarrow> 'a res" where
  "require e x = (case x of None \<Rightarrow> Inl e | Some a \<Rightarrow> Inr a)"

lemma require_eq_Inr [simp]: "require e x = Inr a \<longleftrightarrow> x = Some a"
  by (simp add: require_def split: option.splits)

text \<open>\<^verbatim>\<open>value[key]\<close>\<close>

definition item :: "pyval \<Rightarrow> string \<Rightarrow> pyval res" where
  "item v k = (case v of PDict d \<Rightarrow> (case dict_get d k of None \<Rightarrow> Inl KeyError | Some x \<Rightarrow> Inr x) | _ \<Rightarrow> Inl TypeError)"

definition make_suspension :: "effect_identity \<Rightarrow> pyval \<Rightarrow> timer_suspension res" where
  "make_suspension i due_at =
     bindE (guardE (ei_operation i = ''wait:arm:v1'') WorkflowExecutionError) (\<lambda>_.
     bindE (positive_number WorkflowExecutionError due_at) (\<lambda>q. Inr \<lparr>tu_identity = i, tu_due_at = q\<rparr>))"

definition suspension_value :: "timer_suspension \<Rightarrow> pyval" where
  "suspension_value u = PDict [(''profile'', PStr ''owa/timer-suspension/v1''), (''identity'', identity_value (tu_identity u)),
     (''due_at'', PFloat (FFin (tu_due_at u)))]"

definition suspension_from_value :: "pyval \<Rightarrow> timer_suspension res" where
  "suspension_from_value v =
     catching {TypeError, ValueError, KeyError} WorkflowExecutionError
       (bindE (guardE (exact_keys v [''profile'', ''identity'', ''due_at''] \<and>
           get_field v ''profile'' = PStr ''owa/timer-suspension/v1'') ValueError) (\<lambda>_.
        bindE (identity_from_value (get_field v ''identity'')) (\<lambda>i. make_suspension i (get_field v ''due_at''))))"

section \<open>Arming\<close>

definition live_states :: "string list" where
  "live_states = [''pending'', ''woken'']"

definition timer_states :: "string list" where
  "timer_states = [''pending'', ''woken'', ''consumed'', ''cancelled'']"

definition arm_request :: "effect_identity \<Rightarrow> pyval \<Rightarrow> pyval \<Rightarrow> pyval \<Rightarrow> pyval" where
  "arm_request i duration source deadline = PDict
     [(''duration'', duration), (''workflow_fingerprint'', PStr (ei_fingerprint i)), (''source'', source), (''deadline_at'', deadline)]"

text \<open>\<^verbatim>\<open>min(due_at, deadline_at)\<close>; a deadline that is not a number is refused in another check.\<close>

definition min_deadline :: "rat \<Rightarrow> pyval \<Rightarrow> rat" where
  "min_deadline due deadline = (case num_value deadline of None \<Rightarrow> due | Some q \<Rightarrow> min due q)"

definition deadline_after :: "exn \<Rightarrow> rat \<Rightarrow> pyval \<Rightarrow> unit res" where
  "deadline_after e start deadline =
     (if deadline = PNone then Inr ()
      else bindE (some_number e deadline) (\<lambda>q. guardE (start < q) e))"

definition arming_fields :: "string list" where
  "arming_fields = [''profile'', ''armed_at'', ''duration'', ''due_at'', ''workflow_fingerprint'', ''wake_at'', ''deadline_at'']"

text \<open>\<^verbatim>\<open>TimerStore.get\<close>: the row and its receipt must agree on the whole arming.\<close>

definition read_timer :: "journal_env \<Rightarrow> timer_store \<Rightarrow> effect_identity \<Rightarrow> timer_row \<Rightarrow> timer_registration res" where
  "read_timer env s i row =
     (let value = tr_payload row in
      bindE (item value ''arming'') (\<lambda>arming.
      bindE (get_effect env (ts_journal s) i) (\<lambda>saved.
      bindE (guardE (exact_keys value [''identity'', ''source'', ''arming'']) ValueError) (\<lambda>_.
      bindE (identity_from_value (get_field value ''identity'')) (\<lambda>stored.
      bindE (guardE (stored = i \<and> tr_invocation_id row = ei_invocation_id i \<and> tr_fingerprint row = ei_fingerprint i
          \<and> tr_state row \<in> set timer_states \<and> ei_operation i = ''wait:arm:v1'' \<and> exact_keys arming arming_fields
          \<and> get_field arming ''profile'' = PStr ''owa/wait-arm/v1''
          \<and> get_field arming ''workflow_fingerprint'' = PStr (ei_fingerprint i)) ValueError) (\<lambda>_.
      bindE (positive_number ValueError (get_field arming ''armed_at'')) (\<lambda>armed_at.
      bindE (positive_number ValueError (get_field arming ''duration'')) (\<lambda>duration.
      bindE (positive_number ValueError (get_field arming ''due_at'')) (\<lambda>due_at.
      let wake_at = get_field arming ''wake_at''; deadline = get_field arming ''deadline_at'' in
      bindE (guardE (mk_float (armed_at + duration) = FFin due_at \<and> due_at = tr_due_at row
          \<and> num_equal wake_at (tr_wake_at row) \<and> (case wake_at of PBool _ \<Rightarrow> False | _ \<Rightarrow> True)
          \<and> num_equal wake_at (min_deadline due_at deadline)) ValueError) (\<lambda>_.
      bindE (deadline_after ValueError armed_at deadline) (\<lambda>_.
      bindE (require ValueError saved) (\<lambda>receipt.
      bindE (guardE (rc_status receipt = ''completed'' \<and> py_eq (rc_output receipt) arming) ValueError) (\<lambda>_.
      bindE (effect_request_digest env (ei_operation i)
          (arm_request i (get_field arming ''duration'') (get_field value ''source'') deadline)) (\<lambda>digest.
      bindE (guardE (rc_request_digest receipt = digest) ValueError) (\<lambda>_.
      bindE (validate_expression_data 0 64 (get_field value ''source'')) (\<lambda>_.
        Inr \<lparr>tg_identity = i, tg_armed_at = armed_at, tg_due_at = due_at, tg_duration = duration, tg_receipt = receipt,
             tg_source = sort_keys (get_field value ''source''), tg_wake_at = tr_wake_at row, tg_deadline_at = deadline\<rparr>))))))))))))))))"

definition timer_get :: "journal_env \<Rightarrow> timer_store \<Rightarrow> effect_identity \<Rightarrow> timer_registration option res" where
  "timer_get env s i =
     (case dict_get (ts_timers s) (effect_key env i) of
        None \<Rightarrow> Inr None
      | Some row \<Rightarrow> catching {TypeError, ValueError, KeyError} WorkflowExecutionError
                      (bindE (read_timer env s i row) (\<lambda>g. Inr (Some g))))"

text \<open>\<^verbatim>\<open>_transaction\<close> with \<^verbatim>\<open>_serialize\<close>\<close>

definition serialized :: "timer_store \<Rightarrow> 'a res \<Rightarrow> 'a res" where
  "serialized s body = bindE (guardE (ts_admission s) WorkflowExecutionError) (\<lambda>_. body)"

definition timer_transaction :: "timer_store \<Rightarrow> fence \<Rightarrow> effect_identity \<Rightarrow> 'a res \<Rightarrow> 'a res" where
  "timer_transaction s fc i body = owned fc i (serialized s body)"

definition pending_count :: "timer_store \<Rightarrow> int" where
  "pending_count s = int (length (filter (\<lambda>(k, row). tr_state row \<in> set live_states) (ts_timers s)))"

definition timer_receipt :: "string \<Rightarrow> pyval \<Rightarrow> effect_receipt" where
  "timer_receipt digest output = (pending_receipt digest ''timer'' None)\<lparr>rc_status := ''completed'', rc_output := output\<rparr>"

definition arming_output :: "effect_identity \<Rightarrow> rat \<Rightarrow> rat \<Rightarrow> pyval \<Rightarrow> pyval" where
  "arming_output i current duration deadline = PDict
     [(''profile'', PStr ''owa/wait-arm/v1''), (''armed_at'', PFloat (FFin current)), (''duration'', PFloat (FFin duration)),
      (''due_at'', PFloat (FFin (current + duration))), (''workflow_fingerprint'', PStr (ei_fingerprint i)),
      (''deadline_at'', deadline),
      (''wake_at'', case num_value deadline of
         Some q \<Rightarrow> if q < current + duration then deadline else PFloat (FFin (current + duration))
       | None \<Rightarrow> PFloat (FFin (current + duration)))]"

definition arming_payload :: "effect_identity \<Rightarrow> pyval \<Rightarrow> pyval \<Rightarrow> pyval" where
  "arming_payload i source output = PDict [(''identity'', identity_value i), (''source'', source), (''arming'', output)]"

definition arming_row :: "effect_identity \<Rightarrow> pyval \<Rightarrow> rat \<Rightarrow> pyval \<Rightarrow> timer_row" where
  "arming_row i payload due deadline =
     \<lparr>tr_invocation_id = ei_invocation_id i, tr_fingerprint = ei_fingerprint i, tr_payload = payload, tr_state = ''pending'',
      tr_due_at = due, tr_wake_at = min_deadline due deadline, tr_claim_owner = None, tr_generation = 0, tr_lease_until = None\<rparr>"

definition arm_new ::
  "journal_env \<Rightarrow> timer_store \<Rightarrow> effect_identity \<Rightarrow> rat \<Rightarrow> rat \<Rightarrow> pyval \<Rightarrow> pyval \<Rightarrow> string \<Rightarrow> (timer_store \<times> timer_registration) res" where
  "arm_new env s i current duration source deadline digest =
     bindE (get_effect env (ts_journal s) i) (\<lambda>saved.
     bindE (guardE (saved = None) WorkflowExecutionError) (\<lambda>_.
     bindE (guardE (pending_count s < ts_max_pending s) WorkflowExecutionError) (\<lambda>_.
     let output = arming_output i current duration deadline; payload = arming_payload i source output in
     bindE (make_receipt (timer_receipt digest output)) (\<lambda>receipt.
     bindE (insert_completed_receipt env (ts_journal s) i receipt) (\<lambda>j.
     bindE (validate_expression_data 0 64 payload) (\<lambda>_.
     let s' = s\<lparr>ts_journal := j,
               ts_timers := ts_timers s @ [(effect_key env i, arming_row i payload (current + duration) deadline)]\<rparr> in
     bindE (timer_get env s' i) (\<lambda>registration.
       case registration of None \<Rightarrow> Inl WorkflowExecutionError | Some g \<Rightarrow> Inr (s', g))))))))"

definition arm ::
  "journal_env \<Rightarrow> timer_store \<Rightarrow> fence \<Rightarrow> effect_identity \<Rightarrow> pyval \<Rightarrow> rat \<Rightarrow> pyval \<Rightarrow> pyval \<Rightarrow>
   (timer_store \<times> timer_registration) res" where
  "arm env s fc i duration current source deadline =
     bindE (guardE (ei_operation i = ''wait:arm:v1'') WorkflowExecutionError) (\<lambda>_.
     bindE (positive_number WorkflowExecutionError duration) (\<lambda>d.
     bindE (guardE (0 < current \<and> is_finite (mk_float (current + d))) WorkflowExecutionError) (\<lambda>_.
     bindE (deadline_after WorkflowExecutionError current deadline) (\<lambda>_.
     bindE (validate_expression_data 0 64 source) (\<lambda>_.
     bindE (effect_request_digest env (ei_operation i) (arm_request i (PFloat (FFin d)) source deadline)) (\<lambda>digest.
     timer_transaction s fc i
       (bindE (timer_get env s i) (\<lambda>existing.
          case existing of
            Some g \<Rightarrow> if rc_request_digest (tg_receipt g) \<noteq> digest then Inl WorkflowExecutionError else Inr (s, g)
          | None \<Rightarrow> arm_new env s i current d source deadline digest))))))))"

section \<open>Waking\<close>

definition wake_identity :: "effect_identity \<Rightarrow> effect_identity" where
  "wake_identity i = i\<lparr>ei_operation := ''wait:wake:v1''\<rparr>"

definition wake_request :: "timer_registration \<Rightarrow> pyval" where
  "wake_request g = PDict [(''arm_digest'', PStr (rc_request_digest (tg_receipt g))), (''due_at'', PFloat (FFin (tg_due_at g)))]"

definition wake_reasons :: "string list" where
  "wake_reasons = [''timer_due'', ''resume_requested'']"

definition timer_key :: "journal_env \<Rightarrow> timer_registration \<Rightarrow> string" where
  "timer_key env g = effect_key env (tg_identity g)"

definition wake_value :: "journal_env \<Rightarrow> timer_registration \<Rightarrow> effect_receipt \<Rightarrow> timer_wake res" where
  "wake_value env g r =
     (let value = rc_output r; reason = get_field value ''reason'' in
      bindE (guardE (rc_status r = ''completed'' \<and> exact_keys value [''profile'', ''timer_key'', ''due_at'', ''reason'', ''resume_input'']
          \<and> get_field value ''profile'' = PStr ''owa/wait-wake/v1'' \<and> get_field value ''timer_key'' = PStr (timer_key env g)
          \<and> (case get_field value ''due_at'' of PBool _ \<Rightarrow> False | _ \<Rightarrow> True) \<and> num_equal (get_field value ''due_at'') (tg_due_at g)) WorkflowExecutionError) (\<lambda>_.
      bindE (guardE (case reason of PList _ \<Rightarrow> False | PDict _ \<Rightarrow> False | _ \<Rightarrow> True) TypeError) (\<lambda>_.
      bindE (guardE (reason \<in> set (map PStr wake_reasons)
          \<and> (reason = PStr ''timer_due'' \<longrightarrow> get_field value ''resume_input'' = PNone)) WorkflowExecutionError) (\<lambda>_.
      bindE (effect_request_digest env (ei_operation (wake_identity (tg_identity g))) (wake_request g)) (\<lambda>digest.
      bindE (guardE (rc_request_digest r = digest) WorkflowExecutionError) (\<lambda>_.
        Inr \<lparr>tw_timer_key = timer_key env g, tw_due_at = tg_due_at g,
             tw_reason = (case reason of PStr t \<Rightarrow> t | _ \<Rightarrow> []), tw_resume_input = get_field value ''resume_input'', tw_receipt = r\<rparr>))))))"

text \<open>Equality of receipts and registrations, with Python's equality on the values in them.\<close>

definition same_receipt :: "effect_receipt \<Rightarrow> effect_receipt \<Rightarrow> bool" where
  "same_receipt r q \<longleftrightarrow> py_eq (rc_output r) (rc_output q) \<and> py_eq (rc_error r) (rc_error q) \<and>
     r\<lparr>rc_output := PNone, rc_error := PNone\<rparr> = q\<lparr>rc_output := PNone, rc_error := PNone\<rparr>"

definition same_registration :: "timer_registration \<Rightarrow> timer_registration \<Rightarrow> bool" where
  "same_registration g h \<longleftrightarrow> same_receipt (tg_receipt g) (tg_receipt h) \<and> py_eq (tg_deadline_at g) (tg_deadline_at h) \<and>
     g\<lparr>tg_receipt := tg_receipt h, tg_deadline_at := tg_deadline_at h\<rparr> = h"

definition wake_output :: "journal_env \<Rightarrow> timer_registration \<Rightarrow> string \<Rightarrow> pyval \<Rightarrow> pyval" where
  "wake_output env g reason resume_input = PDict
     [(''profile'', PStr ''owa/wait-wake/v1''), (''timer_key'', PStr (timer_key env g)), (''due_at'', PFloat (FFin (tg_due_at g))),
      (''reason'', PStr reason), (''resume_input'', if reason = ''resume_requested'' then resume_input else PNone)]"

definition set_row :: "string \<Rightarrow> (timer_row \<Rightarrow> timer_row) \<Rightarrow> timer_store \<Rightarrow> timer_store" where
  "set_row k f s = s\<lparr>ts_timers := map (\<lambda>(k', row). (k', if k' = k then f row else row)) (ts_timers s)\<rparr>"

definition wake_new ::
  "journal_env \<Rightarrow> timer_store \<Rightarrow> timer_registration \<Rightarrow> rat \<Rightarrow> string \<Rightarrow> pyval \<Rightarrow> (timer_store \<times> timer_wake) res" where
  "wake_new env s known current reason resume_input =
     bindE (guardE (case dict_get (ts_timers s) (timer_key env known) of
           None \<Rightarrow> False
         | Some row \<Rightarrow> tr_state row = ''pending'' \<and> \<not> (reason = ''timer_due'' \<and> current < tg_wake_at known)) WorkflowExecutionError) (\<lambda>_.
     let wi = wake_identity (tg_identity known) in
     bindE (effect_request_digest env (ei_operation wi) (wake_request known)) (\<lambda>digest.
     bindE (make_receipt (timer_receipt digest (wake_output env known reason resume_input))) (\<lambda>receipt.
     bindE (insert_completed_receipt env (ts_journal s) wi receipt) (\<lambda>j.
     let s' = set_row (timer_key env known) (\<lambda>row. if tr_state row = ''pending''
                then row\<lparr>tr_state := ''woken'', tr_claim_owner := None, tr_lease_until := None\<rparr> else row) (s\<lparr>ts_journal := j\<rparr>) in
     bindE (wake_value env known receipt) (\<lambda>w. Inr (s', w))))))"

definition wake ::
  "journal_env \<Rightarrow> timer_store \<Rightarrow> fence \<Rightarrow> timer_registration \<Rightarrow> rat \<Rightarrow> string \<Rightarrow> pyval \<Rightarrow> (timer_store \<times> timer_wake) res" where
  "wake env s fc g current reason resume_input =
     (let i = tg_identity g in
      bindE (guardE (reason \<in> set wake_reasons) WorkflowExecutionError) (\<lambda>_.
      timer_transaction s fc i
        (bindE (timer_get env s i) (\<lambda>found.
         case found of
           None \<Rightarrow> Inl WorkflowExecutionError
         | Some known \<Rightarrow>
             bindE (guardE (same_receipt (tg_receipt known) (tg_receipt g)) WorkflowExecutionError) (\<lambda>_.
             bindE (get_effect env (ts_journal s) (wake_identity i)) (\<lambda>existing.
               case existing of
                 Some r \<Rightarrow> bindE (wake_value env known r) (\<lambda>w. Inr (s, w))
               | None \<Rightarrow> wake_new env s known current reason resume_input))))))"

definition wake_for :: "journal_env \<Rightarrow> timer_store \<Rightarrow> timer_registration \<Rightarrow> timer_wake option res" where
  "wake_for env s g =
     bindE (get_effect env (ts_journal s) (wake_identity (tg_identity g))) (\<lambda>r.
       case r of None \<Rightarrow> Inr None | Some r \<Rightarrow> bindE (wake_value env g r) (\<lambda>w. Inr (Some w)))"

definition consume :: "journal_env \<Rightarrow> timer_store \<Rightarrow> fence \<Rightarrow> timer_registration \<Rightarrow> timer_store res" where
  "consume env s fc g =
     timer_transaction s fc (tg_identity g)
       (bindE (timer_get env s (tg_identity g)) (\<lambda>found.
        bindE (guardE (case found of None \<Rightarrow> False | Some known \<Rightarrow> same_registration known g) WorkflowExecutionError) (\<lambda>_.
        bindE (wake_for env s g) (\<lambda>w.
        bindE (guardE (w \<noteq> None) WorkflowExecutionError) (\<lambda>_.
        bindE (guardE (case dict_get (ts_timers s) (timer_key env g) of
              None \<Rightarrow> False | Some row \<Rightarrow> tr_state row \<in> {''woken'', ''consumed''}) WorkflowExecutionError) (\<lambda>_.
          Inr (set_row (timer_key env g)
                 (\<lambda>row. row\<lparr>tr_state := ''consumed'', tr_claim_owner := None, tr_lease_until := None\<rparr>) s)))))))"

section \<open>Verification and closing\<close>

text \<open>
  The identities of the effect index are read in an order the database chooses; the argument is
  the list of the keys it returns.
\<close>

definition indexed_rows :: "string list \<Rightarrow> journal \<Rightarrow> string \<Rightarrow> (string \<times> pyval) list" where
  "indexed_rows keys j iid =
     concat (map (\<lambda>k. case jr_index j k of
        None \<Rightarrow> [] | Some row \<Rightarrow> if ix_invocation_id row = iid then [(k, ix_payload row)] else []) keys)"

definition index_entry ::
  "journal_env \<Rightarrow> string \<Rightarrow> string set \<times> string set \<Rightarrow> string \<times> pyval \<Rightarrow> (string set \<times> string set) res" where
  "index_entry env fp seen entry =
     bindE (identity_from_value (snd entry)) (\<lambda>i.
       if ei_operation i \<in> {''wait:arm:v1'', ''wait:wake:v1''}
       then bindE (guardE (ei_fingerprint i = fp \<and> fst entry = effect_key env i) WorkflowExecutionError) (\<lambda>_.
              Inr (if ei_operation i = ''wait:arm:v1'' then (insert (fst entry) (fst seen), snd seen)
                   else (fst seen, insert (fst entry) (snd seen))))
       else Inr seen)"

definition verify_row ::
  "journal_env \<Rightarrow> timer_store \<Rightarrow> string \<Rightarrow> string set \<Rightarrow> string \<times> timer_row \<Rightarrow> string set res" where
  "verify_row env s fp expected entry =
     bindE (item (tr_payload (snd entry)) ''identity'') (\<lambda>raw.
     bindE (identity_from_value raw) (\<lambda>i.
     bindE (guardE (fst entry = effect_key env i) WorkflowExecutionError) (\<lambda>_.
     bindE (timer_get env s i) (\<lambda>found.
       case found of
         None \<Rightarrow> Inl WorkflowExecutionError
       | Some g \<Rightarrow>
           bindE (guardE (ei_fingerprint (tg_identity g) = fp) WorkflowExecutionError) (\<lambda>_.
           bindE (get_effect env (ts_journal s) (wake_identity i)) (\<lambda>receipt.
             if tr_state (snd entry) \<in> {''woken'', ''consumed''} \<or> receipt \<noteq> None
             then (case receipt of
                     None \<Rightarrow> Inl WorkflowExecutionError
                   | Some r \<Rightarrow>
                       bindE (guardE (tr_state (snd entry) \<noteq> ''pending'') WorkflowExecutionError) (\<lambda>_.
                       bindE (wake_value env g r) (\<lambda>_. Inr (insert (effect_key env (wake_identity i)) expected))))
             else Inr expected))))))"

definition rows_of :: "timer_store \<Rightarrow> string \<Rightarrow> (string \<times> timer_row) list" where
  "rows_of s iid = filter (\<lambda>(k, row). tr_invocation_id row = iid) (ts_timers s)"

definition verify_timers :: "journal_env \<Rightarrow> timer_store \<Rightarrow> string list \<Rightarrow> string \<Rightarrow> string \<Rightarrow> unit res" where
  "verify_timers env s keys iid fp =
     bindE (foldE (index_entry env fp) ({}, {}) (indexed_rows keys (ts_journal s) iid)) (\<lambda>(arms, wakes).
     bindE (guardE (arms = fst ` set (rows_of s iid)) WorkflowExecutionError) (\<lambda>_.
     bindE (foldE (verify_row env s fp) {} (rows_of s iid)) (\<lambda>expected.
       guardE (wakes = expected) WorkflowExecutionError)))"

definition close_invocation :: "journal_env \<Rightarrow> timer_store \<Rightarrow> string list \<Rightarrow> string \<Rightarrow> string \<Rightarrow> timer_store res" where
  "close_invocation env s keys iid fp =
     serialized s (bindE (verify_timers env s keys iid fp) (\<lambda>_.
       Inr (s\<lparr>ts_timers := map (\<lambda>(k, row). (k,
              if tr_invocation_id row = iid \<and> tr_fingerprint row = fp \<and> tr_state row \<in> set live_states
              then row\<lparr>tr_state := ''cancelled'', tr_claim_owner := None, tr_lease_until := None\<rparr> else row)) (ts_timers s)\<rparr>)))"

text \<open>The registrations of an invocation in the given states, ordered by a time and then by key.\<close>

definition registrations ::
  "journal_env \<Rightarrow> timer_store \<Rightarrow> string list \<Rightarrow> string \<Rightarrow> string \<Rightarrow> string set \<Rightarrow> (timer_row \<Rightarrow> rat) \<Rightarrow> timer_registration list res" where
  "registrations env s keys iid fp states order =
     bindE (verify_timers env s keys iid fp) (\<lambda>_.
       mapE (\<lambda>(k, row).
           bindE (item (tr_payload row) ''identity'') (\<lambda>raw.
           bindE (identity_from_value raw) (\<lambda>i.
           bindE (timer_get env s i) (\<lambda>found.
             case found of None \<Rightarrow> Inl WorkflowExecutionError | Some g \<Rightarrow> Inr g))))
         (sort_key (\<lambda>(k, row). order row) (sort_key fst
           (filter (\<lambda>(k, row). tr_fingerprint row = fp \<and> tr_state row \<in> states) (rows_of s iid)))))"

definition pending_for_invocation where
  "pending_for_invocation env s keys iid fp = registrations env s keys iid fp {''pending''} tr_due_at"

definition resumable_for_invocation where
  "resumable_for_invocation env s keys iid fp = registrations env s keys iid fp (set live_states) tr_wake_at"

definition known_wakes ::
  "journal_env \<Rightarrow> timer_store \<Rightarrow> string list \<Rightarrow> string \<Rightarrow> string \<Rightarrow> (string \<times> timer_wake) list res" where
  "known_wakes env s keys iid fp =
     bindE (verify_timers env s keys iid fp) (\<lambda>_.
       foldE (\<lambda>result (k, row).
           bindE (item (tr_payload row) ''identity'') (\<lambda>raw.
           bindE (identity_from_value raw) (\<lambda>i.
           bindE (timer_get env s i) (\<lambda>found.
             case found of
               None \<Rightarrow> Inl WorkflowExecutionError
             | Some g \<Rightarrow> bindE (wake_for env s g) (\<lambda>w.
                 Inr (case w of None \<Rightarrow> result | Some w \<Rightarrow> dict_set (timer_key env g) w result))))))
         [] (filter (\<lambda>(k, row). tr_fingerprint row = fp) (rows_of s iid)))"

section \<open>Dispatch claims\<close>

text \<open>\<^verbatim>\<open>state='woken' OR (state='pending' AND wake_at<=now)\<close> and no live claim\<close>

definition claimable :: "rat \<Rightarrow> timer_row \<Rightarrow> bool" where
  "claimable now row \<longleftrightarrow> (tr_state row = ''woken'' \<or> tr_state row = ''pending'' \<and> tr_wake_at row \<le> now)
     \<and> (case tr_lease_until row of None \<Rightarrow> True | Some t \<Rightarrow> t \<le> now)"

definition due_keys :: "timer_store \<Rightarrow> rat \<Rightarrow> int \<Rightarrow> string option \<Rightarrow> string list res" where
  "due_keys s now bound iid =
     bindE (guardE (1 \<le> bound \<and> bound \<le> 1000) WorkflowExecutionError) (\<lambda>_.
       Inr (take (nat bound) (map fst (sort_key (\<lambda>(k, row). tr_wake_at row) (sort_key fst
         (filter (\<lambda>(k, row). claimable now row \<and> (case iid of None \<Rightarrow> True | Some x \<Rightarrow> tr_invocation_id row = x)) (ts_timers s)))))))"

definition registration_for_key :: "journal_env \<Rightarrow> timer_store \<Rightarrow> string \<Rightarrow> timer_registration res" where
  "registration_for_key env s key =
     (case dict_get (ts_timers s) key of
        None \<Rightarrow> Inl WorkflowExecutionError
      | Some row \<Rightarrow>
          bindE (catching {KeyError, ValueError, TypeError} WorkflowExecutionError
             (bindE (item (tr_payload row) ''identity'') identity_from_value)) (\<lambda>i.
          bindE (timer_get env s i) (\<lambda>found.
            case found of
              None \<Rightarrow> Inl WorkflowExecutionError
            | Some g \<Rightarrow> if timer_key env g \<noteq> key then Inl WorkflowExecutionError else Inr g)))"

definition grant_claim ::
  "timer_store \<Rightarrow> string \<Rightarrow> rat \<Rightarrow> string \<Rightarrow> rat \<Rightarrow> timer_registration \<Rightarrow> timer_row \<Rightarrow> timer_store \<times> timer_claim option" where
  "grant_claim s owner now key lease_seconds g row =
     (let generation = tr_generation row + 1 in
        (set_row key (\<lambda>r. if tr_generation r = generation - 1
             then r\<lparr>tr_claim_owner := Some owner, tr_generation := generation, tr_lease_until := Some (now + lease_seconds)\<rparr>
             else r) s,
         Some \<lparr>tc_registration = g, tc_owner = owner, tc_generation = generation, tc_lease_until = now + lease_seconds\<rparr>))"

definition claim_due ::
  "journal_env \<Rightarrow> timer_store \<Rightarrow> string \<Rightarrow> rat \<Rightarrow> string \<Rightarrow> rat \<Rightarrow> (timer_store \<times> timer_claim option) res" where
  "claim_due env s owner now key lease_seconds =
     bindE (guardE (owner \<noteq> [] \<and> length owner \<le> 128 \<and> 0 < lease_seconds) WorkflowExecutionError) (\<lambda>_.
     serialized s (bindE (registration_for_key env s key) (\<lambda>g.
       case dict_get (ts_timers s) key of
         None \<Rightarrow> Inr (s, None)
       | Some row \<Rightarrow> if \<not> claimable now row then Inr (s, None) else Inr (grant_claim s owner now key lease_seconds g row))))"

definition verify_claim :: "journal_env \<Rightarrow> timer_store \<Rightarrow> timer_claim \<Rightarrow> rat \<Rightarrow> unit res" where
  "verify_claim env s c now =
     (case dict_get (ts_timers s) (timer_key env (tc_registration c)) of
        None \<Rightarrow> Inl WorkflowExecutionError
      | Some row \<Rightarrow>
          guardE (tr_claim_owner row = Some (tc_owner c) \<and> tr_generation row = tc_generation c
            \<and> tr_lease_until row = Some (tc_lease_until c) \<and> now < tc_lease_until c
            \<and> tr_state row \<in> set live_states) WorkflowExecutionError)"

definition release_claim :: "journal_env \<Rightarrow> timer_store \<Rightarrow> timer_claim \<Rightarrow> timer_store res" where
  "release_claim env s c =
     serialized s (Inr (set_row (timer_key env (tc_registration c))
       (\<lambda>row. if tr_claim_owner row = Some (tc_owner c) \<and> tr_generation row = tc_generation c
              then row\<lparr>tr_claim_owner := None, tr_lease_until := None\<rparr> else row) s))"

section \<open>Every operation only moves timers forward\<close>

text \<open>The steps of a timer's life: armed, woken, consumed, or cancelled before it was consumed.\<close>

definition timer_moves :: "string \<Rightarrow> string \<Rightarrow> bool" where
  "timer_moves a b \<longleftrightarrow> a = b \<or> a = ''pending'' \<and> b \<in> {''woken'', ''consumed'', ''cancelled''} \<or> a = ''woken'' \<and> b \<in> {''consumed'', ''cancelled''}"

definition row_moves :: "timer_row \<Rightarrow> timer_row \<Rightarrow> bool" where
  "row_moves row row' \<longleftrightarrow>
     tr_invocation_id row' = tr_invocation_id row \<and> tr_fingerprint row' = tr_fingerprint row \<and> tr_payload row' = tr_payload row \<and>
     tr_due_at row' = tr_due_at row \<and> tr_wake_at row' = tr_wake_at row \<and> timer_moves (tr_state row) (tr_state row') \<and>
     tr_generation row \<le> tr_generation row' \<and>
     (tr_generation row' = tr_generation row \<longrightarrow>
        tr_claim_owner row' = tr_claim_owner row \<and> tr_lease_until row' = tr_lease_until row
        \<or> tr_claim_owner row' = None \<and> tr_lease_until row' = None)"

definition timers_grow :: "timer_store \<Rightarrow> timer_store \<Rightarrow> bool" where
  "timers_grow s s' \<longleftrightarrow> journal_grows (ts_journal s) (ts_journal s') \<and>
     ts_max_pending s' = ts_max_pending s \<and> ts_admission s' = ts_admission s \<and>
     (\<forall>k row. dict_get (ts_timers s) k = Some row \<longrightarrow>
        (\<exists>row'. dict_get (ts_timers s') k = Some row' \<and> row_moves row row'))"

lemma row_moves_refl: "row_moves row row"
  by (simp add: row_moves_def timer_moves_def)

lemma timer_moves_trans: "timer_moves a b \<Longrightarrow> timer_moves b c \<Longrightarrow> timer_moves a c"
  by (auto simp: timer_moves_def)

lemma row_moves_trans:
  assumes "row_moves a b" "row_moves b c"
  shows "row_moves a c"
proof -
  have "timer_moves (tr_state a) (tr_state c)"
    using assms timer_moves_trans unfolding row_moves_def by blast
  moreover have "tr_generation b = tr_generation a \<and> tr_generation c = tr_generation b" if "tr_generation c = tr_generation a"
    using assms that unfolding row_moves_def by linarith
  ultimately show ?thesis using assms unfolding row_moves_def by auto
qed

lemma timers_grow_refl: "timers_grow s s"
  by (simp add: timers_grow_def journal_grows_refl row_moves_refl)

lemma timers_grow_trans: "timers_grow a b \<Longrightarrow> timers_grow b c \<Longrightarrow> timers_grow a c"
  unfolding timers_grow_def by (metis (no_types, lifting) journal_grows_trans row_moves_trans)

lemma set_row_get [simp]:
  "dict_get (ts_timers (set_row k f s)) k' = map_option (\<lambda>row. if k' = k then f row else row) (dict_get (ts_timers s) k')"
  by (simp add: set_row_def dict_get_map_rows)

lemma set_row_simps [simp]:
  "ts_journal (set_row k f s) = ts_journal s" "ts_max_pending (set_row k f s) = ts_max_pending s"
  "ts_admission (set_row k f s) = ts_admission s"
  by (simp_all add: set_row_def)

text \<open>Updates of rows that move them forward, over a journal that grows.\<close>

lemma set_row_grows:
  assumes "journal_grows (ts_journal s) j"
    and "\<And>row. dict_get (ts_timers s) k = Some row \<Longrightarrow> row_moves row (f row)"
  shows "timers_grow s (set_row k f (s\<lparr>ts_journal := j\<rparr>))"
  using assms by (auto simp: timers_grow_def intro: row_moves_refl)

lemma set_row_grows_same:
  "(\<And>row. dict_get (ts_timers s) k = Some row \<Longrightarrow> row_moves row (f row)) \<Longrightarrow> timers_grow s (set_row k f s)"
  using set_row_grows [of s "ts_journal s" k f] by (simp add: journal_grows_refl)

lemma timer_get_None: "timer_get env s i = Inr None \<longleftrightarrow> dict_get (ts_timers s) (effect_key env i) = None"
  by (auto simp: timer_get_def split: option.splits)

lemma timer_get_Some:
  "timer_get env s i = Inr (Some g) \<longleftrightarrow>
   (\<exists>row. dict_get (ts_timers s) (effect_key env i) = Some row \<and> read_timer env s i row = Inr g)"
  by (auto simp: timer_get_def split: option.splits)

lemma transaction_Inr: "timer_transaction s fc i body = Inr x \<Longrightarrow> body = Inr x"
  by (auto simp: timer_transaction_def serialized_def owned_def owned_write_transaction_def split: option.splits if_splits)

lemma serialized_Inr: "serialized s body = Inr x \<Longrightarrow> body = Inr x"
  by (simp add: serialized_def)

lemma timer_receipt_ok: "make_receipt (timer_receipt d v) = Inr r \<Longrightarrow> r = timer_receipt d v \<and> receipt_ok r"
  using make_receipt_eq [of "timer_receipt d v" r] by (auto simp: receipt_ok_def timer_receipt_def pending_receipt_def opt_ok_def)

lemma arm_cases:
  assumes "arm env s fc i duration current source deadline = Inr (s', g)"
  obtains (known) "s' = s" "timer_get env s i = Inr (Some g)"
  | (fresh) j row where "timer_get env s i = Inr None" "pending_count s < ts_max_pending s" "journal_grows (ts_journal s) j"
      "s' = s\<lparr>ts_journal := j, ts_timers := ts_timers s @ [(effect_key env i, row)]\<rparr>" "tr_state row = ''pending''"
      "timer_get env s' i = Inr (Some g)"
proof -
  obtain d digest where body: "bindE (timer_get env s i) (\<lambda>existing. case existing of
            Some g \<Rightarrow> if rc_request_digest (tg_receipt g) \<noteq> digest then Inl WorkflowExecutionError else Inr (s, g)
          | None \<Rightarrow> arm_new env s i current d source deadline digest) = Inr (s', g)"
    using assms unfolding arm_def by (auto simp only: bindE_eq_Inr dest!: transaction_Inr)
  then obtain existing where existing: "timer_get env s i = Inr existing" by auto
  show ?thesis
  proof (cases existing)
    case None
    with body existing have "arm_new env s i current d source deadline digest = Inr (s', g)" by simp
    then obtain r j payload where r: "pending_count s < ts_max_pending s" "insert_completed_receipt env (ts_journal s) i r = Inr j"
      and s': "s' = s\<lparr>ts_journal := j, ts_timers := ts_timers s @ [(effect_key env i, arming_row i payload (current + d) deadline)]\<rparr>"
      and g: "timer_get env s' i = Inr (Some g)"
      unfolding arm_new_def Let_def by (auto simp: bindE_eq_Inr split: option.splits)
    show ?thesis
      using existing None by (intro fresh [OF _ r(1) insert_completed_grows [OF r(2)] s' _ g]) (simp_all add: arming_row_def)
  next
    case (Some h)
    with body existing show ?thesis by (intro known) (auto split: if_splits)
  qed
qed

lemma append_row_grows:
  assumes "dict_get (ts_timers s) k = None" "journal_grows (ts_journal s) j"
  shows "timers_grow s (s\<lparr>ts_journal := j, ts_timers := ts_timers s @ [(k, row)]\<rparr>)"
  using assms by (auto simp: timers_grow_def map_add_def intro: row_moves_refl split: option.splits)

lemma arm_grows: "arm env s fc i duration current source deadline = Inr (s', g) \<Longrightarrow> timers_grow s s'"
  by (erule arm_cases) (auto simp: timer_get_None timers_grow_refl intro: append_row_grows)

lemma wake_cases:
  assumes "wake env s fc g current reason resume_input = Inr (s', w)"
  obtains (known) h r where "timer_get env s (tg_identity g) = Inr (Some h)" "s' = s"
      "get_effect env (ts_journal s) (wake_identity (tg_identity g)) = Inr (Some r)" "wake_value env h r = Inr w"
  | (fresh) h where "timer_get env s (tg_identity g) = Inr (Some h)" "reason \<in> set wake_reasons"
      "get_effect env (ts_journal s) (wake_identity (tg_identity g)) = Inr None"
      "wake_new env s h current reason resume_input = Inr (s', w)"
proof -
  obtain h where h: "timer_get env s (tg_identity g) = Inr (Some h)" "reason \<in> set wake_reasons"
    and rest: "bindE (get_effect env (ts_journal s) (wake_identity (tg_identity g))) (\<lambda>existing.
               case existing of
                 Some r \<Rightarrow> bindE (wake_value env h r) (\<lambda>w. Inr (s, w))
               | None \<Rightarrow> wake_new env s h current reason resume_input) = Inr (s', w)"
    using assms by (auto simp: wake_def Let_def dest!: transaction_Inr split: option.splits)
  obtain existing where existing: "get_effect env (ts_journal s) (wake_identity (tg_identity g)) = Inr existing"
    using rest by auto
  show ?thesis
  proof (cases existing)
    case None
    then show ?thesis using rest existing by (intro fresh [OF h]) simp_all
  next
    case (Some r)
    then show ?thesis using rest existing by (intro known [OF h(1), of r]) simp_all
  qed
qed

lemma read_timer_identity: "read_timer env s i row = Inr h \<Longrightarrow> tg_identity h = i"
  by (auto simp: read_timer_def Let_def)

lemma timer_get_identity: "timer_get env s i = Inr (Some h) \<Longrightarrow> tg_identity h = i"
  by (auto simp: timer_get_Some dest: read_timer_identity)

lemma wake_new_cases:
  assumes "wake_new env s h current reason resume_input = Inr (s', w)"
  obtains row digest j where "dict_get (ts_timers s) (timer_key env h) = Some row" "tr_state row = ''pending''"
    "reason = ''timer_due'' \<longrightarrow> tg_wake_at h \<le> current"
    "make_receipt (timer_receipt digest (wake_output env h reason resume_input)) = Inr (timer_receipt digest (wake_output env h reason resume_input))"
    "insert_completed_receipt env (ts_journal s) (wake_identity (tg_identity h)) (timer_receipt digest (wake_output env h reason resume_input)) = Inr j"
    "wake_value env h (timer_receipt digest (wake_output env h reason resume_input)) = Inr w"
    "s' = set_row (timer_key env h) (\<lambda>row. if tr_state row = ''pending''
            then row\<lparr>tr_state := ''woken'', tr_claim_owner := None, tr_lease_until := None\<rparr> else row) (s\<lparr>ts_journal := j\<rparr>)"
proof -
  let ?out = "wake_output env h reason resume_input"
  obtain digest r j where eligible: "case dict_get (ts_timers s) (timer_key env h) of None \<Rightarrow> False
         | Some row \<Rightarrow> tr_state row = ''pending'' \<and> \<not> (reason = ''timer_due'' \<and> current < tg_wake_at h)"
    and r: "make_receipt (timer_receipt digest ?out) = Inr r"
    and rest: "insert_completed_receipt env (ts_journal s) (wake_identity (tg_identity h)) r = Inr j" "wake_value env h r = Inr w"
      "s' = set_row (timer_key env h) (\<lambda>row. if tr_state row = ''pending''
            then row\<lparr>tr_state := ''woken'', tr_claim_owner := None, tr_lease_until := None\<rparr> else row) (s\<lparr>ts_journal := j\<rparr>)"
    using assms unfolding wake_new_def Let_def by (auto simp only: bindE_eq_Inr guardE_eq_Inr sum.inject prod.inject)
  obtain row where row: "dict_get (ts_timers s) (timer_key env h) = Some row" "tr_state row = ''pending''"
    "reason = ''timer_due'' \<longrightarrow> tg_wake_at h \<le> current"
    using eligible by (auto simp: not_less split: option.splits)
  have "r = timer_receipt digest ?out" using timer_receipt_ok [OF r] by simp
  with r rest show ?thesis by (intro that [OF row]) simp_all
qed

lemma wake_grows:
  assumes "wake env s fc g current reason resume_input = Inr (s', w)"
  shows "timers_grow s s'"
  using assms
proof (cases rule: wake_cases)
  case (fresh h)
  from fresh(4) show ?thesis
    by (rule wake_new_cases)
      (auto intro!: set_row_grows dest: insert_completed_grows simp: row_moves_def timer_moves_def)
qed (simp add: timers_grow_refl)

lemma consume_cases:
  assumes "consume env s fc g = Inr s'"
  obtains row where "dict_get (ts_timers s) (timer_key env g) = Some row" "tr_state row \<in> {''woken'', ''consumed''}"
    "s' = set_row (timer_key env g) (\<lambda>row. row\<lparr>tr_state := ''consumed'', tr_claim_owner := None, tr_lease_until := None\<rparr>) s"
  using assms by (auto simp: consume_def dest!: transaction_Inr split: option.splits)

lemma consume_grows: "consume env s fc g = Inr s' \<Longrightarrow> timers_grow s s'"
  by (erule consume_cases) (auto intro!: set_row_grows_same simp: row_moves_def timer_moves_def)

lemma close_grows: "close_invocation env s keys iid fp = Inr s' \<Longrightarrow> timers_grow s s'"
  by (auto simp: close_invocation_def timers_grow_def journal_grows_refl dict_get_map_rows row_moves_def timer_moves_def live_states_def
      dest!: serialized_Inr)

lemma registration_for_key_key: "registration_for_key env s key = Inr g \<Longrightarrow> timer_key env g = key"
  by (auto simp: registration_for_key_def split: option.splits if_splits)

lemma claim_cases:
  assumes "claim_due env s owner now key secs = Inr (s', c)"
  obtains (none) "s' = s" "c = None"
  | (granted) row g where "dict_get (ts_timers s) key = Some row" "claimable now row" "timer_key env g = key"
      "s' = set_row key (\<lambda>r. if tr_generation r = tr_generation row
              then r\<lparr>tr_claim_owner := Some owner, tr_generation := tr_generation row + 1, tr_lease_until := Some (now + secs)\<rparr> else r) s"
      "c = Some \<lparr>tc_registration = g, tc_owner = owner, tc_generation = tr_generation row + 1, tc_lease_until = now + secs\<rparr>"
proof -
  obtain g where reg: "registration_for_key env s key = Inr g" and rest: "(case dict_get (ts_timers s) key of
         None \<Rightarrow> Inr (s, None)
       | Some row \<Rightarrow> if \<not> claimable now row then Inr (s, None) else Inr (grant_claim s owner now key secs g row)) = (Inr (s', c) :: (timer_store \<times> timer_claim option) res)"
    using assms by (auto simp: claim_due_def serialized_def)
  note g = registration_for_key_key [OF reg]
  show ?thesis
  proof (cases "dict_get (ts_timers s) key")
    case None
    then show ?thesis using rest none by simp
  next
    case (Some row)
    then show ?thesis using rest none granted [OF Some _ g] by (cases "claimable now row") (auto simp: grant_claim_def Let_def)
  qed
qed

lemma claim_grows: "claim_due env s owner now key secs = Inr (s', c) \<Longrightarrow> timers_grow s s'"
  by (erule claim_cases) (auto simp: timers_grow_refl row_moves_def timer_moves_def intro!: set_row_grows_same)

lemma release_grows: "release_claim env s c = Inr s' \<Longrightarrow> timers_grow s s'"
  by (auto simp: release_claim_def row_moves_def timer_moves_def dest!: serialized_Inr intro!: set_row_grows_same)

text \<open>
  Every worker may call every operation at any time, with whatever lease, registration or claim
  it holds; other components use the journal meanwhile.
\<close>

inductive timer_step :: "journal_env \<Rightarrow> timer_store \<Rightarrow> timer_store \<Rightarrow> bool" for env where
  arms: "arm env s fc i duration current source deadline = Inr (s', g) \<Longrightarrow> timer_step env s s'"
| wakes: "wake env s fc g current reason resume_input = Inr (s', w) \<Longrightarrow> timer_step env s s'"
| consumes: "consume env s fc g = Inr s' \<Longrightarrow> timer_step env s s'"
| closes: "close_invocation env s keys iid fp = Inr s' \<Longrightarrow> timer_step env s s'"
| claims: "claim_due env s owner now key secs = Inr (s', c) \<Longrightarrow> timer_step env s s'"
| releases: "release_claim env s c = Inr s' \<Longrightarrow> timer_step env s s'"
| others: "journal_step env (ts_journal s) j \<Longrightarrow> timer_step env s (s\<lparr>ts_journal := j\<rparr>)"

lemma timer_step_grows: "timer_step env s s' \<Longrightarrow> timers_grow s s'"
proof (induction rule: timer_step.induct)
  case (others s j)
  then show ?case by (auto simp: timers_grow_def row_moves_refl dest: journal_step_grows)
qed (fact arm_grows wake_grows consume_grows close_grows claim_grows release_grows)+

interpretation timers: monotone_system "timer_step env" "\<lambda>_. True" timers_grow for env
  by unfold_locales (auto intro: timers_grow_refl timers_grow_trans timer_step_grows)

section \<open>A timer wakes once\<close>

lemma get_effect_cong:
  "jr_effects j' (effect_key env i) = jr_effects j (effect_key env i) \<Longrightarrow> get_effect env j' i = get_effect env j i"
  by (simp add: get_effect_def)

lemma completed_stays:
  assumes "journal_grows j j'" "get_effect env j i = Inr (Some r)" "rc_status r \<noteq> ''pending''"
  shows "get_effect env j' i = Inr (Some r)"
proof -
  obtain row where "jr_effects j (effect_key env i) = Some row" "er_status row = rc_status r"
    using assms(2) by (rule get_effect_row)
  then have "jr_effects j' (effect_key env i) = Some row"
    using assms(1,3) unfolding journal_grows_def row_later_def by metis
  then show ?thesis using assms(2) get_effect_cong [of j' env i j] \<open>jr_effects j _ = _\<close> by simp
qed

lemma states_move: "timer_moves a b \<Longrightarrow> a \<in> set timer_states \<Longrightarrow> b \<in> set timer_states"
  by (auto simp: timer_moves_def timer_states_def)

lemma read_timer_receipt:
  "read_timer env s i row = Inr h \<Longrightarrow> get_effect env (ts_journal s) i = Inr (Some (tg_receipt h)) \<and>
     rc_status (tg_receipt h) = ''completed'' \<and> tr_state row \<in> set timer_states"
  unfolding read_timer_def Let_def
  by (auto simp only: bindE_eq_Inr guardE_eq_Inr require_eq_Inr sum.inject timer_registration.simps)

lemma timer_get_stays:
  assumes "timers_grow s s'" "timer_get env s i = Inr (Some h)"
  shows "timer_get env s' i = Inr (Some h)"
proof -
  obtain row where row: "dict_get (ts_timers s) (effect_key env i) = Some row" and read: "read_timer env s i row = Inr h"
    using assms(2) by (auto simp: timer_get_Some)
  note receipt = read_timer_receipt [OF read]
  obtain row' where row': "dict_get (ts_timers s') (effect_key env i) = Some row'" and moves: "row_moves row row'"
    using assms(1) row unfolding timers_grow_def by blast
  have "get_effect env (ts_journal s') i = get_effect env (ts_journal s) i"
    using assms(1) receipt completed_stays [of "ts_journal s" "ts_journal s'" env i] unfolding timers_grow_def by simp
  moreover have "tr_state row' \<in> set timer_states"
    using moves receipt states_move unfolding row_moves_def by blast
  ultimately have "read_timer env s' i row' = read_timer env s i row"
    using moves receipt unfolding read_timer_def row_moves_def by simp
  then show ?thesis using row' read by (simp add: timer_get_Some)
qed

lemma wake_value_receipt: "wake_value env h r = Inr w \<Longrightarrow> tw_receipt w = r \<and> rc_status r = ''completed''"
  by (auto simp: wake_value_def Let_def)

text \<open>After a wake was answered, the registration and the wake receipt it was answered from are fixed.\<close>

definition woken_by :: "journal_env \<Rightarrow> timer_store \<Rightarrow> effect_identity \<Rightarrow> timer_wake \<Rightarrow> bool" where
  "woken_by env s i w \<longleftrightarrow> (\<exists>h row. timer_get env s i = Inr (Some h) \<and> wake_value env h (tw_receipt w) = Inr w \<and>
     jr_effects (ts_journal s) (effect_key env (wake_identity i)) = Some row \<and> er_status row \<noteq> ''pending'' \<and>
     receipt_from_payload (er_payload row) = Inr (tw_receipt w))"

lemma inserted_row:
  assumes "insert_completed_receipt env j i r = Inr j'" "jr_effects j (effect_key env i) = None"
  shows "jr_effects j' (effect_key env i) = Some (receipt_row env False r)"
  using assms by (auto simp: insert_completed_receipt_def insert_receipt_def Let_def insert_new_def split: if_splits option.splits)

lemma wake_answered:
  assumes "wake env s fc g current reason resume_input = Inr (s', w)"
  shows "woken_by env s' (tg_identity g) w"
  using assms
proof (cases rule: wake_cases)
  case (known h r)
  obtain row where "jr_effects (ts_journal s) (effect_key env (wake_identity (tg_identity g))) = Some row"
    "receipt_from_payload (er_payload row) = Inr r" "er_status row = rc_status r"
    using known(3) by (rule get_effect_row)
  then show ?thesis using known wake_value_receipt [OF known(4)] unfolding woken_by_def by auto
next
  case (fresh h)
  have id: "tg_identity h = tg_identity g" by (rule timer_get_identity [OF fresh(1)])
  from fresh(4) show ?thesis
  proof (rule wake_new_cases)
    fix row digest j
    let ?r = "timer_receipt digest (wake_output env h reason resume_input)"
    assume ok: "make_receipt ?r = Inr ?r" and ins: "insert_completed_receipt env (ts_journal s) (wake_identity (tg_identity h)) ?r = Inr j"
      and w: "wake_value env h ?r = Inr w"
      and s': "s' = set_row (timer_key env h) (\<lambda>row. if tr_state row = ''pending''
            then row\<lparr>tr_state := ''woken'', tr_claim_owner := None, tr_lease_until := None\<rparr> else row) (s\<lparr>ts_journal := j\<rparr>)"
    have "jr_effects j (effect_key env (wake_identity (tg_identity g))) = Some (receipt_row env False ?r)"
      using inserted_row [OF ins] fresh(3) id by (simp add: get_effect_None)
    moreover have "timer_get env s' (tg_identity g) = Inr (Some h)"
      using timer_get_stays [OF wake_grows [OF assms] fresh(1)] .
    ultimately show ?thesis
      using w s' timer_receipt_ok [OF ok] receipt_reads_back [of ?r] wake_value_receipt [OF w]
      unfolding woken_by_def by (auto simp: receipt_row_def timer_receipt_def)
  qed
qed

lemma woken_by_stays:
  assumes "woken_by env s i w" "timers_grow s s'"
  shows "woken_by env s' i w"
proof -
  obtain h row where h: "timer_get env s i = Inr (Some h)" "wake_value env h (tw_receipt w) = Inr w"
    and row: "jr_effects (ts_journal s) (effect_key env (wake_identity i)) = Some row" "er_status row \<noteq> ''pending''"
     "receipt_from_payload (er_payload row) = Inr (tw_receipt w)"
    using assms(1) unfolding woken_by_def by blast
  have "jr_effects (ts_journal s') (effect_key env (wake_identity i)) = Some row"
    using assms(2) row unfolding timers_grow_def journal_grows_def row_later_def by metis
  then show ?thesis using timer_get_stays [OF assms(2) h(1)] h(2) row unfolding woken_by_def by blast
qed

lemma woken_by_unique: "woken_by env s i w \<Longrightarrow> woken_by env s i w' \<Longrightarrow> w' = w"
  unfolding woken_by_def by (metis Inr_inject option.inject)

lemma first_wake:
  assumes "wake env s fc g current reason resume_input = Inr (s', w)"
    and "get_effect env (ts_journal s) (wake_identity (tg_identity g)) = Inr None"
    and "timer_get env s (tg_identity g) = Inr (Some h)"
  shows "tw_reason w = reason \<and> tw_resume_input w = (if reason = ''resume_requested'' then resume_input else PNone) \<and>
         (reason = ''timer_due'' \<longrightarrow> tg_wake_at h \<le> current)"
  using assms(1)
proof (cases rule: wake_cases)
  case (fresh h')
  then have "h' = h" using assms(3) by simp
  with fresh(4) show ?thesis
    by (elim wake_new_cases)
      (auto simp: wake_value_def wake_output_def timer_receipt_def get_field_def Let_def)
qed (use assms(2) in simp)

text \<open>
  \<^bold>\<open>C8.\<close> A timer wakes once and never early. The first wake is taken only for the reason given and, when
  it claims that the timer is due, not before the earlier of its due time and its deadline; after
  any further activity of any worker, whoever wakes the timer again, for whatever reason and with
  whatever input, is answered with that first wake and changes nothing.
\<close>

theorem timer_wakes_once:
  assumes "wake env s fc g current reason resume_input = Inr (s1, w)"
    and "(timer_step env)\<^sup>*\<^sup>* s1 s2"
    and "wake env s2 fc' g' current' reason' resume_input' = Inr (s3, w')" "tg_identity g' = tg_identity g"
  shows "w' = w \<and> s3 = s2 \<and>
    (get_effect env (ts_journal s) (wake_identity (tg_identity g)) = Inr None \<longrightarrow>
       tw_reason w = reason \<and> (reason = ''timer_due'' \<longrightarrow> (\<exists>h. timer_get env s (tg_identity g) = Inr (Some h) \<and> tg_wake_at h \<le> current)))"
proof -
  note w1 = wake_answered [OF assms(1)]
  have "timers_grow s1 s2" by (rule timers.run_rel_only [OF assms(2)]) simp
  then have w2: "woken_by env s2 (tg_identity g) w" by (rule woken_by_stays [OF w1])
  have s3: "s3 = s2"
    using assms(3)
  proof (cases rule: wake_cases)
    case (fresh h)
    then show ?thesis using w2 assms(4) by (auto simp: get_effect_None woken_by_def)
  qed simp
  have "woken_by env s2 (tg_identity g) w'" using wake_answered [OF assms(3)] s3 assms(4) by simp
  from woken_by_unique [OF w2 this] have "w' = w" .
  moreover obtain h where h: "timer_get env s (tg_identity g) = Inr (Some h)"
    using assms(1) by (rule wake_cases) blast+
  ultimately show ?thesis using s3 first_wake [OF assms(1) _ h] h by blast
qed

section \<open>One dispatcher at a time\<close>

text \<open>
  \<^bold>\<open>C35.\<close> Dispatch claims are exclusive. A second claim on a timer is granted only when the first one does
  not hold at that moment (it expired, was released, or the timer was woken, consumed or
  cancelled meanwhile), it has a later generation, and the first one never holds again.
\<close>

theorem timer_claims_exclusive:
  assumes "claim_due env s owner now key secs = Inr (s1, Some c)" "(timer_step env)\<^sup>*\<^sup>* s1 s2"
    and "claim_due env s2 owner' now' key secs' = Inr (s3, Some c')" "(timer_step env)\<^sup>*\<^sup>* s3 s4"
  shows "verify_claim env s2 c now' = Inl WorkflowExecutionError \<and> tc_generation c < tc_generation c' \<and>
         (\<forall>t. verify_claim env s4 c t = Inl WorkflowExecutionError)"
proof -
  obtain row where row: "dict_get (ts_timers s1) key = Some row" and c: "tr_generation row = tc_generation c"
    "timer_key env (tc_registration c) = key"
    using assms(1) by (cases rule: claim_cases) auto
  have "timers_grow s1 s2" by (rule timers.run_rel_only [OF assms(2)]) simp
  then obtain row2 where row2: "dict_get (ts_timers s2) key = Some row2" and m2: "row_moves row row2"
    using row unfolding timers_grow_def by blast
  obtain row3 where row3: "dict_get (ts_timers s3) key = Some row3" and c': "tr_generation row3 = tr_generation row2 + 1"
    "tc_generation c' = tr_generation row2 + 1" and free: "claimable now' row2"
    using assms(3) row2 by (cases rule: claim_cases) auto
  have "timers_grow s3 s4" by (rule timers.run_rel_only [OF assms(4)]) simp
  then obtain row4 where row4: "dict_get (ts_timers s4) key = Some row4" and m4: "row_moves row3 row4"
    using row3 unfolding timers_grow_def by blast
  have "tr_generation row \<le> tr_generation row2" "tr_generation row3 \<le> tr_generation row4"
    using m2 m4 unfolding row_moves_def by blast+
  then have gen: "tc_generation c < tc_generation c'" "tr_generation row4 \<noteq> tc_generation c"
    using c(1) c' by linarith+
  have "verify_claim env s2 c now' = Inl WorkflowExecutionError"
    using row2 c(2) free by (auto simp: verify_claim_def claimable_def)
  moreover have "verify_claim env s4 c t = Inl WorkflowExecutionError" for t
    using row4 c(2) gen(2) by (simp add: verify_claim_def)
  ultimately show ?thesis using gen(1) by blast
qed

section \<open>The table is bounded\<close>

lemma filter_map_le:
  "(\<And>x. x \<in> set xs \<Longrightarrow> P (h x) \<Longrightarrow> P x) \<Longrightarrow> length (filter P (map h xs)) \<le> length (filter P xs)"
  by (induction xs) (auto simp: le_SucI)

lemma pending_count_map:
  assumes "\<And>k row. (k, row) \<in> set (ts_timers s) \<Longrightarrow> tr_state (h k row) \<in> set live_states \<Longrightarrow> tr_state row \<in> set live_states"
    and "ts_timers s' = map (\<lambda>(k, row). (k, h k row)) (ts_timers s)"
  shows "pending_count s' \<le> pending_count s"
  unfolding pending_count_def assms(2) of_nat_le_iff by (rule filter_map_le) (use assms(1) in auto)

lemma set_row_count:
  "(\<And>row. tr_state (f row) \<in> set live_states \<Longrightarrow> tr_state row \<in> set live_states) \<Longrightarrow> pending_count (set_row k f s) \<le> pending_count s"
  by (rule pending_count_map [where h = "\<lambda>k' row. if k' = k then f row else row"]) (auto simp: set_row_def split: if_splits)

lemma pending_count_journal [simp]: "pending_count (s\<lparr>ts_journal := j\<rparr>) = pending_count s"
  by (simp add: pending_count_def)

definition timers_bounded :: "timer_store \<Rightarrow> bool" where
  "timers_bounded s \<longleftrightarrow> pending_count s \<le> ts_max_pending s"

lemma arm_bounded:
  assumes "arm env s fc i duration current source deadline = Inr (s', g)" "timers_bounded s"
  shows "timers_bounded s'"
  using assms(1)
proof (cases rule: arm_cases)
  case (fresh j row)
  then show ?thesis by (simp add: timers_bounded_def pending_count_def)
qed (use assms(2) in simp)

lemma woken_live:
  "tr_state (if tr_state row = ''pending'' then row\<lparr>tr_state := ''woken'', tr_claim_owner := None, tr_lease_until := None\<rparr> else row)
     \<in> set live_states \<Longrightarrow> tr_state row \<in> set live_states"
  by (auto simp: live_states_def split: if_splits)

lemma wake_count: "wake env s fc g current reason resume_input = Inr (s', w) \<Longrightarrow> pending_count s' \<le> pending_count s"
proof (erule wake_cases)
  fix h
  assume "wake_new env s h current reason resume_input = Inr (s', w)"
  then show ?thesis
    by (rule wake_new_cases) (metis (no_types, lifting) pending_count_journal set_row_count woken_live)
qed simp

lemma consume_count: "consume env s fc g = Inr s' \<Longrightarrow> pending_count s' \<le> pending_count s"
  by (erule consume_cases) (auto intro!: set_row_count simp: live_states_def)

lemma close_count: "close_invocation env s keys iid fp = Inr s' \<Longrightarrow> pending_count s' \<le> pending_count s"
  by (auto simp: close_invocation_def live_states_def dest!: serialized_Inr split: if_splits
      intro!: pending_count_map [where h = "\<lambda>k row. if tr_invocation_id row = iid \<and> tr_fingerprint row = fp \<and> tr_state row \<in> set live_states
              then row\<lparr>tr_state := ''cancelled'', tr_claim_owner := None, tr_lease_until := None\<rparr> else row"])

lemma claim_count: "claim_due env s owner now key secs = Inr (s', c) \<Longrightarrow> pending_count s' \<le> pending_count s"
  by (erule claim_cases) (auto intro!: set_row_count split: if_splits)

lemma release_count: "release_claim env s c = Inr s' \<Longrightarrow> pending_count s' \<le> pending_count s"
  by (auto simp: release_claim_def dest!: serialized_Inr intro!: set_row_count split: if_splits)

lemma timer_step_bounded: "timer_step env s s' \<Longrightarrow> timers_bounded s \<Longrightarrow> timers_bounded s'"
proof (induction rule: timer_step.induct)
  case (arms s fc i duration current source deadline s' g)
  then show ?case by (rule arm_bounded)
next
  case (wakes s fc g current reason resume_input s' w)
  then show ?case using wake_count [OF wakes.hyps] wake_grows [OF wakes.hyps] by (simp add: timers_bounded_def timers_grow_def)
next
  case (consumes s fc g s')
  then show ?case using consume_count [OF consumes.hyps] consume_grows [OF consumes.hyps] by (simp add: timers_bounded_def timers_grow_def)
next
  case (closes s keys iid fp s')
  then show ?case using close_count [OF closes.hyps] close_grows [OF closes.hyps] by (simp add: timers_bounded_def timers_grow_def)
next
  case (claims s owner now key secs s' c)
  then show ?case using claim_count [OF claims.hyps] claim_grows [OF claims.hyps] by (simp add: timers_bounded_def timers_grow_def)
next
  case (releases s c s')
  then show ?case using release_count [OF releases.hyps] release_grows [OF releases.hyps] by (simp add: timers_bounded_def timers_grow_def)
next
  case (others s j)
  then show ?case by (simp add: timers_bounded_def)
qed

interpretation capacity: invariant_system timers_bounded "timer_step env" timers_bounded for env
  by unfold_locales (auto intro: timer_step_bounded)

text \<open>A store with one timer, armed at 100 for 5 seconds.\<close>

definition ex_wait :: effect_identity where
  "ex_wait = ex_call\<lparr>ei_operation := ''wait:arm:v1''\<rparr>"

definition empty_timers :: timer_store where
  "empty_timers = \<lparr>ts_journal = empty_journal, ts_timers = [], ts_admission = True, ts_max_pending = 1\<rparr>"

lemma armed_reads_back:
  fixes i :: effect_identity and d current :: rat
  defines "out \<equiv> arming_output i current d PNone"
  assumes i: "make_identity i = Inr i" "ei_operation i = ''wait:arm:v1''"
    and pos: "0 < current" "0 < d" "current + d \<le> MAX_FLOAT" "valid_data source"
    and digest: "effect_request_digest env (ei_operation i) (arm_request i (PFloat (FFin d)) source PNone) = Inr digest"
    and saved: "get_effect env (ts_journal s) i = Inr (Some (timer_receipt digest out))"
    and row: "row = arming_row i (arming_payload i source out) (current + d) PNone"
  shows "read_timer env s i row =
    Inr \<lparr>tg_identity = i, tg_armed_at = current, tg_due_at = current + d, tg_duration = d, tg_receipt = timer_receipt digest out,
         tg_source = sort_keys source, tg_wake_at = current + d, tg_deadline_at = PNone\<rparr>"
proof -
  have fields: "get_field out ''profile'' = PStr ''owa/wait-arm/v1''" "get_field out ''armed_at'' = PFloat (FFin current)"
    "get_field out ''duration'' = PFloat (FFin d)" "get_field out ''due_at'' = PFloat (FFin (current + d))"
    "get_field out ''workflow_fingerprint'' = PStr (ei_fingerprint i)" "get_field out ''deadline_at'' = PNone"
    "get_field out ''wake_at'' = PFloat (FFin (current + d))"
    by (simp_all add: out_def arming_output_def get_field_def num_value_def)
  have keys: "exact_keys out arming_fields"
    by (auto simp: out_def arming_output_def arming_fields_def)
  have payload: "item (arming_payload i source out) ''arming'' = Inr out"
    "get_field (arming_payload i source out) ''identity'' = identity_value i"
    "get_field (arming_payload i source out) ''source'' = source"
    "exact_keys (arming_payload i source out) [''identity'', ''source'', ''arming'']"
    by (simp_all add: arming_payload_def item_def get_field_def)
  have same: "py_eq out out"
    by (simp add: out_def arming_output_def num_value_def list_all_iff)
  have "mk_float (current + d) = FFin (current + d)" using pos by (intro mk_float_finite) simp
  with same keys pos show ?thesis
    by (simp add: read_timer_def row arming_row_def payload identity_reads_back [OF i(1)] i(2) saved fields digest [unfolded i(2)]
        positive_number_def some_number_def finite_number_def num_equal_def min_deadline_def num_value_def deadline_after_def
        timer_receipt_def timer_states_def)
qed

definition ex_arming :: pyval where
  "ex_arming = arming_output ex_wait 100 5 PNone"

definition ex_arm_digest :: string where
  "ex_arm_digest = (case effect_request_digest plain_journal_env ''wait:arm:v1'' (arm_request ex_wait (PFloat (FFin 5)) (PDict []) PNone) of
     Inr d \<Rightarrow> d | Inl _ \<Rightarrow> [])"

definition ex_armed_journal :: journal where
  "ex_armed_journal = \<lparr>jr_effects = [effect_key plain_journal_env ex_wait \<mapsto> receipt_row plain_journal_env False (timer_receipt ex_arm_digest ex_arming)],
     jr_index = [effect_key plain_journal_env ex_wait \<mapsto> identity_row ex_wait]\<rparr>"

definition ex_armed :: timer_store where
  "ex_armed = empty_timers\<lparr>ts_journal := ex_armed_journal,
     ts_timers := [(effect_key plain_journal_env ex_wait, arming_row ex_wait (arming_payload ex_wait (PDict []) ex_arming) 105 PNone)]\<rparr>"

definition ex_registration :: timer_registration where
  "ex_registration = \<lparr>tg_identity = ex_wait, tg_armed_at = 100, tg_due_at = 105, tg_duration = 5, tg_receipt = timer_receipt ex_arm_digest ex_arming,
     tg_source = PDict [], tg_wake_at = 105, tg_deadline_at = PNone\<rparr>"

lemma MAX_FLOAT_big: "1000 \<le> MAX_FLOAT"
  by (simp add: MAX_FLOAT_def)

lemma plain_digest:
  assumes "valid_data v"
  shows "\<exists>d. effect_request_digest plain_journal_env op v = Inr d \<and> is_digest d"
proof -
  have "json_ok (sort_keys (PList [PStr op, v]))" using assms by (simp add: validate_accepts)
  then obtain t where "json_dumps False (je_float_repr plain_journal_env) (sort_keys (PList [PStr op, v])) = Inr t"
    using json_dumps_total by blast
  then show ?thesis
    using assms by (simp add: effect_request_digest_def digest_of_def plain_journal_env_def del: sort_keys.simps)
qed

lemma ex_arm_digest:
  "effect_request_digest plain_journal_env ''wait:arm:v1'' (arm_request ex_wait (PFloat (FFin 5)) (PDict []) PNone) = Inr ex_arm_digest"
  "is_digest ex_arm_digest"
proof -
  have "valid_data (arm_request ex_wait (PFloat (FFin 5)) (PDict []) PNone)"
    by (simp add: arm_request_def validate_expression_data.simps safe_float_def MAX_SAFE_INTEGER_def)
  from plain_digest [OF this, of "''wait:arm:v1''"] show
    "effect_request_digest plain_journal_env ''wait:arm:v1'' (arm_request ex_wait (PFloat (FFin 5)) (PDict []) PNone) = Inr ex_arm_digest"
    "is_digest ex_arm_digest"
    by (auto simp: ex_arm_digest_def)
qed

lemma get_timer_plain:
  assumes "jr_effects j (effect_key plain_journal_env i) = Some (receipt_row plain_journal_env b r)"
    and "receipt_ok r" "rc_child r = None" "ei_operation i \<in> {''wait:arm:v1'', ''wait:wake:v1''}"
  shows "get_effect plain_journal_env j i = Inr (Some r)"
  using assms receipt_reads_back [OF assms(2)]
  by (auto simp: get_effect_def receipt_row_def size_limit_def starts_with_def opt_ok_def child_binding_ok_def schedule_ok_def)

lemma timer_receipt_valid:
  assumes "is_digest d" "valid_data v"
  shows "make_receipt (timer_receipt d v) = Inr (timer_receipt d v)" "receipt_ok (timer_receipt d v)"
proof -
  show ok: "make_receipt (timer_receipt d v) = Inr (timer_receipt d v)"
    using assms by (simp add: make_receipt_def timer_receipt_def pending_receipt_def opt_ok_def validate_expression_data.simps [of 0 64 PNone])
  show "receipt_ok (timer_receipt d v)" using timer_receipt_ok [OF ok] by simp
qed

lemma ex_arming_valid: "valid_data ex_arming"
  by (simp add: ex_arming_def arming_output_def num_value_def validate_expression_data.simps safe_float_def MAX_SAFE_INTEGER_def)

lemma ex_wait_simps: "make_identity ex_wait = Inr ex_wait" "ei_operation ex_wait = ''wait:arm:v1''"
  "ei_operation (wake_identity ex_wait) = ''wait:wake:v1''"
  by (simp_all add: ex_wait_def ex_call_def make_identity_def wake_identity_def)

lemma ex_armed_get: "timer_get plain_journal_env ex_armed ex_wait = Inr (Some ex_registration)"
proof -
  have "get_effect plain_journal_env (ts_journal ex_armed) ex_wait = Inr (Some (timer_receipt ex_arm_digest ex_arming))"
    using timer_receipt_valid(2) [OF ex_arm_digest(2) ex_arming_valid] ex_wait_simps
    by (intro get_timer_plain [where b = False]) (simp_all add: ex_armed_def ex_armed_journal_def timer_receipt_def)
  moreover have "effect_request_digest plain_journal_env (ei_operation ex_wait) (arm_request ex_wait (PFloat (FFin 5)) (PDict []) PNone) = Inr ex_arm_digest"
    using ex_arm_digest(1) ex_wait_simps(2) by simp
  moreover have "(100::rat) + 5 \<le> MAX_FLOAT" using MAX_FLOAT_big by simp
  ultimately have "read_timer plain_journal_env ex_armed ex_wait (arming_row ex_wait (arming_payload ex_wait (PDict []) ex_arming) 105 PNone) = Inr ex_registration"
    using armed_reads_back [of ex_wait 100 5 "PDict []" plain_journal_env ex_arm_digest ex_armed
        "arming_row ex_wait (arming_payload ex_wait (PDict []) ex_arming) 105 PNone"] ex_wait_simps
    by (simp add: ex_arming_def ex_registration_def validate_expression_data.simps)
  then show ?thesis by (auto simp: timer_get_Some ex_armed_def)
qed

text \<open>The key of the wake is not the key of the arming: their operations differ.\<close>

lemma ex_claim:
  assumes "timer_get plain_journal_env s ex_wait = Inr (Some ex_registration)" "ts_admission s"
    and "dict_get (ts_timers s) (effect_key plain_journal_env ex_wait) = Some row" "tr_payload row = arming_payload ex_wait (PDict []) ex_arming"
    and "claimable now row" "owner \<noteq> []" "length owner \<le> 128" "0 < secs"
  shows "\<exists>s' c. claim_due plain_journal_env s owner now (effect_key plain_journal_env ex_wait) secs = Inr (s', Some c) \<and>
     s' = fst (grant_claim s owner now (effect_key plain_journal_env ex_wait) secs ex_registration row)"
proof -
  have "timer_key plain_journal_env ex_registration = effect_key plain_journal_env ex_wait"
    by (simp add: timer_key_def ex_registration_def)
  then have "registration_for_key plain_journal_env s (effect_key plain_journal_env ex_wait) = Inr ex_registration"
    using assms(1,3,4) identity_reads_back [OF ex_wait_simps(1)]
    by (simp add: registration_for_key_def item_def arming_payload_def)
  then show ?thesis using assms by (simp add: claim_due_def serialized_def grant_claim_def Let_def)
qed

theorem timer_claims_exclusive_witness:
  "\<exists>s1 c s3 c'. claim_due plain_journal_env ex_armed ''d'' 105 (effect_key plain_journal_env ex_wait) 30 = Inr (s1, Some c) \<and>
     claim_due plain_journal_env s1 ''e'' 140 (effect_key plain_journal_env ex_wait) 30 = Inr (s3, Some c') \<and>
     verify_claim plain_journal_env s1 c 110 = Inr () \<and> verify_claim plain_journal_env s1 c 140 = Inl WorkflowExecutionError \<and>
     verify_claim plain_journal_env s3 c 110 = Inl WorkflowExecutionError"
proof -
  let ?k = "effect_key plain_journal_env ex_wait"
  let ?row = "arming_row ex_wait (arming_payload ex_wait (PDict []) ex_arming) 105 PNone"
  have row: "dict_get (ts_timers ex_armed) ?k = Some ?row" by (simp add: ex_armed_def)
  obtain s1 c where first: "claim_due plain_journal_env ex_armed ''d'' 105 ?k 30 = Inr (s1, Some c)"
    and s1: "s1 = fst (grant_claim ex_armed ''d'' 105 ?k 30 ex_registration ?row)"
    using ex_claim [OF ex_armed_get _ row, of 105 "''d''" 30]
    by (auto simp: ex_armed_def empty_timers_def arming_row_def claimable_def min_deadline_def num_value_def)
  have row1: "dict_get (ts_timers s1) ?k = Some (?row\<lparr>tr_claim_owner := Some ''d'', tr_generation := 1, tr_lease_until := Some 135\<rparr>)"
    by (simp add: s1 grant_claim_def Let_def row) (simp add: arming_row_def)
  have get1: "timer_get plain_journal_env s1 ex_wait = Inr (Some ex_registration)"
    by (rule timer_get_stays [OF claim_grows [OF first] ex_armed_get])
  obtain s3 c' where second: "claim_due plain_journal_env s1 ''e'' 140 ?k 30 = Inr (s3, Some c')"
    using ex_claim [OF get1 _ row1, of 140 "''e''" 30]
    by (auto simp: s1 grant_claim_def Let_def ex_armed_def empty_timers_def arming_row_def claimable_def min_deadline_def num_value_def)
  have live: "verify_claim plain_journal_env s1 c 110 = Inr ()"
    using first row row1
    by (cases rule: claim_cases) (auto simp: verify_claim_def arming_row_def live_states_def)
  from timer_claims_exclusive [OF first rtranclp.rtrancl_refl second rtranclp.rtrancl_refl] first second live
  show ?thesis by blast
qed


lemma ex_keys: "effect_key plain_journal_env ex_wait \<noteq> effect_key plain_journal_env (wake_identity ex_wait)"
  by code_simp

lemma ex_same_receipt: "same_receipt (tg_receipt ex_registration) (tg_receipt ex_registration)"
proof -
  have "py_eq (rc_output (tg_receipt ex_registration)) (rc_output (tg_receipt ex_registration))"
    by (simp add: ex_registration_def timer_receipt_def ex_arming_def arming_output_def num_value_def list_all_iff)
  then show ?thesis by (simp add: same_receipt_def ex_registration_def timer_receipt_def pending_receipt_def)
qed

lemma ex_wake:
  "\<exists>s1 w r. wake plain_journal_env ex_armed no_fence ex_registration 105 ''timer_due'' PNone = Inr (s1, w) \<and>
     get_effect plain_journal_env (ts_journal s1) (wake_identity ex_wait) = Inr (Some r) \<and> wake_value plain_journal_env ex_registration r = Inr w"
proof -
  let ?e = plain_journal_env
  let ?wi = "wake_identity ex_wait"
  have id: "tg_identity ex_registration = ex_wait" "tg_wake_at ex_registration = 105" "timer_key ?e ex_registration = effect_key ?e ex_wait"
    by (simp_all add: ex_registration_def timer_key_def)
  have row: "dict_get (ts_timers ex_armed) (effect_key ?e ex_wait) = Some (arming_row ex_wait (arming_payload ex_wait (PDict []) ex_arming) 105 PNone)"
    by (simp add: ex_armed_def)
  have none: "get_effect ?e (ts_journal ex_armed) ?wi = Inr None"
    using ex_keys by (simp add: get_effect_None ex_armed_def ex_armed_journal_def)
  have "valid_data (wake_request ex_registration)"
    by (simp add: wake_request_def ex_registration_def validate_expression_data.simps safe_float_def MAX_SAFE_INTEGER_def)
  from plain_digest [OF this, of "ei_operation ?wi"] obtain d
    where d: "effect_request_digest ?e (ei_operation ?wi) (wake_request ex_registration) = Inr d" "is_digest d" by blast
  let ?out = "wake_output ?e ex_registration ''timer_due'' PNone"
  have "valid_data ?out"
    by (simp add: wake_output_def ex_registration_def validate_expression_data.simps safe_float_def MAX_SAFE_INTEGER_def)
  note receipt = timer_receipt_valid [OF d(2) this]
  have "\<exists>j. insert_completed_receipt ?e (ts_journal ex_armed) ?wi (timer_receipt d ?out) = Inr j"
    using ex_keys
    by (simp add: insert_completed_receipt_def insert_receipt_def insert_new_def ex_armed_def ex_armed_journal_def receipt_row_def
        timer_receipt_def pending_receipt_def)
  then obtain j where j: "insert_completed_receipt ?e (ts_journal ex_armed) ?wi (timer_receipt d ?out) = Inr j" ..
  have answer: "\<exists>w. wake_value ?e ex_registration (timer_receipt d ?out) = Inr w"
    using d(1) id
    by (simp add: wake_value_def Let_def timer_receipt_def pending_receipt_def wake_output_def get_field_def num_equal_def wake_reasons_def insert_commute)
  then obtain w where w: "wake_value ?e ex_registration (timer_receipt d ?out) = Inr w" ..
  let ?s = "set_row (timer_key ?e ex_registration) (\<lambda>row. if tr_state row = ''pending''
      then row\<lparr>tr_state := ''woken'', tr_claim_owner := None, tr_lease_until := None\<rparr> else row) (ex_armed\<lparr>ts_journal := j\<rparr>)"
  have new: "wake_new ?e ex_armed ex_registration 105 ''timer_due'' PNone = Inr (?s, w)"
    using w row receipt(1) j d(1) id by (simp add: wake_new_def Let_def arming_row_def)
  then have "wake ?e ex_armed no_fence ex_registration 105 ''timer_due'' PNone = Inr (?s, w)"
    using ex_armed_get none ex_same_receipt id
    by (simp add: wake_def Let_def timer_transaction_def serialized_def owned_def no_fence_def wake_reasons_def)
      (simp add: ex_armed_def empty_timers_def)
  moreover have "get_effect ?e (ts_journal ?s) ?wi = Inr (Some (timer_receipt d ?out))"
  proof (rule get_timer_plain [where b = False])
    show "jr_effects (ts_journal ?s) (effect_key ?e ?wi) = Some (receipt_row ?e False (timer_receipt d ?out))"
      using inserted_row [OF j] none by (simp add: get_effect_None)
  qed (use receipt(2) ex_wait_simps in \<open>simp_all add: timer_receipt_def\<close>)
  ultimately show ?thesis using w by blast
qed

theorem timer_wakes_once_witness:
  "\<exists>s1 w s3 w'. wake plain_journal_env ex_armed no_fence ex_registration 105 ''timer_due'' PNone = Inr (s1, w) \<and> tw_reason w = ''timer_due'' \<and>
     wake plain_journal_env s1 no_fence ex_registration 200 ''resume_requested'' (PInt 7) = Inr (s3, w') \<and> w' = w \<and> s3 = s1"
proof -
  obtain s1 w r where first: "wake plain_journal_env ex_armed no_fence ex_registration 105 ''timer_due'' PNone = Inr (s1, w)"
    and r: "get_effect plain_journal_env (ts_journal s1) (wake_identity ex_wait) = Inr (Some r)" "wake_value plain_journal_env ex_registration r = Inr w"
    using ex_wake by blast
  have id: "tg_identity ex_registration = ex_wait" by (simp add: ex_registration_def)
  have admission: "ts_admission s1" using wake_grows [OF first] by (simp add: timers_grow_def ex_armed_def empty_timers_def)
  have "wake plain_journal_env s1 no_fence ex_registration 200 ''resume_requested'' (PInt 7) = Inr (s1, w)"
    using timer_get_stays [OF wake_grows [OF first] ex_armed_get] r ex_same_receipt id admission
    by (simp add: wake_def timer_transaction_def serialized_def owned_def no_fence_def wake_reasons_def)
  moreover have "get_effect plain_journal_env (ts_journal ex_armed) (wake_identity (tg_identity ex_registration)) = Inr None"
    using ex_keys by (simp add: get_effect_None ex_armed_def ex_armed_journal_def ex_registration_def)
  ultimately show ?thesis using timer_wakes_once [OF first rtranclp.rtrancl_refl _ refl] first by blast
qed

end
