(* ===== verification/Events.thy ===== *)
theory Events
  imports Effect_Journal
begin

text \<open>
  Workflow events (\<^verbatim>\<open>events.py\<close>) and their matching (\<^verbatim>\<open>event_matching.py\<close>): envelopes and their canonical
  dictionaries, the in-process bus, the identities of a durable listener, and the matcher that
  decides what an arrival means for a listener. The jq service is a record of functions; the
  UUID and the clock text an envelope may need are arguments. The lemmas show that envelopes read
  back from their dictionaries, what a decision of the matcher promises, and that correlations
  keep their first binding.
\<close>

section \<open>Envelopes\<close>

record event_envelope =
  ev_id :: string
  ev_source :: string
  ev_type :: string
  ev_time :: string
  ev_subject :: "string option"
  ev_datacontenttype :: "string option"
  ev_dataschema :: "string option"
  ev_data :: pyval
  ev_extensions :: "(string \<times> pyval) list"
  ev_data_present :: bool

definition dict_update :: "(string \<times> pyval) list \<Rightarrow> (string \<times> pyval) list \<Rightarrow> (string \<times> pyval) list" where
  "dict_update d e = fold (\<lambda>(k, v). dict_set k v) e d"

definition opt_entry :: "string \<Rightarrow> string option \<Rightarrow> (string \<times> pyval) list" where
  "opt_entry k x = (case x of None \<Rightarrow> [] | Some s \<Rightarrow> [(k, PStr s)])"

definition envelope_dict :: "event_envelope \<Rightarrow> (string \<times> pyval) list" where
  "envelope_dict e =
     dict_update
       ([(''id'', PStr (ev_id e)), (''source'', PStr (ev_source e)), (''type'', PStr (ev_type e)), (''time'', PStr (ev_time e))]
        @ opt_entry ''subject'' (ev_subject e) @ opt_entry ''datacontenttype'' (ev_datacontenttype e)
        @ opt_entry ''dataschema'' (ev_dataschema e)
        @ (if ev_data e \<noteq> PNone \<or> ev_data_present e then [(''data'', ev_data e)] else []))
       (ev_extensions e)"

text \<open>\<^verbatim>\<open>raw\<close>: the canonical text.\<close>

definition envelope_raw :: "(rat \<Rightarrow> string) \<Rightarrow> event_envelope \<Rightarrow> string res" where
  "envelope_raw float_repr e = json_dumps False float_repr (sort_keys (PDict (envelope_dict e)))"

definition optional_string :: "pyval \<Rightarrow> string option res" where
  "optional_string v = (case v of PNone \<Rightarrow> Inr None | PStr s \<Rightarrow> Inr (Some s) | _ \<Rightarrow> Inl ValueError)"

definition known_fields :: "string list" where
  "known_fields = [''id'', ''source'', ''type'', ''time'', ''subject'', ''datacontenttype'', ''dataschema'', ''data'']"

definition text_or :: "pyval \<Rightarrow> string \<Rightarrow> string res" where
  "text_or v fallback = (if truthy v then (case v of PStr s \<Rightarrow> Inr s | _ \<Rightarrow> Inl ValueError) else Inr fallback)"

definition nonempty_text :: "pyval \<Rightarrow> string res" where
  "nonempty_text v = (case v of PStr t \<Rightarrow> (if t = [] then Inl ValueError else Inr t) | _ \<Rightarrow> Inl ValueError)"

definition make_envelope :: "string \<Rightarrow> string \<Rightarrow> (string \<times> pyval) list \<Rightarrow> string \<Rightarrow> event_envelope res" where
  "make_envelope uuid clock properties default_source =
     (let v = PDict properties in
      bindE (nonempty_text (get_field v ''type'')) (\<lambda>event_type.
      bindE (text_or (get_field v ''id'') uuid) (\<lambda>event_id.
      bindE (text_or (get_field v ''source'') default_source) (\<lambda>source.
      bindE (case get_field v ''time'' of PNone \<Rightarrow> Inr clock | PStr t \<Rightarrow> Inr t | _ \<Rightarrow> Inl ValueError) (\<lambda>event_time.
      bindE (optional_string (get_field v ''subject'')) (\<lambda>subject.
      bindE (optional_string (get_field v ''datacontenttype'')) (\<lambda>contenttype.
      bindE (optional_string (get_field v ''dataschema'')) (\<lambda>schema.
        Inr \<lparr>ev_id = event_id, ev_source = source, ev_type = event_type, ev_time = event_time, ev_subject = subject,
             ev_datacontenttype = contenttype, ev_dataschema = schema, ev_data = get_field v ''data'',
             ev_extensions = filter (\<lambda>(k, x). k \<notin> set known_fields) properties,
             ev_data_present = has_field v ''data''\<rparr>))))))))"

section \<open>The in-process bus\<close>

definition bus_matches :: "event_envelope \<Rightarrow> pyval \<Rightarrow> bool" where
  "bus_matches e strategy =
     (case get_field (get_field strategy ''one'') ''with'' of
        PDict f \<Rightarrow> list_all (\<lambda>(k, expected). py_eq (get_field (PDict (envelope_dict e)) k) expected) f
      | _ \<Rightarrow> False)"

record event_bus =
  eb_published :: "event_envelope list"
  eb_subscribers :: "(nat \<times> (pyval \<times> event_envelope list)) list"
  eb_next_subscriber :: nat

definition bus_publish ::
  "string \<Rightarrow> string \<Rightarrow> event_bus \<Rightarrow> (string \<times> pyval) list \<Rightarrow> string \<Rightarrow> (event_bus \<times> event_envelope) res" where
  "bus_publish uuid clock bus properties default_source =
     bindE (make_envelope uuid clock properties default_source) (\<lambda>e.
       Inr (bus\<lparr>eb_published := eb_published bus @ [e],
              eb_subscribers := map (\<lambda>(i, strategy, q). (i, strategy, if bus_matches e strategy then q @ [e] else q)) (eb_subscribers bus)\<rparr>, e))"

definition bus_receive :: "event_bus \<Rightarrow> pyval \<Rightarrow> event_bus \<times> nat" where
  "bus_receive bus strategy =
     (bus\<lparr>eb_next_subscriber := eb_next_subscriber bus + 1,
          eb_subscribers := dict_set (eb_next_subscriber bus) (strategy, []) (eb_subscribers bus)\<rparr>, eb_next_subscriber bus)"

text \<open>\<^verbatim>\<open>wait_for_event\<close>: nothing while the queue is empty; the subscriber leaves with its event.\<close>

definition bus_take :: "event_bus \<Rightarrow> nat \<Rightarrow> (event_bus \<times> event_envelope) option" where
  "bus_take bus i =
     (case dict_get (eb_subscribers bus) i of
        Some (strategy, e # q) \<Rightarrow> Some (bus\<lparr>eb_subscribers := dict_del i (eb_subscribers bus)\<rparr>, e)
      | _ \<Rightarrow> None)"

section \<open>Listeners\<close>

record event_registration =
  eg_identity :: effect_identity
  eg_request_digest :: string
  eg_scope :: string

definition receipt_identity :: "event_registration \<Rightarrow> effect_identity" where
  "receipt_identity g = (eg_identity g)\<lparr>ei_operation := ''listen:registration:v1''\<rparr>"

definition event_identity :: "event_registration \<Rightarrow> int \<Rightarrow> effect_identity res" where
  "event_identity g ordinal =
     (if ordinal < 1 then Inl ValueError
      else Inr ((eg_identity g)\<lparr>ei_operation := ''listen:event:v1'',
             ei_occurrence := ei_occurrence (eg_identity g) @ [(ei_task_reference (eg_identity g) @ ''/@event'', ordinal)]\<rparr>))"

definition decision_identity :: "event_registration \<Rightarrow> int \<Rightarrow> effect_identity res" where
  "decision_identity g ordinal = bindE (event_identity g ordinal) (\<lambda>i. Inr (i\<lparr>ei_operation := ''listen:progress:v1''\<rparr>))"

record event_decision =
  dc_filter_indices :: "nat list"
  dc_correlations :: "(string \<times> pyval) list"
  dc_terminal :: bool
  dc_terminator :: bool
  dc_progress :: "(string \<times> pyval) list"

record match_state =
  ms_correlations :: "(string \<times> pyval) list"
  ms_matched_filters :: "nat list"
  ms_progress :: "(string \<times> pyval) list"

section \<open>Matching\<close>

text \<open>The expression service: \<^verbatim>\<open>condition\<close> and \<^verbatim>\<open>evaluate\<close>, each on a value and its variables.\<close>

record expression_service =
  xs_condition :: "string \<Rightarrow> pyval \<Rightarrow> (string \<times> pyval) list \<Rightarrow> bool res"
  xs_evaluate :: "string \<Rightarrow> pyval \<Rightarrow> (string \<times> pyval) list \<Rightarrow> pyval res"

record matcher =
  mt_expressions :: expression_service
  mt_bindings :: "(string \<times> pyval) list"
  mt_read :: string
  mt_filter_guard :: "(pyval \<Rightarrow> event_envelope \<Rightarrow> bool res) option"
  mt_float_repr :: "rat \<Rightarrow> string"

definition event_projection :: "matcher \<Rightarrow> event_envelope \<Rightarrow> pyval res" where
  "event_projection m e =
     (if mt_read m = ''envelope'' then Inr (PDict (envelope_dict e))
      else if mt_read m = ''raw'' then bindE (envelope_raw (mt_float_repr m) e) (\<lambda>t. Inr (PStr t))
      else Inr (ev_data e))"

text \<open>\<^verbatim>\<open>"${" in text\<close>\<close>

fun has_expression :: "string \<Rightarrow> bool" where
  "has_expression (a # b # s) = (a = CHR ''$'' \<and> b = CHR ''{'' \<or> has_expression (b # s))"
| "has_expression _ = False"

definition filters_for :: "(string \<times> pyval) list \<Rightarrow> (string \<times> pyval list) res" where
  "filters_for current =
     (case dict_get current ''one'' of
        Some (PDict f) \<Rightarrow> Inr (''one'', [PDict f])
      | _ \<Rightarrow>
        (case dict_get current ''all'' of
           Some (PList fs) \<Rightarrow> (if list_all is_mapping fs then Inr (''all'', fs)
              else case dict_get current ''any'' of
                Some (PList gs) \<Rightarrow> if list_all is_mapping gs then Inr (''any'', gs) else Inl EventValidationError
              | _ \<Rightarrow> Inl EventValidationError)
         | _ \<Rightarrow>
           (case dict_get current ''any'' of
              Some (PList gs) \<Rightarrow> if list_all is_mapping gs then Inr (''any'', gs) else Inl EventValidationError
            | _ \<Rightarrow> Inl EventValidationError)))"

text \<open>The first pass over the properties: static restrictions reject, predicates are kept for later.\<close>

fun static_properties ::
  "matcher \<Rightarrow> (string \<times> pyval) list \<Rightarrow> (string \<times> pyval) list \<Rightarrow> (string \<times> string) list option res" where
  "static_properties m values [] = Inr (Some [])"
| "static_properties m values ((name, expected) # rest) =
     (case dict_get values name of
        None \<Rightarrow> Inr None
      | Some candidate \<Rightarrow>
          (case expected of
             PStr text \<Rightarrow>
               if has_expression text
               then bindE (static_properties m values rest) (\<lambda>found. Inr (map_option (\<lambda>ps. (name, text) # ps) found))
               else (case candidate of
                       PStr _ \<Rightarrow>
                         bindE (xs_condition (mt_expressions m) ''${ test($eventPattern) }'' candidate
                             (dict_update (mt_bindings m) [(''eventPattern'', expected)])) (\<lambda>ok.
                           if ok then static_properties m values rest else Inr None)
                     | _ \<Rightarrow> Inr None)
           | _ \<Rightarrow> bindE (json_equal candidate expected) (\<lambda>same. if same then static_properties m values rest else Inr None)))"

fun predicates_hold :: "matcher \<Rightarrow> (string \<times> pyval) list \<Rightarrow> (string \<times> string) list \<Rightarrow> bool res" where
  "predicates_hold m values [] = Inr True"
| "predicates_hold m values ((name, predicate) # rest) =
     bindE (xs_condition (mt_expressions m) predicate (get_field (PDict values) name) (mt_bindings m)) (\<lambda>ok.
       if ok then predicates_hold m values rest else Inr False)"

fun extract_correlations ::
  "matcher \<Rightarrow> (string \<times> pyval) list \<Rightarrow> (string \<times> pyval) list \<Rightarrow> (string \<times> pyval) list \<Rightarrow> (string \<times> pyval) list \<Rightarrow>
   (string \<times> pyval) list option res" where
  "extract_correlations m values saved result [] = Inr (Some result)"
| "extract_correlations m values saved result ((name, rule) # rest) =
     (case get_field rule ''from'' of
        PStr from \<Rightarrow>
          bindE (xs_evaluate (mt_expressions m) from (PDict values) (mt_bindings m)) (\<lambda>actual.
          bindE (validate_expression_data 0 64 actual) (\<lambda>_.
          bindE (case dict_get saved name of None \<Rightarrow> Inr True | Some old \<Rightarrow> json_equal actual old) (\<lambda>kept.
            if \<not> kept then Inr None
            else bindE (if has_field rule ''expect'' then json_equal actual (get_field rule ''expect'') else Inr True) (\<lambda>expected.
              if \<not> expected then Inr None
              else extract_correlations m values saved (dict_set name actual result) rest))))
      | _ \<Rightarrow> Inl EventValidationError)"

text \<open>\<^verbatim>\<open>selected.get(key, {})\<close> must be a mapping.\<close>

definition mapping_or_empty :: "pyval \<Rightarrow> string \<Rightarrow> (string \<times> pyval) list res" where
  "mapping_or_empty v k =
     (if has_field v k then (case get_field v k of PDict d \<Rightarrow> Inr d | _ \<Rightarrow> Inl EventValidationError) else Inr [])"

definition match_filter ::
  "matcher \<Rightarrow> event_envelope \<Rightarrow> pyval \<Rightarrow> (string \<times> pyval) list \<Rightarrow> (string \<times> pyval) list option res" where
  "match_filter m e selected saved =
     bindE (case mt_filter_guard m of None \<Rightarrow> Inr True | Some g \<Rightarrow> g selected e) (\<lambda>allowed.
       if \<not> allowed then Inr None
       else let values = envelope_dict e in
         bindE (mapping_or_empty selected ''with'') (\<lambda>properties.
         bindE (static_properties m values properties) (\<lambda>predicates.
           case predicates of
             None \<Rightarrow> Inr None
           | Some ps \<Rightarrow>
               bindE (predicates_hold m values ps) (\<lambda>ok.
                 if \<not> ok then Inr None
                 else bindE (mapping_or_empty selected ''correlate'') (\<lambda>correlations.
                   extract_correlations m values saved [] correlations)))))"

text \<open>The loop over the filters, from index \<open>i\<close> on.\<close>

fun match_filters ::
  "matcher \<Rightarrow> event_envelope \<Rightarrow> string \<Rightarrow> match_state \<Rightarrow> nat \<Rightarrow> pyval list \<Rightarrow> (string \<times> pyval) list \<Rightarrow>
   (nat list \<times> (string \<times> pyval) list) res" where
  "match_filters m e mode p i [] new = Inr ([], new)"
| "match_filters m e mode p i (f # fs) new =
     (if mode = ''all'' \<and> i \<in> set (ms_matched_filters p) then match_filters m e mode p (Suc i) fs new
      else bindE (match_filter m e f (dict_update (ms_correlations p) new)) (\<lambda>extracted.
        case extracted of
          None \<Rightarrow> match_filters m e mode p (Suc i) fs new
        | Some x \<Rightarrow> bindE (match_filters m e mode p (Suc i) fs (dict_update new x)) (\<lambda>(is, bound). Inr (i # is, bound))))"

definition nat_items :: "pyval \<Rightarrow> nat list" where
  "nat_items v = (case v of PList xs \<Rightarrow> map (\<lambda>x. case x of PInt n \<Rightarrow> nat n | _ \<Rightarrow> 0) xs | _ \<Rightarrow> [])"

definition dict_or_empty :: "pyval \<Rightarrow> (string \<times> pyval) list" where
  "dict_or_empty v = (case v of PDict d \<Rightarrow> d | _ \<Rightarrow> [])"

text \<open>What the terminator's state is read from, and what is written back.\<close>

definition terminator_state :: "(string \<times> pyval) list \<Rightarrow> match_state" where
  "terminator_state saved = \<lparr>ms_correlations = dict_or_empty (get_field (PDict saved) ''correlations''),
     ms_matched_filters = nat_items (get_field (PDict saved) ''matched_filters''),
     ms_progress = dict_or_empty (get_field (PDict saved) ''progress'')\<rparr>"

definition terminator_update :: "match_state \<Rightarrow> event_decision \<Rightarrow> (string \<times> pyval) list" where
  "terminator_update t d = [(''until'', PDict
     [(''correlations'', PDict (dict_update (ms_correlations t) (dc_correlations d))),
      (''matched_filters'', PList (map (\<lambda>n. PInt (int n)) (sorted_list_of_set (set (ms_matched_filters t) \<union> set (dc_filter_indices d))))),
      (''progress'', PDict (dc_progress d))])]"

definition decide_filters ::
  "matcher \<Rightarrow> (string \<times> pyval) list \<Rightarrow> string \<Rightarrow> pyval list \<Rightarrow> event_envelope \<Rightarrow> match_state \<Rightarrow> event_decision option res" where
  "decide_filters m current mode fs e p =
     bindE (match_filters m e mode p 0 fs []) (\<lambda>(matches, bound).
       if matches = [] \<and> \<not> (mode = ''any'' \<and> fs = []) then Inr None
       else
         let complete = (mode \<noteq> ''all'' \<or> card (set (ms_matched_filters p) \<union> set matches) = length fs);
             until = get_field (PDict current) ''until'';
             found = (\<lambda>terminal. \<lparr>dc_filter_indices = matches, dc_correlations = bound, dc_terminal = terminal,
                        dc_terminator = False, dc_progress = ms_progress p\<rparr>) in
         case until of
           PNone \<Rightarrow> Inr (Some (found complete))
         | PStr text \<Rightarrow>
             bindE (event_projection m e) (\<lambda>view.
             bindE (xs_condition (mt_expressions m) text view (mt_bindings m)) (\<lambda>terminal.
               Inr (Some (if terminal
                 then \<lparr>dc_filter_indices = [], dc_correlations = [], dc_terminal = True, dc_terminator = True, dc_progress = ms_progress p\<rparr>
                 else found False))))
         | _ \<Rightarrow> Inr (Some (found False)))"

lemma nesting_field: "dict_get d k = Some v \<Longrightarrow> nesting v < nesting (PDict d)"
proof -
  assume "dict_get d k = Some v"
  then have "(k, v) \<in> set d" by (rule map_of_SomeD)
  then have "nesting v \<in> (\<lambda>x. nesting (snd x)) ` set d" "d \<noteq> []" by force+
  then have "nesting v \<le> Max ((\<lambda>x. nesting (snd x)) ` set d)" "d \<noteq> []" by simp_all
  then show ?thesis by simp
qed

function decide :: "matcher \<Rightarrow> (string \<times> pyval) list \<Rightarrow> event_envelope \<Rightarrow> match_state \<Rightarrow> event_decision option res" where
  "decide m current e p =
     bindE (filters_for current) (\<lambda>(mode, fs).
       case dict_get current ''until'' of
         Some (PDict until) \<Rightarrow>
           bindE (if has_field (PDict (ms_progress p)) ''until''
                  then (case get_field (PDict (ms_progress p)) ''until'' of PDict d \<Rightarrow> Inr d | _ \<Rightarrow> Inl EventValidationError)
                  else Inr []) (\<lambda>saved.
           bindE (decide m until e (terminator_state saved)) (\<lambda>terminator.
             case terminator of
               Some d \<Rightarrow>
                 Inr (Some \<lparr>dc_filter_indices = [], dc_correlations = [], dc_terminal = dc_terminal d, dc_terminator = True,
                            dc_progress = dict_update (ms_progress p) (terminator_update (terminator_state saved) d)\<rparr>)
             | None \<Rightarrow> decide_filters m current mode fs e p))
       | _ \<Rightarrow> decide_filters m current mode fs e p)"
  by pat_completeness auto
termination
  by (relation "measure (\<lambda>(m, current, e, p). nesting (PDict current))") (auto dest: nesting_field simp del: nesting.simps)

declare decide.simps [simp del]

definition candidate_matcher :: "matcher \<Rightarrow> pyval \<Rightarrow> (event_envelope \<Rightarrow> match_state \<Rightarrow> event_decision option res) res" where
  "candidate_matcher m strategy =
     bindE (validate_expression_data 0 64 strategy) (\<lambda>_.
       case strategy of
         PDict captured \<Rightarrow> bindE (filters_for captured) (\<lambda>_. Inr (decide m captured))
       | _ \<Rightarrow> Inl EventValidationError)"

section \<open>Envelopes read back\<close>

lemma dict_update_get: "dict_get (dict_update d e) k = (case dict_get (rev e) k of None \<Rightarrow> dict_get d k | Some v \<Rightarrow> Some v)"
  by (induction e arbitrary: d) (auto simp: dict_update_def map_add_def split: option.splits)

lemma dict_update_Nil [simp]: "dict_update d [] = d"
  by (simp add: dict_update_def)

lemma dict_update_fresh:
  "dict_wf e \<Longrightarrow> fst ` set d \<inter> fst ` set e = {} \<Longrightarrow> dict_update d e = d @ e"
proof (induction e arbitrary: d)
  case (Cons p e)
  obtain k v where p: "p = (k, v)" by (cases p)
  have "k \<notin> fst ` set d" using Cons.prems(2) p by auto
  then have "dict_set k v d = d @ [(k, v)]" by (induction d) auto
  moreover have "dict_update (d @ [(k, v)]) e = (d @ [(k, v)]) @ e"
    using Cons.prems p by (intro Cons.IH) (auto simp: dict_wf_def image_iff)
  ultimately show ?case by (simp add: dict_update_def p)
qed simp

definition envelope_ok :: "event_envelope \<Rightarrow> bool" where
  "envelope_ok e \<longleftrightarrow> ev_type e \<noteq> [] \<and> ev_id e \<noteq> [] \<and> ev_source e \<noteq> [] \<and> dict_wf (ev_extensions e) \<and>
     fst ` set (ev_extensions e) \<inter> set known_fields = {}"

definition normal_envelope :: "event_envelope \<Rightarrow> event_envelope" where
  "normal_envelope e = e\<lparr>ev_data_present := (ev_data e \<noteq> PNone \<or> ev_data_present e)\<rparr>"

definition envelope_head :: "event_envelope \<Rightarrow> (string \<times> pyval) list" where
  "envelope_head e =
     [(''id'', PStr (ev_id e)), (''source'', PStr (ev_source e)), (''type'', PStr (ev_type e)), (''time'', PStr (ev_time e))]
        @ opt_entry ''subject'' (ev_subject e) @ opt_entry ''datacontenttype'' (ev_datacontenttype e)
        @ opt_entry ''dataschema'' (ev_dataschema e)
        @ (if ev_data e \<noteq> PNone \<or> ev_data_present e then [(''data'', ev_data e)] else [])"

lemma envelope_head_known: "fst ` set (envelope_head e) \<subseteq> set known_fields"
  by (auto simp: envelope_head_def known_fields_def opt_entry_def split: option.splits)

lemma envelope_dict_ok:
  assumes "envelope_ok e"
  shows "envelope_dict e = envelope_head e @ ev_extensions e"
  using assms envelope_head_known [of e] unfolding envelope_dict_def envelope_head_def [symmetric]
  by (intro dict_update_fresh) (auto simp: envelope_ok_def)

lemma head_field:
  assumes "envelope_ok e" "k \<in> set known_fields"
  shows "dict_get (envelope_dict e) k = dict_get (envelope_head e) k"
proof -
  have "dict_get (ev_extensions e) k = None"
    using assms unfolding envelope_ok_def by (metis disjoint_iff map_of_eq_None_iff)
  then show ?thesis by (simp add: envelope_dict_ok [OF assms(1)] map_add_def split: option.split)
qed

lemma envelope_reads_back:
  assumes "envelope_ok e"
  shows "make_envelope uuid clock (envelope_dict e) src = Inr (normal_envelope e)"
proof -
  let ?v = "PDict (envelope_dict e)"
  have fields: "get_field ?v ''type'' = PStr (ev_type e)" "get_field ?v ''id'' = PStr (ev_id e)"
    "get_field ?v ''source'' = PStr (ev_source e)" "get_field ?v ''time'' = PStr (ev_time e)"
    "get_field ?v ''subject'' = opt_value PStr (ev_subject e)"
    "get_field ?v ''datacontenttype'' = opt_value PStr (ev_datacontenttype e)"
    "get_field ?v ''dataschema'' = opt_value PStr (ev_dataschema e)"
    "get_field ?v ''data'' = ev_data e" "has_field ?v ''data'' = (ev_data e \<noteq> PNone \<or> ev_data_present e)"
    using head_field [OF assms]
    by (simp_all add: get_field_def has_field_def known_fields_def envelope_head_def opt_entry_def opt_value_def split: option.splits)
  have "optional_string (opt_value PStr x) = Inr x" for x
    by (simp add: optional_string_def opt_value_def split: option.split)
  moreover have "filter (\<lambda>(k, x). k \<notin> set known_fields) (envelope_dict e) = ev_extensions e"
  proof -
    have "filter (\<lambda>(k, x). k \<notin> set known_fields) (envelope_head e) = []"
      using envelope_head_known [of e] by (force simp: filter_empty_conv)
    moreover have "filter (\<lambda>(k, x). k \<notin> set known_fields) (ev_extensions e) = ev_extensions e"
      using assms by (force simp: filter_id_conv envelope_ok_def)
    ultimately show ?thesis by (simp add: envelope_dict_ok [OF assms])
  qed
  ultimately show ?thesis
    using assms
    by (simp add: make_envelope_def Let_def fields text_or_def nonempty_text_def envelope_ok_def normal_envelope_def)
qed

lemma nonempty_text_Inr: "nonempty_text v = Inr t \<Longrightarrow> t \<noteq> []"
  by (auto simp: nonempty_text_def split: pyval.splits if_splits)

lemma make_envelope_fields:
  assumes "make_envelope uuid clock properties src = Inr e"
  shows "ev_type e \<noteq> []" "ev_extensions e = filter (\<lambda>(k, x). k \<notin> set known_fields) properties"
    "ev_data e = get_field (PDict properties) ''data''" "ev_data_present e = has_field (PDict properties) ''data''"
  using assms nonempty_text_Inr unfolding make_envelope_def Let_def
  by (auto simp only: bindE_eq_Inr sum.inject event_envelope.simps)

lemma made_envelope_normal:
  assumes "make_envelope uuid clock properties src = Inr e"
  shows "normal_envelope e = e"
proof -
  have "ev_data e \<noteq> PNone \<Longrightarrow> ev_data_present e"
    using make_envelope_fields(3,4) [OF assms] by (auto simp: get_field_def has_field_def split: option.splits)
  then show ?thesis by (cases e) (auto simp: normal_envelope_def)
qed

section \<open>What a decision promises\<close>

lemma json_equal_valid: "json_equal a b = Inr True \<Longrightarrow> valid_data a \<and> valid_data b \<and> jeq a b"
proof -
  assume eq: "json_equal a b = Inr True"
  then have "valid_data a" "valid_data b" by (auto simp: json_equal.simps [of a b])
  then show ?thesis using eq json_equal_eq_jeq by fastforce
qed

lemma json_equal_trans: "json_equal a b = Inr True \<Longrightarrow> json_equal b c = Inr True \<Longrightarrow> json_equal a c = Inr True"
  using json_equal_valid [of a b] json_equal_valid [of b c] jeq_trans [of a b c] json_equal_eq_jeq [of a c] by simp

text \<open>The values bound by \<open>new\<close> agree with those \<open>old\<close> has.\<close>

definition agrees :: "(string \<times> pyval) list \<Rightarrow> (string \<times> pyval) list \<Rightarrow> bool" where
  "agrees new old \<longleftrightarrow> (\<forall>k v w. dict_get new k = Some v \<longrightarrow> dict_get old k = Some w \<longrightarrow> json_equal v w = Inr True)"

lemma agrees_Nil [simp]: "agrees [] old"
  by (simp add: agrees_def)

lemma extract_agrees:
  "extract_correlations m values saved result rules = Inr (Some x) \<Longrightarrow> agrees result saved \<Longrightarrow> agrees x saved"
proof (induction rules arbitrary: result)
  case (Cons entry rest)
  obtain name rule where entry: "entry = (name, rule)" by (cases entry)
  obtain actual where kept: "(case dict_get saved name of None \<Rightarrow> Inr True | Some old \<Rightarrow> json_equal actual old) = (Inr True :: bool res)"
    and rest: "extract_correlations m values saved (dict_set name actual result) rest = Inr (Some x)"
    using Cons.prems(1) unfolding entry by (auto split: pyval.splits if_splits)
  have "agrees (dict_set name actual result) saved"
    using Cons.prems(2) kept unfolding agrees_def by (auto split: if_splits option.splits)
  then show ?case using Cons.IH rest by blast
qed simp

lemma extract_wf: "extract_correlations m values saved result rules = Inr (Some x) \<Longrightarrow> dict_wf result \<Longrightarrow> dict_wf x"
  by (induction m "values" saved result rules rule: extract_correlations.induct) (auto split: pyval.splits if_splits option.splits)

lemma match_filter_agrees: "match_filter m e f saved = Inr (Some x) \<Longrightarrow> agrees x saved \<and> dict_wf x"
  by (auto simp: match_filter_def Let_def split: if_splits option.splits dest: extract_agrees extract_wf)

lemma dict_update_wf_get: "dict_wf e \<Longrightarrow> dict_get (dict_update d e) k = (case dict_get e k of None \<Rightarrow> dict_get d k | Some v \<Rightarrow> Some v)"
proof -
  assume "dict_wf e"
  then have "dict_get (rev e) = dict_get e" by (simp add: dict_wf_def map_of_inject_set rev_map [symmetric])
  then show ?thesis by (simp add: dict_update_get)
qed

lemma dict_update_wf: "dict_wf d \<Longrightarrow> dict_wf (dict_update d e)"
  by (induction e arbitrary: d) (auto simp: dict_update_def)

lemma agrees_update:
  assumes "agrees new old" "agrees x (dict_update old new)" "dict_wf new" "dict_wf x"
  shows "agrees (dict_update new x) old"
  unfolding agrees_def
proof (intro allI impI)
  fix k v w
  assume v: "dict_get (dict_update new x) k = Some v" and w: "dict_get old k = Some w"
  show "json_equal v w = Inr True"
  proof (cases "dict_get x k")
    case None
    then show ?thesis using v w assms(1,4) by (auto simp: dict_update_wf_get agrees_def)
  next
    case (Some v')
    then have x: "dict_get x k = Some v" using v assms(4) by (simp add: dict_update_wf_get)
    show ?thesis
    proof (cases "dict_get new k")
      case None
      then show ?thesis using x w assms(2,3) by (auto simp: dict_update_wf_get agrees_def)
    next
      case (Some u)
      then have "json_equal v u = Inr True" using x assms(2,3) by (auto simp: dict_update_wf_get agrees_def)
      moreover have "json_equal u w = Inr True" using Some w assms(1) by (auto simp: agrees_def)
      ultimately show ?thesis by (rule json_equal_trans)
    qed
  qed
qed

text \<open>The filters an event matches, in order, each under the correlations saved or bound before it.\<close>

lemma match_filters_sound:
  assumes "match_filters m e mode p i fs new = Inr (is, bound)" "agrees new (ms_correlations p)" "dict_wf new"
  shows "agrees bound (ms_correlations p) \<and> dict_wf bound \<and> sorted_wrt (<) is \<and>
    (\<forall>j \<in> set is. i \<le> j \<and> j < i + length fs \<and> \<not> (mode = ''all'' \<and> j \<in> set (ms_matched_filters p)) \<and>
       (\<exists>saved x. match_filter m e (fs ! (j - i)) saved = Inr (Some x)))"
  using assms
proof (induction m e mode p i fs new arbitrary: "is" bound rule: match_filters.induct)
  case (2 m e mode p i f fs new)
  have shift: "P (fs ! (j - Suc i)) \<Longrightarrow> Suc i \<le> j \<Longrightarrow> P ((f # fs) ! (j - i))" for P j
    using Suc_diff_Suc [of i j] by (auto simp: nth_Cons split: nat.split)
  show ?case
  proof (cases "mode = ''all'' \<and> i \<in> set (ms_matched_filters p)")
    case True
    have "match_filters m e mode p (Suc i) fs new = Inr (is, bound)" using 2(4) True by simp
    from "2.IH"(1) [OF True this "2.prems"(2,3)] show ?thesis using shift [of "\<lambda>g. \<exists>saved x. match_filter m e g saved = Inr (Some x)"] by fastforce
  next
    case False
    then obtain extracted where x: "match_filter m e f (dict_update (ms_correlations p) new) = Inr extracted"
      using "2.prems"(1) by auto
    show ?thesis
    proof (cases extracted)
      case None
      then have "match_filters m e mode p (Suc i) fs new = Inr (is, bound)" using "2.prems"(1) False x by simp
      from "2.IH"(2) [OF False x None this "2.prems"(2,3)] show ?thesis using shift [of "\<lambda>g. \<exists>saved x. match_filter m e g saved = Inr (Some x)"] by fastforce
    next
      case (Some y)
      obtain "is'" where is': "match_filters m e mode p (Suc i) fs (dict_update new y) = Inr (is', bound)" "is = i # is'"
        using "2.prems"(1) False x Some by auto
      have y: "agrees y (dict_update (ms_correlations p) new)" "dict_wf y" using match_filter_agrees [of m e f _ y] x Some by auto
      have "agrees (dict_update new y) (ms_correlations p)" "dict_wf (dict_update new y)"
        using agrees_update [OF "2.prems"(2) y(1) "2.prems"(3) y(2)] "2.prems"(3) dict_update_wf by auto
      from "2.IH"(3) [OF False x Some is'(1) this] show ?thesis
        using shift [of "\<lambda>g. \<exists>saved x. match_filter m e g saved = Inr (Some x)"] x Some False unfolding is'(2) by fastforce
    qed
  qed
qed simp


definition ex_matcher :: matcher where
  "ex_matcher = \<lparr>mt_expressions = \<lparr>xs_condition = (\<lambda>text v vars. Inr (dict_get vars ''eventPattern'' = Some v)),
     xs_evaluate = (\<lambda>text v vars. Inr (get_field v text))\<rparr>, mt_bindings = [], mt_read = ''data'', mt_filter_guard = None,
     mt_float_repr = (\<lambda>q. ''0.0'')\<rparr>"

definition ex_strategy :: "(string \<times> pyval) list" where
  "ex_strategy = [(''all'', PList [PDict [(''with'', PDict [(''type'', PStr ''a'')])],
     PDict [(''with'', PDict [(''type'', PStr ''b'')]), (''correlate'', PDict [(''order'', PDict [(''from'', PStr ''subject'')])])]])]"

definition ex_event :: event_envelope where
  "ex_event = \<lparr>ev_id = ''1'', ev_source = ''s'', ev_type = ''b'', ev_time = ''t'', ev_subject = Some ''o7'', ev_datacontenttype = None,
     ev_dataschema = None, ev_data = PNone, ev_extensions = [], ev_data_present = False\<rparr>"

definition ex_half :: match_state where
  "ex_half = \<lparr>ms_correlations = [(''order'', PStr ''o7'')], ms_matched_filters = [0], ms_progress = []\<rparr>"

lemma ex_decide:
  "decide ex_matcher ex_strategy ex_event ex_half = Inr (Some \<lparr>dc_filter_indices = [1], dc_correlations = [(''order'', PStr ''o7'')],
     dc_terminal = True, dc_terminator = False, dc_progress = []\<rparr>)"
  by code_simp


end
