(* ===== verification/Event_Inbox.thy ===== *)
theory Event_Inbox
  imports Events
begin

text \<open>
  The durable event store (\<^verbatim>\<open>event_store.py\<close>), its arrivals and publications: limits, profiles, the
  inbox with its arrival counter, the outbox with its reservations, delivery, retention pins and
  pruning. Tables are lists in insertion order. A stored envelope is the dictionary its text
  reads back as; a subscription payload is a record of its fields. Each operation is one
  transaction; the clock and a fresh UUID are arguments.

  The environment adds to that of the journal whether an invocation is terminal, the verification
  and retention of protected approvals and the participant that seals an outcome; participants of
  a publication write tables of their own and appear as a function that may raise.
\<close>

section \<open>Tables\<close>

record event_limits =
  el_max_event_bytes :: int
  el_max_retained_events :: int
  el_max_retained_bytes :: int
  el_max_subscriptions :: int
  el_max_outbox :: int
  el_scan_batch :: int
  el_retention_seconds :: rat

definition make_limits :: "event_limits \<Rightarrow> event_limits res" where
  "make_limits l =
     (if el_max_event_bytes l < 1 \<or> el_max_retained_events l < 1 \<or> el_max_retained_bytes l < 1 \<or> el_max_subscriptions l < 1
         \<or> el_max_outbox l < 1 \<or> el_scan_batch l < 1 \<or> el_retention_seconds l \<le> 0
      then Inl ValueError else Inr l)"

record inbox_row =
  ib_sequence :: int
  ib_scope :: string
  ib_source :: string
  ib_event_id :: string
  ib_envelope :: pyval
  ib_digest :: string
  ib_submitted_digest :: string
  ib_created_at :: rat
  ib_bytes :: int

record outbox_row =
  ob_invocation_id :: string
  ob_fingerprint :: string
  ob_scope :: string
  ob_envelope :: pyval
  ob_digest :: string
  ob_request_digest :: string
  ob_delivered :: bool
  ob_created_at :: rat
  ob_bytes :: int

record subscription_payload =
  sp_profile :: string
  sp_identity :: effect_identity
  sp_request_digest :: string
  sp_scope :: string
  sp_strategy :: pyval
  sp_cursor :: int
  sp_initial_cursor :: int
  sp_correlations :: "(string \<times> pyval) list"
  sp_matched_filters :: "nat list"
  sp_progress :: "(string \<times> pyval) list"
  sp_selection_count :: int
  sp_decision_count :: int

record subscription_row =
  sr_invocation_id :: string
  sr_fingerprint :: string
  sr_payload :: subscription_payload
  sr_status :: string

record selection_row =
  se_subscription :: string
  se_ordinal :: int
  se_inbox_sequence :: int
  se_digest :: string
  se_receipt_identity :: string

record profile_row =
  pf_fingerprint :: string
  pf_scope :: string
  pf_profile :: string
  pf_digest :: string

record consumer_pin =
  pn_scope :: string
  pn_cursor :: int
  pn_active :: bool

record event_store =
  st_journal :: journal
  st_limits :: event_limits
  st_counter :: int
  st_inbox :: "inbox_row list"
  st_outbox :: "(string \<times> outbox_row) list"
  st_subscriptions :: "(string \<times> subscription_row) list"
  st_selections :: "selection_row list"
  st_consumers :: "(string \<times> int) list"
  st_profiles :: "(string \<times> profile_row) list"
  st_pins :: "(string \<times> consumer_pin) list"
  st_consumer_selections :: "((string \<times> int) \<times> string) list"

record event_env =
  ee_journal :: journal_env
  ee_terminal :: "string \<Rightarrow> bool"
  ee_verify_approval :: "event_envelope \<Rightarrow> string \<Rightarrow> unit res"
  ee_outcome :: "effect_identity \<Rightarrow> effect_receipt \<Rightarrow> unit res"
  ee_retained :: "event_envelope \<Rightarrow> bool"

record event_arrival =
  ar_sequence :: int
  ar_envelope :: event_envelope
  ar_digest :: string

section \<open>Canonical texts\<close>

definition canonical :: "event_env \<Rightarrow> pyval \<Rightarrow> string res" where
  "canonical env v =
     bindE (validate_expression_data 0 64 v) (\<lambda>_. json_dumps False (je_float_repr (ee_journal env)) (sort_keys v))"

definition event_digest :: "event_env \<Rightarrow> pyval \<Rightarrow> string res" where
  "event_digest env v = bindE (canonical env v) (\<lambda>t. Inr (je_sha256 (ee_journal env) t))"

definition envelope_value :: "event_envelope \<Rightarrow> pyval" where
  "envelope_value e = PDict (envelope_dict e)"

definition check_scope :: "string \<Rightarrow> unit res" where
  "check_scope scope = guardE (scope \<noteq> [] \<and> utf8_length scope \<le> 1024) EventValidationError"

definition accept_envelope ::
  "event_env \<Rightarrow> event_limits \<Rightarrow> string \<Rightarrow> string \<Rightarrow> (string \<times> pyval) list \<Rightarrow> string \<Rightarrow> event_envelope res" where
  "accept_envelope env l uuid clock properties default_source =
     reraise {} EventValidationError
       (bindE (validate_expression_data 0 64 (PDict properties)) (\<lambda>_.
        bindE (make_envelope uuid clock properties default_source) (\<lambda>e.
        bindE (canonical env (envelope_value e)) (\<lambda>encoded.
        bindE (guardE (int (utf8_length encoded) \<le> el_max_event_bytes l) ValueError) (\<lambda>_.
        bindE (guardE (ev_id e \<noteq> [] \<and> ev_source e \<noteq> [] \<and> length (ev_id e) \<le> 1024) ValueError) (\<lambda>_.
          Inr e))))))"

text \<open>
  A stored envelope that lacks its id or its time cannot equal its canonical form, whatever
  fresh values it would be given.
\<close>

definition decode_envelope :: "event_env \<Rightarrow> pyval \<Rightarrow> string \<Rightarrow> event_envelope res" where
  "decode_envelope env v digest =
     reraise {} WorkflowExecutionError
       (case v of
          PDict d \<Rightarrow>
            bindE (event_digest env v) (\<lambda>actual.
            bindE (guardE (actual = digest) ValueError) (\<lambda>_.
            bindE (case dict_get d ''source'' of None \<Rightarrow> Inl KeyError | Some src \<Rightarrow> text_or src []) (\<lambda>src.
            bindE (make_envelope ''-'' ''-'' d src) (\<lambda>e.
            bindE (canonical env (envelope_value e)) (\<lambda>a.
            bindE (canonical env v) (\<lambda>b.
            bindE (guardE (a = b) ValueError) (\<lambda>_. Inr e)))))))
        | _ \<Rightarrow> Inl ValueError)"

section \<open>Transactions and profiles\<close>

definition counter_ok :: "event_store \<Rightarrow> bool" where
  "counter_ok s \<longleftrightarrow> 0 \<le> st_counter s \<and> list_all (\<lambda>r. ib_sequence r \<le> st_counter s) (st_inbox s)"

definition event_transaction :: "event_store \<Rightarrow> 'a res \<Rightarrow> 'a res" where
  "event_transaction s body =
     (case bindE (guardE (counter_ok s) WorkflowExecutionError) (\<lambda>_. body) of
        Inl e \<Rightarrow> Inl (if is_owa_error e then e else WorkflowExecutionError)
      | Inr a \<Rightarrow> Inr a)"

definition event_owned :: "event_store \<Rightarrow> fence \<Rightarrow> effect_identity \<Rightarrow> 'a res \<Rightarrow> 'a res" where
  "event_owned s fc i body = owned fc i (event_transaction s body)"

definition profile_value :: "string \<Rightarrow> string \<Rightarrow> string \<Rightarrow> pyval" where
  "profile_value iid fp scope = PList [PStr ''owa/events/v1'', PStr iid, PStr fp, PStr scope]"

definition verify_profile :: "event_env \<Rightarrow> event_store \<Rightarrow> string \<Rightarrow> string \<Rightarrow> string option \<Rightarrow> unit res" where
  "verify_profile env s iid fp scope =
     (case dict_get (st_profiles s) iid of
        None \<Rightarrow> Inl WorkflowExecutionError
      | Some row \<Rightarrow>
          bindE (guardE (pf_fingerprint row = fp \<and> pf_profile row = ''owa/events/v1''
              \<and> (case scope of None \<Rightarrow> True | Some x \<Rightarrow> pf_scope row = x)) WorkflowExecutionError) (\<lambda>_.
          bindE (event_digest env (profile_value iid fp (pf_scope row))) (\<lambda>digest.
            guardE (pf_digest row = digest) WorkflowExecutionError)))"

definition bind_invocation :: "event_env \<Rightarrow> event_store \<Rightarrow> fence \<Rightarrow> string \<Rightarrow> string \<Rightarrow> string \<Rightarrow> event_store res" where
  "bind_invocation env s fc iid fp scope =
     bindE (check_scope scope) (\<lambda>_.
     bindE (make_identity \<lparr>ei_invocation_id = iid, ei_fingerprint = fp, ei_task_reference = ''/workflow'',
         ei_occurrence = [(''/workflow'', 1)], ei_operation = ''event:profile:v1''\<rparr>) (\<lambda>i.
     bindE (event_digest env (profile_value iid fp scope)) (\<lambda>digest.
     event_owned s fc i
       (let s' = (if dict_get (st_profiles s) iid = None
                  then s\<lparr>st_profiles := st_profiles s @
                         [(iid, \<lparr>pf_fingerprint = fp, pf_scope = scope, pf_profile = ''owa/events/v1'', pf_digest = digest\<rparr>)]\<rparr>
                  else s) in
        bindE (verify_profile env s' iid fp (Some scope)) (\<lambda>_. Inr s')))))"

definition bound_scope :: "event_env \<Rightarrow> event_store \<Rightarrow> effect_identity \<Rightarrow> string \<Rightarrow> unit res" where
  "bound_scope env s i scope =
     (if dict_get (st_profiles s) (ei_invocation_id i) \<noteq> None
      then verify_profile env s (ei_invocation_id i) (ei_fingerprint i) (Some scope) else Inr ())"

section \<open>Arrivals\<close>

type_synonym event_key = "string \<times> string \<times> string"

definition event_key_of :: "string \<Rightarrow> event_envelope \<Rightarrow> event_key" where
  "event_key_of scope e = (scope, ev_source e, ev_id e)"

definition inbox_key :: "inbox_row \<Rightarrow> event_key" where
  "inbox_key r = (ib_scope r, ib_source r, ib_event_id r)"

definition in_inbox :: "event_store \<Rightarrow> event_key \<Rightarrow> inbox_row option" where
  "in_inbox s k = find (\<lambda>r. inbox_key r = k) (st_inbox s)"

text \<open>Publications not delivered yet reserve their place in the inbox.\<close>

definition reserve :: "event_env \<Rightarrow> event_store \<Rightarrow> (event_key \<times> int) list \<Rightarrow> string \<times> outbox_row \<Rightarrow> (event_key \<times> int) list res" where
  "reserve env s found entry =
     (let row = snd entry in
      if ob_delivered row then Inr found
      else bindE (decode_envelope env (ob_envelope row) (ob_digest row)) (\<lambda>saved.
        let k = event_key_of (ob_scope row) saved in
        Inr (if in_inbox s k = None then dict_set k (ob_bytes row) found else found)))"

definition reservations :: "event_env \<Rightarrow> event_store \<Rightarrow> (event_key \<times> int) list res" where
  "reservations env s = foldE (reserve env s) [] (st_outbox s)"

definition inbox_bytes :: "event_store \<Rightarrow> int" where
  "inbox_bytes s = sum_list (map ib_bytes (st_inbox s))"

definition outbox_bytes :: "event_store \<Rightarrow> int" where
  "outbox_bytes s = sum_list (map (\<lambda>(k, row). ob_bytes row) (st_outbox s))"

definition check_capacity :: "event_env \<Rightarrow> event_store \<Rightarrow> event_envelope \<Rightarrow> string \<Rightarrow> bool \<Rightarrow> unit res" where
  "check_capacity env s e scope outbox =
     bindE (reservations env s) (\<lambda>res.
     bindE (canonical env (envelope_value e)) (\<lambda>encoded.
     let k = event_key_of scope e;
         octets = int (utf8_length encoded);
         held = dict_get res k;
         count = int (length (st_inbox s)) + int (length res);
         bytes = inbox_bytes s + outbox_bytes s + sum_list (map snd res);
         fits = (\<lambda>count bytes. guardE (count \<le> el_max_retained_events (st_limits s) \<and> bytes \<le> el_max_retained_bytes (st_limits s))
                   EventValidationError) in
     if outbox then
       bindE (guardE (int (length (st_outbox s)) < el_max_outbox (st_limits s)) EventValidationError) (\<lambda>_.
         if in_inbox s k = None \<and> held = None then fits (count + 1) (bytes + octets + octets) else fits count (bytes + octets))
     else
       (case held of None \<Rightarrow> fits (count + 1) (bytes + octets) | Some r \<Rightarrow> fits count (bytes + (octets - r)))))"

text \<open>\<^verbatim>\<open>_known_envelope\<close>: the inbox first, then the outbox of the scope in order.\<close>

fun known_outbox :: "event_env \<Rightarrow> (string \<times> outbox_row) list \<Rightarrow> string \<Rightarrow> event_envelope \<Rightarrow> event_envelope option res" where
  "known_outbox env [] scope e = Inr None"
| "known_outbox env ((k, row) # rows) scope e =
     (if ob_scope row \<noteq> scope then known_outbox env rows scope e
      else bindE (decode_envelope env (ob_envelope row) (ob_digest row)) (\<lambda>saved.
        if ev_source saved = ev_source e \<and> ev_id saved = ev_id e then Inr (Some saved) else known_outbox env rows scope e))"

definition known_envelope :: "event_env \<Rightarrow> event_store \<Rightarrow> string \<Rightarrow> event_envelope \<Rightarrow> event_envelope option res" where
  "known_envelope env s scope e =
     (case in_inbox s (event_key_of scope e) of
        Some r \<Rightarrow> bindE (decode_envelope env (ib_envelope r) (ib_digest r)) (\<lambda>saved. Inr (Some saved))
      | None \<Rightarrow> known_outbox env (st_outbox s) scope e)"

definition canonical_submission ::
  "event_env \<Rightarrow> event_store \<Rightarrow> string \<Rightarrow> string \<Rightarrow> (string \<times> pyval) list \<Rightarrow> string \<Rightarrow> string \<Rightarrow> event_envelope res" where
  "canonical_submission env s uuid clock properties default_source scope =
     bindE (accept_envelope env (st_limits s) uuid clock properties default_source) (\<lambda>proposed.
     bindE (known_envelope env s scope proposed) (\<lambda>saved.
       case saved of
         None \<Rightarrow> Inr proposed
       | Some old \<Rightarrow>
           let strip = (\<lambda>e. PDict (if dict_get properties ''time'' = None then dict_del ''time'' (envelope_dict e) else envelope_dict e)) in
           bindE (canonical env (strip proposed)) (\<lambda>incoming.
           bindE (canonical env (strip old)) (\<lambda>recorded.
             if incoming \<noteq> recorded then Inl EventValidationError else Inr old))))"

definition arrival_row :: "event_store \<Rightarrow> rat \<Rightarrow> string \<Rightarrow> event_envelope \<Rightarrow> string \<Rightarrow> string \<Rightarrow> int \<Rightarrow> inbox_row" where
  "arrival_row s now scope e digest submitted octets =
     \<lparr>ib_sequence = st_counter s + 1, ib_scope = scope, ib_source = ev_source e, ib_event_id = ev_id e,
      ib_envelope = envelope_value e, ib_digest = digest, ib_submitted_digest = submitted, ib_created_at = now, ib_bytes = octets\<rparr>"

definition ingest_in_transaction ::
  "event_env \<Rightarrow> event_store \<Rightarrow> string \<Rightarrow> string \<Rightarrow> rat \<Rightarrow> (string \<times> pyval) list \<Rightarrow> string \<Rightarrow> string \<Rightarrow> (event_envelope \<Rightarrow> unit res) \<Rightarrow>
   (event_store \<times> event_envelope) res" where
  "ingest_in_transaction env s uuid clock now properties default_source scope participant =
     bindE (check_scope scope) (\<lambda>_.
     bindE (canonical_submission env s uuid clock properties default_source scope) (\<lambda>proposed.
     bindE (event_digest env (PDict (dict_update properties
         [(''id'', PStr (ev_id proposed)), (''source'', PStr (ev_source proposed))]))) (\<lambda>submitted.
       case in_inbox s (event_key_of scope proposed) of
         Some row \<Rightarrow>
           bindE (decode_envelope env (ib_envelope row) (ib_digest row)) (\<lambda>e.
           bindE (canonical env (envelope_value e)) (\<lambda>a.
           bindE (canonical env (envelope_value proposed)) (\<lambda>b.
           bindE (guardE (ib_submitted_digest row = submitted \<or> a = b) EventValidationError) (\<lambda>_.
           bindE (participant e) (\<lambda>_. Inr (s, e))))))
       | None \<Rightarrow>
           bindE (canonical env (envelope_value proposed)) (\<lambda>encoded.
           bindE (check_capacity env s proposed scope False) (\<lambda>_.
           bindE (event_digest env (envelope_value proposed)) (\<lambda>digest.
           bindE (participant proposed) (\<lambda>_.
             Inr (s\<lparr>st_counter := st_counter s + 1,
                    st_inbox := st_inbox s @ [arrival_row s now scope proposed digest submitted (int (utf8_length encoded))]\<rparr>,
                  proposed))))))))"

definition ingest ::
  "event_env \<Rightarrow> event_store \<Rightarrow> string \<Rightarrow> string \<Rightarrow> rat \<Rightarrow> (string \<times> pyval) list \<Rightarrow> string \<Rightarrow> string \<Rightarrow> (event_envelope \<Rightarrow> unit res) \<Rightarrow>
   (event_store \<times> event_envelope) res" where
  "ingest env s uuid clock now properties default_source scope participant =
     event_transaction s (ingest_in_transaction env s uuid clock now properties default_source scope participant)"

definition scan :: "event_store \<Rightarrow> string \<Rightarrow> int \<Rightarrow> int \<Rightarrow> inbox_row list" where
  "scan s scope after bound =
     take (nat bound) (sort_key ib_sequence (filter (\<lambda>r. ib_scope r = scope \<and> after < ib_sequence r) (st_inbox s)))"

definition arrivals :: "event_env \<Rightarrow> event_store \<Rightarrow> string \<Rightarrow> int \<Rightarrow> (int \<times> event_envelope) list res" where
  "arrivals env s scope after =
     bindE (check_scope scope) (\<lambda>_.
     bindE (guardE (0 \<le> after) ValueError) (\<lambda>_.
       mapE (\<lambda>r. bindE (decode_envelope env (ib_envelope r) (ib_digest r)) (\<lambda>e. Inr (ib_sequence r, e)))
         (scan s scope after (el_scan_batch (st_limits s)))))"

definition arrivals_in_transaction :: "event_env \<Rightarrow> event_store \<Rightarrow> string \<Rightarrow> int \<Rightarrow> int option \<Rightarrow> event_arrival list res" where
  "arrivals_in_transaction env s scope after bound =
     bindE (check_scope scope) (\<lambda>_.
     let maximum = (case bound of None \<Rightarrow> el_scan_batch (st_limits s) | Some n \<Rightarrow> n) in
     bindE (guardE (0 \<le> after \<and> 0 < maximum \<and> maximum \<le> el_scan_batch (st_limits s)) EventValidationError) (\<lambda>_.
       mapE (\<lambda>r. bindE (decode_envelope env (ib_envelope r) (ib_digest r)) (\<lambda>e.
           Inr \<lparr>ar_sequence = ib_sequence r, ar_envelope = e, ar_digest = ib_digest r\<rparr>))
         (scan s scope after maximum)))"

section \<open>Publications\<close>

definition verify_outbox :: "event_env \<Rightarrow> event_store \<Rightarrow> effect_identity \<Rightarrow> effect_receipt \<Rightarrow> unit res" where
  "verify_outbox env s i r =
     (case dict_get (st_outbox s) (effect_key (ee_journal env) i) of
        None \<Rightarrow> Inl WorkflowExecutionError
      | Some row \<Rightarrow>
          bindE (guardE (ob_invocation_id row = ei_invocation_id i \<and> ob_fingerprint row = ei_fingerprint i
              \<and> ob_request_digest row = rc_request_digest r) WorkflowExecutionError) (\<lambda>_.
          bindE (decode_envelope env (ob_envelope row) (ob_digest row)) (\<lambda>e.
          bindE (ee_verify_approval env e (ob_scope row)) (\<lambda>_.
          bindE (canonical env (rc_output r)) (\<lambda>a.
          bindE (canonical env (envelope_value e)) (\<lambda>b.
          bindE (guardE (a = b) WorkflowExecutionError) (\<lambda>_.
            if ob_delivered row
            then (case in_inbox s (event_key_of (ob_scope row) e) of
                    None \<Rightarrow> Inl WorkflowExecutionError
                  | Some inbox \<Rightarrow> guardE (ib_digest inbox = ob_digest row) WorkflowExecutionError)
            else Inr ())))))))"

definition publication_receipt :: "string \<Rightarrow> event_envelope \<Rightarrow> string option \<Rightarrow> effect_receipt" where
  "publication_receipt digest e opid =
     (pending_receipt digest ''event'' opid)\<lparr>rc_status := ''completed'', rc_output := envelope_value e\<rparr>"

definition publication_row :: "effect_identity \<Rightarrow> string \<Rightarrow> event_envelope \<Rightarrow> string \<Rightarrow> string \<Rightarrow> rat \<Rightarrow> int \<Rightarrow> outbox_row" where
  "publication_row i scope e digest request now octets =
     \<lparr>ob_invocation_id = ei_invocation_id i, ob_fingerprint = ei_fingerprint i, ob_scope = scope, ob_envelope = envelope_value e,
      ob_digest = digest, ob_request_digest = request, ob_delivered = False, ob_created_at = now, ob_bytes = octets\<rparr>"

definition publish_new ::
  "event_env \<Rightarrow> event_store \<Rightarrow> string \<Rightarrow> string \<Rightarrow> rat \<Rightarrow> effect_identity \<Rightarrow> string \<Rightarrow> (string \<times> pyval) list \<Rightarrow> string \<Rightarrow> string \<Rightarrow>
   string option \<Rightarrow> (event_envelope \<Rightarrow> unit res) \<Rightarrow> (event_store \<times> effect_receipt) res" where
  "publish_new env s uuid clock now i request properties default_source scope opid participant =
     bindE (canonical_submission env s uuid clock properties default_source scope) (\<lambda>e.
     bindE (canonical env (envelope_value e)) (\<lambda>encoded.
     bindE (check_capacity env s e scope True) (\<lambda>_.
     bindE (participant e) (\<lambda>_.
     bindE (event_digest env (envelope_value e)) (\<lambda>digest.
     bindE (guardE (dict_get (st_outbox s) (effect_key (ee_journal env) i) = None) IntegrityError) (\<lambda>_.
     bindE (make_receipt (publication_receipt request e opid)) (\<lambda>receipt.
     bindE (ee_outcome env i receipt) (\<lambda>_.
     bindE (insert_completed_receipt (ee_journal env) (st_journal s) i receipt) (\<lambda>j.
       Inr (s\<lparr>st_journal := j,
              st_outbox := st_outbox s @ [(effect_key (ee_journal env) i,
                publication_row i scope e digest request now (int (utf8_length encoded)))]\<rparr>, receipt))))))))))"

definition publish_effect ::
  "event_env \<Rightarrow> event_store \<Rightarrow> fence \<Rightarrow> string \<Rightarrow> string \<Rightarrow> rat \<Rightarrow> effect_identity \<Rightarrow> string \<Rightarrow> (string \<times> pyval) list \<Rightarrow> string \<Rightarrow> string \<Rightarrow>
   string option \<Rightarrow> (event_envelope \<Rightarrow> unit res) \<Rightarrow> (event_store \<times> effect_receipt) res" where
  "publish_effect env s fc uuid clock now i request properties default_source scope opid participant =
     bindE (guardE (ei_operation i = ''emit'') WorkflowExecutionError) (\<lambda>_.
     bindE (check_scope scope) (\<lambda>_.
     event_owned s fc i
       (bindE (bound_scope env s i scope) (\<lambda>_.
        bindE (get_effect (ee_journal env) (st_journal s) i) (\<lambda>existing.
          case existing of
            Some r \<Rightarrow>
              bindE (guardE (rc_status r = ''completed'' \<and> rc_request_digest r = request) WorkflowExecutionError) (\<lambda>_.
              bindE (verify_outbox env s i r) (\<lambda>_. Inr (s, r)))
          | None \<Rightarrow>
              bindE (guardE (\<not> ee_terminal env (ei_invocation_id i)) InvocationStateConflict) (\<lambda>_.
                publish_new env s uuid clock now i request properties default_source scope opid participant))))))"

definition deliver_one :: "event_env \<Rightarrow> rat \<Rightarrow> event_store \<Rightarrow> string \<times> outbox_row \<Rightarrow> event_store res" where
  "deliver_one env now s entry =
     (let row = snd entry in
      bindE (decode_envelope env (ob_envelope row) (ob_digest row)) (\<lambda>e.
      bindE (ingest_in_transaction env s ''-'' ''-'' now (envelope_dict e) (ev_source e) (ob_scope row) (\<lambda>_. Inr ())) (\<lambda>(s', _).
        Inr (s'\<lparr>st_outbox := map (\<lambda>(k, r). (k, if k = fst entry then r\<lparr>ob_delivered := True\<rparr> else r)) (st_outbox s')\<rparr>))))"

definition undelivered :: "event_store \<Rightarrow> (string \<times> outbox_row) list" where
  "undelivered s = sort_key (\<lambda>(k, r). ob_created_at r) (sort_key fst (filter (\<lambda>(k, r). \<not> ob_delivered r) (st_outbox s)))"

definition deliver_outbox :: "event_env \<Rightarrow> event_store \<Rightarrow> rat \<Rightarrow> int \<Rightarrow> (event_store \<times> int) res" where
  "deliver_outbox env s now bound =
     bindE (guardE (1 \<le> bound \<and> bound \<le> el_scan_batch (st_limits s)) ValueError) (\<lambda>_.
     event_transaction s
       (let rows = take (nat bound) (undelivered s) in
        bindE (foldE (deliver_one env now) s rows) (\<lambda>s'. Inr (s', int (length rows)))))"

section \<open>Retention\<close>

definition consumer_pin_of :: "event_store \<Rightarrow> string \<Rightarrow> consumer_pin option res" where
  "consumer_pin_of s key =
     (case dict_get (st_pins s) key of
        None \<Rightarrow> Inr None
      | Some p \<Rightarrow> bindE (guardE (0 \<le> pn_cursor p) WorkflowExecutionError) (\<lambda>_.
                  bindE (check_scope (pn_scope p)) (\<lambda>_. Inr (Some p))))"

definition pin_selection :: "event_env \<Rightarrow> string \<Rightarrow> consumer_pin \<Rightarrow> event_store \<Rightarrow> event_arrival \<Rightarrow> event_store res" where
  "pin_selection env key pin s a =
     (case find (\<lambda>r. ib_sequence r = ar_sequence a) (st_inbox s) of
        None \<Rightarrow> Inl WorkflowExecutionError
      | Some row \<Rightarrow>
          bindE (guardE (ib_scope row = pn_scope pin \<and> ib_digest row = ar_digest a) WorkflowExecutionError) (\<lambda>_.
          bindE (decode_envelope env (ib_envelope row) (ib_digest row)) (\<lambda>e.
          bindE (canonical env (envelope_value e)) (\<lambda>x.
          bindE (canonical env (envelope_value (ar_envelope a))) (\<lambda>y.
          bindE (guardE (x = y \<and> ar_sequence a \<le> pn_cursor pin) WorkflowExecutionError) (\<lambda>_.
            (case dict_get (st_consumer_selections s) (key, ar_sequence a) of
               None \<Rightarrow> Inr (s\<lparr>st_consumer_selections := st_consumer_selections s @ [((key, ar_sequence a), ar_digest a)]\<rparr>)
             | Some old \<Rightarrow> if old \<noteq> ar_digest a then Inl WorkflowExecutionError else Inr s)))))))"

definition pin_consumer :: "event_env \<Rightarrow> event_store \<Rightarrow> string \<Rightarrow> consumer_pin \<Rightarrow> event_arrival list \<Rightarrow> event_store res" where
  "pin_consumer env s key pin selected =
     bindE (check_scope (pn_scope pin)) (\<lambda>_.
     bindE (guardE (key \<noteq> [] \<and> utf8_length key \<le> 1024 \<and> 0 \<le> pn_cursor pin) EventValidationError) (\<lambda>_.
     bindE (consumer_pin_of s key) (\<lambda>existing.
     bindE (guardE (pn_cursor pin \<le> st_counter s) WorkflowExecutionError) (\<lambda>_.
     bindE (case existing of
              None \<Rightarrow> guardE (int (length (st_subscriptions s)) + int (length (st_pins s)) < el_max_subscriptions (st_limits s)) EventValidationError
            | Some p \<Rightarrow> guardE (pn_scope p = pn_scope pin \<and> pn_cursor p \<le> pn_cursor pin \<and> (pn_active p \<or> \<not> pn_active pin)) WorkflowExecutionError) (\<lambda>_.
     bindE (foldE (pin_selection env key pin) s selected) (\<lambda>s'.
       Inr (s'\<lparr>st_pins := dict_set key (case existing of None \<Rightarrow> pin | Some p \<Rightarrow> pin\<lparr>pn_scope := pn_scope p\<rparr>) (st_pins s')\<rparr>)))))))"

definition verify_consumer_selection ::
  "event_env \<Rightarrow> event_store \<Rightarrow> string \<Rightarrow> string \<Rightarrow> int \<Rightarrow> string \<Rightarrow> event_arrival res" where
  "verify_consumer_selection env s key scope sequence digest =
     (case find (\<lambda>r. ib_sequence r = sequence) (st_inbox s) of
        None \<Rightarrow> Inl WorkflowExecutionError
      | Some row \<Rightarrow>
          bindE (guardE (dict_get (st_consumer_selections s) (key, sequence) = Some digest \<and> ib_scope row = scope \<and> ib_digest row = digest)
            WorkflowExecutionError) (\<lambda>_.
          bindE (decode_envelope env (ib_envelope row) (ib_digest row)) (\<lambda>e.
            Inr \<lparr>ar_sequence = sequence, ar_envelope = e, ar_digest = digest\<rparr>)))"

definition referenced :: "event_store \<Rightarrow> inbox_row \<Rightarrow> bool" where
  "referenced s r \<longleftrightarrow> list_ex (\<lambda>x. se_inbox_sequence x = ib_sequence r) (st_selections s)
     \<or> list_ex (\<lambda>((key, sequence), d). sequence = ib_sequence r) (st_consumer_selections s)"

text \<open>A pending listener or an active consumer of the scope has not scanned the arrival yet.\<close>

definition scan_pending :: "event_store \<Rightarrow> inbox_row \<Rightarrow> bool" where
  "scan_pending s r \<longleftrightarrow>
     list_ex (\<lambda>(k, x). sr_status x = ''pending'' \<and> sp_scope (sr_payload x) = ib_scope r \<and> sp_cursor (sr_payload x) < ib_sequence r) (st_subscriptions s)
     \<or> list_ex (\<lambda>(k, p). pn_scope p = ib_scope r \<and> pn_active p \<and> pn_cursor p < ib_sequence r) (st_pins s)"

fun published_in :: "event_env \<Rightarrow> (string \<times> outbox_row) list \<Rightarrow> inbox_row \<Rightarrow> bool res" where
  "published_in env [] r = Inr False"
| "published_in env ((k, row) # rows) r =
     (if ob_scope row = ib_scope r \<and> ob_delivered row
      then bindE (decode_envelope env (ob_envelope row) (ob_digest row)) (\<lambda>e.
             if ev_source e = ib_source r \<and> ev_id e = ib_event_id r then Inr True else published_in env rows r)
      else published_in env rows r)"

definition prune_one :: "event_env \<Rightarrow> event_store \<times> int \<Rightarrow> inbox_row \<Rightarrow> (event_store \<times> int) res" where
  "prune_one env acc r =
     (let s = fst acc in
      bindE (decode_envelope env (ib_envelope r) (ib_digest r)) (\<lambda>e.
        if ee_retained env e \<or> scan_pending s r then Inr acc
        else bindE (published_in env (st_outbox s) r) (\<lambda>kept.
          if kept then Inr acc
          else Inr (s\<lparr>st_inbox := filter (\<lambda>x. ib_sequence x \<noteq> ib_sequence r) (st_inbox s)\<rparr>, snd acc + 1))))"

definition prune_events :: "event_env \<Rightarrow> event_store \<Rightarrow> rat \<Rightarrow> int \<Rightarrow> (event_store \<times> int) res" where
  "prune_events env s now bound =
     bindE (guardE (0 < bound \<and> bound \<le> el_scan_batch (st_limits s)) ValueError) (\<lambda>_.
     event_transaction s
       (foldE (prune_one env) (s, 0)
         (take (nat bound) (sort_key ib_sequence
           (filter (\<lambda>r. ib_created_at r < now - el_retention_seconds (st_limits s) \<and> \<not> referenced s r) (st_inbox s))))))"

end
