(* ===== verification/Event_Capacity.thy ===== *)
theory Event_Capacity
  imports Event_Inbox
begin

text \<open>
  What the event store promises about arrivals and publications: an event identity is bound to one
  content, the retained events and octets stay within the limits, and a publication that was
  acknowledged can always be delivered, because its place in the inbox was reserved.
\<close>

section \<open>Stored events\<close>

definition holds_event :: "event_env \<Rightarrow> event_limits \<Rightarrow> pyval \<Rightarrow> string \<Rightarrow> int \<Rightarrow> event_envelope \<Rightarrow> bool" where
  "holds_event env l v d n e \<longleftrightarrow> envelope_ok e \<and> normal_envelope e = e \<and> v = envelope_value e \<and> length (ev_id e) \<le> 1024 \<and>
     (\<exists>t. canonical env v = Inr t \<and> d = je_sha256 (ee_journal env) t \<and> n = int (utf8_length t) \<and> n \<le> el_max_event_bytes l)"

lemma envelope_field:
  assumes "envelope_ok e"
  shows "dict_get (envelope_dict e) ''source'' = Some (PStr (ev_source e))" "dict_get (envelope_dict e) ''id'' = Some (PStr (ev_id e))"
    "dict_get (envelope_dict e) ''time'' = Some (PStr (ev_time e))"
  using head_field [OF assms] by (simp_all add: known_fields_def envelope_head_def)

lemma decode_holds:
  assumes "holds_event env l v d n e"
  shows "decode_envelope env v d = Inr e"
proof -
  obtain t where ok: "envelope_ok e" "normal_envelope e = e" "v = envelope_value e"
    and t: "canonical env v = Inr t" "d = je_sha256 (ee_journal env) t"
    using assms by (auto simp: holds_event_def)
  have "text_or (PStr (ev_source e)) [] = Inr (ev_source e)" using ok(1) by (simp add: text_or_def envelope_ok_def)
  then show ?thesis
    using t ok(2) envelope_field(1) [OF ok(1)] envelope_reads_back [OF ok(1), of "''-''" "''-''" "ev_source e"]
    by (simp add: decode_envelope_def ok(3) envelope_value_def event_digest_def)
qed

lemma accept_holds:
  assumes "accept_envelope env l uuid clock properties src = Inr e" "dict_wf properties"
  shows "\<exists>t. canonical env (envelope_value e) = Inr t \<and>
    holds_event env l (envelope_value e) (je_sha256 (ee_journal env) t) (int (utf8_length t)) e"
proof -
  obtain t where e: "make_envelope uuid clock properties src = Inr e" "canonical env (envelope_value e) = Inr t"
    "int (utf8_length t) \<le> el_max_event_bytes l" "ev_id e \<noteq> []" "ev_source e \<noteq> []" "length (ev_id e) \<le> 1024"
    using assms(1) by (auto simp: accept_envelope_def)
  have "dict_wf (filter (\<lambda>(k, x). k \<notin> set known_fields) properties)"
    using assms(2) by (simp add: dict_wf_def distinct_map_filter)
  then have "envelope_ok e"
    using e(4,5) make_envelope_fields(1,2) [OF e(1)] unfolding envelope_ok_def by auto
  then show ?thesis using e made_envelope_normal [OF e(1)] unfolding holds_event_def by blast
qed

lemma accept_again:
  assumes "holds_event env l v d n e"
  shows "accept_envelope env l uuid clock (envelope_dict e) src = Inr e"
proof -
  obtain t where ok: "envelope_ok e" "normal_envelope e = e" "v = envelope_value e" "length (ev_id e) \<le> 1024"
    and t: "canonical env v = Inr t" "int (utf8_length t) \<le> el_max_event_bytes l"
    using assms by (auto simp: holds_event_def)
  have "validate_expression_data 0 64 (PDict (envelope_dict e)) = Inr ()"
    using t(1) ok(3) by (auto simp: canonical_def envelope_value_def)
  then show ?thesis
    using t ok envelope_reads_back [OF ok(1), of uuid clock src] by (simp add: accept_envelope_def envelope_ok_def)
qed

text \<open>The keys of stored events; the rows of both tables as one collection.\<close>

definition value_key :: "string \<Rightarrow> pyval \<Rightarrow> event_key" where
  "value_key scope v = (scope, (case get_field v ''source'' of PStr x \<Rightarrow> x | _ \<Rightarrow> []), (case get_field v ''id'' of PStr x \<Rightarrow> x | _ \<Rightarrow> []))"

lemma value_key_envelope: "envelope_ok e \<Longrightarrow> value_key scope (envelope_value e) = event_key_of scope e"
  by (simp add: value_key_def envelope_value_def event_key_of_def get_field_def envelope_field)

definition outbox_key :: "outbox_row \<Rightarrow> event_key" where
  "outbox_key row = value_key (ob_scope row) (ob_envelope row)"

type_synonym stored_event = "event_key \<times> pyval \<times> string \<times> int"

definition inbox_event :: "inbox_row \<Rightarrow> stored_event" where
  "inbox_event r = (inbox_key r, ib_envelope r, ib_digest r, ib_bytes r)"

definition outbox_event :: "outbox_row \<Rightarrow> stored_event" where
  "outbox_event r = (outbox_key r, ob_envelope r, ob_digest r, ob_bytes r)"

definition stored :: "event_store \<Rightarrow> stored_event set" where
  "stored s = inbox_event ` set (st_inbox s) \<union> outbox_event ` snd ` set (st_outbox s)"

definition good_event :: "event_env \<Rightarrow> event_limits \<Rightarrow> stored_event \<Rightarrow> bool" where
  "good_event env l x \<longleftrightarrow> (case x of (k, v, d, n) \<Rightarrow>
     \<exists>e. holds_event env l v d n e \<and> k = event_key_of (fst k) e \<and> check_scope (fst k) = Inr ())"

text \<open>All stored events are intact, and one identity has one content.\<close>

definition content_ok :: "event_env \<Rightarrow> event_store \<Rightarrow> bool" where
  "content_ok env s \<longleftrightarrow> (\<forall>x \<in> stored s. good_event env (st_limits s) x) \<and>
     (\<forall>x \<in> stored s. \<forall>y \<in> stored s. fst x = fst y \<longrightarrow> x = y)"

lemma good_eventE:
  assumes "good_event env l (k, v, d, n)"
  obtains e where "holds_event env l v d n e" "k = event_key_of (fst k) e" "check_scope (fst k) = Inr ()" "decode_envelope env v d = Inr e"
    "v = envelope_value e" "value_key (fst k) v = k"
proof -
  obtain e where e: "holds_event env l v d n e" "k = event_key_of (fst k) e" "check_scope (fst k) = Inr ()"
    using assms by (auto simp: good_event_def)
  have v: "v = envelope_value e" "envelope_ok e" using e(1) by (auto simp: holds_event_def)
  then have "value_key (fst k) v = k" using e(2) value_key_envelope by simp
  then show ?thesis using that [OF e decode_holds [OF e(1)] v(1)] by blast
qed

lemma inbox_good:
  assumes "content_ok env s" "r \<in> set (st_inbox s)"
  shows "good_event env (st_limits s) (inbox_event r)"
  using assms unfolding content_ok_def stored_def by blast

lemma outbox_good:
  assumes "content_ok env s" "(k, r) \<in> set (st_outbox s)"
  shows "good_event env (st_limits s) (outbox_event r)"
proof -
  have "outbox_event r \<in> stored s" using assms(2) unfolding stored_def by force
  then show ?thesis using assms(1) unfolding content_ok_def by blast
qed

lemma inbox_decodes:
  assumes "content_ok env s" "r \<in> set (st_inbox s)"
  obtains e where "decode_envelope env (ib_envelope r) (ib_digest r) = Inr e" "ib_envelope r = envelope_value e"
    "event_key_of (ib_scope r) e = inbox_key r" "holds_event env (st_limits s) (ib_envelope r) (ib_digest r) (ib_bytes r) e"
proof -
  from inbox_good [OF assms] obtain e where e: "holds_event env (st_limits s) (ib_envelope r) (ib_digest r) (ib_bytes r) e"
    "inbox_key r = event_key_of (fst (inbox_key r)) e" "decode_envelope env (ib_envelope r) (ib_digest r) = Inr e"
    "ib_envelope r = envelope_value e"
    unfolding inbox_event_def by (rule good_eventE)
  then show ?thesis using that [OF e(3,4) _ e(1)] by (simp add: inbox_key_def)
qed

lemma outbox_decodes:
  assumes "content_ok env s" "(k, r) \<in> set (st_outbox s)"
  obtains e where "decode_envelope env (ob_envelope r) (ob_digest r) = Inr e" "ob_envelope r = envelope_value e"
    "event_key_of (ob_scope r) e = outbox_key r" "holds_event env (st_limits s) (ob_envelope r) (ob_digest r) (ob_bytes r) e"
    "check_scope (ob_scope r) = Inr ()"
proof -
  have scope: "fst (outbox_key r) = ob_scope r" by (simp add: outbox_key_def value_key_def)
  from outbox_good [OF assms] obtain e where e: "holds_event env (st_limits s) (ob_envelope r) (ob_digest r) (ob_bytes r) e"
    "outbox_key r = event_key_of (fst (outbox_key r)) e" "check_scope (fst (outbox_key r)) = Inr ()"
    "decode_envelope env (ob_envelope r) (ob_digest r) = Inr e" "ob_envelope r = envelope_value e"
    unfolding outbox_event_def by (rule good_eventE)
  show ?thesis using that [OF e(4,5) _ e(1)] e(2,3) scope by simp
qed

lemma same_content:
  assumes "content_ok env s" "x \<in> stored s" "y \<in> stored s" "fst x = fst y"
  shows "x = y"
  using assms unfolding content_ok_def by blast

lemma outbox_stored: "(k, r) \<in> set (st_outbox s) \<Longrightarrow> outbox_event r \<in> stored s"
  unfolding stored_def by force

lemma inbox_stored: "r \<in> set (st_inbox s) \<Longrightarrow> inbox_event r \<in> stored s"
  unfolding stored_def by blast

section \<open>Reservations\<close>

text \<open>The keys and sizes of undelivered publications that have no arrival yet.\<close>

definition reserved_by :: "event_store \<Rightarrow> (string \<times> outbox_row) list \<Rightarrow> (event_key \<times> int) set" where
  "reserved_by s rows = {x. in_inbox s (fst x) = None \<and>
     (\<exists>i r. (i, r) \<in> set rows \<and> \<not> ob_delivered r \<and> outbox_key r = fst x \<and> ob_bytes r = snd x)}"

definition reserved :: "event_store \<Rightarrow> (event_key \<times> int) set" where
  "reserved s = reserved_by s (st_outbox s)"

lemma reserved_by_snoc:
  "reserved_by s (xs @ [(i, r)]) = (if \<not> ob_delivered r \<and> in_inbox s (outbox_key r) = None
     then insert (outbox_key r, ob_bytes r) (reserved_by s xs) else reserved_by s xs)"
proof -
  have "x \<in> reserved_by s (xs @ [(i, r)]) \<longleftrightarrow>
      x \<in> reserved_by s xs \<or> in_inbox s (fst x) = None \<and> \<not> ob_delivered r \<and> outbox_key r = fst x \<and> ob_bytes r = snd x" for x
    unfolding reserved_by_def by (simp only: set_append list.set mem_Collect_eq Un_iff insert_iff empty_iff prod.inject) blast
  then show ?thesis by (auto simp: set_eq_iff simp del: split_paired_All)
qed

lemma reserved_byE:
  assumes "(k, n) \<in> reserved_by s xs"
  obtains i r where "(i, r) \<in> set xs" "\<not> ob_delivered r" "outbox_key r = k" "ob_bytes r = n" "in_inbox s k = None"
  using assms unfolding reserved_by_def by auto

lemma finite_reserved: "finite (reserved s)"
proof -
  have "reserved s \<subseteq> (\<lambda>(i, r). (outbox_key r, ob_bytes r)) ` set (st_outbox s)"
    unfolding reserved_def reserved_by_def by force
  then show ?thesis by (rule finite_subset) simp
qed

lemma outbox_same_size:
  assumes "content_ok env s" "(i, r) \<in> set (st_outbox s)" "(j, q) \<in> set (st_outbox s)" "outbox_key r = outbox_key q"
  shows "ob_bytes r = ob_bytes q"
  using same_content [OF assms(1) outbox_stored [OF assms(2)] outbox_stored [OF assms(3)]] assms(4) by (simp add: outbox_event_def)

lemma reserved_unique:
  assumes "content_ok env s" "(k, m) \<in> reserved s" "(k, n) \<in> reserved s"
  shows "m = n"
  using assms(2,3) unfolding reserved_def by (elim reserved_byE) (metis outbox_same_size [OF assms(1)])

lemma set_dict_set:
  assumes "dict_wf d" "\<And>w. (k, w) \<in> set d \<Longrightarrow> w = v"
  shows "set (dict_set k v d) = insert (k, v) (set d)"
proof -
  have get: "(a, b) \<in> set f \<longleftrightarrow> dict_get f a = Some b" if "dict_wf f" for a b and f :: "('a \<times> 'b) list"
    using that by (simp add: dict_wf_def)
  have "(a, b) \<in> set (dict_set k v d) \<longleftrightarrow> (a, b) \<in> insert (k, v) (set d)" for a b
    using assms get [of d a b] get [of "dict_set k v d" a b] by auto
  then show ?thesis by (auto simp: set_eq_iff)
qed

lemma reserve_step:
  assumes ok: "content_ok env s" and rows: "(i, r) \<in> set (st_outbox s)" "set xs \<subseteq> set (st_outbox s)"
    and found: "dict_wf found" "set found = reserved_by s xs"
  shows "\<exists>found'. reserve env s found (i, r) = Inr found' \<and> dict_wf found' \<and> set found' = reserved_by s (xs @ [(i, r)])"
proof -
  obtain e where e: "decode_envelope env (ob_envelope r) (ob_digest r) = Inr e" "event_key_of (ob_scope r) e = outbox_key r"
    using outbox_decodes [OF ok rows(1)] by metis
  show ?thesis
  proof (cases "ob_delivered r \<or> in_inbox s (outbox_key r) \<noteq> None")
    case True
    then have "reserve env s found (i, r) = Inr found" using e by (auto simp: reserve_def Let_def)
    moreover have "reserved_by s (xs @ [(i, r)]) = reserved_by s xs" using True unfolding reserved_by_snoc by presburger
    ultimately show ?thesis using found by (metis (no_types))
  next
    case False
    have "m = ob_bytes r" if "(outbox_key r, m) \<in> set found" for m
      using that unfolding found(2) by (elim reserved_byE) (metis outbox_same_size [OF ok rows(1)] rows(2) subsetD)
    then have "set (dict_set (outbox_key r) (ob_bytes r) found) = insert (outbox_key r, ob_bytes r) (set found)"
      using set_dict_set [OF found(1)] by blast
    moreover have "reserve env s found (i, r) = Inr (dict_set (outbox_key r) (ob_bytes r) found)"
      using e False by (auto simp: reserve_def Let_def)
    ultimately show ?thesis using found False by (simp add: reserved_by_snoc)
  qed
qed

lemma reservations_spec:
  assumes "content_ok env s"
  shows "\<exists>res. reservations env s = Inr res \<and> dict_wf res \<and> set res = reserved s"
proof -
  have "\<exists>res. foldE (reserve env s) [] xs = Inr res \<and> dict_wf res \<and> set res = reserved_by s xs"
    if "set xs \<subseteq> set (st_outbox s)" for xs
    using that
  proof (induction xs rule: rev_induct)
    case (snoc y xs)
    then obtain res where res: "foldE (reserve env s) [] xs = Inr res" "dict_wf res" "set res = reserved_by s xs" by auto
    obtain i r where y: "y = (i, r)" by (cases y)
    show ?case using reserve_step [OF assms _ _ res(2,3), of i r] snoc.prems y res(1) by (simp add: foldE_append)
  qed (simp add: reserved_by_def)
  then show ?thesis unfolding reservations_def reserved_def by blast
qed

text \<open>What the store retains and has promised to retain.\<close>

definition total_count :: "event_store \<Rightarrow> int" where
  "total_count s = int (length (st_inbox s)) + int (card (reserved s))"

definition total_bytes :: "event_store \<Rightarrow> int" where
  "total_bytes s = inbox_bytes s + outbox_bytes s + (\<Sum>x \<in> reserved s. snd x)"

definition fits_limits :: "event_store \<Rightarrow> int \<Rightarrow> int \<Rightarrow> bool" where
  "fits_limits s count bytes \<longleftrightarrow> count \<le> el_max_retained_events (st_limits s) \<and> bytes \<le> el_max_retained_bytes (st_limits s)"

lemma check_capacity_spec:
  fixes scope :: string
  assumes "content_ok env s" "canonical env (envelope_value e) = Inr t"
  defines "k \<equiv> event_key_of scope e" and "n \<equiv> int (utf8_length t)"
  shows "check_capacity env s e scope True = Inr () \<longleftrightarrow> int (length (st_outbox s)) < el_max_outbox (st_limits s) \<and>
      (if in_inbox s k = None \<and> (\<forall>m. (k, m) \<notin> reserved s) then fits_limits s (total_count s + 1) (total_bytes s + n + n)
       else fits_limits s (total_count s) (total_bytes s + n))"
    and "check_capacity env s e scope False = Inr () \<longleftrightarrow>
      (if \<forall>m. (k, m) \<notin> reserved s then fits_limits s (total_count s + 1) (total_bytes s + n)
       else \<exists>m. (k, m) \<in> reserved s \<and> fits_limits s (total_count s) (total_bytes s + (n - m)))"
proof -
  obtain res where res: "reservations env s = Inr res" "dict_wf res" "set res = reserved s"
    using reservations_spec [OF assms(1)] by blast
  have "distinct res" using res(2) by (simp add: dict_wf_def distinct_map)
  then have sums: "int (length res) = int (card (reserved s))" "sum_list (map snd res) = (\<Sum>x \<in> reserved s. snd x)"
    using res(3) by (auto simp: distinct_card [symmetric] sum_list_distinct_conv_sum_set)
  have held: "dict_get res k = Some m \<longleftrightarrow> (k, m) \<in> reserved s" for m
    using res(2,3) by (simp add: dict_wf_def)
  have none: "dict_get res k = None \<longleftrightarrow> (\<forall>m. (k, m) \<notin> reserved s)"
    using held by (cases "dict_get res k") auto
  show "check_capacity env s e scope True = Inr () \<longleftrightarrow> int (length (st_outbox s)) < el_max_outbox (st_limits s) \<and>
      (if in_inbox s k = None \<and> (\<forall>m. (k, m) \<notin> reserved s) then fits_limits s (total_count s + 1) (total_bytes s + n + n)
       else fits_limits s (total_count s) (total_bytes s + n))"
    using res(1) assms(2) sums none
    by (simp add: check_capacity_def Let_def fits_limits_def total_count_def total_bytes_def k_def n_def)
  show "check_capacity env s e scope False = Inr () \<longleftrightarrow>
      (if \<forall>m. (k, m) \<notin> reserved s then fits_limits s (total_count s + 1) (total_bytes s + n)
       else \<exists>m. (k, m) \<in> reserved s \<and> fits_limits s (total_count s) (total_bytes s + (n - m)))"
  proof (cases "dict_get res k")
    case None
    then show ?thesis
      using res(1) assms(2) sums none by (simp add: check_capacity_def Let_def fits_limits_def total_count_def total_bytes_def k_def n_def)
  next
    case (Some m)
    then have m: "(k, m) \<in> reserved s" using held by blast
    moreover have "m' = m" if "(k, m') \<in> reserved s" for m' using that m reserved_unique [OF assms(1)] by blast
    ultimately have "(\<exists>m. (k, m) \<in> reserved s \<and> fits_limits s (total_count s) (total_bytes s + (n - m))) \<longleftrightarrow>
        fits_limits s (total_count s) (total_bytes s + (n - m))" by blast
    then show ?thesis
      using Some m res(1) assms(2) sums
      by (auto simp: check_capacity_def Let_def fits_limits_def total_count_def total_bytes_def k_def [symmetric] n_def)
  qed
qed

section \<open>Submissions keep one content per identity\<close>

lemma in_inbox_Some: "in_inbox s k = Some r \<Longrightarrow> r \<in> set (st_inbox s) \<and> inbox_key r = k"
  by (auto simp: in_inbox_def find_Some_iff)

lemma in_inbox_None: "in_inbox s k = None \<longleftrightarrow> k \<notin> inbox_key ` set (st_inbox s)"
  by (auto simp: in_inbox_def find_None_iff)

lemma event_key_eq: "event_key_of scope a = event_key_of scope b \<longleftrightarrow> ev_source a = ev_source b \<and> ev_id a = ev_id b"
  by (auto simp: event_key_of_def)

definition knows :: "event_env \<Rightarrow> event_store \<Rightarrow> string \<Rightarrow> event_envelope \<Rightarrow> event_envelope \<Rightarrow> bool" where
  "knows env s scope e old \<longleftrightarrow> event_key_of scope old = event_key_of scope e \<and>
     (\<exists>d n. (event_key_of scope e, envelope_value old, d, n) \<in> stored s \<and> holds_event env (st_limits s) (envelope_value old) d n old)"

lemma known_outbox_spec:
  assumes ok: "content_ok env s"
  shows "set rows \<subseteq> set (st_outbox s) \<Longrightarrow>
    (known_outbox env rows scope e = Inr None \<and> (\<forall>(k, r) \<in> set rows. outbox_key r \<noteq> event_key_of scope e)) \<or>
    (\<exists>old. known_outbox env rows scope e = Inr (Some old) \<and> knows env s scope e old)"
proof (induction rows)
  case (Cons y rows)
  obtain k r where y: "y = (k, r)" by (cases y)
  have mem: "(k, r) \<in> set (st_outbox s)" using Cons.prems y by simp
  obtain old where old: "decode_envelope env (ob_envelope r) (ob_digest r) = Inr old" "ob_envelope r = envelope_value old"
    "event_key_of (ob_scope r) old = outbox_key r" "holds_event env (st_limits s) (ob_envelope r) (ob_digest r) (ob_bytes r) old"
    using outbox_decodes [OF ok mem] by metis
  have IH: "(known_outbox env rows scope e = Inr None \<and> (\<forall>(k, r) \<in> set rows. outbox_key r \<noteq> event_key_of scope e)) \<or>
    (\<exists>old. known_outbox env rows scope e = Inr (Some old) \<and> knows env s scope e old)" using Cons by simp
  show ?case
  proof (cases "outbox_key r = event_key_of scope e")
    case True
    then have sc: "ob_scope r = scope" using old(3) by (simp add: event_key_of_def)
    have "knows env s scope e old"
      using old True sc outbox_stored [OF mem] unfolding knows_def outbox_event_def by metis
    moreover have "known_outbox env (y # rows) scope e = Inr (Some old)"
      using old True sc y by (auto simp: event_key_of_def)
    ultimately show ?thesis by blast
  next
    case False
    then have "known_outbox env (y # rows) scope e = known_outbox env rows scope e"
      using old y by (auto simp: event_key_of_def)
    then show ?thesis using IH False y by auto
  qed
qed simp

lemma known_spec:
  assumes ok: "content_ok env s"
  shows "(known_envelope env s scope e = Inr None \<and> event_key_of scope e \<notin> fst ` stored s) \<or>
    (\<exists>old. known_envelope env s scope e = Inr (Some old) \<and> knows env s scope e old)"
proof (cases "in_inbox s (event_key_of scope e)")
  case None
  then have inb: "event_key_of scope e \<notin> inbox_key ` set (st_inbox s)" by (simp add: in_inbox_None)
  have eq: "known_envelope env s scope e = known_outbox env (st_outbox s) scope e" using None by (simp add: known_envelope_def)
  have "event_key_of scope e \<notin> fst ` stored s" if "\<forall>(k, r) \<in> set (st_outbox s). outbox_key r \<noteq> event_key_of scope e"
    using that inb by (auto simp: stored_def inbox_event_def outbox_event_def)
  then show ?thesis using known_outbox_spec [OF ok order_refl, of scope e] unfolding eq by blast
next
  case (Some r)
  then have r: "r \<in> set (st_inbox s)" "inbox_key r = event_key_of scope e" using in_inbox_Some by blast+
  obtain old where old: "decode_envelope env (ib_envelope r) (ib_digest r) = Inr old" "ib_envelope r = envelope_value old"
    "event_key_of (ib_scope r) old = inbox_key r" "holds_event env (st_limits s) (ib_envelope r) (ib_digest r) (ib_bytes r) old"
    using inbox_decodes [OF ok r(1)] by metis
  have "knows env s scope e old"
    using old r inbox_stored [OF r(1)] unfolding knows_def inbox_event_def by (metis event_key_of_def prod.inject)
  then show ?thesis using Some old(1) by (simp add: known_envelope_def)
qed

text \<open>An accepted submission is intact, and it is what the store holds under its identity, if anything.\<close>

lemma submission_spec:
  assumes ok: "content_ok env s" and sub: "canonical_submission env s uuid clock properties src scope = Inr p"
    and wf: "dict_wf properties"
  obtains t where "canonical env (envelope_value p) = Inr t"
    "holds_event env (st_limits s) (envelope_value p) (je_sha256 (ee_journal env) t) (int (utf8_length t)) p"
    "\<And>x. x \<in> stored s \<Longrightarrow> fst x = event_key_of scope p \<Longrightarrow>
       x = (event_key_of scope p, envelope_value p, je_sha256 (ee_journal env) t, int (utf8_length t))"
proof -
  obtain q where q: "accept_envelope env (st_limits s) uuid clock properties src = Inr q"
    using sub by (auto simp: canonical_submission_def)
  consider (new) "known_envelope env s scope q = Inr None" "event_key_of scope q \<notin> fst ` stored s"
    | (old) old where "known_envelope env s scope q = Inr (Some old)" "knows env s scope q old"
    using known_spec [OF ok] by blast
  then show ?thesis
  proof cases
    case new
    then have "p = q" using sub q by (simp add: canonical_submission_def)
    then show ?thesis using accept_holds [OF q wf] new(2) that by (metis image_eqI)
  next
    case old
    then have p: "p = old" using sub q by (auto simp: canonical_submission_def Let_def split: if_splits)
    obtain d n where d: "(event_key_of scope q, envelope_value old, d, n) \<in> stored s"
      "holds_event env (st_limits s) (envelope_value old) d n old" "event_key_of scope old = event_key_of scope q"
      using old(2) unfolding knows_def by blast
    obtain t where t: "canonical env (envelope_value old) = Inr t" "d = je_sha256 (ee_journal env) t" "n = int (utf8_length t)"
      using d(2) by (auto simp: holds_event_def)
    show ?thesis
    proof (rule that)
      show "canonical env (envelope_value p) = Inr t" using t p by simp
      show "holds_event env (st_limits s) (envelope_value p) (je_sha256 (ee_journal env) t) (int (utf8_length t)) p"
        using d(2) t p by simp
      show "x = (event_key_of scope p, envelope_value p, je_sha256 (ee_journal env) t, int (utf8_length t))"
        if "x \<in> stored s" "fst x = event_key_of scope p" for x
        using same_content [OF ok that(1) d(1)] that(2) d(3) t p by simp
    qed
  qed
qed

section \<open>The invariant\<close>

definition events_ok :: "event_env \<Rightarrow> event_store \<Rightarrow> bool" where
  "events_ok env s \<longleftrightarrow> content_ok env s \<and> distinct (map inbox_key (st_inbox s)) \<and> distinct (map ib_sequence (st_inbox s)) \<and>
     counter_ok s \<and> distinct (map fst (st_outbox s)) \<and> fits_limits s (total_count s) (total_bytes s) \<and>
     (\<forall>(k, r) \<in> set (st_outbox s). ob_delivered r \<longrightarrow> in_inbox s (outbox_key r) \<noteq> None)"

lemma events_okD:
  assumes "events_ok env s"
  shows "content_ok env s" "distinct (map inbox_key (st_inbox s))" "distinct (map ib_sequence (st_inbox s))" "counter_ok s"
    "distinct (map fst (st_outbox s))" "fits_limits s (total_count s) (total_bytes s)"
    "\<And>k r. (k, r) \<in> set (st_outbox s) \<Longrightarrow> ob_delivered r \<Longrightarrow> in_inbox s (outbox_key r) \<noteq> None"
  using assms unfolding events_ok_def by blast+

lemma events_okI:
  assumes "content_ok env s" "distinct (map inbox_key (st_inbox s))" "distinct (map ib_sequence (st_inbox s))" "counter_ok s"
    "distinct (map fst (st_outbox s))" "fits_limits s (total_count s) (total_bytes s)"
    "\<And>k r. (k, r) \<in> set (st_outbox s) \<Longrightarrow> ob_delivered r \<Longrightarrow> in_inbox s (outbox_key r) \<noteq> None"
  shows "events_ok env s"
  unfolding events_ok_def using assms by blast

lemma content_ok_insert:
  assumes "content_ok env s" "stored s' = insert x (stored s)" "st_limits s' = st_limits s" "good_event env (st_limits s) x"
    "\<And>y. y \<in> stored s \<Longrightarrow> fst y = fst x \<Longrightarrow> y = x"
  shows "content_ok env s'"
  unfolding content_ok_def assms(2,3)
proof (intro conjI ballI impI)
  fix y assume "y \<in> insert x (stored s)"
  then show "good_event env (st_limits s) y" using assms(1,4) unfolding content_ok_def by blast
next
  fix y z assume yz: "y \<in> insert x (stored s)" "z \<in> insert x (stored s)" "fst y = fst z"
  show "y = z"
  proof (cases "y = x \<or> z = x")
    case True
    then show ?thesis using yz assms(5) [of y] assms(5) [of z] by (metis insertE)
  next
    case False
    then show ?thesis using yz same_content [OF assms(1)] by blast
  qed
qed

lemma content_ok_subset:
  assumes "content_ok env s" "stored s' \<subseteq> stored s" "st_limits s' = st_limits s"
  shows "content_ok env s'"
  using assms(1,2) unfolding content_ok_def assms(3) by blast

lemma good_submission:
  assumes "holds_event env l (envelope_value p) d n p" "check_scope scope = Inr ()"
  shows "good_event env l (event_key_of scope p, envelope_value p, d, n)"
  using assms by (auto simp: good_event_def event_key_of_def)

text \<open>What an arrival does to the reservations and to the totals.\<close>

lemma reserved_arrival:
  assumes "st_inbox s' = st_inbox s @ [r]" "st_outbox s' = st_outbox s"
  shows "reserved s' = {x \<in> reserved s. fst x \<noteq> inbox_key r}"
  unfolding reserved_def reserved_by_def in_inbox_None assms by auto

lemma sum_remove_key:
  fixes A :: "('k \<times> int) set"
  assumes "finite A" "(k, n) \<in> A" "\<And>m. (k, m) \<in> A \<Longrightarrow> m = n"
  shows "(\<Sum>x \<in> {x \<in> A. fst x \<noteq> k}. snd x) = (\<Sum>x \<in> A. snd x) - n" "int (card {x \<in> A. fst x \<noteq> k}) = int (card A) - 1"
proof -
  have eq: "{x \<in> A. fst x \<noteq> k} = A - {(k, n)}"
  proof (rule set_eqI)
    fix x show "x \<in> {x \<in> A. fst x \<noteq> k} \<longleftrightarrow> x \<in> A - {(k, n)}" using assms(3) [of "snd x"] by (cases x) auto
  qed
  have "0 < card A" using assms(1,2) by (auto simp: card_gt_0_iff)
  then have "int (card A - Suc 0) = int (card A) - 1" by linarith
  then show "(\<Sum>x \<in> {x \<in> A. fst x \<noteq> k}. snd x) = (\<Sum>x \<in> A. snd x) - n" "int (card {x \<in> A. fst x \<noteq> k}) = int (card A) - 1"
    unfolding eq using assms(1,2) by (simp_all add: sum_diff1)
qed

lemma totals_arrival:
  assumes "st_inbox s' = st_inbox s @ [r]" "st_outbox s' = st_outbox s"
    and "\<And>m. (inbox_key r, m) \<in> reserved s \<Longrightarrow> m = ib_bytes r"
  shows "total_count s' = (if (inbox_key r, ib_bytes r) \<in> reserved s then total_count s else total_count s + 1)"
    "total_bytes s' = (if (inbox_key r, ib_bytes r) \<in> reserved s then total_bytes s else total_bytes s + ib_bytes r)"
proof -
  have same: "{x \<in> reserved s. fst x \<noteq> inbox_key r} = reserved s" if "(inbox_key r, ib_bytes r) \<notin> reserved s"
  proof (rule set_eqI)
    fix x show "x \<in> {x \<in> reserved s. fst x \<noteq> inbox_key r} \<longleftrightarrow> x \<in> reserved s"
      using that assms(3) [of "snd x"] by (cases x) auto
  qed
  note rem = sum_remove_key [OF finite_reserved [of s], of "inbox_key r" "ib_bytes r", OF _ assms(3)]
  show "total_count s' = (if (inbox_key r, ib_bytes r) \<in> reserved s then total_count s else total_count s + 1)"
    using rem(2) same unfolding total_count_def reserved_arrival [OF assms(1,2)] by (simp add: assms(1))
  show "total_bytes s' = (if (inbox_key r, ib_bytes r) \<in> reserved s then total_bytes s else total_bytes s + ib_bytes r)"
    using rem(1) same unfolding total_bytes_def reserved_arrival [OF assms(1,2)]
    by (simp add: assms(1,2) inbox_bytes_def outbox_bytes_def)
qed

lemma stored_arrival:
  assumes "st_inbox s' = st_inbox s @ [r]" "st_outbox s' = st_outbox s"
  shows "stored s' = insert (inbox_event r) (stored s)"
  using assms unfolding stored_def by auto

lemma reserved_stored:
  assumes "(k, m) \<in> reserved s"
  obtains v d where "(k, v, d, m) \<in> stored s"
  using assms outbox_stored unfolding reserved_def by (elim reserved_byE) (metis outbox_event_def)

lemma fits_limits_same: "st_limits s' = st_limits s \<Longrightarrow> fits_limits s' = fits_limits s"
  by (simp add: fits_limits_def fun_eq_iff)

lemma arrival_ok:
  assumes ok: "events_ok env s" and sc: "check_scope scope = Inr ()" and fresh: "in_inbox s (event_key_of scope p) = None"
    and t: "canonical env (envelope_value p) = Inr t"
    and h: "holds_event env (st_limits s) (envelope_value p) (je_sha256 (ee_journal env) t) (int (utf8_length t)) p"
    and u: "\<And>x. x \<in> stored s \<Longrightarrow> fst x = event_key_of scope p \<Longrightarrow>
       x = (event_key_of scope p, envelope_value p, je_sha256 (ee_journal env) t, int (utf8_length t))"
    and cap: "check_capacity env s p scope False = Inr ()"
    and s': "s' = s\<lparr>st_counter := st_counter s + 1, st_inbox := st_inbox s @
       [arrival_row s now scope p (je_sha256 (ee_journal env) t) sub (int (utf8_length t))]\<rparr>"
  shows "events_ok env s'"
proof -
  define r where "r = arrival_row s now scope p (je_sha256 (ee_journal env) t) sub (int (utf8_length t))"
  have s'': "st_inbox s' = st_inbox s @ [r]" "st_outbox s' = st_outbox s" "st_limits s' = st_limits s" "st_counter s' = st_counter s + 1"
    by (simp_all add: s' r_def)
  have r: "inbox_key r = event_key_of scope p" "ib_bytes r = int (utf8_length t)" "ib_sequence r = st_counter s + 1"
    "inbox_event r = (event_key_of scope p, envelope_value p, je_sha256 (ee_journal env) t, int (utf8_length t))"
    by (simp_all add: r_def arrival_row_def inbox_key_def inbox_event_def event_key_of_def)
  note okD = events_okD [OF ok]
  have cont: "content_ok env s'"
    using content_ok_insert [OF okD(1) stored_arrival [OF s''(1,2)] s''(3)] good_submission [OF h sc] u r(4) by simp
  have size: "m = ib_bytes r" if "(inbox_key r, m) \<in> reserved s" for m
    using that u unfolding r by (elim reserved_stored) (metis fst_conv prod.inject)
  have "fits_limits s (total_count s') (total_bytes s')"
  proof (cases "(inbox_key r, ib_bytes r) \<in> reserved s")
    case True
    then show ?thesis using totals_arrival [OF s''(1,2) size] okD(6) by simp
  next
    case False
    then have "\<forall>m. (event_key_of scope p, m) \<notin> reserved s" using size r(1) by auto
    then show ?thesis using totals_arrival [OF s''(1,2) size] False cap check_capacity_spec(2) [OF okD(1) t, of scope] r(2) by simp
  qed
  moreover have "in_inbox s' (outbox_key q) \<noteq> None" if "(k, q) \<in> set (st_outbox s')" "ob_delivered q" for k q
    using that okD(7) [of k q] unfolding in_inbox_None s'' by auto
  moreover have "distinct (map inbox_key (st_inbox s'))" using okD(2) fresh r(1) s''(1) by (auto simp: in_inbox_None)
  moreover have "counter_ok s'" "distinct (map ib_sequence (st_inbox s'))"
    using okD(3,4) r(3) s'' by (auto simp: counter_ok_def list_all_iff)
  ultimately show ?thesis using cont okD(5) s''(2) fits_limits_same [OF s''(3)] by (intro events_okI) simp_all
qed

text \<open>Ingestion keeps the invariant; everything held before is held after.\<close>

lemma event_digest_eq: "event_digest env v = Inr d \<longleftrightarrow> (\<exists>t. canonical env v = Inr t \<and> d = je_sha256 (ee_journal env) t)"
  by (auto simp: event_digest_def)

lemma ingest_in_ok:
  assumes ok: "events_ok env s" and wf: "dict_wf properties"
    and run: "ingest_in_transaction env s uuid clock now properties src scope participant = Inr (s', e)"
  shows "events_ok env s' \<and> st_limits s' = st_limits s \<and> st_outbox s' = st_outbox s \<and> set (st_inbox s) \<subseteq> set (st_inbox s') \<and>
    in_inbox s' (event_key_of scope e) \<noteq> None"
proof -
  obtain p where sc: "check_scope scope = Inr ()" and p: "canonical_submission env s uuid clock properties src scope = Inr p"
    using run unfolding ingest_in_transaction_def by auto
  note okD = events_okD [OF ok]
  obtain t where t: "canonical env (envelope_value p) = Inr t"
    "holds_event env (st_limits s) (envelope_value p) (je_sha256 (ee_journal env) t) (int (utf8_length t)) p"
    "\<And>x. x \<in> stored s \<Longrightarrow> fst x = event_key_of scope p \<Longrightarrow>
       x = (event_key_of scope p, envelope_value p, je_sha256 (ee_journal env) t, int (utf8_length t))"
    using submission_spec [OF okD(1) p wf] by metis
  show ?thesis
  proof (cases "in_inbox s (event_key_of scope p)")
    case None
    then obtain sub where sub: "check_capacity env s p scope False = Inr ()" "e = p"
      "s' = s\<lparr>st_counter := st_counter s + 1, st_inbox := st_inbox s @
         [arrival_row s now scope p (je_sha256 (ee_journal env) t) sub (int (utf8_length t))]\<rparr>"
      using run sc p t(1) unfolding ingest_in_transaction_def by (auto simp: event_digest_eq)
    have "events_ok env s'" by (rule arrival_ok [OF ok sc None t(1,2,3) sub(1,3)])
    then show ?thesis using sub(2,3) by (auto simp: in_inbox_None arrival_row_def inbox_key_def event_key_of_def)
  next
    case (Some row)
    then have row: "row \<in> set (st_inbox s)" "inbox_key row = event_key_of scope p" using in_inbox_Some by blast+
    have "s' = s" "decode_envelope env (ib_envelope row) (ib_digest row) = Inr e"
      using run sc p Some unfolding ingest_in_transaction_def by auto
    moreover have "event_key_of (ib_scope row) e = inbox_key row"
      using inbox_decodes [OF okD(1) row(1)] calculation(2) by (metis sum.inject(2))
    then have "event_key_of scope e = event_key_of scope p" using row(2) by (simp add: event_key_of_def inbox_key_def)
    ultimately show ?thesis using ok Some by simp
  qed
qed

section \<open>Publications\<close>

lemma stored_publication:
  assumes "st_inbox s' = st_inbox s" "st_outbox s' = st_outbox s @ [(i, r)]"
  shows "stored s' = insert (outbox_event r) (stored s)"
  using assms unfolding stored_def by auto

lemma in_inbox_same: "st_inbox s' = st_inbox s \<Longrightarrow> in_inbox s' = in_inbox s"
  by (simp add: in_inbox_def fun_eq_iff)

lemma totals_publication:
  assumes "st_inbox s' = st_inbox s" "st_outbox s' = st_outbox s @ [(i, r)]" "\<not> ob_delivered r"
    and "\<And>m. (outbox_key r, m) \<in> reserved s \<Longrightarrow> m = ob_bytes r"
  defines "fresh \<equiv> in_inbox s (outbox_key r) = None \<and> (\<forall>m. (outbox_key r, m) \<notin> reserved s)"
  shows "total_count s' = (if fresh then total_count s + 1 else total_count s)"
    "total_bytes s' = (if fresh then total_bytes s + ob_bytes r + ob_bytes r else total_bytes s + ob_bytes r)"
proof -
  have "reserved s' = (if in_inbox s (outbox_key r) = None then insert (outbox_key r, ob_bytes r) (reserved s) else reserved s)"
    using assms(3) reserved_by_snoc [of s' "st_outbox s" i r] in_inbox_same [OF assms(1)]
    unfolding reserved_def assms(2) by (simp add: reserved_by_def)
  moreover have "insert (outbox_key r, ob_bytes r) (reserved s) = reserved s" if "in_inbox s (outbox_key r) = None" "\<not> fresh"
    using that assms(4) unfolding fresh_def by (metis insert_absorb)
  ultimately have res: "reserved s' = (if fresh then insert (outbox_key r, ob_bytes r) (reserved s) else reserved s)"
    unfolding fresh_def by (metis (full_types))
  have new: "(outbox_key r, ob_bytes r) \<notin> reserved s" if fresh using that unfolding fresh_def by blast
  show "total_count s' = (if fresh then total_count s + 1 else total_count s)"
    using res new finite_reserved [of s] by (simp add: total_count_def assms(1))
  show "total_bytes s' = (if fresh then total_bytes s + ob_bytes r + ob_bytes r else total_bytes s + ob_bytes r)"
    using res new finite_reserved [of s] by (simp add: total_bytes_def assms(1,2) inbox_bytes_def outbox_bytes_def)
qed

lemma publication_ok:
  assumes ok: "events_ok env s" and sc: "check_scope scope = Inr ()"
    and t: "canonical env (envelope_value p) = Inr t"
    and h: "holds_event env (st_limits s) (envelope_value p) (je_sha256 (ee_journal env) t) (int (utf8_length t)) p"
    and u: "\<And>x. x \<in> stored s \<Longrightarrow> fst x = event_key_of scope p \<Longrightarrow>
       x = (event_key_of scope p, envelope_value p, je_sha256 (ee_journal env) t, int (utf8_length t))"
    and cap: "check_capacity env s p scope True = Inr ()" and key: "dict_get (st_outbox s) k = None"
    and s': "s' = s\<lparr>st_journal := j, st_outbox := st_outbox s @
       [(k, publication_row i scope p (je_sha256 (ee_journal env) t) request now (int (utf8_length t)))]\<rparr>"
  shows "events_ok env s'"
proof -
  define r where "r = publication_row i scope p (je_sha256 (ee_journal env) t) request now (int (utf8_length t))"
  have s'': "st_inbox s' = st_inbox s" "st_outbox s' = st_outbox s @ [(k, r)]" "st_limits s' = st_limits s" "st_counter s' = st_counter s"
    by (simp_all add: s' r_def)
  have pk: "outbox_key r = event_key_of scope p"
    using h value_key_envelope by (simp add: outbox_key_def r_def publication_row_def holds_event_def)
  have r: "ob_bytes r = int (utf8_length t)" "\<not> ob_delivered r"
    "outbox_event r = (event_key_of scope p, envelope_value p, je_sha256 (ee_journal env) t, int (utf8_length t))"
    using pk by (simp_all add: outbox_event_def) (simp_all add: r_def publication_row_def)
  note okD = events_okD [OF ok]
  have cont: "content_ok env s'"
    using content_ok_insert [OF okD(1) stored_publication [OF s''(1,2)] s''(3)] good_submission [OF h sc] u r(3) by simp
  have size: "m = ob_bytes r" if "(outbox_key r, m) \<in> reserved s" for m
    using that u unfolding r pk by (elim reserved_stored) (metis fst_conv prod.inject)
  have "fits_limits s (total_count s') (total_bytes s')"
  proof (cases "in_inbox s (event_key_of scope p) = None \<and> (\<forall>m. (event_key_of scope p, m) \<notin> reserved s)")
    case True
    then show ?thesis
      using totals_publication [OF s''(1,2) r(2) size] cap check_capacity_spec(1) [OF okD(1) t, of scope]
      unfolding pk r(1) by (simp only: if_True simp_thms)
  next
    case False
    then show ?thesis
      using totals_publication [OF s''(1,2) r(2) size] cap check_capacity_spec(1) [OF okD(1) t, of scope]
      unfolding pk r(1) by (simp only: if_False)
  qed
  moreover have "in_inbox s' (outbox_key q) \<noteq> None" if "(x, q) \<in> set (st_outbox s')" "ob_delivered q" for x q
    using that okD(7) [of x q] r(2) in_inbox_same [OF s''(1)] s''(2) by auto
  moreover have "distinct (map fst (st_outbox s'))" using okD(5) key s''(2) by (auto simp: map_of_eq_None_iff)
  moreover have "counter_ok s'" using okD(4) s'' by (simp add: counter_ok_def)
  ultimately show ?thesis using cont okD(2,3) s''(1) fits_limits_same [OF s''(3)] by (intro events_okI) simp_all
qed

lemma event_transaction_Inr: "event_transaction s body = Inr a \<longleftrightarrow> counter_ok s \<and> body = Inr a"
  by (auto simp: event_transaction_def guardE_def bindE_def split: sum.splits if_splits)

lemma owned_runs: "owned fc i body = Inr a \<Longrightarrow> body = Inr a"
  by (cases "fn_lease fc") (simp_all add: owned_def owned_write_Inr)

lemma event_owned_runs: "event_owned s fc i body = Inr a \<Longrightarrow> body = Inr a"
  unfolding event_owned_def using owned_runs event_transaction_Inr by metis

lemma publish_ok:
  assumes ok: "events_ok env s" and wf: "dict_wf properties"
    and run: "publish_effect env s fc uuid clock now i request properties src scope opid participant = Inr (s', receipt)"
  shows "events_ok env s'"
proof -
  have sc: "check_scope scope = Inr ()" using run unfolding publish_effect_def by auto
  have "s' = s \<or> publish_new env s uuid clock now i request properties src scope opid participant = Inr (s', receipt)"
    using run unfolding publish_effect_def by (auto dest!: event_owned_runs split: option.splits)
  then show ?thesis
  proof
    assume new: "publish_new env s uuid clock now i request properties src scope opid participant = Inr (s', receipt)"
    then obtain p where p: "canonical_submission env s uuid clock properties src scope = Inr p"
      unfolding publish_new_def by auto
    obtain t where t: "canonical env (envelope_value p) = Inr t"
      "holds_event env (st_limits s) (envelope_value p) (je_sha256 (ee_journal env) t) (int (utf8_length t)) p"
      "\<And>x. x \<in> stored s \<Longrightarrow> fst x = event_key_of scope p \<Longrightarrow>
         x = (event_key_of scope p, envelope_value p, je_sha256 (ee_journal env) t, int (utf8_length t))"
      using submission_spec [OF events_okD(1) [OF ok] p wf] by metis
    obtain j where n: "check_capacity env s p scope True = Inr ()" "dict_get (st_outbox s) (effect_key (ee_journal env) i) = None"
      "s' = s\<lparr>st_journal := j, st_outbox := st_outbox s @ [(effect_key (ee_journal env) i,
         publication_row i scope p (je_sha256 (ee_journal env) t) request now (int (utf8_length t)))]\<rparr>"
      using new p t(1) unfolding publish_new_def by (auto simp: event_digest_eq)
    show ?thesis by (rule publication_ok [OF ok sc t(1,2,3) n])
  qed (use ok in simp)
qed

section \<open>Delivery\<close>

lemma dict_set_same: "dict_get d k = Some v \<Longrightarrow> dict_set k v d = d"
  by (induction d) (auto split: if_splits)

lemma holds_same:
  assumes "holds_event env l v d n e" "holds_event env l v d n e'"
  shows "e = e'"
  using decode_holds [OF assms(1)] decode_holds [OF assms(2)] by simp

lemma held_event:
  assumes "content_ok env s" "(event_key_of scope e, v, d, n) \<in> stored s" "holds_event env (st_limits s) v d n e"
    "knows env s scope e old"
  shows "old = e"
proof -
  obtain d' n' where x: "(event_key_of scope e, envelope_value old, d', n') \<in> stored s"
    "holds_event env (st_limits s) (envelope_value old) d' n' old"
    using assms(4) unfolding knows_def by blast
  have "(event_key_of scope e, envelope_value old, d', n') = (event_key_of scope e, v, d, n)"
    using same_content [OF assms(1) x(1) assms(2)] by simp
  then show ?thesis using holds_same [OF _ assms(3)] x(2) by simp
qed

text \<open>A stored event is accepted again as it is.\<close>

lemma resubmission:
  assumes ok: "content_ok env s" and st: "(event_key_of scope e, v, d, n) \<in> stored s" and h: "holds_event env (st_limits s) v d n e"
  shows "canonical_submission env s uuid clock (envelope_dict e) src scope = Inr e"
    "event_digest env (PDict (dict_update (envelope_dict e) [(''id'', PStr (ev_id e)), (''source'', PStr (ev_source e))])) = Inr d"
proof -
  obtain t where t: "canonical env (envelope_value e) = Inr t" "d = je_sha256 (ee_journal env) t" "envelope_ok e" "v = envelope_value e"
    using h by (auto simp: holds_event_def)
  have "event_key_of scope e \<in> fst ` stored s" using st by force
  then obtain old where "known_envelope env s scope e = Inr (Some old)" "knows env s scope e old"
    using known_spec [OF ok, of scope e] by blast
  then have "known_envelope env s scope e = Inr (Some e)" using held_event [OF ok st h] by simp
  then show "canonical_submission env s uuid clock (envelope_dict e) src scope = Inr e"
    using accept_again [OF h] t(1) envelope_field(3) [OF t(3)] by (simp add: canonical_submission_def Let_def envelope_value_def)
  have "dict_update (envelope_dict e) [(''id'', PStr (ev_id e)), (''source'', PStr (ev_source e))] = envelope_dict e"
    using envelope_field [OF t(3)] by (simp add: dict_update_def dict_set_same)
  then show "event_digest env (PDict (dict_update (envelope_dict e) [(''id'', PStr (ev_id e)), (''source'', PStr (ev_source e))])) = Inr d"
    using t(1,2) by (simp add: event_digest_eq envelope_value_def)
qed

text \<open>Its arrival succeeds: either it is there already, or its place was reserved.\<close>

lemma reserved_arrives:
  assumes ok: "events_ok env s" and sc: "check_scope scope = Inr ()"
    and st: "(event_key_of scope e, v, d, n) \<in> stored s" and h: "holds_event env (st_limits s) v d n e"
    and place: "in_inbox s (event_key_of scope e) \<noteq> None \<or> (event_key_of scope e, n) \<in> reserved s"
  shows "\<exists>s'. ingest_in_transaction env s uuid clock now (envelope_dict e) src scope (\<lambda>_. Inr ()) = Inr (s', e)"
proof -
  note okD = events_okD [OF ok]
  obtain t where t: "canonical env (envelope_value e) = Inr t" "d = je_sha256 (ee_journal env) t" "n = int (utf8_length t)" "v = envelope_value e"
    using h by (auto simp: holds_event_def)
  show ?thesis
  proof (cases "in_inbox s (event_key_of scope e)")
    case None
    then have "(event_key_of scope e, n) \<in> reserved s" using place by simp
    then have "check_capacity env s e scope False = Inr ()"
      using check_capacity_spec(2) [OF okD(1) t(1), of scope] okD(6) t(3) by auto
    moreover have "event_digest env (envelope_value e) = Inr d" using t by (simp add: event_digest_eq)
    ultimately show ?thesis
      using None sc resubmission [OF okD(1) st h] t(1) by (simp add: ingest_in_transaction_def)
  next
    case (Some row)
    then have row: "row \<in> set (st_inbox s)" "inbox_key row = event_key_of scope e" using in_inbox_Some by blast+
    have "inbox_event row = (event_key_of scope e, v, d, n)"
      using same_content [OF okD(1) inbox_stored [OF row(1)] st] row(2) by (simp add: inbox_event_def)
    then have "decode_envelope env (ib_envelope row) (ib_digest row) = Inr e"
      using decode_holds [OF h] by (simp add: inbox_event_def)
    then show ?thesis
      using Some sc resubmission [OF okD(1) st h] t(1) by (simp add: ingest_in_transaction_def)
  qed
qed

definition mark_delivered :: "string \<Rightarrow> (string \<times> outbox_row) list \<Rightarrow> (string \<times> outbox_row) list" where
  "mark_delivered key rows = map (\<lambda>(k, r). (k, if k = key then r\<lparr>ob_delivered := True\<rparr> else r)) rows"

lemma mark_facts [simp]:
  "map fst (mark_delivered key rows) = map fst rows" "length (mark_delivered key rows) = length rows"
  "(\<lambda>x. outbox_event (snd x)) ` set (mark_delivered key rows) = (\<lambda>x. outbox_event (snd x)) ` set rows"
  "sum_list (map (\<lambda>(k, row). ob_bytes row) (mark_delivered key rows)) = sum_list (map (\<lambda>(k, row). ob_bytes row) rows)"
  by (induction rows) (auto simp: mark_delivered_def outbox_event_def outbox_key_def)

lemma mark_iff: "(k, r) \<in> set (mark_delivered key rows) \<longleftrightarrow>
    (\<exists>q. (k, q) \<in> set rows \<and> r = (if k = key then q\<lparr>ob_delivered := True\<rparr> else q))"
  by (induction rows) (auto simp: mark_delivered_def)

lemma mark_undelivered: "(k, r) \<in> set (mark_delivered key rows) \<and> \<not> ob_delivered r \<longleftrightarrow> (k, r) \<in> set rows \<and> \<not> ob_delivered r \<and> k \<noteq> key"
  by (induction rows) (auto simp: mark_delivered_def)

lemma mark_ok:
  assumes ok: "events_ok env s" and inb: "\<And>r. (key, r) \<in> set (st_outbox s) \<Longrightarrow> in_inbox s (outbox_key r) \<noteq> None"
  shows "events_ok env (s\<lparr>st_outbox := mark_delivered key (st_outbox s)\<rparr>)"
proof -
  let ?s = "s\<lparr>st_outbox := mark_delivered key (st_outbox s)\<rparr>"
  note okD = events_okD [OF ok]
  have ino: "in_inbox ?s = in_inbox s" by (rule in_inbox_same) simp
  have key: "outbox_key (r\<lparr>ob_delivered := b\<rparr>) = outbox_key r" for r b by (simp add: outbox_key_def)
  have "stored ?s = stored s" by (simp add: stored_def image_image)
  then have "content_ok env ?s" using content_ok_subset [OF okD(1)] by simp
  moreover have "reserved ?s = reserved s"
  proof (rule set_eqI)
    fix x
    have "(\<exists>i r. (i, r) \<in> set (st_outbox ?s) \<and> \<not> ob_delivered r \<and> outbox_key r = fst x \<and> ob_bytes r = snd x) \<longleftrightarrow>
        (\<exists>i r. (i, r) \<in> set (st_outbox s) \<and> \<not> ob_delivered r \<and> i \<noteq> key \<and> outbox_key r = fst x \<and> ob_bytes r = snd x)"
      using mark_undelivered [of _ _ key "st_outbox s"] by simp blast
    then show "x \<in> reserved ?s \<longleftrightarrow> x \<in> reserved s"
      using inb unfolding reserved_def reserved_by_def ino mem_Collect_eq by metis
  qed
  then have "total_count ?s = total_count s" "total_bytes ?s = total_bytes s"
    by (simp_all add: total_count_def total_bytes_def inbox_bytes_def outbox_bytes_def)
  moreover have "in_inbox ?s (outbox_key r) \<noteq> None" if "(k, r) \<in> set (st_outbox ?s)" "ob_delivered r" for k r
    using that okD(7) inb unfolding ino by (auto simp: mark_iff key split: if_splits)
  moreover have "counter_ok ?s" using okD(4) by (simp add: counter_ok_def)
  ultimately show ?thesis using okD(2,3,5,6) fits_limits_same [of ?s s] by (intro events_okI) simp_all
qed

lemma envelope_dict_wf: "dict_wf (envelope_dict e)"
  unfolding envelope_dict_def by (rule dict_update_wf) (simp add: dict_wf_def opt_entry_def split: option.split)

text \<open>Delivery of one row, whatever became of it since it was read.\<close>

definition carries :: "event_store \<Rightarrow> string \<times> outbox_row \<Rightarrow> bool" where
  "carries s x \<longleftrightarrow> (\<exists>b. (fst x, (snd x)\<lparr>ob_delivered := b\<rparr>) \<in> set (st_outbox s))"

definition arrived :: "string \<times> outbox_row \<Rightarrow> event_store \<Rightarrow> bool" where
  "arrived x s \<longleftrightarrow> (fst x, (snd x)\<lparr>ob_delivered := True\<rparr>) \<in> set (st_outbox s) \<and>
     (\<exists>row \<in> set (st_inbox s). inbox_event row = outbox_event (snd x))"

lemma outbox_event_delivered [simp]: "outbox_event (r\<lparr>ob_delivered := b\<rparr>) = outbox_event r" "outbox_key (r\<lparr>ob_delivered := b\<rparr>) = outbox_key r"
  by (simp_all add: outbox_event_def outbox_key_def)

lemma carried_place:
  assumes ok: "events_ok env s" and mem: "(k, r) \<in> set (st_outbox s)"
  shows "in_inbox s (outbox_key r) \<noteq> None \<or> (outbox_key r, ob_bytes r) \<in> reserved s"
  using events_okD(7) [OF ok mem] mem unfolding reserved_def reserved_by_def by auto

lemma deliver_one_total:
  assumes ok: "events_ok env s" and car: "carries s x"
  shows "\<exists>s'. deliver_one env now s x = Inr s' \<and> events_ok env s' \<and> st_limits s' = st_limits s \<and> set (st_inbox s) \<subseteq> set (st_inbox s') \<and>
    st_outbox s' = mark_delivered (fst x) (st_outbox s) \<and> arrived x s'"
proof -
  obtain k r where x: "x = (k, r)" by (cases x)
  obtain b where mem: "(k, r\<lparr>ob_delivered := b\<rparr>) \<in> set (st_outbox s)" using car x by (auto simp: carries_def)
  note okD = events_okD [OF ok]
  obtain e where e: "decode_envelope env (ob_envelope r) (ob_digest r) = Inr e" "event_key_of (ob_scope r) e = outbox_key r"
    "holds_event env (st_limits s) (ob_envelope r) (ob_digest r) (ob_bytes r) e" "check_scope (ob_scope r) = Inr ()"
    using outbox_decodes [OF okD(1) mem] by simp metis
  have "(event_key_of (ob_scope r) e, ob_envelope r, ob_digest r, ob_bytes r) \<in> stored s"
    using outbox_stored [OF mem] e(2) by (simp add: outbox_event_def)
  moreover have "in_inbox s (event_key_of (ob_scope r) e) \<noteq> None \<or> (event_key_of (ob_scope r) e, ob_bytes r) \<in> reserved s"
    using carried_place [OF ok mem] e(2) by simp
  ultimately obtain u where u: "ingest_in_transaction env s ''-'' ''-'' now (envelope_dict e) (ev_source e) (ob_scope r) (\<lambda>_. Inr ()) = Inr (u, e)"
    using reserved_arrives [OF ok e(4) _ e(3)] by blast
  have kept: "events_ok env u" "st_limits u = st_limits s" "st_outbox u = st_outbox s" "set (st_inbox s) \<subseteq> set (st_inbox u)"
    "in_inbox u (outbox_key r) \<noteq> None"
    using ingest_in_ok [OF ok envelope_dict_wf u] e(2) by auto
  let ?s = "u\<lparr>st_outbox := mark_delivered k (st_outbox u)\<rparr>"
  have same: "q = r\<lparr>ob_delivered := b\<rparr>" if "(k, q) \<in> set (st_outbox u)" for q
    using that mem okD(5) kept(3) by (metis eq_key_imp_eq_value)
  have run: "deliver_one env now s x = Inr ?s" using u e(1) x by (simp add: deliver_one_def Let_def mark_delivered_def)
  have inv: "events_ok env ?s"
  proof (rule mark_ok [OF kept(1)])
    show "in_inbox u (outbox_key q) \<noteq> None" if "(k, q) \<in> set (st_outbox u)" for q
      using same [OF that] kept(5) by simp
  qed
  obtain row where row: "row \<in> set (st_inbox u)" "inbox_key row = outbox_key r"
    using kept(5) in_inbox_Some by (metis option.exhaust)
  have "outbox_event r \<in> stored u" using outbox_stored [of k "r\<lparr>ob_delivered := b\<rparr>" u] mem kept(3) by simp
  then have "inbox_event row = outbox_event r"
    using row(2) by (intro same_content [OF events_okD(1) [OF kept(1)] inbox_stored [OF row(1)]]) (simp_all add: inbox_event_def outbox_event_def)
  moreover have "(k, r\<lparr>ob_delivered := True\<rparr>) \<in> set (st_outbox ?s)" using mem kept(3) by (auto simp: mark_iff)
  ultimately have "arrived x ?s" using row(1) x by (auto simp: arrived_def)
  then show ?thesis using run inv kept x by auto
qed

lemma foldE_reaches:
  assumes step: "\<And>s x. P s \<Longrightarrow> x \<in> set xs \<Longrightarrow> \<exists>s'. f s x = Inr s' \<and> P s' \<and> R x s'"
    and kept: "\<And>s s' x y. P s \<Longrightarrow> f s x = Inr s' \<Longrightarrow> x \<in> set xs \<Longrightarrow> y \<in> set xs \<Longrightarrow> R y s \<Longrightarrow> R y s'"
    and "P s"
  shows "\<exists>s'. foldE f s xs = Inr s' \<and> P s' \<and> (\<forall>x \<in> set xs. R x s')"
proof -
  have "\<exists>s'. foldE f s ys = Inr s' \<and> P s' \<and> (\<forall>x \<in> set ys. R x s')" if "set ys \<subseteq> set xs" for ys
    using that
  proof (induction ys rule: rev_induct)
    case (snoc y ys)
    then obtain u where u: "foldE f s ys = Inr u" "P u" "\<forall>x \<in> set ys. R x u" by auto
    obtain s' where s': "f u y = Inr s'" "P s'" "R y s'" using step [OF u(2)] snoc.prems by auto
    have "\<forall>x \<in> set ys. R x s'" using kept [OF u(2) s'(1)] u(3) snoc.prems by auto
    then show ?case using u(1) s' by (auto simp: foldE_append)
  qed (use assms(3) in simp)
  then show ?thesis by blast
qed

lemma carries_mark:
  assumes "carries s x" "st_outbox s' = mark_delivered k (st_outbox s)"
  shows "carries s' x"
proof -
  obtain b where b: "(fst x, (snd x)\<lparr>ob_delivered := b\<rparr>) \<in> set (st_outbox s)" using assms(1) by (auto simp: carries_def)
  have "(fst x, (snd x)\<lparr>ob_delivered := (fst x = k \<or> b)\<rparr>) \<in> set (st_outbox s')"
    unfolding assms(2) mark_iff using b by (intro exI [of _ "(snd x)\<lparr>ob_delivered := b\<rparr>"]) simp
  then show ?thesis unfolding carries_def by blast
qed

lemma arrived_mark:
  assumes "arrived x s" "st_outbox s' = mark_delivered k (st_outbox s)" "set (st_inbox s) \<subseteq> set (st_inbox s')"
  shows "arrived x s'"
  using assms by (auto simp: arrived_def mark_iff)

lemma undelivered_rows: "set (undelivered s) \<subseteq> set (st_outbox s)"
  by (auto simp: undelivered_def)

lemma deliver_outbox_total:
  assumes ok: "events_ok env s" and bound: "1 \<le> bound" "bound \<le> el_scan_batch (st_limits s)"
  shows "\<exists>s'. deliver_outbox env s now bound = Inr (s', int (length (take (nat bound) (undelivered s)))) \<and> events_ok env s' \<and>
    st_limits s' = st_limits s \<and> (\<forall>x \<in> set (take (nat bound) (undelivered s)). arrived x s')"
proof -
  let ?rows = "take (nat bound) (undelivered s)"
  let ?P = "\<lambda>u. events_ok env u \<and> st_limits u = st_limits s \<and> (\<forall>x \<in> set ?rows. carries u x)"
  have "carries s x" if "x \<in> set ?rows" for x
  proof -
    have "x \<in> set (st_outbox s)" using that undelivered_rows in_set_takeD by fastforce
    then have "(fst x, (snd x)\<lparr>ob_delivered := ob_delivered (snd x)\<rparr>) \<in> set (st_outbox s)" by simp
    then show ?thesis unfolding carries_def by blast
  qed
  then have start: "?P s" using ok by simp
  have step: "\<exists>u'. deliver_one env now u x = Inr u' \<and> ?P u' \<and> arrived x u'" if inv: "?P u" "x \<in> set ?rows" for u x
  proof -
    obtain u' where u': "deliver_one env now u x = Inr u'" "events_ok env u'" "st_limits u' = st_limits u"
      "st_outbox u' = mark_delivered (fst x) (st_outbox u)" "arrived x u'"
      using deliver_one_total [of env u x now] inv by blast
    then show ?thesis using inv carries_mark [OF _ u'(4)] by auto
  qed
  have kept: "arrived y u'" if "?P u" "deliver_one env now u x = Inr u'" "x \<in> set ?rows" "arrived y u" for u u' x y
    using deliver_one_total [of env u x now] that arrived_mark [OF that(4)] by (metis sum.inject(2))
  obtain s' where "foldE (deliver_one env now) s ?rows = Inr s'" "?P s'" "\<forall>x \<in> set ?rows. arrived x s'"
    using foldE_reaches [of ?P ?rows "deliver_one env now" arrived s] step kept start by blast
  then show ?thesis
    using bound events_okD(4) [OF ok] by (auto simp: deliver_outbox_def event_transaction_Inr Let_def)
qed

section \<open>Retention\<close>

lemma published_in_False:
  assumes ok: "content_ok env s"
  shows "set rows \<subseteq> set (st_outbox s) \<Longrightarrow> published_in env rows r = Inr False \<Longrightarrow>
    (k, q) \<in> set rows \<Longrightarrow> ob_delivered q \<Longrightarrow> outbox_key q \<noteq> inbox_key r"
proof (induction rows)
  case (Cons y rows)
  obtain i row where y: "y = (i, row)" by (cases y)
  obtain e where e: "decode_envelope env (ob_envelope row) (ob_digest row) = Inr e" "event_key_of (ob_scope row) e = outbox_key row"
    using outbox_decodes [OF ok, of i row] Cons.prems(1) y by (metis list.set_intros(1) subset_code(1))
  have rest: "published_in env rows r = Inr False" using Cons.prems(2) e(1) y by (auto split: if_splits)
  show ?case
  proof (cases "(k, q) = y")
    case True
    then show ?thesis using Cons.prems(2,4) e y by (auto simp: event_key_of_def inbox_key_def split: if_splits)
  next
    case False
    then show ?thesis using Cons.IH [OF _ rest] Cons.prems by auto
  qed
qed simp

abbreviation without :: "inbox_row \<Rightarrow> event_store \<Rightarrow> event_store" where
  "without r s \<equiv> s\<lparr>st_inbox := filter (\<lambda>x. ib_sequence x \<noteq> ib_sequence r) (st_inbox s)\<rparr>"

lemma without_remove1:
  assumes "r \<in> set xs" "distinct (map ib_sequence xs)"
  shows "filter (\<lambda>x. ib_sequence x \<noteq> ib_sequence r) xs = remove1 r xs"
  using assms
proof (induction xs)
  case (Cons x xs)
  show ?case
  proof (cases "x = r")
    case True
    then have "\<forall>y \<in> set xs. ib_sequence y \<noteq> ib_sequence r" using Cons.prems(2) by (auto simp: image_iff)
    then show ?thesis using True by simp
  next
    case False
    then have "ib_sequence x \<noteq> ib_sequence r" using Cons.prems by (auto simp: image_iff)
    then show ?thesis using False Cons by simp
  qed
qed simp

lemma same_sequence:
  assumes "distinct (map ib_sequence xs)" "x \<in> set xs" "y \<in> set xs" "ib_sequence x = ib_sequence y"
  shows "x = y"
  using assms unfolding distinct_map by (blast dest: inj_onD)

lemma without_inbox:
  assumes "events_ok env s" "r \<in> set (st_inbox s)" "in_inbox (without r s) k = None" "k \<noteq> inbox_key r"
  shows "in_inbox s k = None"
proof (rule ccontr)
  assume "in_inbox s k \<noteq> None"
  then obtain x where x: "x \<in> set (st_inbox s)" "inbox_key x = k" using in_inbox_Some by (metis option.exhaust)
  then have "ib_sequence x \<noteq> ib_sequence r" using same_sequence [OF events_okD(3) [OF assms(1)] x(1) assms(2)] assms(4) by blast
  then have "x \<in> set (st_inbox (without r s))" using x(1) by simp
  then show False using assms(3) x(2) unfolding in_inbox_None by blast
qed

lemma without_reserved:
  assumes ok: "events_ok env s" and r: "r \<in> set (st_inbox s)"
  shows "reserved (without r s) \<subseteq> insert (inbox_key r, ib_bytes r) (reserved s)"
proof
  fix x assume x: "x \<in> reserved (without r s)"
  obtain k m where km: "x = (k, m)" by (cases x)
  obtain i q where q: "(i, q) \<in> set (st_outbox s)" "\<not> ob_delivered q" "outbox_key q = k" "ob_bytes q = m" "in_inbox (without r s) k = None"
    using x unfolding km reserved_def by (elim reserved_byE) simp
  show "x \<in> insert (inbox_key r, ib_bytes r) (reserved s)"
  proof (cases "k = inbox_key r")
    case True
    then have "outbox_event q = inbox_event r"
      using same_content [OF events_okD(1) [OF ok] outbox_stored [OF q(1)] inbox_stored [OF r]] q(3)
      by (simp add: outbox_event_def inbox_event_def)
    then show ?thesis using q(4) km True by (simp add: outbox_event_def inbox_event_def)
  next
    case False
    then show ?thesis using without_inbox [OF ok r q(5)] q(1-4) km unfolding reserved_def reserved_by_def by auto
  qed
qed

lemma reserved_nonneg: "content_ok env s \<Longrightarrow> x \<in> reserved s \<Longrightarrow> 0 \<le> snd x"
  unfolding content_ok_def by (cases x) (auto elim!: reserved_stored simp: good_event_def holds_event_def dest!: bspec)

lemma inbox_nonneg: "content_ok env s \<Longrightarrow> r \<in> set (st_inbox s) \<Longrightarrow> 0 \<le> ib_bytes r"
  using inbox_decodes [of env s r] by (metis holds_event_def of_nat_0_le_iff)

lemma removal_totals:
  assumes ok: "events_ok env s" and r: "r \<in> set (st_inbox s)"
  shows "total_count (without r s) \<le> total_count s" "total_bytes (without r s) \<le> total_bytes s"
proof -
  note okD = events_okD [OF ok]
  let ?A = "insert (inbox_key r, ib_bytes r) (reserved s)"
  note inb = without_remove1 [OF r okD(3)]
  have "int (length (st_inbox s) - 1) = int (length (st_inbox s)) - 1" using length_pos_if_in_set [OF r] by linarith
  then have len: "int (length (st_inbox (without r s))) = int (length (st_inbox s)) - 1" using r by (simp add: inb length_remove1)
  have bytes: "inbox_bytes (without r s) = inbox_bytes s - ib_bytes r"
    unfolding inbox_bytes_def using sum_list_map_remove1 [OF r, of ib_bytes] by (simp add: inb)
  have fin: "finite ?A" by (simp add: finite_reserved)
  have notin: "(inbox_key r, ib_bytes r) \<notin> reserved s" using r unfolding reserved_def reserved_by_def in_inbox_None by simp
  have "card (reserved (without r s)) \<le> card (reserved s) + 1"
    using card_mono [OF fin without_reserved [OF ok r]] notin finite_reserved [of s] by simp
  then show "total_count (without r s) \<le> total_count s" using len by (simp add: total_count_def)
  have pos: "0 \<le> snd x" if "x \<in> ?A - reserved (without r s)" for x
    using that reserved_nonneg [OF okD(1)] inbox_nonneg [OF okD(1) r] by fastforce
  have "sum snd (reserved (without r s)) \<le> sum snd (reserved s) + ib_bytes r"
    using sum_mono2 [OF fin without_reserved [OF ok r], of snd] pos notin finite_reserved [of s] by simp
  then show "total_bytes (without r s) \<le> total_bytes s" using bytes by (simp add: total_bytes_def outbox_bytes_def)
qed

lemma without_ok:
  assumes ok: "events_ok env s" and r: "r \<in> set (st_inbox s)" and pub: "published_in env (st_outbox s) r = Inr False"
  shows "events_ok env (without r s)"
proof -
  let ?s = "without r s"
  note okD = events_okD [OF ok]
  have "stored ?s \<subseteq> stored s" unfolding stored_def by auto
  then have "content_ok env ?s" using content_ok_subset [OF okD(1)] by simp
  moreover have "fits_limits ?s (total_count ?s) (total_bytes ?s)"
    using okD(6) removal_totals [OF ok r] by (simp add: fits_limits_def)
  moreover have "in_inbox ?s (outbox_key q) \<noteq> None" if "(k, q) \<in> set (st_outbox ?s)" "ob_delivered q" for k q
  proof
    assume "in_inbox ?s (outbox_key q) = None"
    moreover have "outbox_key q \<noteq> inbox_key r" using that published_in_False [OF okD(1) order_refl pub, of k q] by simp
    ultimately show False using without_inbox [OF ok r] okD(7) [of k q] that by auto
  qed
  moreover have "counter_ok ?s" using okD(4) by (auto simp: counter_ok_def list_all_iff)
  ultimately show ?thesis using okD(2,3,5) by (intro events_okI) (simp_all add: distinct_map_filter)
qed

lemma prune_one_ok:
  assumes "prune_one env acc r = Inr acc'" "r \<in> rows" "inj_on ib_sequence rows"
    and "events_ok env (fst acc) \<and> set (st_inbox (fst acc)) \<subseteq> rows"
  shows "events_ok env (fst acc') \<and> set (st_inbox (fst acc')) \<subseteq> rows"
proof -
  let ?s = "fst acc"
  consider "acc' = acc" | "acc' = (without r ?s, snd acc + 1)" "published_in env (st_outbox ?s) r = Inr False"
    using assms(1) by (auto simp: prune_one_def Let_def split: if_splits)
  then show ?thesis
  proof cases
    case 2
    show ?thesis
    proof (cases "r \<in> set (st_inbox ?s)")
      case True
      then show ?thesis using without_ok [OF _ True 2(2)] 2(1) assms(4) by auto
    next
      case False
      then have "\<forall>x \<in> set (st_inbox ?s). ib_sequence x \<noteq> ib_sequence r" using assms(2-4) by (metis inj_onD subsetD)
      then have "without r ?s = ?s" by simp
      then show ?thesis using 2(1) assms(4) by simp
    qed
  qed (use assms(4) in simp)
qed

lemma prune_ok:
  assumes ok: "events_ok env s" and run: "prune_events env s now bound = Inr (s', n)"
  shows "events_ok env s'"
proof -
  let ?P = "\<lambda>acc. events_ok env (fst acc) \<and> set (st_inbox (fst acc)) \<subseteq> set (st_inbox s)"
  obtain rows where rows: "foldE (prune_one env) (s, 0) rows = Inr (s', n)" "set rows \<subseteq> set (st_inbox s)"
  proof
    let ?rows = "take (nat bound) (sort_key ib_sequence
      (filter (\<lambda>r. ib_created_at r < now - el_retention_seconds (st_limits s) \<and> \<not> referenced s r) (st_inbox s)))"
    show "foldE (prune_one env) (s, 0) ?rows = Inr (s', n)" using run by (simp add: prune_events_def event_transaction_Inr)
    show "set ?rows \<subseteq> set (st_inbox s)" by (auto dest: in_set_takeD)
  qed
  have inj: "inj_on ib_sequence (set (st_inbox s))" using events_okD(3) [OF ok] by (simp add: distinct_map)
  have "?P (s', n)"
  proof (rule foldE_inv [of rows ?P "prune_one env" "(s, 0)"])
    show "?P acc'" if "r \<in> set rows" "?P acc" "prune_one env acc r = Inr acc'" for acc r acc'
      using prune_one_ok [OF that(3) _ inj that(2)] that(1) rows(2) by blast
  qed (use ok rows(1) in simp_all)
  then show ?thesis by simp
qed

section \<open>Histories\<close>

definition no_events :: "event_limits \<Rightarrow> journal \<Rightarrow> event_store" where
  "no_events l j = \<lparr>st_journal = j, st_limits = l, st_counter = 0, st_inbox = [], st_outbox = [], st_subscriptions = [],
     st_selections = [], st_consumers = [], st_profiles = [], st_pins = [], st_consumer_selections = []\<rparr>"

text \<open>
  A history of the store: any sequence of its operations on arrivals and publications, with the
  writes that leave both tables alone, those of the journal and of the listeners, in between.
  Submitted properties are dictionaries.
\<close>

inductive event_history :: "event_env \<Rightarrow> event_limits \<Rightarrow> event_store \<Rightarrow> bool" for env l where
  history_start: "make_limits l = Inr l \<Longrightarrow> event_history env l (no_events l j)"
| history_ingest: "event_history env l s \<Longrightarrow> dict_wf properties \<Longrightarrow>
    ingest env s uuid clock now properties src scope participant = Inr (s', e) \<Longrightarrow> event_history env l s'"
| history_publish: "event_history env l s \<Longrightarrow> dict_wf properties \<Longrightarrow>
    publish_effect env s fc uuid clock now i request properties src scope opid participant = Inr (s', receipt) \<Longrightarrow> event_history env l s'"
| history_deliver: "event_history env l s \<Longrightarrow> deliver_outbox env s now bound = Inr (s', n) \<Longrightarrow> event_history env l s'"
| history_prune: "event_history env l s \<Longrightarrow> prune_events env s now bound = Inr (s', n) \<Longrightarrow> event_history env l s'"
| history_bind: "event_history env l s \<Longrightarrow> bind_invocation env s fc iid fp scope = Inr s' \<Longrightarrow> event_history env l s'"
| history_pin: "event_history env l s \<Longrightarrow> pin_consumer env s key pin selected = Inr s' \<Longrightarrow> event_history env l s'"
| history_elsewhere: "event_history env l s \<Longrightarrow>
    event_history env l (s\<lparr>st_journal := j, st_subscriptions := subs, st_selections := sels, st_consumers := cons\<rparr>)"

lemma elsewhere_ok:
  assumes "events_ok env s" "st_inbox s' = st_inbox s" "st_outbox s' = st_outbox s" "st_counter s' = st_counter s" "st_limits s' = st_limits s"
  shows "events_ok env s'"
proof -
  note okD = events_okD [OF assms(1)]
  have "stored s' \<subseteq> stored s" by (simp only: stored_def assms(2,3) order_refl)
  then have cont: "content_ok env s'" using content_ok_subset [OF okD(1)] assms(5) by blast
  have inb: "in_inbox s' = in_inbox s" by (rule in_inbox_same [OF assms(2)])
  have "reserved s' = reserved s" by (simp only: reserved_def reserved_by_def inb assms(3))
  then have "total_count s' = total_count s" "total_bytes s' = total_bytes s"
    by (simp_all only: total_count_def total_bytes_def inbox_bytes_def outbox_bytes_def assms(2,3))
  moreover have "counter_ok s'" using okD(4) by (simp only: counter_ok_def assms(2,4))
  ultimately show ?thesis
    using cont okD fits_limits_same [OF assms(5)] by (intro events_okI) (simp_all only: assms(2,3) inb simp_thms)
qed

lemma pin_selection_same:
  assumes "pin_selection env key pin s a = Inr s'"
  shows "st_inbox s' = st_inbox s \<and> st_outbox s' = st_outbox s \<and> st_counter s' = st_counter s \<and> st_limits s' = st_limits s"
  using assms by (auto simp: pin_selection_def split: option.splits if_splits)

lemma pin_consumer_same:
  assumes "pin_consumer env s key pin selected = Inr s'"
  shows "st_inbox s' = st_inbox s \<and> st_outbox s' = st_outbox s \<and> st_counter s' = st_counter s \<and> st_limits s' = st_limits s"
proof -
  obtain u where u: "foldE (pin_selection env key pin) s selected = Inr u"
    "st_inbox s' = st_inbox u" "st_outbox s' = st_outbox u" "st_counter s' = st_counter u" "st_limits s' = st_limits u"
    using assms unfolding pin_consumer_def by auto
  have "st_inbox u = st_inbox s \<and> st_outbox u = st_outbox s \<and> st_counter u = st_counter s \<and> st_limits u = st_limits s"
    using foldE_inv [of selected "\<lambda>u. st_inbox u = st_inbox s \<and> st_outbox u = st_outbox s \<and> st_counter u = st_counter s \<and> st_limits u = st_limits s"
        "pin_selection env key pin" s u] pin_selection_same u(1) by auto
  then show ?thesis using u(2-5) by simp
qed

lemma bind_same:
  assumes "bind_invocation env s fc iid fp scope = Inr s'"
  shows "st_inbox s' = st_inbox s \<and> st_outbox s' = st_outbox s \<and> st_counter s' = st_counter s \<and> st_limits s' = st_limits s"
proof -
  have "\<exists>digest. s' = (if dict_get (st_profiles s) iid = None then s\<lparr>st_profiles := st_profiles s @
      [(iid, \<lparr>pf_fingerprint = fp, pf_scope = scope, pf_profile = ''owa/events/v1'', pf_digest = digest\<rparr>)]\<rparr> else s)"
  proof -
    obtain i digest where "event_owned s fc i
       (let s' = (if dict_get (st_profiles s) iid = None
                  then s\<lparr>st_profiles := st_profiles s @
                         [(iid, \<lparr>pf_fingerprint = fp, pf_scope = scope, pf_profile = ''owa/events/v1'', pf_digest = digest\<rparr>)]\<rparr>
                  else s) in
        bindE (verify_profile env s' iid fp (Some scope)) (\<lambda>_. Inr s')) = Inr s'"
      using assms unfolding bind_invocation_def by (auto simp only: bindE_eq_Inr)
    from event_owned_runs [OF this] show ?thesis unfolding Let_def by (auto simp only: bindE_eq_Inr sum.inject)
  qed
  then show ?thesis by auto
qed

lemma no_events_ok: "make_limits l = Inr l \<Longrightarrow> events_ok env (no_events l j)"
  by (auto simp: events_ok_def no_events_def content_ok_def stored_def counter_ok_def fits_limits_def total_count_def total_bytes_def
      inbox_bytes_def outbox_bytes_def reserved_def reserved_by_def make_limits_def split: if_splits)

lemma ingest_limits:
  assumes "ingest_in_transaction env s uuid clock now properties src scope participant = Inr (s', e)"
  shows "st_limits s' = st_limits s"
  using assms unfolding ingest_in_transaction_def by (auto split: option.splits)

lemma publish_limits:
  assumes "publish_effect env s fc uuid clock now i request properties src scope opid participant = Inr (s', receipt)"
  shows "st_limits s' = st_limits s"
  using assms unfolding publish_effect_def publish_new_def by (auto dest!: event_owned_runs split: option.splits)

lemma prune_limits:
  assumes "prune_events env s now bound = Inr (s', n)"
  shows "st_limits s' = st_limits s"
proof -
  obtain rows where "foldE (prune_one env) (s, 0) rows = Inr (s', n)"
    using assms by (auto simp: prune_events_def event_transaction_Inr)
  then have "st_limits (fst (s', n)) = st_limits s"
    by (rule foldE_inv [where P = "\<lambda>acc. st_limits (fst acc) = st_limits s", rotated 2]) (auto simp: prune_one_def Let_def split: if_splits)
  then show ?thesis by simp
qed

theorem history_ok:
  assumes "event_history env l s"
  shows "events_ok env s \<and> st_limits s = l"
  using assms
proof induction
  case (history_start j)
  then show ?case using no_events_ok by (simp add: no_events_def)
next
  case (history_ingest s properties uuid clock now src scope participant s' e)
  then have "ingest_in_transaction env s uuid clock now properties src scope participant = Inr (s', e)"
    by (simp add: ingest_def event_transaction_Inr)
  then show ?case using history_ingest ingest_in_ok by metis
next
  case (history_publish s properties fc uuid clock now i request src scope opid participant s' receipt)
  then show ?case using publish_ok publish_limits by metis
next
  case (history_deliver s now bound s' n)
  then have "1 \<le> bound" "bound \<le> el_scan_batch (st_limits s)" by (auto simp: deliver_outbox_def)
  then show ?case using deliver_outbox_total [of env s bound now] history_deliver by auto
next
  case (history_prune s now bound s' n)
  then show ?case using prune_ok prune_limits by metis
next
  case (history_bind s fc iid fp scope s')
  then show ?case using bind_same elsewhere_ok by metis
next
  case (history_pin s key pin selected s')
  then show ?case using pin_consumer_same elsewhere_ok by metis
next
  case (history_elsewhere s j subs sels cons)
  then show ?case using elsewhere_ok [of env s] by simp
qed

text \<open>
  \<^bold>\<open>C7.\<close> A publication that was acknowledged can always be delivered. In every history of the store, a delivery
  pass with an admissible batch succeeds, takes the oldest undelivered publications up to the batch,
  and each of them is then an arrival of its scope with the envelope and digest that were published.
\<close>

theorem publications_deliverable:
  assumes "event_history env l s" "1 \<le> bound" "bound \<le> el_scan_batch l"
  shows "\<exists>s'. deliver_outbox env s now bound = Inr (s', int (length (take (nat bound) (undelivered s)))) \<and>
    (\<forall>(k, r) \<in> set (take (nat bound) (undelivered s)).
       \<exists>row \<in> set (st_inbox s'). ib_scope row = ob_scope r \<and> ib_envelope row = ob_envelope r \<and> ib_digest row = ob_digest r)"
proof -
  have ok: "events_ok env s" "st_limits s = l" using history_ok [OF assms(1)] by auto
  obtain s' where s': "deliver_outbox env s now bound = Inr (s', int (length (take (nat bound) (undelivered s))))"
    "\<forall>x \<in> set (take (nat bound) (undelivered s)). arrived x s'"
    using deliver_outbox_total [OF ok(1) assms(2)] assms(3) ok(2) by blast
  have "\<exists>row \<in> set (st_inbox s'). ib_scope row = ob_scope r \<and> ib_envelope row = ob_envelope r \<and> ib_digest row = ob_digest r"
    if "arrived (k, r) s'" for k r
    using that by (force simp: arrived_def inbox_event_def outbox_event_def inbox_key_def outbox_key_def value_key_def)
  then show ?thesis using s' by blast
qed

text \<open>
  \<^bold>\<open>C37.\<close> Retention is bounded and identities are unique. In every history the arrivals number at most the
  retained limit, arrivals and publications together hold at most the retained octets, no two
  arrivals share scope, source and id, and everything stored reads back intact.
\<close>

theorem retention_bounded:
  assumes "event_history env l s"
  shows "int (length (st_inbox s)) \<le> el_max_retained_events l \<and> inbox_bytes s + outbox_bytes s \<le> el_max_retained_bytes l \<and>
    distinct (map inbox_key (st_inbox s)) \<and>
    (\<forall>r \<in> set (st_inbox s). \<exists>e. decode_envelope env (ib_envelope r) (ib_digest r) = Inr e \<and> event_key_of (ib_scope r) e = inbox_key r)"
proof (intro conjI)
  have ok: "events_ok env s" and l: "st_limits s = l" using history_ok [OF assms(1)] by auto
  note okD = events_okD [OF ok]
  have "0 \<le> (\<Sum>x \<in> reserved s. snd x)" using reserved_nonneg [OF okD(1)] by (rule sum_nonneg)
  then show "int (length (st_inbox s)) \<le> el_max_retained_events l" "inbox_bytes s + outbox_bytes s \<le> el_max_retained_bytes l"
    using okD(6) l by (auto simp: fits_limits_def total_count_def total_bytes_def)
  show "distinct (map inbox_key (st_inbox s))" by (rule okD(2))
  show "\<forall>r \<in> set (st_inbox s). \<exists>e. decode_envelope env (ib_envelope r) (ib_digest r) = Inr e \<and> event_key_of (ib_scope r) e = inbox_key r"
    using inbox_decodes [OF okD(1)] by metis
qed

section \<open>A concrete history\<close>

definition plain_event_env :: event_env where
  "plain_event_env = \<lparr>ee_journal = plain_journal_env, ee_terminal = (\<lambda>i. False), ee_verify_approval = (\<lambda>e scope. Inr ()),
     ee_outcome = (\<lambda>i r. Inr ()), ee_retained = (\<lambda>e. False)\<rparr>"

definition ex_limits :: event_limits where
  "ex_limits = \<lparr>el_max_event_bytes = 1000, el_max_retained_events = 1, el_max_retained_bytes = 500, el_max_subscriptions = 2,
     el_max_outbox = 2, el_scan_batch = 4, el_retention_seconds = 60\<rparr>"

definition ex_emit :: effect_identity where
  "ex_emit = ex_call\<lparr>ei_operation := ''emit''\<rparr>"

definition ex_published :: "(event_store \<times> effect_receipt) res" where
  "ex_published = publish_effect plain_event_env (no_events ex_limits empty_journal) no_fence ''u'' ''t'' 5 ex_emit
     (replicate 64 CHR ''0'') [(''type'', PStr ''order'')] ''workflow'' ''sc'' None (\<lambda>e. Inr ())"

lemma ex_published_Inr: "\<not> isl ex_published"
  by code_simp

lemma ex_published_length: "length (undelivered (fst (projr ex_published))) = 1"
  by code_simp

lemma ex_history: "event_history plain_event_env ex_limits (fst (projr ex_published))"
proof -
  have limits: "make_limits ex_limits = Inr ex_limits" by (simp add: make_limits_def ex_limits_def)
  have "ex_published = Inr (fst (projr ex_published), snd (projr ex_published))" using ex_published_Inr by simp
  then show ?thesis
    unfolding ex_published_def by (rule history_publish [OF history_start [OF limits], rotated]) (simp add: dict_wf_def)
qed

theorem publications_deliverable_witness:
  "event_history plain_event_env ex_limits (fst (projr ex_published)) \<and>
   (\<exists>s'. deliver_outbox plain_event_env (fst (projr ex_published)) 6 4 = Inr (s', 1) \<and> st_inbox s' \<noteq> [])"
proof -
  have four: "4 \<le> el_scan_batch ex_limits" by (simp add: ex_limits_def)
  obtain x where x: "undelivered (fst (projr ex_published)) = [x]" using ex_published_length by (auto simp: length_Suc_conv)
  show ?thesis
    using publications_deliverable [OF ex_history _ four, of 6] ex_history x by (cases x) auto
qed

theorem retention_bounded_witness:
  "int (length (st_inbox (fst (projr ex_published)))) \<le> 1 \<and>
   inbox_bytes (fst (projr ex_published)) + outbox_bytes (fst (projr ex_published)) \<le> 500"
  using retention_bounded [OF ex_history] by (simp add: ex_limits_def)

end
