(* ===== verification/Event_Listeners.thy ===== *)
theory Event_Listeners
  imports Event_Capacity "HOL-Library.Sublist" "HOL-Library.Code_Target_Nat"
begin

text \<open>
  The listener side of the durable event store (\<^verbatim>\<open>event_store.py\<close>): registration, the verified state of a
  subscription, the selection of arrivals, completion, abandonment and the disposition of a
  terminal invocation. The matcher is an argument that may raise; what a listener has selected,
  its cursor and its correlations only ever grow, in arrival order and without repetition.
\<close>

section \<open>Progress\<close>

record event_progress =
  pg_registration :: event_registration
  pg_events :: "event_envelope list"
  pg_correlations :: "(string \<times> pyval) list"
  pg_matched_filters :: "nat list"
  pg_progress :: "(string \<times> pyval) list"
  pg_cursor :: int
  pg_completed :: bool
  pg_closed :: bool
  pg_selected :: "event_envelope option"
  pg_event_receipt :: "effect_receipt option"
  pg_receipt :: "effect_receipt option"
  pg_decision_ordinal :: int
  pg_decision_receipt :: "effect_receipt option"

type_synonym event_evaluator = "event_envelope \<Rightarrow> event_progress \<Rightarrow> event_decision option res"

definition event_receipt :: "string \<Rightarrow> pyval \<Rightarrow> effect_receipt res" where
  "event_receipt digest output =
     make_receipt ((pending_receipt digest ''event'' None)\<lparr>rc_status := ''completed'', rc_output := output\<rparr>)"

definition insert_event_receipt :: "event_env \<Rightarrow> event_store \<Rightarrow> effect_identity \<Rightarrow> string \<Rightarrow> pyval \<Rightarrow> (event_store \<times> effect_receipt) res" where
  "insert_event_receipt env s i digest output =
     bindE (event_receipt digest output) (\<lambda>r.
     bindE (insert_completed_receipt (ee_journal env) (st_journal s) i r) (\<lambda>j. Inr (s\<lparr>st_journal := j\<rparr>, r)))"

definition subscription_key :: "event_env \<Rightarrow> event_registration \<Rightarrow> string" where
  "subscription_key env g = effect_key (ee_journal env) (eg_identity g)"

definition registration_output :: "effect_identity \<Rightarrow> string \<Rightarrow> pyval \<Rightarrow> int \<Rightarrow> pyval" where
  "registration_output i scope strategy cursor =
     PDict [(''profile'', PStr ''owa/events/v1''), (''identity'', identity_value i), (''scope'', PStr scope),
       (''strategy'', strategy), (''initial_cursor'', PInt cursor)]"

definition payload_value :: "subscription_payload \<Rightarrow> pyval" where
  "payload_value p =
     PDict [(''profile'', PStr (sp_profile p)), (''identity'', identity_value (sp_identity p)),
       (''request_digest'', PStr (sp_request_digest p)), (''scope'', PStr (sp_scope p)), (''strategy'', sp_strategy p),
       (''cursor'', PInt (sp_cursor p)), (''initial_cursor'', PInt (sp_initial_cursor p)),
       (''correlations'', PDict (sp_correlations p)), (''matched_filters'', PList (map (\<lambda>n. PInt (int n)) (sp_matched_filters p))),
       (''progress'', PDict (sp_progress p)), (''selection_count'', PInt (sp_selection_count p)),
       (''decision_count'', PInt (sp_decision_count p))]"

definition routing_value :: "subscription_payload \<Rightarrow> string \<Rightarrow> pyval" where
  "routing_value p status =
     PDict [(''profile'', PStr ''owa/events/progress/v1''), (''status'', PStr status), (''cursor'', PInt (sp_cursor p)),
       (''correlations'', PDict (sp_correlations p)), (''matched_filters'', PList (map (\<lambda>n. PInt (int n)) (sp_matched_filters p))),
       (''progress'', PDict (sp_progress p)), (''selection_count'', PInt (sp_selection_count p)),
       (''decision_count'', PInt (sp_decision_count p))]"

definition decision_digest :: "event_env \<Rightarrow> event_registration \<Rightarrow> int \<Rightarrow> string res" where
  "decision_digest env g ordinal =
     effect_request_digest (ee_journal env) ''listen:progress:v1''
       (PDict [(''subscription'', PStr (eg_request_digest g)), (''ordinal'', PInt ordinal)])"

definition selection_digest :: "event_env \<Rightarrow> event_registration \<Rightarrow> int \<Rightarrow> int \<Rightarrow> string \<Rightarrow> string res" where
  "selection_digest env g ordinal sequence digest =
     effect_request_digest (ee_journal env) ''listen:event:v1''
       (PDict [(''subscription'', PStr (eg_request_digest g)), (''ordinal'', PInt ordinal), (''sequence'', PInt sequence),
          (''event_digest'', PStr digest)])"

definition listen_digest :: "event_env \<Rightarrow> pyval \<Rightarrow> string \<Rightarrow> string res" where
  "listen_digest env strategy scope =
     effect_request_digest (ee_journal env) ''listen'' (PDict [(''strategy'', strategy), (''scope'', PStr scope)])"

section \<open>Verified reads\<close>

text \<open>\<^verbatim>\<open>_row\<close>: the subscription with the receipts that vouch for it. The fields of the payload are typed by its record.\<close>

definition routing_vouched :: "event_env \<Rightarrow> event_store \<Rightarrow> event_registration \<Rightarrow> subscription_row \<Rightarrow> unit res" where
  "routing_vouched env s g row =
     (let p = sr_payload row in
      if sp_decision_count p \<noteq> 0
      then bindE (decision_identity g (sp_decision_count p)) (\<lambda>di.
           bindE (get_effect (ee_journal env) (st_journal s) di) (\<lambda>found.
             case found of
               None \<Rightarrow> Inl ValueError
             | Some r \<Rightarrow>
                 bindE (decision_digest env g (sp_decision_count p)) (\<lambda>digest.
                 bindE (guardE (rc_status r = ''completed'' \<and> rc_request_digest r = digest) ValueError) (\<lambda>_.
                 bindE (canonical env (rc_output r)) (\<lambda>a.
                 bindE (canonical env (routing_value p (sr_status row))) (\<lambda>b.
                   guardE (a = b) ValueError))))))
      else guardE (sr_status row = ''pending'' \<and> sp_cursor p = sp_initial_cursor p \<and> sp_selection_count p = 0
             \<and> sp_correlations p = [] \<and> sp_matched_filters p = [] \<and> sp_progress p = []) ValueError)"

definition registration_vouched :: "event_env \<Rightarrow> event_store \<Rightarrow> event_registration \<Rightarrow> subscription_payload \<Rightarrow> unit res" where
  "registration_vouched env s g p =
     bindE (get_effect (ee_journal env) (st_journal s) (receipt_identity g)) (\<lambda>found.
       case found of
         None \<Rightarrow> Inl ValueError
       | Some r \<Rightarrow> guardE (rc_status r = ''completed'' \<and> rc_request_digest r = eg_request_digest g
             \<and> py_eq (rc_output r) (registration_output (eg_identity g) (eg_scope g) (sp_strategy p) (sp_initial_cursor p))) ValueError)"

definition payload_ok :: "event_env \<Rightarrow> event_registration \<Rightarrow> subscription_row \<Rightarrow> unit res" where
  "payload_ok env g row =
     (let p = sr_payload row; i = eg_identity g in
      bindE (guardE (sp_profile p = ''owa/events/v1'' \<and> sp_identity p = i \<and> sr_invocation_id row = ei_invocation_id i
         \<and> sr_fingerprint row = ei_fingerprint i \<and> sp_scope p = eg_scope g \<and> sp_request_digest p = eg_request_digest g) ValueError) (\<lambda>_.
      bindE (listen_digest env (sp_strategy p) (sp_scope p)) (\<lambda>digest.
      bindE (guardE (sp_request_digest p = digest \<and> sr_status row \<in> {''pending'', ''completed'', ''closed''} \<and> 0 \<le> sp_cursor p
         \<and> sp_initial_cursor p \<le> sp_cursor p \<and> 0 \<le> sp_selection_count p \<and> 0 \<le> sp_decision_count p) ValueError) (\<lambda>_.
        validate_expression_data 0 64 (payload_value p)))))"

definition subscription_of :: "event_env \<Rightarrow> event_store \<Rightarrow> event_registration \<Rightarrow> subscription_row res" where
  "subscription_of env s g =
     (case dict_get (st_subscriptions s) (subscription_key env g) of
        None \<Rightarrow> Inl WorkflowExecutionError
      | Some row \<Rightarrow>
          reraise {} WorkflowExecutionError
            (bindE (payload_ok env g row) (\<lambda>_.
             bindE (registration_vouched env s g (sr_payload row)) (\<lambda>_.
             bindE (routing_vouched env s g row) (\<lambda>_. Inr row)))))"

text \<open>The loop of \<^verbatim>\<open>state\<close> over the selections.\<close>

definition selected_event :: "event_env \<Rightarrow> event_store \<Rightarrow> event_registration \<Rightarrow> int \<Rightarrow> int \<Rightarrow> int \<Rightarrow> selection_row \<Rightarrow> event_envelope res" where
  "selected_event env s g cursor expected previous x =
     (case find (\<lambda>r. ib_sequence r = se_inbox_sequence x) (st_inbox s) of
        None \<Rightarrow> Inl WorkflowExecutionError
      | Some row \<Rightarrow>
          bindE (guardE (se_ordinal x = expected \<and> previous < se_inbox_sequence x \<and> se_inbox_sequence x \<le> cursor
              \<and> ib_digest row = se_digest x \<and> ib_scope row = eg_scope g) WorkflowExecutionError) (\<lambda>_.
          bindE (decode_envelope env (ib_envelope row) (se_digest x)) (\<lambda>e.
          bindE (ee_verify_approval env e (eg_scope g)) (\<lambda>_.
          bindE (event_identity g (se_ordinal x)) (\<lambda>i.
          bindE (get_effect (ee_journal env) (st_journal s) i) (\<lambda>found.
            case found of
              None \<Rightarrow> Inl WorkflowExecutionError
            | Some r \<Rightarrow>
                bindE (selection_digest env g (se_ordinal x) (se_inbox_sequence x) (se_digest x)) (\<lambda>digest.
                bindE (guardE (se_receipt_identity x = effect_key (ee_journal env) i \<and> rc_status r = ''completed''
                    \<and> rc_request_digest r = digest) WorkflowExecutionError) (\<lambda>_.
                bindE (canonical env (rc_output r)) (\<lambda>a.
                bindE (canonical env (envelope_value e)) (\<lambda>b.
                bindE (guardE (a = b) WorkflowExecutionError) (\<lambda>_. Inr e)))))))))))"

fun selected_events :: "event_env \<Rightarrow> event_store \<Rightarrow> event_registration \<Rightarrow> int \<Rightarrow> int \<Rightarrow> int \<Rightarrow> selection_row list \<Rightarrow> event_envelope list res" where
  "selected_events env s g cursor expected previous [] = Inr []"
| "selected_events env s g cursor expected previous (x # xs) =
     bindE (selected_event env s g cursor expected previous x) (\<lambda>e.
     bindE (selected_events env s g cursor (expected + 1) (se_inbox_sequence x) xs) (\<lambda>es. Inr (e # es)))"

definition selections_of :: "event_store \<Rightarrow> string \<Rightarrow> selection_row list" where
  "selections_of s key = sort_key se_ordinal (filter (\<lambda>x. se_subscription x = key) (st_selections s))"

definition final_receipt :: "event_env \<Rightarrow> event_store \<Rightarrow> event_registration \<Rightarrow> string \<Rightarrow> event_envelope list \<Rightarrow> effect_receipt option res" where
  "final_receipt env s g status events =
     bindE (get_effect (ee_journal env) (st_journal s) (eg_identity g)) (\<lambda>final.
       if status = ''completed''
       then (case final of
               None \<Rightarrow> Inl WorkflowExecutionError
             | Some r \<Rightarrow>
                 bindE (guardE (rc_status r = ''completed'' \<and> rc_request_digest r = eg_request_digest g) WorkflowExecutionError) (\<lambda>_.
                 bindE (canonical env (rc_output r)) (\<lambda>a.
                 bindE (canonical env (PList (map envelope_value events))) (\<lambda>b.
                 bindE (guardE (a = b) WorkflowExecutionError) (\<lambda>_. Inr final)))))
       else bindE (guardE (final = None) WorkflowExecutionError) (\<lambda>_. Inr None))"

definition event_state :: "event_env \<Rightarrow> event_store \<Rightarrow> event_registration \<Rightarrow> event_progress res" where
  "event_state env s g =
     bindE (subscription_of env s g) (\<lambda>row.
     let p = sr_payload row; rows = selections_of s (subscription_key env g) in
     bindE (guardE (int (length rows) = sp_selection_count p) WorkflowExecutionError) (\<lambda>_.
     bindE (selected_events env s g (sp_cursor p) 1 (sp_initial_cursor p) rows) (\<lambda>events.
     bindE (final_receipt env s g (sr_status row) events) (\<lambda>final.
     bindE (if sp_decision_count p \<noteq> 0
            then bindE (decision_identity g (sp_decision_count p)) (get_effect (ee_journal env) (st_journal s))
            else Inr None) (\<lambda>decision.
       Inr \<lparr>pg_registration = g, pg_events = events, pg_correlations = sp_correlations p, pg_matched_filters = sp_matched_filters p,
            pg_progress = sp_progress p, pg_cursor = sp_cursor p, pg_completed = (sr_status row = ''completed''),
            pg_closed = (sr_status row = ''closed''), pg_selected = None, pg_event_receipt = None, pg_receipt = final,
            pg_decision_ordinal = sp_decision_count p, pg_decision_receipt = decision\<rparr>)))))"

section \<open>Operations\<close>

definition save_progress ::
  "event_env \<Rightarrow> event_store \<Rightarrow> event_registration \<Rightarrow> subscription_row \<Rightarrow> subscription_payload \<Rightarrow> string \<Rightarrow> event_store res" where
  "save_progress env s g row p status =
     (let p' = p\<lparr>sp_decision_count := sp_decision_count p + 1\<rparr> in
      bindE (decision_identity g (sp_decision_count p')) (\<lambda>i.
      bindE (decision_digest env g (sp_decision_count p')) (\<lambda>digest.
      bindE (insert_event_receipt env s i digest (routing_value p' status)) (\<lambda>(s', _).
        Inr (s'\<lparr>st_subscriptions := dict_set (subscription_key env g) (row\<lparr>sr_payload := p', sr_status := status\<rparr>) (st_subscriptions s')\<rparr>)))))"

definition initial_payload :: "event_registration \<Rightarrow> pyval \<Rightarrow> int \<Rightarrow> subscription_payload" where
  "initial_payload g strategy cursor =
     \<lparr>sp_profile = ''owa/events/v1'', sp_identity = eg_identity g, sp_request_digest = eg_request_digest g, sp_scope = eg_scope g,
      sp_strategy = strategy, sp_cursor = cursor, sp_initial_cursor = cursor, sp_correlations = [], sp_matched_filters = [],
      sp_progress = [], sp_selection_count = 0, sp_decision_count = 0\<rparr>"

definition register_new :: "event_env \<Rightarrow> event_store \<Rightarrow> event_registration \<Rightarrow> pyval \<Rightarrow> event_store res" where
  "register_new env s g strategy =
     (let i = eg_identity g; iid = ei_invocation_id i in
      bindE (guardE (\<not> ee_terminal env iid) InvocationStateConflict) (\<lambda>_.
      bindE (guardE (int (length (st_subscriptions s)) + int (length (st_pins s)) < el_max_subscriptions (st_limits s)) EventValidationError) (\<lambda>_.
      let consumers = (if dict_get (st_consumers s) iid = None then st_consumers s @ [(iid, 0)] else st_consumers s);
          cursor = (case dict_get consumers iid of Some c \<Rightarrow> c | None \<Rightarrow> 0);
          row = \<lparr>sr_invocation_id = iid, sr_fingerprint = ei_fingerprint i, sr_payload = initial_payload g strategy cursor,
                 sr_status = ''pending''\<rparr> in
      bindE (insert_event_receipt env (s\<lparr>st_consumers := consumers,
          st_subscriptions := st_subscriptions s @ [(subscription_key env g, row)]\<rparr>)
        (receipt_identity g) (eg_request_digest g) (registration_output i (eg_scope g) strategy cursor)) (\<lambda>(s', _). Inr s'))))"

definition register ::
  "event_env \<Rightarrow> event_store \<Rightarrow> fence \<Rightarrow> effect_identity \<Rightarrow> pyval \<Rightarrow> string \<Rightarrow> (event_store \<times> event_registration) res" where
  "register env s fc i strategy scope =
     bindE (guardE (ei_operation i = ''listen'') WorkflowExecutionError) (\<lambda>_.
     bindE (check_scope scope) (\<lambda>_.
     bindE (validate_expression_data 0 64 strategy) (\<lambda>_.
     bindE (canonical env strategy) (\<lambda>encoded.
     bindE (guardE (int (utf8_length encoded) \<le> el_max_event_bytes (st_limits s)) EventValidationError) (\<lambda>_.
     bindE (listen_digest env strategy scope) (\<lambda>digest.
     let g = \<lparr>eg_identity = i, eg_request_digest = digest, eg_scope = scope\<rparr> in
     event_owned s fc i
       (bindE (bound_scope env s i scope) (\<lambda>_.
          case dict_get (st_subscriptions s) (subscription_key env g) of
            Some _ \<Rightarrow> bindE (event_state env s g) (\<lambda>_. Inr (s, g))
          | None \<Rightarrow> bindE (register_new env s g strategy) (\<lambda>s'. Inr (s', g)))))))))) "

text \<open>The loop of \<^verbatim>\<open>select\<close>: the first arrival the matcher decides on, and the cursor after it.\<close>

fun first_candidate ::
  "event_env \<Rightarrow> event_evaluator \<Rightarrow> event_progress \<Rightarrow> int \<Rightarrow> inbox_row list \<Rightarrow> (int \<times> (inbox_row \<times> event_envelope \<times> event_decision) option) res" where
  "first_candidate env evaluate current cursor [] = Inr (cursor, None)"
| "first_candidate env evaluate current cursor (r # rs) =
     bindE (decode_envelope env (ib_envelope r) (ib_digest r)) (\<lambda>e.
     bindE (evaluate e current) (\<lambda>decision.
       case decision of
         None \<Rightarrow> first_candidate env evaluate current (ib_sequence r) rs
       | Some d \<Rightarrow> Inr (ib_sequence r, Some (r, e, d))))"

definition bind_correlation :: "event_env \<Rightarrow> (string \<times> pyval) list \<Rightarrow> string \<times> pyval \<Rightarrow> (string \<times> pyval) list res" where
  "bind_correlation env bound kv =
     bindE (case dict_get bound (fst kv) of
              None \<Rightarrow> Inr ()
            | Some old \<Rightarrow> bindE (canonical env old) (\<lambda>a. bindE (canonical env (snd kv)) (\<lambda>b. guardE (a = b) WorkflowExecutionError))) (\<lambda>_.
       Inr (dict_set (fst kv) (snd kv) bound))"

definition decided_payload :: "event_env \<Rightarrow> event_limits \<Rightarrow> event_progress \<Rightarrow> subscription_payload \<Rightarrow> event_decision \<Rightarrow> subscription_payload res" where
  "decided_payload env l current p d =
     bindE (foldE (bind_correlation env) (pg_correlations current) (dc_correlations d)) (\<lambda>correlations.
     bindE (canonical env (PDict [(''correlations'', PDict correlations), (''progress'', PDict (dc_progress d))])) (\<lambda>encoded.
     bindE (guardE (int (utf8_length encoded) \<le> el_max_event_bytes l) EventValidationError) (\<lambda>_.
       Inr (p\<lparr>sp_correlations := correlations,
              sp_matched_filters := sort (remdups (pg_matched_filters current @ dc_filter_indices d)),
              sp_progress := dc_progress d\<rparr>))))"

definition record_selection ::
  "event_env \<Rightarrow> event_store \<Rightarrow> event_registration \<Rightarrow> subscription_payload \<Rightarrow> inbox_row \<Rightarrow> event_envelope \<Rightarrow>
   (event_store \<times> subscription_payload \<times> effect_receipt) res" where
  "record_selection env s g p r e =
     (let ordinal = sp_selection_count p + 1; key = subscription_key env g in
      bindE (event_identity g ordinal) (\<lambda>i.
      bindE (selection_digest env g ordinal (ib_sequence r) (ib_digest r)) (\<lambda>digest.
      bindE (insert_event_receipt env s i digest (envelope_value e)) (\<lambda>(s', receipt).
      bindE (guardE (\<not> list_ex (\<lambda>x. se_subscription x = key \<and> (se_ordinal x = ordinal \<or> se_inbox_sequence x = ib_sequence r))
          (st_selections s')) IntegrityError) (\<lambda>_.
        Inr (s'\<lparr>st_selections := st_selections s' @ [\<lparr>se_subscription = key, se_ordinal = ordinal, se_inbox_sequence = ib_sequence r,
               se_digest = ib_digest r, se_receipt_identity = effect_key (ee_journal env) i\<rparr>]\<rparr>,
             p\<lparr>sp_selection_count := ordinal\<rparr>, receipt))))))"

definition advance_consumer :: "string \<Rightarrow> int \<Rightarrow> event_store \<Rightarrow> event_store" where
  "advance_consumer iid sequence s =
     s\<lparr>st_consumers := map (\<lambda>(i, c). (i, if i = iid \<and> c < sequence then sequence else c)) (st_consumers s)\<rparr>"

definition complete_listener :: "event_env \<Rightarrow> event_store \<Rightarrow> event_registration \<Rightarrow> event_envelope list \<Rightarrow> event_store res" where
  "complete_listener env s g events =
     bindE (event_receipt (eg_request_digest g) (PList (map envelope_value events))) (\<lambda>final.
     bindE (ee_outcome env (eg_identity g) final) (\<lambda>_.
     bindE (insert_completed_receipt (ee_journal env) (st_journal s) (eg_identity g) final) (\<lambda>j. Inr (s\<lparr>st_journal := j\<rparr>))))"

definition select_arrival ::
  "event_env \<Rightarrow> event_store \<Rightarrow> event_registration \<Rightarrow> subscription_row \<Rightarrow> event_progress \<Rightarrow> subscription_payload \<Rightarrow>
   inbox_row \<Rightarrow> event_envelope \<Rightarrow> event_decision \<Rightarrow> (event_store \<times> event_progress) res" where
  "select_arrival env s g row current p r e d =
     bindE (ee_verify_approval env e (eg_scope g)) (\<lambda>_.
     bindE (decided_payload env (st_limits s) current p d) (\<lambda>p1.
     bindE (if dc_terminator d then Inr (s, p1, None)
            else bindE (record_selection env s g p1 r e) (\<lambda>(s', p', receipt). Inr (s', p', Some receipt))) (\<lambda>(s1, p2, receipt).
     let s2 = advance_consumer (ei_invocation_id (eg_identity g)) (ib_sequence r) s1 in
     bindE (save_progress env s2 g row p2 (if dc_terminal d then ''completed'' else ''pending'')) (\<lambda>s3.
     bindE (if dc_terminal d then complete_listener env s3 g (pg_events current @ (if dc_terminator d then [] else [e])) else Inr s3) (\<lambda>s4.
     bindE (event_state env s4 g) (\<lambda>result.
       Inr (s4, result\<lparr>pg_selected := (if dc_terminator d then None else Some e), pg_event_receipt := receipt\<rparr>)))))))"

definition event_select ::
  "event_env \<Rightarrow> event_store \<Rightarrow> fence \<Rightarrow> event_registration \<Rightarrow> event_evaluator \<Rightarrow> (event_store \<times> event_progress) res" where
  "event_select env s fc g evaluate =
     event_owned s fc (eg_identity g)
       (bindE (subscription_of env s g) (\<lambda>row.
        bindE (event_state env s g) (\<lambda>current.
        let p = sr_payload row in
        if sr_status row \<noteq> ''pending'' then Inr (s, current)
        else if ee_terminal env (ei_invocation_id (eg_identity g))
        then bindE (save_progress env s g row p ''closed'') (\<lambda>s'. bindE (event_state env s' g) (\<lambda>result. Inr (s', result)))
        else let rows = scan s (eg_scope g) (sp_cursor p) (el_scan_batch (st_limits s)) in
          bindE (first_candidate env evaluate current (sp_cursor p) rows) (\<lambda>(cursor, found).
            case found of
              Some (r, e, d) \<Rightarrow> select_arrival env s g row current (p\<lparr>sp_cursor := cursor\<rparr>) r e d
            | None \<Rightarrow> if rows = [] then Inr (s, current)
                else bindE (save_progress env s g row (p\<lparr>sp_cursor := cursor\<rparr>) ''pending'') (\<lambda>s'.
                     bindE (event_state env s' g) (\<lambda>result. Inr (s', result)))))))"

definition event_complete :: "event_env \<Rightarrow> event_store \<Rightarrow> fence \<Rightarrow> event_registration \<Rightarrow> (event_store \<times> event_progress) res" where
  "event_complete env s fc g =
     event_owned s fc (eg_identity g)
       (bindE (subscription_of env s g) (\<lambda>row.
        bindE (event_state env s g) (\<lambda>current.
        if pg_closed current \<or> pg_completed current then Inr (s, current)
        else bindE (if ee_terminal env (ei_invocation_id (eg_identity g)) then save_progress env s g row (sr_payload row) ''closed''
               else bindE (complete_listener env s g (pg_events current)) (\<lambda>s1. save_progress env s1 g row (sr_payload row) ''completed'')) (\<lambda>s'.
             bindE (event_state env s' g) (\<lambda>result. Inr (s', result))))))"

definition abandon :: "event_env \<Rightarrow> event_store \<Rightarrow> fence \<Rightarrow> event_registration \<Rightarrow> event_store res" where
  "abandon env s fc g =
     event_owned s fc (eg_identity g)
       (bindE (subscription_of env s g) (\<lambda>row.
        if sr_status row = ''pending'' then save_progress env s g row (sr_payload row) ''closed'' else Inr s))"

definition close_listener :: "event_env \<Rightarrow> event_store \<Rightarrow> string \<times> subscription_row \<Rightarrow> event_store res" where
  "close_listener env s entry =
     (let p = sr_payload (snd entry);
          g = \<lparr>eg_identity = sp_identity p, eg_request_digest = sp_request_digest p, eg_scope = sp_scope p\<rparr> in
      bindE (subscription_of env s g) (\<lambda>row. save_progress env s g row (sr_payload row) ''closed''))"

text \<open>\<^verbatim>\<open>close_invocation\<close>; the handle of the invocation is its fingerprint and its status.\<close>

definition close_listeners :: "event_env \<Rightarrow> event_store \<Rightarrow> (string \<times> string) option \<Rightarrow> string \<Rightarrow> string \<Rightarrow> event_store res" where
  "close_listeners env s handle iid fp =
     event_transaction s
       (bindE (guardE (case handle of None \<Rightarrow> False
            | Some (saved, status) \<Rightarrow> saved = fp \<and> status \<in> {''completed'', ''faulted'', ''cancelled''}) InvocationStateConflict) (\<lambda>_.
        foldE (close_listener env) s
          (filter (\<lambda>(k, row). sr_invocation_id row = iid \<and> sr_fingerprint row = fp \<and> sr_status row = ''pending'') (st_subscriptions s))))"

section \<open>What a listener operation writes\<close>

definition bound_to :: "event_env \<Rightarrow> (string \<times> pyval) list \<Rightarrow> (string \<times> pyval) list \<Rightarrow> bool" where
  "bound_to env old new \<longleftrightarrow> (\<forall>k v. dict_get old k = Some v \<longrightarrow>
     (\<exists>w. dict_get new k = Some w \<and> (w = v \<or> (\<exists>t. canonical env v = Inr t \<and> canonical env w = Inr t))))"

lemma bound_to_refl: "bound_to env d d"
  by (simp add: bound_to_def)

lemma bound_to_trans:
  assumes "bound_to env a b" "bound_to env b c"
  shows "bound_to env a c"
  unfolding bound_to_def
proof (intro allI impI)
  fix k v
  assume "dict_get a k = Some v"
  then obtain w where w: "dict_get b k = Some w" "w = v \<or> (\<exists>t. canonical env v = Inr t \<and> canonical env w = Inr t)"
    using assms(1) unfolding bound_to_def by blast
  then obtain x where "dict_get c k = Some x" "x = w \<or> (\<exists>t. canonical env w = Inr t \<and> canonical env x = Inr t)"
    using assms(2) unfolding bound_to_def by blast
  then show "\<exists>x. dict_get c k = Some x \<and> (x = v \<or> (\<exists>t. canonical env v = Inr t \<and> canonical env x = Inr t))"
    using w(2) by auto
qed

lemma bind_correlation_bound:
  assumes "bind_correlation env d kv = Inr d'"
  shows "bound_to env d d'"
  unfolding bound_to_def
proof (intro allI impI)
  fix k v
  assume "dict_get d k = Some v"
  then show "\<exists>w. dict_get d' k = Some w \<and> (w = v \<or> (\<exists>t. canonical env v = Inr t \<and> canonical env w = Inr t))"
    using assms by (cases "k = fst kv") (auto simp: bind_correlation_def split: option.splits)
qed

definition row_grows :: "event_env \<Rightarrow> subscription_row \<Rightarrow> subscription_row \<Rightarrow> bool" where
  "row_grows env old new \<longleftrightarrow>
     (let p = sr_payload old; q = sr_payload new in
      sp_identity q = sp_identity p \<and> sp_scope q = sp_scope p \<and> sp_initial_cursor q = sp_initial_cursor p \<and> sp_cursor p \<le> sp_cursor q \<and>
      bound_to env (sp_correlations p) (sp_correlations q) \<and> set (sp_matched_filters p) \<subseteq> set (sp_matched_filters q) \<and>
      (sr_status old \<noteq> ''pending'' \<longrightarrow> new = old))"

lemma row_grows_refl: "row_grows env r r"
  by (simp add: row_grows_def bound_to_refl)

lemma row_grows_trans: "row_grows env a b \<Longrightarrow> row_grows env b c \<Longrightarrow> row_grows env a c"
  unfolding row_grows_def Let_def using bound_to_trans by fastforce

definition kept_tables :: "event_store \<Rightarrow> event_store \<Rightarrow> bool" where
  "kept_tables s s' \<longleftrightarrow> st_inbox s' = st_inbox s \<and> st_outbox s' = st_outbox s \<and> st_counter s' = st_counter s \<and> st_limits s' = st_limits s \<and>
     st_pins s' = st_pins s \<and> st_consumer_selections s' = st_consumer_selections s"

definition advances :: "event_env \<Rightarrow> string \<Rightarrow> event_store \<Rightarrow> event_store \<Rightarrow> bool" where
  "advances env key s s' \<longleftrightarrow> kept_tables s s' \<and>
     (\<exists>row row' xs. dict_get (st_subscriptions s) key = Some row \<and> sr_status row = ''pending'' \<and> row_grows env row row' \<and>
        st_subscriptions s' = dict_set key row' (st_subscriptions s) \<and> st_selections s' = st_selections s @ xs \<and> length xs \<le> 1 \<and>
        (\<forall>x \<in> set xs. se_subscription x = key \<and> (\<forall>y \<in> set (selections_of s key). se_ordinal y < se_ordinal x)))"

definition same_listeners :: "event_store \<Rightarrow> event_store \<Rightarrow> bool" where
  "same_listeners s s' \<longleftrightarrow> st_subscriptions s' = st_subscriptions s \<and> st_selections s' = st_selections s"

lemma insert_event_receipt_frame:
  "insert_event_receipt env s i digest output = Inr (s', r) \<Longrightarrow> \<exists>j. s' = s\<lparr>st_journal := j\<rparr>"
  by (auto simp: insert_event_receipt_def)

lemma complete_listener_frame: "complete_listener env s g events = Inr s' \<Longrightarrow> \<exists>j. s' = s\<lparr>st_journal := j\<rparr>"
  by (auto simp: complete_listener_def)

lemma save_progress_frame:
  assumes "save_progress env s g row p status = Inr s'"
  shows "\<exists>j. s' = s\<lparr>st_journal := j, st_subscriptions :=
     dict_set (subscription_key env g) (row\<lparr>sr_payload := p\<lparr>sp_decision_count := sp_decision_count p + 1\<rparr>, sr_status := status\<rparr>) (st_subscriptions s)\<rparr>"
  using assms unfolding save_progress_def Let_def by (auto dest!: insert_event_receipt_frame)

lemma record_selection_frame:
  assumes "record_selection env s g p r e = Inr (s', p', receipt)"
  obtains j x where "s' = s\<lparr>st_journal := j, st_selections := st_selections s @ [x]\<rparr>" "p' = p\<lparr>sp_selection_count := sp_selection_count p + 1\<rparr>"
    "se_subscription x = subscription_key env g" "se_ordinal x = sp_selection_count p + 1"
  using assms unfolding record_selection_def Let_def by (auto dest!: insert_event_receipt_frame)

lemma subscription_of_row:
  assumes "subscription_of env s g = Inr row"
  shows "dict_get (st_subscriptions s) (subscription_key env g) = Some row" "sp_identity (sr_payload row) = eg_identity g"
    "sp_scope (sr_payload row) = eg_scope g"
  using assms by (auto simp: subscription_of_def payload_ok_def Let_def split: option.splits)

lemma selected_ordinals:
  "selected_events env s g cursor expected previous xs = Inr es \<Longrightarrow> y \<in> set xs \<Longrightarrow> se_ordinal y < expected + int (length xs)"
proof (induction xs arbitrary: expected previous es)
  case (Cons x xs)
  obtain es' where rest: "selected_events env s g cursor (expected + 1) (se_inbox_sequence x) xs = Inr es'"
    "se_ordinal x = expected"
    using Cons.prems(1) by (auto simp: selected_event_def split: option.splits)
  then show ?case using Cons.IH [OF rest(1)] Cons.prems(2) by auto
qed simp

lemma state_facts:
  assumes "event_state env s g = Inr current"
  obtains row where "subscription_of env s g = Inr row" "pg_correlations current = sp_correlations (sr_payload row)"
    "pg_matched_filters current = sp_matched_filters (sr_payload row)" "pg_cursor current = sp_cursor (sr_payload row)"
    "pg_completed current \<longleftrightarrow> sr_status row = ''completed''" "pg_closed current \<longleftrightarrow> sr_status row = ''closed''"
    "selected_events env s g (sp_cursor (sr_payload row)) 1 (sp_initial_cursor (sr_payload row))
       (selections_of s (subscription_key env g)) = Inr (pg_events current)"
    "int (length (selections_of s (subscription_key env g))) = sp_selection_count (sr_payload row)"
  using assms unfolding event_state_def Let_def by (auto split: if_splits)

lemma state_ordinals:
  assumes "event_state env s g = Inr current" "subscription_of env s g = Inr row" "y \<in> set (selections_of s (subscription_key env g))"
  shows "se_ordinal y < sp_selection_count (sr_payload row) + 1"
  using assms by (elim state_facts) (use selected_ordinals in fastforce)

lemma candidate_cursor:
  "first_candidate env evaluate current c rows = Inr (c', found) \<Longrightarrow> \<forall>r \<in> set rows. b < ib_sequence r \<Longrightarrow> b \<le> c \<Longrightarrow> b \<le> c'"
proof (induction rows arbitrary: c)
  case (Cons r rs)
  then show ?case by (fastforce split: option.splits)
qed simp

lemma scan_beyond: "r \<in> set (scan s scope after bound) \<Longrightarrow> after < ib_sequence r"
  by (auto simp: scan_def dest!: in_set_takeD)

lemma saved_row_grows:
  assumes "sp_identity p = sp_identity (sr_payload row)" "sp_scope p = sp_scope (sr_payload row)"
    "sp_initial_cursor p = sp_initial_cursor (sr_payload row)" "sp_cursor (sr_payload row) \<le> sp_cursor p"
    "bound_to env (sp_correlations (sr_payload row)) (sp_correlations p)"
    "set (sp_matched_filters (sr_payload row)) \<subseteq> set (sp_matched_filters p)" "sr_status row = ''pending''"
  shows "row_grows env row (row\<lparr>sr_payload := p\<lparr>sp_decision_count := n\<rparr>, sr_status := status\<rparr>)"
  using assms by (simp add: row_grows_def)

lemma save_advances:
  assumes "save_progress env s g row p status = Inr s'" "subscription_of env s g = Inr row" "sr_status row = ''pending''"
    and "row_grows env row (row\<lparr>sr_payload := p\<lparr>sp_decision_count := sp_decision_count p + 1\<rparr>, sr_status := status\<rparr>)"
  shows "advances env (subscription_key env g) s s'"
proof -
  note row = subscription_of_row(1) [OF assms(2)]
  obtain j where "s' = s\<lparr>st_journal := j, st_subscriptions := dict_set (subscription_key env g)
      (row\<lparr>sr_payload := p\<lparr>sp_decision_count := sp_decision_count p + 1\<rparr>, sr_status := status\<rparr>) (st_subscriptions s)\<rparr>"
    using save_progress_frame [OF assms(1)] by blast
  then show ?thesis
    unfolding advances_def kept_tables_def using row assms(3,4)
    by (intro conjI exI [of _ row] exI [of _ "row\<lparr>sr_payload := p\<lparr>sp_decision_count := sp_decision_count p + 1\<rparr>, sr_status := status\<rparr>"]
        exI [of _ "[]"]) simp_all
qed

lemma decided_payload_facts:
  assumes "decided_payload env l current p d = Inr p'"
  shows "sp_identity p' = sp_identity p" "sp_scope p' = sp_scope p" "sp_initial_cursor p' = sp_initial_cursor p" "sp_cursor p' = sp_cursor p"
    "sp_selection_count p' = sp_selection_count p" "bound_to env (pg_correlations current) (sp_correlations p')"
    "set (pg_matched_filters current) \<subseteq> set (sp_matched_filters p')"
proof -
  obtain c where c: "foldE (bind_correlation env) (pg_correlations current) (dc_correlations d) = Inr c"
    "p' = p\<lparr>sp_correlations := c, sp_matched_filters := sort (remdups (pg_matched_filters current @ dc_filter_indices d)),
       sp_progress := dc_progress d\<rparr>"
    using assms by (auto simp: decided_payload_def)
  have "bound_to env (pg_correlations current) c"
    by (rule foldE_inv [where P = "bound_to env (pg_correlations current)", OF _ bound_to_refl c(1)])
      (metis bind_correlation_bound bound_to_trans)
  then show "sp_identity p' = sp_identity p" "sp_scope p' = sp_scope p" "sp_initial_cursor p' = sp_initial_cursor p" "sp_cursor p' = sp_cursor p"
    "sp_selection_count p' = sp_selection_count p" "bound_to env (pg_correlations current) (sp_correlations p')"
    "set (pg_matched_filters current) \<subseteq> set (sp_matched_filters p')"
    unfolding c(2) by auto
qed

text \<open>The stages of a selection, and the tables they leave.\<close>

lemma select_arrival_stages:
  assumes "select_arrival env s g row current p r e d = Inr (s4, result)"
  obtains p1 s1 p2 xs j j' where "decided_payload env (st_limits s) current p d = Inr p1"
    "s1 = s\<lparr>st_journal := j, st_selections := st_selections s @ xs\<rparr>" "length xs \<le> 1"
    "\<forall>x \<in> set xs. se_subscription x = subscription_key env g \<and> se_ordinal x = sp_selection_count p1 + 1"
    "p2 = p1\<lparr>sp_selection_count := sp_selection_count p2\<rparr>"
    "s4 = (advance_consumer (ei_invocation_id (eg_identity g)) (ib_sequence r) s1)\<lparr>st_journal := j', st_subscriptions :=
       dict_set (subscription_key env g) (row\<lparr>sr_payload := p2\<lparr>sp_decision_count := sp_decision_count p2 + 1\<rparr>,
         sr_status := (if dc_terminal d then ''completed'' else ''pending'')\<rparr>) (st_subscriptions s)\<rparr>"
proof -
  obtain p1 s1 p2 receipt s3 where st: "decided_payload env (st_limits s) current p d = Inr p1"
    "(if dc_terminator d then Inr (s, p1, None)
      else bindE (record_selection env s g p1 r e) (\<lambda>(s', p', receipt). Inr (s', p', Some receipt))) = Inr (s1, p2, receipt)"
    "save_progress env (advance_consumer (ei_invocation_id (eg_identity g)) (ib_sequence r) s1) g row p2
       (if dc_terminal d then ''completed'' else ''pending'') = Inr s3"
    "(if dc_terminal d then complete_listener env s3 g (pg_events current @ (if dc_terminator d then [] else [e])) else Inr s3) = Inr s4"
    using assms unfolding select_arrival_def Let_def by auto
  have "\<exists>j xs. s1 = s\<lparr>st_journal := j, st_selections := st_selections s @ xs\<rparr> \<and> length xs \<le> 1 \<and>
      (\<forall>x \<in> set xs. se_subscription x = subscription_key env g \<and> se_ordinal x = sp_selection_count p1 + 1) \<and>
      p2 = p1\<lparr>sp_selection_count := sp_selection_count p2\<rparr>"
  proof (cases "dc_terminator d")
    case True
    then show ?thesis using st(2) by (intro exI [of _ "st_journal s"] exI [of _ "[]"]) simp
  next
    case False
    then have "\<exists>receipt. record_selection env s g p1 r e = Inr (s1, p2, receipt)" using st(2) by auto
    then obtain j x where "s1 = s\<lparr>st_journal := j, st_selections := st_selections s @ [x]\<rparr>"
      "p2 = p1\<lparr>sp_selection_count := sp_selection_count p1 + 1\<rparr>" "se_subscription x = subscription_key env g"
      "se_ordinal x = sp_selection_count p1 + 1"
      using record_selection_frame by metis
    then show ?thesis by (intro exI [of _ j] exI [of _ "[x]"]) simp
  qed
  then obtain j xs where s1: "s1 = s\<lparr>st_journal := j, st_selections := st_selections s @ xs\<rparr>" "length xs \<le> 1"
    "\<forall>x \<in> set xs. se_subscription x = subscription_key env g \<and> se_ordinal x = sp_selection_count p1 + 1"
    "p2 = p1\<lparr>sp_selection_count := sp_selection_count p2\<rparr>" by blast
  obtain j3 where s3: "s3 = (advance_consumer (ei_invocation_id (eg_identity g)) (ib_sequence r) s1)\<lparr>st_journal := j3, st_subscriptions :=
       dict_set (subscription_key env g) (row\<lparr>sr_payload := p2\<lparr>sp_decision_count := sp_decision_count p2 + 1\<rparr>,
         sr_status := (if dc_terminal d then ''completed'' else ''pending'')\<rparr>) (st_subscriptions s)\<rparr>"
    using save_progress_frame [OF st(3)] s1(1) by (auto simp: advance_consumer_def)
  have "\<exists>j4. s4 = s3\<lparr>st_journal := j4\<rparr>"
    using st(4) complete_listener_frame by (cases "dc_terminal d") (auto intro: exI [of _ "st_journal s3"])
  then obtain j4 where "s4 = s3\<lparr>st_journal := j4\<rparr>" by blast
  then have "s4 = (advance_consumer (ei_invocation_id (eg_identity g)) (ib_sequence r) s1)\<lparr>st_journal := j4, st_subscriptions :=
       dict_set (subscription_key env g) (row\<lparr>sr_payload := p2\<lparr>sp_decision_count := sp_decision_count p2 + 1\<rparr>,
         sr_status := (if dc_terminal d then ''completed'' else ''pending'')\<rparr>) (st_subscriptions s)\<rparr>"
    using s3 by simp
  then show ?thesis using that [OF st(1) s1] by blast
qed

lemma select_arrival_advances:
  assumes run: "select_arrival env s g row current (sr_payload row\<lparr>sp_cursor := cursor\<rparr>) r e d = Inr (s', result)"
    and row: "subscription_of env s g = Inr row" "sr_status row = ''pending''" and current: "event_state env s g = Inr current"
    and cursor: "sp_cursor (sr_payload row) \<le> cursor"
  shows "advances env (subscription_key env g) s s'"
proof -
  obtain p1 s1 p2 xs j j' where st: "decided_payload env (st_limits s) current (sr_payload row\<lparr>sp_cursor := cursor\<rparr>) d = Inr p1"
    "s1 = s\<lparr>st_journal := j, st_selections := st_selections s @ xs\<rparr>" "length xs \<le> 1"
    "\<forall>x \<in> set xs. se_subscription x = subscription_key env g \<and> se_ordinal x = sp_selection_count p1 + 1"
    "p2 = p1\<lparr>sp_selection_count := sp_selection_count p2\<rparr>"
    "s' = (advance_consumer (ei_invocation_id (eg_identity g)) (ib_sequence r) s1)\<lparr>st_journal := j', st_subscriptions :=
       dict_set (subscription_key env g) (row\<lparr>sr_payload := p2\<lparr>sp_decision_count := sp_decision_count p2 + 1\<rparr>,
         sr_status := (if dc_terminal d then ''completed'' else ''pending'')\<rparr>) (st_subscriptions s)\<rparr>"
    using select_arrival_stages [OF run] by metis
  note p1 = decided_payload_facts [OF st(1)]
  have cur: "pg_correlations current = sp_correlations (sr_payload row)" "pg_matched_filters current = sp_matched_filters (sr_payload row)"
    using state_facts [OF current] row(1) by (metis sum.inject(2))+
  let ?row = "row\<lparr>sr_payload := p2\<lparr>sp_decision_count := sp_decision_count p2 + 1\<rparr>,
         sr_status := (if dc_terminal d then ''completed'' else ''pending'')\<rparr>"
  have p2: "sp_identity p2 = sp_identity p1" "sp_scope p2 = sp_scope p1" "sp_initial_cursor p2 = sp_initial_cursor p1"
    "sp_cursor p2 = sp_cursor p1" "sp_correlations p2 = sp_correlations p1" "sp_matched_filters p2 = sp_matched_filters p1"
    by (subst st(5), simp)+
  have "row_grows env row ?row"
    using p1 cursor cur row(2) by (intro saved_row_grows) (simp_all add: p2)
  moreover have "\<forall>x \<in> set xs. se_subscription x = subscription_key env g \<and>
      (\<forall>y \<in> set (selections_of s (subscription_key env g)). se_ordinal y < se_ordinal x)"
    using st(4) state_ordinals [OF current row(1)] p1(5) by simp
  moreover have "kept_tables s s'" "st_subscriptions s' = dict_set (subscription_key env g) ?row (st_subscriptions s)"
    "st_selections s' = st_selections s @ xs"
    by (simp_all add: st(6) st(2) kept_tables_def advance_consumer_def)
  ultimately show ?thesis
    unfolding advances_def using subscription_of_row(1) [OF row(1)] row(2) st(3) by blast
qed

lemma plain_save_advances:
  assumes "save_progress env s g row (sr_payload row\<lparr>sp_cursor := cursor\<rparr>) status = Inr s'" "subscription_of env s g = Inr row"
    "sr_status row = ''pending''" "sp_cursor (sr_payload row) \<le> cursor"
  shows "advances env (subscription_key env g) s s'"
  using assms by (intro save_advances [OF assms(1-3)] saved_row_grows) (simp_all add: bound_to_refl)

lemma closing_advances:
  assumes "save_progress env s g row (sr_payload row) status = Inr s'" "subscription_of env s g = Inr row" "sr_status row = ''pending''"
  shows "advances env (subscription_key env g) s s'"
proof -
  have "sr_payload row\<lparr>sp_cursor := sp_cursor (sr_payload row)\<rparr> = sr_payload row" by simp
  then show ?thesis using plain_save_advances [of env s g row "sp_cursor (sr_payload row)" status s'] assms order_refl by metis
qed

lemma select_changes:
  assumes run: "event_select env s fc g evaluate = Inr (s', result)"
  shows "s' = s \<or> advances env (subscription_key env g) s s'"
proof -
  note run = event_owned_runs [OF run [unfolded event_select_def]]
  obtain row current where rc: "subscription_of env s g = Inr row" "event_state env s g = Inr current"
    using run by auto
  show ?thesis
  proof (cases "sr_status row = ''pending''")
    case pending: True
    let ?rows = "scan s (eg_scope g) (sp_cursor (sr_payload row)) (el_scan_batch (st_limits s))"
    show ?thesis
    proof (cases "ee_terminal env (ei_invocation_id (eg_identity g))")
      case True
      then have "save_progress env s g row (sr_payload row) ''closed'' = Inr s'" using run rc pending by (auto simp: Let_def)
      then show ?thesis using closing_advances [OF _ rc(1) pending] by blast
    next
      case False
      then obtain c found where cf: "first_candidate env evaluate current (sp_cursor (sr_payload row)) ?rows = Inr (c, found)"
        using run rc pending by (auto simp: Let_def)
      have le: "sp_cursor (sr_payload row) \<le> c" using candidate_cursor [OF cf] scan_beyond by blast
      show ?thesis
      proof (cases found)
        case None
        then have "s' = s \<or> save_progress env s g row (sr_payload row\<lparr>sp_cursor := c\<rparr>) ''pending'' = Inr s'"
          using run rc pending False cf by (auto simp: Let_def split: if_splits)
        then show ?thesis using plain_save_advances [OF _ rc(1) pending le] by blast
      next
        case (Some x)
        obtain r e d where "x = (r, e, d)" by (cases x)
        then have "select_arrival env s g row current (sr_payload row\<lparr>sp_cursor := c\<rparr>) r e d = Inr (s', result)"
          using run rc pending False cf Some by (auto simp: Let_def)
        then show ?thesis using select_arrival_advances [OF _ rc(1) pending rc(2) le] by blast
      qed
    qed
  next
    case False
    then show ?thesis using run rc by (auto simp: Let_def)
  qed
qed

lemma save_after_journal:
  assumes "save_progress env (s\<lparr>st_journal := j\<rparr>) g row (sr_payload row) status = Inr s'" "subscription_of env s g = Inr row"
    "sr_status row = ''pending''"
  shows "advances env (subscription_key env g) s s'"
proof -
  have row: "dict_get (st_subscriptions s) (subscription_key env g) = Some row" by (rule subscription_of_row(1) [OF assms(2)])
  let ?row = "row\<lparr>sr_payload := (sr_payload row)\<lparr>sp_decision_count := sp_decision_count (sr_payload row) + 1\<rparr>, sr_status := status\<rparr>"
  have "row_grows env row ?row" using assms(3) by (intro saved_row_grows) (simp_all add: bound_to_refl)
  moreover have "kept_tables s s'" "st_subscriptions s' = dict_set (subscription_key env g) ?row (st_subscriptions s)"
    "st_selections s' = st_selections s @ []"
    using save_progress_frame [OF assms(1)] by (auto simp: kept_tables_def)
  ultimately show ?thesis unfolding advances_def using row assms(3)
    by (metis all_not_in_conv list.set(1) list.size(3) zero_le_one)
qed

lemma complete_changes:
  assumes run: "event_complete env s fc g = Inr (s', result)"
  shows "s' = s \<or> advances env (subscription_key env g) s s'"
proof -
  note run = event_owned_runs [OF run [unfolded event_complete_def]]
  obtain row current where rc: "subscription_of env s g = Inr row" "event_state env s g = Inr current"
    using run by auto
  have status: "sr_status row = ''pending''" if "\<not> (pg_closed current \<or> pg_completed current)"
    using that state_facts [OF rc(2)] rc(1) by (auto simp: subscription_of_def payload_ok_def Let_def split: option.splits)
  show ?thesis
  proof (cases "pg_closed current \<or> pg_completed current")
    case True
    then show ?thesis using run rc by auto
  next
    case False
    then have "(\<exists>j. save_progress env (s\<lparr>st_journal := j\<rparr>) g row (sr_payload row) ''completed'' = Inr s') \<or>
        save_progress env s g row (sr_payload row) ''closed'' = Inr s'"
      using run rc by (auto split: if_splits dest!: complete_listener_frame)
    then show ?thesis using save_after_journal [OF _ rc(1) status [OF False]] closing_advances [OF _ rc(1) status [OF False]] by blast
  qed
qed

lemma abandon_changes:
  assumes "abandon env s fc g = Inr s'"
  shows "s' = s \<or> advances env (subscription_key env g) s s'"
  using event_owned_runs [OF assms [unfolded abandon_def]] closing_advances by (auto split: if_splits)

section \<open>Steps of the store\<close>

definition keyed :: "event_env \<Rightarrow> event_store \<Rightarrow> bool" where
  "keyed env s \<longleftrightarrow> distinct (map fst (st_subscriptions s)) \<and>
     (\<forall>(k, row) \<in> set (st_subscriptions s). k = effect_key (ee_journal env) (sp_identity (sr_payload row)))"

lemma advances_other:
  assumes "advances env key s s'" "k \<noteq> key"
  shows "dict_get (st_subscriptions s') k = dict_get (st_subscriptions s) k"
  using assms unfolding advances_def by auto

lemma close_advances:
  assumes "foldE (close_listener env) s entries = Inr s'" "distinct (map fst entries)"
    and "\<And>k row. (k, row) \<in> set entries \<Longrightarrow> dict_get (st_subscriptions s) k = Some row \<and> sr_status row = ''pending'' \<and>
      k = effect_key (ee_journal env) (sp_identity (sr_payload row))"
  shows "(\<lambda>u v. \<exists>key. advances env key u v)\<^sup>*\<^sup>* s s'"
  using assms
proof (induction entries arbitrary: s)
  case (Cons x entries)
  obtain k row where x: "x = (k, row)" by (cases x)
  let ?p = "sr_payload row"
  let ?g = "\<lparr>eg_identity = sp_identity ?p, eg_request_digest = sp_request_digest ?p, eg_scope = sp_scope ?p\<rparr>"
  have entry: "dict_get (st_subscriptions s) k = Some row \<and> sr_status row = ''pending'' \<and> k = effect_key (ee_journal env) (sp_identity ?p)"
    by (rule Cons.prems(3)) (simp add: x)
  have row: "dict_get (st_subscriptions s) k = Some row" "sr_status row = ''pending''" using entry by blast+
  have "k = subscription_key env ?g" using entry by (simp add: subscription_key_def)
  note row = row this
  obtain u where u: "close_listener env s x = Inr u" "foldE (close_listener env) u entries = Inr s'" using Cons.prems(1) by auto
  obtain row' where row': "subscription_of env s ?g = Inr row'" "save_progress env s ?g row' (sr_payload row') ''closed'' = Inr u"
    using u(1) x by (auto simp: close_listener_def Let_def)
  have "row' = row" using subscription_of_row(1) [OF row'(1)] row(1,3) by simp
  then have adv: "advances env k s u" using closing_advances [OF row'(2,1)] row(2,3) by simp
  have "(\<lambda>u v. \<exists>key. advances env key u v)\<^sup>*\<^sup>* u s'"
  proof (rule Cons.IH [OF u(2)])
    show "distinct (map fst entries)" using Cons.prems(2) by simp
    fix k' row'
    assume mem: "(k', row') \<in> set entries"
    then have "k' \<noteq> k" using Cons.prems(2) x by (auto simp: image_iff)
    then have "dict_get (st_subscriptions u) k' = dict_get (st_subscriptions s) k'" by (rule advances_other [OF adv])
    then show "dict_get (st_subscriptions u) k' = Some row' \<and> sr_status row' = ''pending'' \<and>
        k' = effect_key (ee_journal env) (sp_identity (sr_payload row'))"
      using Cons.prems(3) [of k' row'] mem by (metis list.set_intros(2))
  qed
  then show ?case using adv by (metis (mono_tags, lifting) converse_rtranclp_into_rtranclp)
qed simp

lemma close_changes:
  assumes run: "close_listeners env s handle iid fp = Inr s'" and keyed: "keyed env s"
  shows "(\<lambda>u v. \<exists>key. advances env key u v)\<^sup>*\<^sup>* s s'"
proof -
  let ?entries = "filter (\<lambda>(k, row). sr_invocation_id row = iid \<and> sr_fingerprint row = fp \<and> sr_status row = ''pending'') (st_subscriptions s)"
  have "foldE (close_listener env) s ?entries = Inr s'" using run by (simp add: close_listeners_def event_transaction_Inr)
  then show ?thesis
  proof (rule close_advances)
    show "distinct (map fst ?entries)" using keyed by (simp add: keyed_def distinct_map_filter)
    show "dict_get (st_subscriptions s) k = Some row \<and> sr_status row = ''pending'' \<and> k = effect_key (ee_journal env) (sp_identity (sr_payload row))"
      if "(k, row) \<in> set ?entries" for k row
      using that keyed unfolding keyed_def by auto
  qed
qed

definition subscribes :: "event_env \<Rightarrow> event_store \<Rightarrow> event_store \<Rightarrow> bool" where
  "subscribes env s s' \<longleftrightarrow> kept_tables s s' \<and> st_selections s' = st_selections s \<and>
     (\<exists>key row. dict_get (st_subscriptions s) key = None \<and> st_subscriptions s' = st_subscriptions s @ [(key, row)] \<and>
        key = effect_key (ee_journal env) (sp_identity (sr_payload row)))"

lemma register_changes:
  assumes run: "register env s fc i strategy scope = Inr (s', g)"
  shows "s' = s \<or> subscribes env s s'"
proof -
  have "s' = s \<or> dict_get (st_subscriptions s) (subscription_key env g) = None \<and> register_new env s g strategy = Inr s'"
    using run unfolding register_def Let_def by (auto dest!: event_owned_runs split: option.splits)
  moreover have "subscribes env s s'" if new: "dict_get (st_subscriptions s) (subscription_key env g) = None" "register_new env s g strategy = Inr s'"
  proof -
    obtain j consumers cursor where "s' = s\<lparr>st_consumers := consumers, st_subscriptions := st_subscriptions s @ [(subscription_key env g,
        \<lparr>sr_invocation_id = ei_invocation_id (eg_identity g), sr_fingerprint = ei_fingerprint (eg_identity g),
         sr_payload = initial_payload g strategy cursor, sr_status = ''pending''\<rparr>)], st_journal := j\<rparr>"
      using new(2) unfolding register_new_def Let_def by (auto dest!: insert_event_receipt_frame)
    then show ?thesis
      using new(1) by (simp add: subscribes_def kept_tables_def initial_payload_def subscription_key_def)
  qed
  ultimately show ?thesis by blast
qed

definition arrivals_kept :: "event_store \<Rightarrow> event_store \<Rightarrow> bool" where
  "arrivals_kept s s' \<longleftrightarrow> (\<forall>r \<in> set (st_inbox s). referenced s r \<or> scan_pending s r \<longrightarrow> r \<in> set (st_inbox s'))"

definition same_readers :: "event_store \<Rightarrow> event_store \<Rightarrow> bool" where
  "same_readers s s' \<longleftrightarrow> same_listeners s s' \<and> st_pins s' = st_pins s \<and> st_consumer_selections s' = st_consumer_selections s"

lemma ingest_readers:
  assumes "ingest_in_transaction env s uuid clock now properties src scope participant = Inr (s', e)"
  shows "same_readers s s' \<and> set (st_inbox s) \<subseteq> set (st_inbox s')"
  using assms unfolding ingest_in_transaction_def by (auto simp: same_readers_def same_listeners_def split: option.splits)

lemma ingest_journal:
  assumes "ingest_in_transaction env s uuid clock now properties src scope participant = Inr (s', e)"
  shows "st_journal s' = st_journal s"
  using assms unfolding ingest_in_transaction_def by (auto split: option.splits)

lemma deliver_readers:
  assumes "deliver_outbox env s now bound = Inr (s', n)"
  shows "same_readers s s' \<and> set (st_inbox s) \<subseteq> set (st_inbox s')"
proof -
  obtain rows where "foldE (deliver_one env now) s rows = Inr s'"
    using assms by (auto simp: deliver_outbox_def event_transaction_Inr Let_def)
  then show ?thesis
  proof (rule foldE_inv [where P = "\<lambda>u. same_readers s u \<and> set (st_inbox s) \<subseteq> set (st_inbox u)", rotated 2])
    show "same_readers s v \<and> set (st_inbox s) \<subseteq> set (st_inbox v)"
      if inv: "same_readers s u \<and> set (st_inbox s) \<subseteq> set (st_inbox u)" and one: "deliver_one env now u x = Inr v" for u x v
    proof -
      obtain e w f where w: "ingest_in_transaction env u ''-'' ''-'' now (envelope_dict e) (ev_source e) (ob_scope (snd x)) (\<lambda>_. Inr ()) = Inr (w, f)"
        "st_inbox v = st_inbox w" "same_readers w v"
        using one by (auto simp: deliver_one_def Let_def same_readers_def same_listeners_def)
      then show ?thesis using ingest_readers [OF w(1)] inv by (auto simp: same_readers_def same_listeners_def)
    qed
  qed (simp add: same_readers_def same_listeners_def)
qed

lemma publish_readers:
  assumes "publish_effect env s fc uuid clock now i request properties src scope opid participant = Inr (s', receipt)"
  shows "same_readers s s' \<and> st_inbox s' = st_inbox s"
  using assms unfolding publish_effect_def publish_new_def same_readers_def same_listeners_def
  by (auto dest!: event_owned_runs split: option.splits)

lemma same_readers_mark:
  assumes "same_readers s s'"
  shows "referenced s' r \<longleftrightarrow> referenced s r" "scan_pending s' r \<longleftrightarrow> scan_pending s r"
  using assms by (simp_all add: same_readers_def same_listeners_def referenced_def scan_pending_def)

lemma prune_one_readers:
  assumes run: "prune_one env acc r0 = Inr acc'" and r0: "r0 \<in> set (st_inbox s)" "\<not> referenced s r0"
    and seqs: "distinct (map ib_sequence (st_inbox s))"
    and inv: "same_readers s (fst acc)" "arrivals_kept s (fst acc)"
  shows "same_readers s (fst acc') \<and> arrivals_kept s (fst acc')"
proof -
  consider "acc' = acc" | "acc' = (without r0 (fst acc), snd acc + 1)" "\<not> scan_pending (fst acc) r0"
    using run by (auto simp: prune_one_def Let_def split: if_splits)
  then show ?thesis
  proof cases
    case 2
    have "ib_sequence r \<noteq> ib_sequence r0" if "r \<in> set (st_inbox s)" "referenced s r \<or> scan_pending s r" for r
      using that same_sequence [OF seqs that(1) r0(1)] r0(2) 2(2) same_readers_mark(2) [OF inv(1)] by auto
    then have "arrivals_kept s (fst acc')" using inv(2) 2(1) by (auto simp: arrivals_kept_def)
    then show ?thesis using inv(1) 2(1) by (simp add: same_readers_def same_listeners_def)
  qed (use inv in simp)
qed

lemma prune_readers:
  assumes run: "prune_events env s now bound = Inr (s', n)" and ok: "events_ok env s"
  shows "same_readers s s' \<and> arrivals_kept s s'"
proof -
  let ?rows = "take (nat bound) (sort_key ib_sequence
      (filter (\<lambda>r. ib_created_at r < now - el_retention_seconds (st_limits s) \<and> \<not> referenced s r) (st_inbox s)))"
  let ?P = "\<lambda>acc. same_readers s (fst acc) \<and> arrivals_kept s (fst acc)"
  have run: "foldE (prune_one env) (s, 0) ?rows = Inr (s', n)" using run by (simp add: prune_events_def event_transaction_Inr)
  have rows: "r0 \<in> set (st_inbox s) \<and> \<not> referenced s r0" if "r0 \<in> set ?rows" for r0 using in_set_takeD [OF that] by auto
  have "?P (s', n)"
  proof (rule foldE_inv [of ?rows ?P "prune_one env" "(s, 0)", OF _ _ run])
    show "?P acc'" if "r0 \<in> set ?rows" "?P acc" "prune_one env acc r0 = Inr acc'" for acc r0 acc'
      using prune_one_readers [OF that(3) _ _ events_okD(3) [OF ok]] rows [OF that(1)] that(2) by blast
  qed (simp add: same_readers_def same_listeners_def arrivals_kept_def)
  then show ?thesis by simp
qed

text \<open>Every operation of the store, by any worker, and the journal writes of the other components.\<close>

inductive event_step :: "event_env \<Rightarrow> event_store \<Rightarrow> event_store \<Rightarrow> bool" for env where
  step_ingest: "dict_wf properties \<Longrightarrow> ingest env s uuid clock now properties src scope participant = Inr (s', e) \<Longrightarrow> event_step env s s'"
| step_publish: "dict_wf properties \<Longrightarrow>
    publish_effect env s fc uuid clock now i request properties src scope opid participant = Inr (s', receipt) \<Longrightarrow> event_step env s s'"
| step_deliver: "deliver_outbox env s now bound = Inr (s', n) \<Longrightarrow> event_step env s s'"
| step_prune: "prune_events env s now bound = Inr (s', n) \<Longrightarrow> event_step env s s'"
| step_bind: "bind_invocation env s fc iid fp scope = Inr s' \<Longrightarrow> event_step env s s'"
| step_pin: "pin_consumer env s key pin selected = Inr s' \<Longrightarrow> event_step env s s'"
| step_register: "register env s fc i strategy scope = Inr (s', g) \<Longrightarrow> event_step env s s'"
| step_select: "event_select env s fc g evaluate = Inr (s', result) \<Longrightarrow> event_step env s s'"
| step_complete: "event_complete env s fc g = Inr (s', result) \<Longrightarrow> event_step env s s'"
| step_abandon: "abandon env s fc g = Inr s' \<Longrightarrow> event_step env s s'"
| step_close: "close_listeners env s handle iid fp = Inr s' \<Longrightarrow> event_step env s s'"
| step_journal: "event_step env s (s\<lparr>st_journal := j\<rparr>)"

text \<open>A step leaves the listeners alone, adds one, or advances pending ones.\<close>

definition quiet :: "event_store \<Rightarrow> event_store \<Rightarrow> bool" where
  "quiet s s' \<longleftrightarrow> same_listeners s s' \<and> arrivals_kept s s'"

lemma arrivals_kept_subset: "set (st_inbox s) \<subseteq> set (st_inbox s') \<Longrightarrow> arrivals_kept s s'"
  unfolding arrivals_kept_def by blast

lemma quiet_refl: "quiet s s"
  by (simp add: quiet_def same_listeners_def arrivals_kept_subset)

lemma bind_readers:
  assumes "bind_invocation env s fc iid fp scope = Inr s'"
  shows "same_listeners s s'"
  unfolding same_listeners_def
proof -
  obtain i digest where "event_owned s fc i
     (let s' = (if dict_get (st_profiles s) iid = None
                then s\<lparr>st_profiles := st_profiles s @
                       [(iid, \<lparr>pf_fingerprint = fp, pf_scope = scope, pf_profile = ''owa/events/v1'', pf_digest = digest\<rparr>)]\<rparr>
                else s) in
      bindE (verify_profile env s' iid fp (Some scope)) (\<lambda>_. Inr s')) = Inr s'"
    using assms unfolding bind_invocation_def by (auto simp only: bindE_eq_Inr)
  from event_owned_runs [OF this] show "st_subscriptions s' = st_subscriptions s \<and> st_selections s' = st_selections s"
    unfolding Let_def by (auto simp only: bindE_eq_Inr sum.inject split: if_splits) auto
qed

lemma pin_readers:
  assumes "pin_consumer env s key pin selected = Inr s'"
  shows "same_listeners s s'"
proof -
  obtain u where u: "foldE (pin_selection env key pin) s selected = Inr u" "same_listeners u s'"
    using assms unfolding pin_consumer_def by (auto simp: same_listeners_def)
  have "same_listeners s u"
    by (rule foldE_inv [where P = "same_listeners s", OF _ _ u(1)])
      (auto simp: same_listeners_def pin_selection_def split: option.splits if_splits)
  then show ?thesis using u(2) by (simp add: same_listeners_def)
qed

lemma step_cases:
  assumes "event_step env s s'" "events_ok env s" "keyed env s"
  shows "quiet s s' \<or> subscribes env s s' \<or> (\<lambda>u v. \<exists>key. advances env key u v)\<^sup>*\<^sup>* s s'"
  using assms
proof cases
  case (step_ingest properties uuid clock now src scope participant e)
  then show ?thesis using ingest_readers by (auto simp: ingest_def event_transaction_Inr quiet_def same_readers_def arrivals_kept_subset)
next
  case (step_publish properties fc uuid clock now i request src scope opid participant receipt)
  then show ?thesis using publish_readers by (auto simp: quiet_def same_readers_def arrivals_kept_subset)
next
  case (step_deliver now bound n)
  then show ?thesis using deliver_readers by (auto simp: quiet_def same_readers_def arrivals_kept_subset)
next
  case (step_prune now bound n)
  then show ?thesis using prune_readers assms(2) by (auto simp: quiet_def same_readers_def)
next
  case (step_bind fc iid fp scope)
  then show ?thesis using bind_readers bind_same by (auto simp: quiet_def arrivals_kept_subset)
next
  case (step_pin key pin selected)
  then show ?thesis using pin_readers pin_consumer_same by (auto simp: quiet_def arrivals_kept_subset)
next
  case (step_register fc i strategy scope g)
  then show ?thesis using register_changes quiet_refl by blast
next
  case (step_select fc g evaluate result)
  then show ?thesis using select_changes quiet_refl by blast
next
  case (step_complete fc g result)
  then show ?thesis using complete_changes quiet_refl by blast
next
  case (step_abandon fc g)
  then show ?thesis using abandon_changes quiet_refl by blast
next
  case (step_close handle iid fp)
  then show ?thesis using close_changes assms(3) by blast
next
  case (step_journal j)
  then show ?thesis by (simp add: quiet_def same_listeners_def arrivals_kept_subset)
qed

section \<open>Listeners only grow\<close>

lemma keyed_advances:
  assumes "keyed env s" "advances env key s s'"
  shows "keyed env s'"
proof -
  obtain row row' where r: "dict_get (st_subscriptions s) key = Some row" "row_grows env row row'"
    "st_subscriptions s' = dict_set key row' (st_subscriptions s)"
    using assms(2) unfolding advances_def by blast
  have wf: "dict_wf (st_subscriptions s)" using assms(1) by (simp add: keyed_def dict_wf_def)
  have key: "key = effect_key (ee_journal env) (sp_identity (sr_payload row'))"
    using assms(1) map_of_SomeD [OF r(1)] r(2) by (auto simp: keyed_def row_grows_def Let_def)
  have "dict_wf (st_subscriptions s')" using wf r(3) by simp
  moreover have "k = effect_key (ee_journal env) (sp_identity (sr_payload x))" if "(k, x) \<in> set (st_subscriptions s')" for k x
  proof -
    have "dict_get (st_subscriptions s') k = Some x" using that calculation by (simp add: dict_wf_def)
    then show ?thesis using r(3) key assms(1) by (auto simp: keyed_def split: if_splits dest!: map_of_SomeD)
  qed
  ultimately show ?thesis by (auto simp: keyed_def dict_wf_def)
qed

lemma advances_run:
  assumes "(\<lambda>u v. \<exists>key. advances env key u v)\<^sup>*\<^sup>* s s'" "keyed env s"
  shows "kept_tables s s' \<and> keyed env s'"
  using assms
proof (induction rule: rtranclp_induct)
  case (step u v)
  then show ?case using keyed_advances by (metis (no_types, lifting) advances_def kept_tables_def)
qed (simp add: kept_tables_def)

lemma keyed_subscribes:
  assumes "keyed env s" "subscribes env s s'"
  shows "keyed env s'"
  using assms by (auto simp: keyed_def subscribes_def map_of_eq_None_iff)

definition store_ok :: "event_env \<Rightarrow> event_store \<Rightarrow> bool" where
  "store_ok env s \<longleftrightarrow> events_ok env s \<and> keyed env s"

lemma kept_tables_ok: "kept_tables s s' \<Longrightarrow> events_ok env s \<Longrightarrow> events_ok env s'"
  unfolding kept_tables_def using elsewhere_ok by blast

lemma listener_step_ok:
  assumes "events_ok env s" "s' = s \<or> kept_tables s s'"
  shows "events_ok env s'"
  using assms kept_tables_ok by blast

lemma advances_kept: "advances env key s s' \<Longrightarrow> kept_tables s s'"
  by (simp add: advances_def)

lemma subscribes_kept: "subscribes env s s' \<Longrightarrow> kept_tables s s'"
  by (simp add: subscribes_def)

lemma step_events_ok:
  assumes "event_step env s s'" "events_ok env s" "keyed env s"
  shows "events_ok env s'"
  using assms
proof cases
  case (step_ingest properties uuid clock now src scope participant e)
  then show ?thesis using ingest_in_ok [OF assms(2)] by (auto simp: ingest_def event_transaction_Inr)
next
  case (step_publish properties fc uuid clock now i request src scope opid participant receipt)
  then show ?thesis using publish_ok assms(2) by blast
next
  case (step_deliver now bound n)
  then have "1 \<le> bound" "bound \<le> el_scan_batch (st_limits s)" by (auto simp: deliver_outbox_def)
  then show ?thesis using deliver_outbox_total [OF assms(2)] step_deliver by (metis Pair_inject sum.inject(2))
next
  case (step_prune now bound n)
  then show ?thesis using prune_ok assms(2) by blast
next
  case (step_bind fc iid fp scope)
  then show ?thesis using bind_same elsewhere_ok assms(2) by metis
next
  case (step_pin key pin selected)
  then show ?thesis using pin_consumer_same elsewhere_ok assms(2) by metis
next
  case (step_register fc i strategy scope g)
  then show ?thesis using register_changes subscribes_kept listener_step_ok [OF assms(2)] by metis
next
  case (step_select fc g evaluate result)
  then show ?thesis using select_changes advances_kept listener_step_ok [OF assms(2)] by metis
next
  case (step_complete fc g result)
  then show ?thesis using complete_changes advances_kept listener_step_ok [OF assms(2)] by metis
next
  case (step_abandon fc g)
  then show ?thesis using abandon_changes advances_kept listener_step_ok [OF assms(2)] by metis
next
  case (step_close handle iid fp)
  then show ?thesis using kept_tables_ok [OF _ assms(2)] advances_run [OF close_changes [OF step_close assms(3)] assms(3)] by blast
next
  case (step_journal j)
  then show ?thesis using elsewhere_ok [OF assms(2)] by simp
qed

lemma step_store_ok:
  assumes "event_step env s s'" "store_ok env s"
  shows "store_ok env s'"
proof -
  have ok: "events_ok env s" "keyed env s" using assms(2) by (auto simp: store_ok_def)
  have "keyed env s'" using step_cases [OF assms(1) ok]
  proof (elim disjE)
    assume "quiet s s'"
    then show ?thesis using ok(2) by (simp add: quiet_def same_listeners_def keyed_def)
  qed (use keyed_subscribes [OF ok(2)] advances_run [OF _ ok(2)] in blast)+
  then show ?thesis using step_events_ok [OF assms(1) ok] by (simp add: store_ok_def)
qed

definition listener_grows :: "event_env \<Rightarrow> string \<Rightarrow> event_store \<Rightarrow> event_store \<Rightarrow> bool" where
  "listener_grows env key s s' \<longleftrightarrow>
     (\<forall>row. dict_get (st_subscriptions s) key = Some row \<longrightarrow>
        (\<exists>row'. dict_get (st_subscriptions s') key = Some row' \<and> row_grows env row row' \<and> prefix (selections_of s key) (selections_of s' key) \<and>
           (sr_status row \<noteq> ''pending'' \<longrightarrow> selections_of s' key = selections_of s key)) \<and>
        (\<forall>x \<in> set (selections_of s key). \<forall>r \<in> set (st_inbox s). ib_sequence r = se_inbox_sequence x \<longrightarrow> r \<in> set (st_inbox s')))"

lemma listener_grows_refl: "listener_grows env key s s"
  by (simp add: listener_grows_def row_grows_refl)

lemma listener_grows_trans:
  assumes "listener_grows env key s t" "listener_grows env key t u"
  shows "listener_grows env key s u"
  unfolding listener_grows_def
proof (intro allI impI conjI ballI)
  fix row
  assume row: "dict_get (st_subscriptions s) key = Some row"
  then obtain row1 where r1: "dict_get (st_subscriptions t) key = Some row1" "row_grows env row row1"
    "prefix (selections_of s key) (selections_of t key)" "sr_status row \<noteq> ''pending'' \<longrightarrow> selections_of t key = selections_of s key"
    using assms(1) unfolding listener_grows_def by blast
  then obtain row2 where r2: "dict_get (st_subscriptions u) key = Some row2" "row_grows env row1 row2"
    "prefix (selections_of t key) (selections_of u key)" "sr_status row1 \<noteq> ''pending'' \<longrightarrow> selections_of u key = selections_of t key"
    using assms(2) unfolding listener_grows_def by blast
  have "sr_status row \<noteq> ''pending'' \<longrightarrow> row1 = row" using r1(2) by (simp add: row_grows_def Let_def)
  then show "\<exists>row'. dict_get (st_subscriptions u) key = Some row' \<and> row_grows env row row' \<and> prefix (selections_of s key) (selections_of u key) \<and>
      (sr_status row \<noteq> ''pending'' \<longrightarrow> selections_of u key = selections_of s key)"
    using r1 r2 row_grows_trans [OF r1(2) r2(2)] prefix_order.trans [OF r1(3) r2(3)] by auto
  fix x r
  assume x: "x \<in> set (selections_of s key)" "r \<in> set (st_inbox s)" "ib_sequence r = se_inbox_sequence x"
  then have "r \<in> set (st_inbox t)" using assms(1) row unfolding listener_grows_def by blast
  moreover have "x \<in> set (selections_of t key)" using x(1) r1(3) set_mono_prefix by blast
  ultimately show "r \<in> set (st_inbox u)" using assms(2) r1(1) x(3) unfolding listener_grows_def by blast
qed

lemma insort_before: "f y < f x \<Longrightarrow> insort_key f y (ys @ [x]) = insort_key f y ys @ [x]"
  by (induction ys) auto

lemma sort_snoc: "\<forall>y \<in> set ys. f y < f x \<Longrightarrow> sort_key f (ys @ [x]) = sort_key f ys @ [x]"
  by (induction ys) (auto simp: insort_before)

lemma selections_advance:
  assumes "st_selections s' = st_selections s @ xs" "length xs \<le> 1"
    "\<forall>x \<in> set xs. se_subscription x = key \<and> (\<forall>y \<in> set (selections_of s key). se_ordinal y < se_ordinal x)"
  shows "selections_of s' k = selections_of s k @ (if k = key then xs else [])"
proof (cases xs)
  case Nil
  then show ?thesis using assms(1) by (simp add: selections_of_def)
next
  case (Cons x ys)
  then have x: "xs = [x]" using assms(2) by simp
  then show ?thesis using assms(1,3) by (auto simp: selections_of_def intro: sort_snoc)
qed

lemma advances_grows:
  assumes "advances env key s s'"
  shows "listener_grows env k s s'"
proof -
  obtain row row' xs where a: "dict_get (st_subscriptions s) key = Some row" "sr_status row = ''pending''" "row_grows env row row'"
    "st_subscriptions s' = dict_set key row' (st_subscriptions s)" "st_selections s' = st_selections s @ xs" "length xs \<le> 1"
    "\<forall>x \<in> set xs. se_subscription x = key \<and> (\<forall>y \<in> set (selections_of s key). se_ordinal y < se_ordinal x)"
    using assms unfolding advances_def by blast
  have inb: "st_inbox s' = st_inbox s" using assms by (simp add: advances_def kept_tables_def)
  show ?thesis
    using a(1-4) row_grows_refl selections_advance [OF a(5-7), of k] inb by (cases "k = key") (auto simp: listener_grows_def)
qed

lemma quiet_grows:
  assumes "quiet s s'"
  shows "listener_grows env k s s'"
proof -
  have sels: "selections_of s' k = selections_of s k" using assms by (simp add: quiet_def same_listeners_def selections_of_def)
  have "referenced s r" if "x \<in> set (selections_of s k)" "ib_sequence r = se_inbox_sequence x" for x r
    using that by (auto simp: referenced_def selections_of_def list_ex_iff)
  then show ?thesis
    using assms sels unfolding listener_grows_def quiet_def same_listeners_def arrivals_kept_def by (auto simp: row_grows_refl)
qed

lemma subscribes_grows:
  assumes "subscribes env s s'"
  shows "listener_grows env k s s'"
proof -
  have "st_inbox s' = st_inbox s" "selections_of s' k = selections_of s k"
    using assms by (simp_all add: subscribes_def kept_tables_def selections_of_def)
  moreover have "dict_get (st_subscriptions s') k = Some row" if "dict_get (st_subscriptions s) k = Some row" for row
    using that assms by (auto simp: subscribes_def map_add_Some_iff)
  ultimately show ?thesis by (simp add: listener_grows_def row_grows_refl)
qed

lemma advances_run_grows:
  "(\<lambda>u v. \<exists>key. advances env key u v)\<^sup>*\<^sup>* s s' \<Longrightarrow> listener_grows env k s s'"
  by (induction rule: rtranclp_induct) (blast intro: listener_grows_refl listener_grows_trans advances_grows)+

lemma step_grows: "event_step env s s' \<Longrightarrow> store_ok env s \<Longrightarrow> listener_grows env k s s'"
  using step_cases [of env s s'] quiet_grows subscribes_grows advances_run_grows unfolding store_ok_def by blast

interpretation listeners: monotone_system "event_step env" "store_ok env" "listener_grows env key" for env key
  by unfold_locales (auto intro: listener_grows_refl listener_grows_trans step_grows step_store_ok)

interpretation event_stores: invariant_system "\<lambda>s. \<exists>l j. make_limits l = Inr l \<and> s = no_events l j" "event_step env" "store_ok env" for env
proof unfold_locales
  show "store_ok env s" if "\<exists>l j. make_limits l = Inr l \<and> s = no_events l j" for s
    using that no_events_ok by (auto simp: store_ok_def keyed_def no_events_def)
qed (rule step_store_ok)

section \<open>What a listener is promised\<close>

lemma selected_event_row:
  assumes "selected_event env s g cursor expected previous x = Inr e"
  obtains r where "r \<in> set (st_inbox s)" "ib_sequence r = se_inbox_sequence x" "decode_envelope env (ib_envelope r) (se_digest x) = Inr e"
  using assms by (auto simp: selected_event_def find_Some_iff in_set_conv_nth split: option.splits)

lemma selected_event_same:
  assumes "selected_event env s g c n q x = Inr e" "selected_event env s' g c' n' q' x = Inr e'"
    and kept: "\<And>r. r \<in> set (st_inbox s) \<Longrightarrow> ib_sequence r = se_inbox_sequence x \<Longrightarrow> r \<in> set (st_inbox s')"
    and seqs: "distinct (map ib_sequence (st_inbox s'))"
  shows "e' = e"
proof -
  obtain r where r: "r \<in> set (st_inbox s)" "ib_sequence r = se_inbox_sequence x" "decode_envelope env (ib_envelope r) (se_digest x) = Inr e"
    using selected_event_row [OF assms(1)] by metis
  obtain r' where r': "r' \<in> set (st_inbox s')" "ib_sequence r' = se_inbox_sequence x" "decode_envelope env (ib_envelope r') (se_digest x) = Inr e'"
    using selected_event_row [OF assms(2)] by metis
  have "r' = r" using same_sequence [OF seqs r'(1) kept [OF r(1,2)]] r(2) r'(2) by simp
  then show ?thesis using r(3) r'(3) by simp
qed

lemma selected_prefix:
  assumes "selected_events env s g c n q xs = Inr es" "selected_events env s' g c' n' q' (xs @ ys) = Inr es'"
    and "\<And>x r. x \<in> set xs \<Longrightarrow> r \<in> set (st_inbox s) \<Longrightarrow> ib_sequence r = se_inbox_sequence x \<Longrightarrow> r \<in> set (st_inbox s')"
    and seqs: "distinct (map ib_sequence (st_inbox s'))"
  shows "prefix es es' \<and> length es = length xs \<and> length es' = length (xs @ ys)"
  using assms(1-3)
proof (induction xs arbitrary: n q n' q' es es')
  case Nil
  have "length es' = length zs" if "selected_events env s' g c' n' q' zs = Inr es'" for zs
    using that by (induction zs arbitrary: n' q' es') auto
  then show ?case using Nil by simp
next
  case (Cons x xs)
  obtain e fs where e: "selected_event env s g c n q x = Inr e" "selected_events env s g c (n + 1) (se_inbox_sequence x) xs = Inr fs" "es = e # fs"
    using Cons.prems(1) by auto
  obtain e' fs' where e': "selected_event env s' g c' n' q' x = Inr e'"
    "selected_events env s' g c' (n' + 1) (se_inbox_sequence x) (xs @ ys) = Inr fs'" "es' = e' # fs'"
    using Cons.prems(2) by auto
  have "e' = e" using selected_event_same [OF e(1) e'(1) _ seqs] Cons.prems(3) by (meson list.set_intros(1))
  then show ?case using Cons.IH [OF e(2) e'(2)] Cons.prems(3) e(3) e'(3) by (metis append_Cons length_Cons list.set_intros(2) Cons_prefix_Cons)
qed

text \<open>
  \<^bold>\<open>C14.\<close> A listener's progress only grows. Whatever any worker does to the store between two verified reads of a
  listener, the events it had selected are a prefix of the events it has selected, its cursor has not
  moved back, its correlations are bound as they were, matched filters stay matched, and once it
  is completed or closed nothing of it changes any more.
\<close>

theorem listener_progress_monotone:
  assumes "reach (\<lambda>s. \<exists>l j. make_limits l = Inr l \<and> s = no_events l j) (event_step env) s" "(event_step env)\<^sup>*\<^sup>* s s'"
    and "event_state env s g = Inr p" "event_state env s' g = Inr p'"
  shows "prefix (pg_events p) (pg_events p') \<and> pg_cursor p \<le> pg_cursor p' \<and> bound_to env (pg_correlations p) (pg_correlations p') \<and>
    set (pg_matched_filters p) \<subseteq> set (pg_matched_filters p') \<and>
    (pg_completed p \<or> pg_closed p \<longrightarrow> pg_events p' = pg_events p \<and> pg_completed p' = pg_completed p \<and> pg_closed p' = pg_closed p)"
proof -
  let ?k = "subscription_key env g"
  have ok: "store_ok env s" by (rule event_stores.reach_inv [OF assms(1)])
  have grows: "listener_grows env ?k s s'" and ok': "store_ok env s'" using listeners.run_rel [OF assms(2) ok] by blast+
  obtain row where row: "subscription_of env s g = Inr row" "pg_correlations p = sp_correlations (sr_payload row)"
    "pg_matched_filters p = sp_matched_filters (sr_payload row)" "pg_cursor p = sp_cursor (sr_payload row)"
    "pg_completed p \<longleftrightarrow> sr_status row = ''completed''" "pg_closed p \<longleftrightarrow> sr_status row = ''closed''"
    "selected_events env s g (sp_cursor (sr_payload row)) 1 (sp_initial_cursor (sr_payload row)) (selections_of s ?k) = Inr (pg_events p)"
    using state_facts [OF assms(3)] by metis
  obtain row' where row': "subscription_of env s' g = Inr row'" "pg_correlations p' = sp_correlations (sr_payload row')"
    "pg_matched_filters p' = sp_matched_filters (sr_payload row')" "pg_cursor p' = sp_cursor (sr_payload row')"
    "pg_completed p' \<longleftrightarrow> sr_status row' = ''completed''" "pg_closed p' \<longleftrightarrow> sr_status row' = ''closed''"
    "selected_events env s' g (sp_cursor (sr_payload row')) 1 (sp_initial_cursor (sr_payload row')) (selections_of s' ?k) = Inr (pg_events p')"
    using state_facts [OF assms(4)] by metis
  note get = subscription_of_row(1) [OF row(1)] subscription_of_row(1) [OF row'(1)]
  have g: "row_grows env row row'" "prefix (selections_of s ?k) (selections_of s' ?k)"
    "sr_status row \<noteq> ''pending'' \<longrightarrow> selections_of s' ?k = selections_of s ?k"
    "\<And>x r. x \<in> set (selections_of s ?k) \<Longrightarrow> r \<in> set (st_inbox s) \<Longrightarrow> ib_sequence r = se_inbox_sequence x \<Longrightarrow> r \<in> set (st_inbox s')"
    using grows get unfolding listener_grows_def by auto
  obtain ys where ys: "selections_of s' ?k = selections_of s ?k @ ys" using g(2) by (auto elim: prefixE)
  have seqs: "distinct (map ib_sequence (st_inbox s'))"
    using ok' events_okD(3) unfolding store_ok_def by blast
  have ev: "prefix (pg_events p) (pg_events p')" "length (pg_events p') = length (pg_events p) + length ys"
    using selected_prefix [OF row(7) row'(7) [unfolded ys] g(4) seqs] by auto
  have "pg_events p' = pg_events p" if "sr_status row \<noteq> ''pending''"
    using ev g(3) that ys by (auto elim!: prefixE)
  moreover have "row' = row" if "sr_status row \<noteq> ''pending''" using g(1) that by (simp add: row_grows_def Let_def)
  ultimately show ?thesis
    using ev(1) g(1) row(2-6) row'(2-6) by (auto simp: row_grows_def Let_def)
qed

lemma step_keeps_pending:
  assumes "event_step env s s'" "store_ok env s" and r: "r \<in> set (st_inbox s)"
    and "dict_get (st_subscriptions s) key = Some row" "sr_status row = ''pending''" "ib_scope r = sp_scope (sr_payload row)"
    "sp_cursor (sr_payload row) < ib_sequence r"
  shows "r \<in> set (st_inbox s')"
proof -
  have "scan_pending s r" using map_of_SomeD [OF assms(4)] assms(5-7) by (force simp: scan_pending_def list_ex_iff)
  then have "arrivals_kept s s' \<Longrightarrow> ?thesis" using r by (simp add: arrivals_kept_def)
  moreover have "kept_tables s s' \<Longrightarrow> ?thesis" using r by (simp add: kept_tables_def)
  moreover have "arrivals_kept s s' \<or> kept_tables s s'"
    using step_cases [OF assms(1)] assms(2) subscribes_kept advances_run unfolding store_ok_def quiet_def by blast
  ultimately show ?thesis by blast
qed

text \<open>
  \<^bold>\<open>C15.\<close> A pending listener loses no arrival. While a listener is pending, every arrival of its scope that it has not
  scanned yet stays in the inbox, whatever retention sweeps, deliveries and other listeners do.
\<close>

theorem pending_listener_loses_nothing:
  assumes "(event_step env)\<^sup>*\<^sup>* s s'" "reach (\<lambda>s. \<exists>l j. make_limits l = Inr l \<and> s = no_events l j) (event_step env) s"
    and "dict_get (st_subscriptions s) key = Some row" "r \<in> set (st_inbox s)" "ib_scope r = sp_scope (sr_payload row)"
    and "dict_get (st_subscriptions s') key = Some row'" "sr_status row' = ''pending''" "sp_cursor (sr_payload row') < ib_sequence r"
  shows "r \<in> set (st_inbox s')"
  using assms(1,6-8)
proof (induction arbitrary: row' rule: rtranclp_induct)
  case base
  then show ?case using assms(4) by simp
next
  case (step t u)
  have ok: "store_ok env s" by (rule event_stores.reach_inv [OF assms(2)])
  have t: "listener_grows env key s t" "store_ok env t" using listeners.run_rel [OF step.hyps(1) ok] by blast+
  obtain rowt where rt: "dict_get (st_subscriptions t) key = Some rowt" "row_grows env row rowt"
    using t(1) assms(3) unfolding listener_grows_def by blast
  have "row_grows env rowt row'"
    using step_grows [OF step.hyps(2) t(2), of key] rt(1) step.prems(1) unfolding listener_grows_def by auto
  then have pend: "sr_status rowt = ''pending''" "sp_cursor (sr_payload rowt) < ib_sequence r"
    using step.prems(2,3) by (auto simp: row_grows_def Let_def)
  have "r \<in> set (st_inbox t)" by (rule step.IH [OF rt(1) pend])
  then show ?case
    using step_keeps_pending [OF step.hyps(2) t(2) _ rt(1) pend(1) _ pend(2)] rt(2) assms(5) by (simp add: row_grows_def Let_def)
qed

section \<open>A concrete listener\<close>

definition ex_listen :: effect_identity where
  "ex_listen = ex_call\<lparr>ei_operation := ''listen''\<rparr>"

definition ex_registered :: "(event_store \<times> event_registration) res" where
  "ex_registered = register plain_event_env (no_events ex_limits empty_journal) no_fence ex_listen (PDict [(''one'', PDict [])]) ''sc''"

definition ex_arrived :: "(event_store \<times> event_envelope) res" where
  "ex_arrived = ingest plain_event_env (fst (projr ex_registered)) ''u'' ''t'' 5 [(''type'', PStr ''order'')] ''workflow'' ''sc'' (\<lambda>e. Inr ())"

definition ex_swept :: "(event_store \<times> int) res" where
  "ex_swept = prune_events plain_event_env (fst (projr ex_arrived)) 1000 4"

abbreviation ex_s1 :: event_store where "ex_s1 \<equiv> fst (projr ex_registered)"

abbreviation ex_s2 :: event_store where "ex_s2 \<equiv> fst (projr ex_arrived)"

abbreviation ex_s3 :: event_store where "ex_s3 \<equiv> fst (projr ex_swept)"

lemma ex_runs: "\<not> isl ex_registered" "\<not> isl ex_arrived" "\<not> isl ex_swept"
  by code_simp+

lemma ex_state: "\<not> isl (event_state plain_event_env ex_s1 (snd (projr ex_registered)))"
  by code_simp

lemma ex_no_selection: "st_selections ex_s1 = []"
proof -
  have "length (st_selections ex_s1) = 0" by code_simp
  then show ?thesis by simp
qed

lemma state_before_selection:
  assumes "st_selections s = []" "same_listeners s s'" "st_journal s' = st_journal s"
  shows "event_state env s' g = event_state env s g"
proof -
  have sels: "selections_of s' k = []" "selections_of s k = []" for k using assms(1,2) by (simp_all add: selections_of_def same_listeners_def)
  have vouched: "registration_vouched env s' g = registration_vouched env s g" "routing_vouched env s' g = routing_vouched env s g"
    by (intro ext, simp only: registration_vouched_def routing_vouched_def assms(3))+
  have "subscription_of env s' g = subscription_of env s g"
    using assms(2) unfolding subscription_of_def vouched same_listeners_def by simp
  moreover have "final_receipt env s' g = final_receipt env s g" using assms(3) by (simp add: final_receipt_def [abs_def])
  ultimately show ?thesis unfolding event_state_def assms(3) sels Let_def by simp
qed

lemma ex_rows:
  "length (st_subscriptions ex_s2) = 1 \<and> length (st_inbox ex_s2) = 1 \<and>
   list_all (\<lambda>(k, row). sr_status row = ''pending'' \<and> list_all (\<lambda>r. ib_scope r = sp_scope (sr_payload row) \<and>
     sp_cursor (sr_payload row) < ib_sequence r) (st_inbox ex_s2)) (st_subscriptions ex_s2)"
  by code_simp

lemma ex_steps: "event_step plain_event_env (no_events ex_limits empty_journal) ex_s1" "event_step plain_event_env ex_s1 ex_s2"
  "event_step plain_event_env ex_s2 ex_s3"
proof -
  have "ex_registered = Inr (ex_s1, snd (projr ex_registered))" using ex_runs(1) by simp
  then show "event_step plain_event_env (no_events ex_limits empty_journal) ex_s1"
    unfolding ex_registered_def by (rule step_register)
  have "ex_arrived = Inr (ex_s2, snd (projr ex_arrived))" using ex_runs(2) by simp
  then show "event_step plain_event_env ex_s1 ex_s2"
    unfolding ex_arrived_def by (rule step_ingest [rotated]) (simp add: dict_wf_def)
  have "ex_swept = Inr (ex_s3, snd (projr ex_swept))" using ex_runs(3) by simp
  then show "event_step plain_event_env ex_s2 ex_s3"
    unfolding ex_swept_def by (rule step_prune)
qed

lemma ex_reach: "reach (\<lambda>s. \<exists>l j. make_limits l = Inr l \<and> s = no_events l j) (event_step plain_event_env) ex_s1"
  "reach (\<lambda>s. \<exists>l j. make_limits l = Inr l \<and> s = no_events l j) (event_step plain_event_env) ex_s2"
proof -
  have "make_limits ex_limits = Inr ex_limits" by (simp add: make_limits_def ex_limits_def)
  then show s1: "reach (\<lambda>s. \<exists>l j. make_limits l = Inr l \<and> s = no_events l j) (event_step plain_event_env) ex_s1"
    using ex_steps(1) by (blast intro: reach.intros)
  show "reach (\<lambda>s. \<exists>l j. make_limits l = Inr l \<and> s = no_events l j) (event_step plain_event_env) ex_s2"
    using s1 ex_steps(2) by (rule reach.intros)
qed

theorem listener_progress_monotone_witness:
  "\<exists>p p'. event_state plain_event_env ex_s1 (snd (projr ex_registered)) = Inr p \<and>
     event_state plain_event_env ex_s2 (snd (projr ex_registered)) = Inr p' \<and>
     prefix (pg_events p) (pg_events p') \<and> pg_cursor p \<le> pg_cursor p' \<and> st_inbox ex_s2 \<noteq> []"
proof -
  have run: "ingest_in_transaction plain_event_env ex_s1 ''u'' ''t'' 5 [(''type'', PStr ''order'')] ''workflow'' ''sc'' (\<lambda>e. Inr ()) =
      Inr (ex_s2, snd (projr ex_arrived))"
  proof -
    have "ingest plain_event_env ex_s1 ''u'' ''t'' 5 [(''type'', PStr ''order'')] ''workflow'' ''sc'' (\<lambda>e. Inr ()) =
        Inr (ex_s2, snd (projr ex_arrived))"
      unfolding ex_arrived_def [symmetric] using ex_runs(2) by simp
    then show ?thesis unfolding ingest_def event_transaction_Inr by blast
  qed
  have "st_journal ex_s2 = st_journal ex_s1" by (rule ingest_journal [OF run])
  then have "event_state plain_event_env ex_s2 (snd (projr ex_registered)) = event_state plain_event_env ex_s1 (snd (projr ex_registered))"
    using ingest_readers [OF run] by (intro state_before_selection ex_no_selection) (simp_all add: same_readers_def)
  then obtain p p' where p: "event_state plain_event_env ex_s1 (snd (projr ex_registered)) = Inr p"
    "event_state plain_event_env ex_s2 (snd (projr ex_registered)) = Inr p'"
    using ex_state by (metis sum.collapse(2))
  have "st_inbox ex_s2 \<noteq> []" using ex_rows by (metis length_0_conv zero_neq_one)
  then show ?thesis
    using listener_progress_monotone [OF ex_reach(1) r_into_rtranclp [of "event_step plain_event_env", OF ex_steps(2)] p] p by blast
qed

theorem pending_listener_loses_nothing_witness:
  "\<exists>r. st_inbox ex_s2 = [r] \<and> ib_created_at r < 1000 - el_retention_seconds ex_limits \<and> r \<in> set (st_inbox ex_s3)"
proof -
  obtain key row where sub: "st_subscriptions ex_s2 = [(key, row)]" using ex_rows by (auto simp: length_Suc_conv)
  obtain r where r: "st_inbox ex_s2 = [r]" using ex_rows by (auto simp: length_Suc_conv)
  have pend: "sr_status row = ''pending''" "ib_scope r = sp_scope (sr_payload row)" "sp_cursor (sr_payload row) < ib_sequence r"
    using ex_rows sub r by simp_all
  have "store_ok plain_event_env ex_s2" by (rule event_stores.reach_inv [OF ex_reach(2)])
  then have "same_readers ex_s2 ex_s3"
    using prune_readers [of plain_event_env ex_s2 1000 4 ex_s3 "snd (projr ex_swept)"] ex_runs(3)
    by (simp add: ex_swept_def store_ok_def)
  then have subs: "st_subscriptions ex_s3 = st_subscriptions ex_s2" by (simp add: same_readers_def same_listeners_def)
  have "r \<in> set (st_inbox ex_s3)"
    by (rule pending_listener_loses_nothing [OF r_into_rtranclp [of "event_step plain_event_env", OF ex_steps(3)] ex_reach(2), of key row _ row])
      (simp_all add: sub subs r pend)
  moreover have "list_all (\<lambda>r. ib_created_at r < 1000 - el_retention_seconds ex_limits) (st_inbox ex_s2)" by code_simp
  ultimately show ?thesis using r by simp
qed

end
