(* ===== verification/Approval_Policy.thy ===== *)
theory Approval_Policy
  imports Event_Inbox Invocation_Store "HOL-Library.Code_Target_Nat"
begin

text \<open>
  The business policy of a protected approval (\<^verbatim>\<open>protected_approval_policy.py\<close>) and the environment of
  the approval services: actors, deadlines, bounded JSON and the policy with its response schema.
  The two functions of \<^verbatim>\<open>workflow.py\<close> that check a data schema, the recovery evidence of an invocation and
  the clock functions of \<^verbatim>\<open>datetime\<close> are fields of the environment.
\<close>

section \<open>Environment\<close>

record protected_config =
  pc_actor_ids :: "string list"
  pc_max_pending :: int
  pc_max_policy_bytes :: int

text \<open>
  \<open>ae_parse_time\<close> is \<^verbatim>\<open>datetime.fromisoformat(text).timestamp()\<close>, \<open>ae_timestamp\<close> the UTC text of a time,
  \<open>ae_str\<close> is \<^verbatim>\<open>str\<close> on a value that is not a string; \<open>ae_protected\<close> is the configuration of the protected store when
  the service has one.
\<close>

record approval_env =
  ae_event :: event_env
  ae_parse_time :: "string \<Rightarrow> rat res"
  ae_timestamp :: "rat \<Rightarrow> string"
  ae_str :: "pyval \<Rightarrow> string"
  ae_schema_profile :: "pyval \<Rightarrow> unit res"
  ae_schema_accepts :: "pyval \<Rightarrow> pyval \<Rightarrow> unit res"
  ae_evidence :: "execution_handle \<Rightarrow> unit res"
  ae_sqlite :: bool
  ae_protected :: "protected_config option"

abbreviation ae_journal :: "approval_env \<Rightarrow> journal_env" where
  "ae_journal env \<equiv> ee_journal (ae_event env)"

abbreviation ae_float_repr :: "approval_env \<Rightarrow> rat \<Rightarrow> string" where
  "ae_float_repr env \<equiv> je_float_repr (ae_journal env)"

text \<open>\<^verbatim>\<open>except OwaError: raise E\<close>\<close>

definition hide_owa :: "exn \<Rightarrow> 'a res \<Rightarrow> 'a res" where
  "hide_owa e r = (case r of Inl x \<Rightarrow> Inl (if is_owa_error x then e else x) | Inr a \<Rightarrow> Inr a)"

lemma hide_owa_eq_Inr [simp]: "hide_owa e r = Inr a \<longleftrightarrow> r = Inr a"
  by (cases r) (auto simp: hide_owa_def)

section \<open>Bounded values\<close>

definition PROTECTED_APPROVAL_PROFILE :: string where
  "PROTECTED_APPROVAL_PROFILE = ''owa/protected-approval/v1''"

definition MAX_APPROVAL_POLICY_BYTES :: int where
  "MAX_APPROVAL_POLICY_BYTES = 65536"

definition MAX_APPROVAL_VALUE_BYTES :: int where
  "MAX_APPROVAL_VALUE_BYTES = 262144"

definition bounded_json :: "approval_env \<Rightarrow> pyval \<Rightarrow> int \<Rightarrow> string res" where
  "bounded_json env v bound =
     reraise {} ApprovalValidationError
       (bindE (validate_expression_data 0 64 v) (\<lambda>_.
        bindE (json_spaced False (ae_float_repr env) (sort_keys v)) (\<lambda>encoded.
        bindE (guardE (int (utf8_length encoded) \<le> bound) ValueError) (\<lambda>_. Inr encoded))))"

definition is_alnum :: "char \<Rightarrow> bool" where
  "is_alnum c \<longleftrightarrow> is_digit c \<or> (let n = (of_char c :: nat) in 65 \<le> n \<and> n \<le> 90 \<or> 97 \<le> n \<and> n \<le> 122)"

definition actor_pattern :: "string \<Rightarrow> bool" where
  "actor_pattern s \<longleftrightarrow> (case s of
     [] \<Rightarrow> False
   | c # cs \<Rightarrow> is_alnum c \<and> length cs \<le> 127 \<and> list_all (\<lambda>x. is_alnum x \<or> x \<in> set ''_.:@/-'') cs)"

definition actor_identity :: "pyval \<Rightarrow> bool \<Rightarrow> string res" where
  "actor_identity v internal =
     (case v of
        PStr s \<Rightarrow> if \<not> actor_pattern s \<or> starts_with ''system:'' s \<and> \<not> internal then Inl ApprovalValidationError else Inr s
      | _ \<Rightarrow> Inl ApprovalValidationError)"

text \<open>The pattern of an absolute UTC time, with an optional fraction of one to nine digits.\<close>

definition utc_pattern :: "string \<Rightarrow> bool" where
  "utc_pattern s \<longleftrightarrow>
     list_all2 (\<lambda>p c. if p = CHR ''d'' then is_digit c else c = p) ''dddd-dd-ddTdd:dd:dd'' (take 19 s) \<and>
     (case drop 19 s of
        [] \<Rightarrow> False
      | c # cs \<Rightarrow>
          if c = CHR ''.'' then cs \<noteq> [] \<and> last cs = CHR ''Z'' \<and> list_all is_digit (butlast cs) \<and> 2 \<le> length cs \<and> length cs \<le> 10
          else c = CHR ''Z'' \<and> cs = [])"

text \<open>The offset of a text that ends in \<^verbatim>\<open>+00:00\<close> is zero, so the test of \<^verbatim>\<open>utcoffset\<close> never fails.\<close>

definition original_expiry :: "approval_env \<Rightarrow> pyval \<Rightarrow> rat res" where
  "original_expiry env v =
     (case v of
        PStr s \<Rightarrow>
          if 64 < length s \<or> \<not> utc_pattern s then Inl ApprovalValidationError
          else catching {ValueError, OverflowError, OSError} ApprovalValidationError
            (bindE (ae_parse_time env (butlast s @ ''+00:00'')) (\<lambda>result.
             bindE (guardE (0 < result) ValueError) (\<lambda>_. Inr result)))
      | _ \<Rightarrow> Inl ApprovalValidationError)"

section \<open>Policies\<close>

record approval_policy =
  po_assignee :: string
  po_reassignment :: "string list"
  po_escalation :: "string list"
  po_schema :: "pyval option"

definition policy_targets :: "pyval \<Rightarrow> string \<Rightarrow> string list res" where
  "policy_targets v name =
     (case get_field v name of
        PList items \<Rightarrow>
          bindE (guardE (length items \<le> 32) ApprovalValidationError) (\<lambda>_.
          bindE (mapE (\<lambda>x. actor_identity x False) items) (\<lambda>selected.
          bindE (guardE (distinct selected) ApprovalValidationError) (\<lambda>_. Inr selected)))
      | _ \<Rightarrow> Inl ApprovalValidationError)"

definition policy_schema :: "approval_env \<Rightarrow> pyval \<Rightarrow> pyval option res" where
  "policy_schema env v =
     bindE (guardE (\<not> (has_field v ''responseSchema'' \<and> get_field v ''responseSchema'' = PNone)) ApprovalValidationError) (\<lambda>_.
       case get_field v ''responseSchema'' of
         PNone \<Rightarrow> Inr None
       | PDict d \<Rightarrow>
           bindE (guardE (set (dict_keys d) \<subseteq> set [''format'', ''document''] \<and> ''document'' \<in> set (dict_keys d)) ApprovalValidationError) (\<lambda>_.
           bindE (hide_owa ApprovalValidationError (ae_schema_profile env (PDict d))) (\<lambda>_. Inr (Some (PDict d))))
       | _ \<Rightarrow> Inl ApprovalValidationError)"

text \<open>The schema is kept as its sorted text, hence read back sorted.\<close>

definition policy_from_value :: "approval_env \<Rightarrow> pyval \<Rightarrow> approval_policy res" where
  "policy_from_value env v =
     (case v of
        PDict d \<Rightarrow>
          bindE (guardE (set (dict_keys d) \<subseteq> set [''profile'', ''assignee'', ''reassignmentTargets'', ''escalationTargets'', ''responseSchema'']
              \<and> set [''profile'', ''assignee'', ''reassignmentTargets'', ''escalationTargets''] \<subseteq> set (dict_keys d)
              \<and> get_field v ''profile'' = PStr PROTECTED_APPROVAL_PROFILE) ApprovalValidationError) (\<lambda>_.
          bindE (bounded_json env v MAX_APPROVAL_POLICY_BYTES) (\<lambda>_.
          bindE (policy_targets v ''reassignmentTargets'') (\<lambda>reassignment.
          bindE (policy_targets v ''escalationTargets'') (\<lambda>escalation.
          bindE (policy_schema env v) (\<lambda>schema.
          bindE (actor_identity (get_field v ''assignee'') False) (\<lambda>assignee.
          bindE (case schema of None \<Rightarrow> Inr [] | Some s \<Rightarrow> bounded_json env s MAX_APPROVAL_VALUE_BYTES) (\<lambda>_.
            Inr \<lparr>po_assignee = assignee, po_reassignment = reassignment, po_escalation = escalation,
                 po_schema = map_option sort_keys schema\<rparr>)))))))
      | _ \<Rightarrow> Inl ApprovalValidationError)"

definition policy_as_value :: "approval_policy \<Rightarrow> pyval" where
  "policy_as_value p = PDict
     ([(''profile'', PStr PROTECTED_APPROVAL_PROFILE), (''assignee'', PStr (po_assignee p)),
       (''reassignmentTargets'', PList (map PStr (po_reassignment p))), (''escalationTargets'', PList (map PStr (po_escalation p)))]
      @ (case po_schema p of None \<Rightarrow> [] | Some s \<Rightarrow> [(''responseSchema'', s)]))"

definition validate_response :: "approval_env \<Rightarrow> approval_policy \<Rightarrow> pyval \<Rightarrow> unit res" where
  "validate_response env p v =
     bindE (bounded_json env v MAX_APPROVAL_VALUE_BYTES) (\<lambda>_.
       case po_schema p of
         None \<Rightarrow> Inr ()
       | Some s \<Rightarrow> hide_owa ApprovalValidationError (ae_schema_accepts env s v))"

definition policy_actors :: "approval_policy \<Rightarrow> string list" where
  "policy_actors p = po_assignee p # po_reassignment p @ po_escalation p"

end
