(* ===== verification/Protected_Approvals.thy ===== *)
theory Protected_Approvals
  imports Approval_Policy
begin

text \<open>
  Protected approvals (\<^verbatim>\<open>protected_approval_store.py\<close>): the tables of the approval services, the verifier
  that rebuilds a request from its receipts and its hash-chained audit, admission, and the
  mutation that reassigns, escalates, decides or expires a request. A stored text is kept with its
  number of characters and the value it reads back as. Each operation runs inside a transaction of
  the event store; the storage clock is an argument.
\<close>

section \<open>Tables\<close>

record approval_record =
  ap_subject :: string
  ap_status :: string
  ap_request :: "string \<times> pyval"
  ap_requested_at :: rat
  ap_expires_at :: "rat option"
  ap_decision :: "(string \<times> pyval) option"
  ap_operator_id :: "string option"
  ap_operation_key :: "string option"
  ap_decided_at :: "rat option"
  ap_event_scope :: string

record protected_row =
  pr_invocation_id :: string
  pr_fingerprint :: string
  pr_payload :: "nat \<times> pyval"
  pr_digest :: string
  pr_revision :: int
  pr_assignee :: string
  pr_audit_digest :: string

record audit_row =
  au_approval_id :: string
  au_revision :: int
  au_operation_key :: string
  au_payload :: "nat \<times> pyval"
  au_digest :: string

text \<open>One connection holds them all; \<open>at_tables\<close> tells whether the two protected tables were created.\<close>

record approval_state =
  at_events :: event_store
  at_invocations :: datastore
  at_rows :: "(string \<times> approval_record) list"
  at_tables :: bool
  at_requests :: "(string \<times> protected_row) list"
  at_audit :: "audit_row list"

abbreviation at_journal :: "approval_state \<Rightarrow> journal" where
  "at_journal s \<equiv> st_journal (at_events s)"

definition REQUEST_POLICY :: string where "REQUEST_POLICY = ''policy:approval-request:v1''"
definition MUTATION_POLICY :: string where "MUTATION_POLICY = ''policy:approval-mutation:v1''"
definition REQUEST_PROFILE :: string where "REQUEST_PROFILE = ''owa/protected-approval-request/v1''"
definition MUTATION_PROFILE :: string where "MUTATION_PROFILE = ''owa/protected-approval-mutation/v1''"
definition MAX_REASSIGNMENTS :: int where "MAX_REASSIGNMENTS = 128"

definition HISTORY_LIMITS :: pyval where
  "HISTORY_LIMITS = PDict [(''rows'', PInt 10000), (''indexBytes'', PInt 8388608), (''indexPayloadBytes'', PInt 65536)]"

text \<open>\<^verbatim>\<open>CASE WHEN length(payload)<=n THEN payload ELSE NULL END\<close>, then \<^verbatim>\<open>json.loads\<close>.\<close>

definition load_bounded :: "nat \<Rightarrow> nat \<times> pyval \<Rightarrow> pyval res" where
  "load_bounded n text = (if fst text \<le> n then Inr (snd text) else Inl TypeError)"

text \<open>What \<^verbatim>\<open>bounded_json\<close> stores: the length of the text, and the value with its keys sorted.\<close>

definition stored_text :: "string \<Rightarrow> pyval \<Rightarrow> nat \<times> pyval" where
  "stored_text t v = (length t, sort_keys v)"

definition failing :: "'a res \<Rightarrow> 'a res" where
  "failing r = catching {ValueError, TypeError, KeyError, IndexError} WorkflowExecutionError r"

lemma failing_eq_Inr [simp]: "failing r = Inr a \<longleftrightarrow> r = Inr a"
  by (simp add: failing_def)

section \<open>Receipts\<close>

text \<open>\<^verbatim>\<open>EffectReceipt(**payload)\<close>: dependencies stay dictionaries there, which the constructor refuses.\<close>

definition plain_receipt :: "pyval \<Rightarrow> effect_receipt res" where
  "plain_receipt v =
     (case v of
        PDict _ \<Rightarrow>
          bindE (guardE (get_field v ''child_invocation'' = PNone \<and> get_field v ''external_outcome'' = PNone) ValueError) (\<lambda>_.
            receipt_from_payload v)
      | _ \<Rightarrow> Inl TypeError)"

definition stored_receipt :: "approval_env \<Rightarrow> journal \<Rightarrow> effect_identity \<Rightarrow> effect_receipt option res" where
  "stored_receipt env j i =
     (case (jr_effects j (effect_key (ae_journal env) i), jr_index j (effect_key (ae_journal env) i)) of
        (None, None) \<Rightarrow> Inr None
      | (Some row, Some index) \<Rightarrow>
          catching {ValueError, TypeError, KeyError} WorkflowExecutionError
            (bindE (load_bounded 1048576 (er_length row, er_payload row)) (\<lambda>payload.
             bindE (plain_receipt payload) (\<lambda>r.
             bindE (guardE (er_owner row = rc_owner r \<and> er_status row = rc_status r
                 \<and> ix_invocation_id index = ei_invocation_id i \<and> ix_fingerprint index = ei_fingerprint i) ValueError) (\<lambda>_.
             bindE (load_bounded 1048576 (ix_length index, ix_payload index)) (\<lambda>saved.
             bindE (identity_from_value saved) (\<lambda>stored.
             bindE (guardE (stored = i) ValueError) (\<lambda>_.
             bindE (bounded_json env payload 1048576) (\<lambda>_. Inr (Some r)))))))))
      | _ \<Rightarrow> Inl WorkflowExecutionError)"

text \<open>Dataclass equality: Python's equality on the two values, equality on the other fields.\<close>

definition receipt_eq :: "effect_receipt \<Rightarrow> effect_receipt \<Rightarrow> bool" where
  "receipt_eq a b \<longleftrightarrow> py_eq (rc_output a) (rc_output b) \<and> py_eq (rc_error a) (rc_error b) \<and>
     a\<lparr>rc_output := PNone, rc_error := PNone\<rparr> = b\<lparr>rc_output := PNone, rc_error := PNone\<rparr>"

definition receipt_is :: "effect_receipt option \<Rightarrow> effect_receipt \<Rightarrow> bool" where
  "receipt_is found r = (case found of None \<Rightarrow> False | Some x \<Rightarrow> receipt_eq x r)"

definition known_receipt :: "approval_env \<Rightarrow> pyval \<Rightarrow> string \<Rightarrow> effect_receipt res" where
  "known_receipt env v operation =
     bindE (effect_request_digest (ae_journal env) operation v) (\<lambda>digest.
       make_receipt ((pending_receipt digest ''protected-approvals-v1'' None)\<lparr>rc_status := ''completed'', rc_output := v\<rparr>))"

text \<open>\<^verbatim>\<open>ReceiptDependency.capture\<close> and its stored value.\<close>

definition receipt_digest :: "approval_env \<Rightarrow> effect_receipt \<Rightarrow> string res" where
  "receipt_digest env r =
     bindE (guardE (rc_status r \<noteq> ''pending'') ValueError) (\<lambda>_. digest_of (ae_journal env) False (receipt_payload r))"

definition dependency_value :: "effect_identity \<Rightarrow> string \<Rightarrow> pyval" where
  "dependency_value i digest = PDict [(''identity'', identity_value i), (''receipt_digest'', PStr digest)]"

definition dependency_from_value :: "pyval \<Rightarrow> (effect_identity \<times> string) res" where
  "dependency_from_value v =
     (if \<not> exact_keys v [''identity'', ''receipt_digest''] then Inl ValueError
      else bindE (identity_from_value (get_field v ''identity'')) (\<lambda>i.
           bindE (str_field v ''receipt_digest'') (\<lambda>digest.
           bindE (guardE (is_digest digest) ValueError) (\<lambda>_. Inr (i, digest)))))"

definition admission_identity :: "execution_handle \<Rightarrow> effect_identity" where
  "admission_identity h = \<lparr>ei_invocation_id = eh_id h, ei_fingerprint = hi_workflow_fingerprint (hf_identity (eh_fields h)),
     ei_task_reference = ''/do'', ei_occurrence = [(''/do'', 1)], ei_operation = ''policy:definition-admission:v1''\<rparr>"

definition binding_value :: "execution_handle \<Rightarrow> pyval" where
  "binding_value h = (let i = hf_identity (eh_fields h) in PDict
     [(''invocation_id'', PStr (hi_invocation_id i)), (''workflow_fingerprint'', PStr (hi_workflow_fingerprint i)),
      (''engine'', PStr (hi_engine i)), (''session_id'', PStr (hi_session_id i)), (''user_id'', opt_value PStr (hi_user_id i)),
      (''owner_principal'', opt_value PStr (hi_owner_principal i)), (''workflow_name'', PStr (hi_workflow_name i)),
      (''workflow_version'', PStr (hi_workflow_version i)), (''parent_invocation_id'', opt_value PStr (hi_parent_invocation_id i)),
      (''parent_task_reference'', opt_value PStr (hi_parent_task_reference i))])"

abbreviation owner_principal :: "execution_handle \<Rightarrow> string option" where
  "owner_principal h \<equiv> hi_owner_principal (hf_identity (eh_fields h))"

definition revision_identity :: "effect_identity \<Rightarrow> int \<Rightarrow> effect_identity" where
  "revision_identity origin n = origin\<lparr>ei_operation := MUTATION_POLICY,
     ei_occurrence := ei_occurrence origin @ [(ei_task_reference origin @ ''/@approval-revision'', n)]\<rparr>"

section \<open>The verifier\<close>

text \<open>\<^verbatim>\<open>v[k] == w\<close>; a missing key raises, which the verifier turns into the same failure as an inequality.\<close>

definition has_value :: "pyval \<Rightarrow> string \<Rightarrow> pyval \<Rightarrow> bool" where
  "has_value v k w = (case field v k of None \<Rightarrow> False | Some x \<Rightarrow> py_eq x w)"

definition REQUEST_FIELDS :: "string list" where
  "REQUEST_FIELDS = [''profile'', ''approval_id'', ''policy'', ''event_scope'', ''request_event'', ''origin'', ''origin_request_digest'',
     ''invocation_binding'', ''input_digest'', ''definition_receipt'', ''expires_at'', ''history_limits'']"

definition ITEM_FIELDS :: "string list" where
  "ITEM_FIELDS = [''profile'', ''approval_id'', ''revision'', ''previous_digest'', ''operation_key'', ''request'', ''recorded_at'', ''event'']"

definition SUPPLIED_FIELDS :: "string list" where
  "SUPPLIED_FIELDS = [''action'', ''actor'', ''revision'', ''assignee'', ''value'']"

definition request_shape :: "string \<Rightarrow> pyval \<Rightarrow> bool" where
  "request_shape aid v \<longleftrightarrow> exact_keys v REQUEST_FIELDS \<and> has_value v ''profile'' (PStr REQUEST_PROFILE) \<and>
     has_value v ''approval_id'' (PStr aid) \<and> has_value v ''history_limits'' HISTORY_LIMITS"

definition request_origin :: "protected_row \<Rightarrow> pyval \<Rightarrow> effect_identity res" where
  "request_origin row v =
     bindE (identity_from_value (get_field v ''origin'')) (\<lambda>origin.
     bindE (guardE (ei_operation origin = ''emit'' \<and> pr_invocation_id row = ei_invocation_id origin
         \<and> pr_fingerprint row = ei_fingerprint origin) ValueError) (\<lambda>_. Inr origin))"

definition request_vouched :: "approval_env \<Rightarrow> approval_state \<Rightarrow> protected_row \<Rightarrow> pyval \<Rightarrow> effect_identity \<Rightarrow> string res" where
  "request_vouched env s row v origin =
     bindE (known_receipt env v REQUEST_POLICY) (\<lambda>expected.
     bindE (guardE (pr_digest row = rc_request_digest expected) ValueError) (\<lambda>_.
     bindE (stored_receipt env (at_journal s) (origin\<lparr>ei_operation := REQUEST_POLICY\<rparr>)) (\<lambda>found.
     bindE (guardE (receipt_is found expected) ValueError) (\<lambda>_. Inr (rc_request_digest expected)))))"

definition request_handle :: "approval_env \<Rightarrow> approval_state \<Rightarrow> pyval \<Rightarrow> effect_identity \<Rightarrow> execution_handle res" where
  "request_handle env s v origin =
     bindE (get_invocation (at_invocations s) (ei_invocation_id origin)) (\<lambda>found.
       case found of
         None \<Rightarrow> Inl ValueError
       | Some h \<Rightarrow>
           bindE (guardE (py_eq (binding_value h) (get_field v ''invocation_binding'')
               \<and> py_eq (opt_value PStr (owner_principal h)) (get_field v ''event_scope'')) ValueError) (\<lambda>_.
           bindE (ae_evidence env h) (\<lambda>_.
           bindE (read_input (at_invocations s) h) (\<lambda>given.
           bindE (effect_request_digest (ae_journal env) REQUEST_PROFILE given) (\<lambda>digest.
           bindE (guardE (has_value v ''input_digest'' (PStr digest)) ValueError) (\<lambda>_. Inr h))))))"

definition definition_vouched :: "approval_env \<Rightarrow> approval_state \<Rightarrow> pyval \<Rightarrow> execution_handle \<Rightarrow> unit res" where
  "definition_vouched env s v h =
     bindE (dependency_from_value (get_field v ''definition_receipt'')) (\<lambda>(i, digest).
     bindE (stored_receipt env (at_journal s) (admission_identity h)) (\<lambda>found.
     bindE (guardE (i = admission_identity h) ValueError) (\<lambda>_.
       case found of
         None \<Rightarrow> Inl ValueError
       | Some r \<Rightarrow> bindE (receipt_digest env r) (\<lambda>d. guardE (d = digest) ValueError))))"

definition source_expiry :: "approval_env \<Rightarrow> string \<Rightarrow> pyval \<Rightarrow> approval_policy \<Rightarrow> rat res" where
  "source_expiry env aid v policy =
     (let source = get_field v ''request_event'' in
      bindE (guardE (has_value source ''id'' (PStr aid) \<and> has_value source ''subject'' (PStr aid)
          \<and> has_value (get_field source ''data'') ''approvalPolicy'' (policy_as_value policy)) ValueError) (\<lambda>_.
      bindE (case field source ''approvalexpiresat'' of None \<Rightarrow> Inl KeyError | Some x \<Rightarrow> original_expiry env x) (\<lambda>expires.
      bindE (guardE (has_value v ''expires_at'' (PFloat (FFin expires))) ValueError) (\<lambda>_. Inr expires))))"

definition publication_vouched :: "approval_env \<Rightarrow> approval_state \<Rightarrow> pyval \<Rightarrow> effect_identity \<Rightarrow> bool \<Rightarrow> unit res" where
  "publication_vouched env s v origin allow_unfinished =
     bindE (stored_receipt env (at_journal s) origin) (\<lambda>found.
       case found of
         None \<Rightarrow> guardE allow_unfinished ValueError
       | Some r \<Rightarrow> guardE (rc_status r = ''completed'' \<and> py_eq (rc_output r) (get_field v ''request_event'')
             \<and> has_value v ''origin_request_digest'' (PStr (rc_request_digest r))) ValueError)"

definition float_value :: "rat option \<Rightarrow> pyval" where
  "float_value x = opt_value (\<lambda>q. PFloat (FFin q)) x"

definition record_of_request :: "approval_state \<Rightarrow> string \<Rightarrow> pyval \<Rightarrow> approval_record res" where
  "record_of_request s aid v =
     (case dict_get (at_rows s) aid of
        None \<Rightarrow> Inl ValueError
      | Some a \<Rightarrow>
          bindE (load_bounded 1048576 (length (fst (ap_request a)), snd (ap_request a))) (\<lambda>request.
          bindE (guardE (py_eq request (get_field v ''request_event'') \<and> py_eq (float_value (ap_expires_at a)) (get_field v ''expires_at'')
              \<and> has_value v ''event_scope'' (PStr (ap_event_scope a))) ValueError) (\<lambda>_. Inr a)))"

section \<open>The audit chain\<close>

record chain_state =
  ch_revision :: int
  ch_assignee :: string
  ch_digest :: string
  ch_terminal :: "pyval option"
  ch_projection :: "pyval \<times> pyval \<times> pyval"

definition recorded_number :: "pyval \<Rightarrow> rat option" where
  "recorded_number v =
     (case v of
        PInt n \<Rightarrow> if n \<le> 0 then None else Some (of_int n)
      | PFloat (FFin q) \<Rightarrow> if q \<le> 0 then None else Some q
      | _ \<Rightarrow> None)"

definition item_shape :: "string \<Rightarrow> chain_state \<Rightarrow> audit_row \<Rightarrow> pyval \<Rightarrow> bool" where
  "item_shape aid c e item \<longleftrightarrow> ch_terminal c = None \<and> exact_keys item ITEM_FIELDS
     \<and> exact_keys (get_field item ''request'') SUPPLIED_FIELDS \<and> au_revision e = ch_revision c + 1
     \<and> has_value item ''revision'' (PInt (ch_revision c + 1)) \<and> has_value item ''previous_digest'' (PStr (ch_digest c))
     \<and> has_value item ''approval_id'' (PStr aid) \<and> has_value item ''profile'' (PStr MUTATION_PROFILE)
     \<and> has_value item ''operation_key'' (PStr (au_operation_key e))"

definition assignment_targets :: "approval_policy \<Rightarrow> string \<Rightarrow> string list" where
  "assignment_targets policy action = (if action = ''reassign'' then po_reassignment policy else po_escalation policy)"

definition terminal_event_ok :: "string \<Rightarrow> string \<Rightarrow> pyval \<Rightarrow> unit res" where
  "terminal_event_ok aid action item =
     (let request = get_field item ''request''; event = get_field item ''event'' in
      case event of
        PNone \<Rightarrow> Inl ValueError
      | PDict _ \<Rightarrow>
          (case field event ''data'' of
             None \<Rightarrow> Inl KeyError
           | Some (PDict d) \<Rightarrow>
               guardE (has_value (PDict d) ''approvalProfile'' (PStr PROTECTED_APPROVAL_PROFILE) \<and> has_value (PDict d) ''decision'' (PStr action)
                 \<and> has_value event ''subject'' (PStr aid) \<and> has_value event ''id'' (get_field item ''operation_key'')
                 \<and> has_value (PDict d) ''operator_id'' (get_field request ''actor'') \<and> has_value (PDict d) ''value'' (get_field request ''value'')
                 \<and> has_value (PDict d) ''revision'' (get_field item ''revision'')) ValueError
           | Some _ \<Rightarrow> Inl AttributeError)
      | _ \<Rightarrow> Inl TypeError)"

text \<open>What an entry does: the assignee after it, and its event with the columns it projects to when it ends the request.\<close>

definition entry_effect ::
  "approval_env \<Rightarrow> string \<Rightarrow> approval_policy \<Rightarrow> rat \<Rightarrow> chain_state \<Rightarrow> pyval \<Rightarrow> rat \<Rightarrow>
   (string \<times> pyval option \<times> (pyval \<times> pyval \<times> pyval)) res" where
  "entry_effect env aid policy expires c item recorded =
     (let request = get_field item ''request'' in
      case get_field request ''action'' of
        PStr action \<Rightarrow>
          if action \<in> {''reassign'', ''escalate''} then
            bindE (guardE (get_field request ''value'' = PNone \<and> has_value request ''actor'' (PStr (ch_assignee c))) ValueError) (\<lambda>_.
            case get_field request ''assignee'' of
              PStr a \<Rightarrow>
                bindE (guardE (a \<in> set (assignment_targets policy action) \<and> get_field item ''event'' = PNone \<and> recorded < expires) ValueError) (\<lambda>_.
                  Inr (a, None, (PNone, PNone, PNone)))
            | _ \<Rightarrow> Inl ValueError)
          else if action \<in> {''approved'', ''rejected'', ''expired''} then
            bindE (guardE (get_field request ''assignee'' = PNone) ValueError) (\<lambda>_.
            bindE (if action \<noteq> ''expired'' then validate_response env policy (get_field request ''value'') else Inr ()) (\<lambda>_.
            bindE (terminal_event_ok aid action item) (\<lambda>_.
            bindE (guardE (if action = ''expired''
                then has_value request ''actor'' (PStr ''system:approval-expiry'') \<and> expires \<le> recorded
                else has_value request ''actor'' (PStr (ch_assignee c)) \<and> recorded < expires) ValueError) (\<lambda>_.
              Inr (ch_assignee c, Some (get_field item ''event''),
                   (get_field request ''actor'', get_field item ''operation_key'', get_field item ''recorded_at''))))))
          else Inl ValueError
      | _ \<Rightarrow> Inl ValueError)"

definition verify_entry ::
  "approval_env \<Rightarrow> journal \<Rightarrow> string \<Rightarrow> effect_identity \<Rightarrow> approval_policy \<Rightarrow> rat \<Rightarrow> chain_state \<Rightarrow> audit_row \<Rightarrow> chain_state res" where
  "verify_entry env j aid origin policy expires c e =
     bindE (load_bounded 524288 (au_payload e)) (\<lambda>item.
     bindE (guardE (item_shape aid c e item) ValueError) (\<lambda>_.
     bindE (bounded_json env item 524288) (\<lambda>_.
     bindE (case recorded_number (get_field item ''recorded_at'') of None \<Rightarrow> Inl ValueError | Some t \<Rightarrow> Inr t) (\<lambda>recorded.
     bindE (known_receipt env item MUTATION_POLICY) (\<lambda>proof.
     bindE (case get_field item ''revision'' of PInt n \<Rightarrow> Inr n | _ \<Rightarrow> Inl ValueError) (\<lambda>n.
     bindE (guardE (au_digest e = rc_request_digest proof) ValueError) (\<lambda>_.
     bindE (stored_receipt env j (revision_identity origin n)) (\<lambda>found.
     bindE (guardE (receipt_is found proof) ValueError) (\<lambda>_.
     bindE (entry_effect env aid policy expires c item recorded) (\<lambda>(assignee, terminal, projection).
     bindE (guardE (has_value (get_field item ''request'') ''revision'' (PInt (ch_revision c))) ValueError) (\<lambda>_.
       Inr \<lparr>ch_revision = n, ch_assignee = assignee, ch_digest = rc_request_digest proof, ch_terminal = terminal,
            ch_projection = projection\<rparr>)))))))))))"

definition audit_of :: "approval_state \<Rightarrow> string \<Rightarrow> audit_row list" where
  "audit_of s aid = take 131 (sort_key au_revision (filter (\<lambda>e. au_approval_id e = aid) (at_audit s)))"

text \<open>The rows agree with what the chain amounts to, and the inbox still has its last event.\<close>

definition decision_value :: "approval_record \<Rightarrow> pyval option" where
  "decision_value a = (case ap_decision a of None \<Rightarrow> None | Some (t, v) \<Rightarrow> if length t \<le> 1048576 then Some v else None)"

definition chain_matches :: "protected_row \<Rightarrow> approval_record \<Rightarrow> chain_state \<Rightarrow> bool" where
  "chain_matches row a c \<longleftrightarrow> pr_revision row = ch_revision c \<and> pr_assignee row = ch_assignee c \<and> pr_audit_digest row = ch_digest c
     \<and> (case ch_terminal c of
          None \<Rightarrow> ap_status a = ''pending'' \<and> decision_value a = None
        | Some event \<Rightarrow> has_value (get_field event ''data'') ''decision'' (PStr (ap_status a))
            \<and> (case decision_value a of None \<Rightarrow> False | Some d \<Rightarrow> py_eq d event))
     \<and> (case ch_projection c of (operator, key, recorded) \<Rightarrow>
          py_eq (opt_value PStr (ap_operator_id a)) operator \<and> py_eq (opt_value PStr (ap_operation_key a)) key
          \<and> py_eq (float_value (ap_decided_at a)) recorded)"

definition event_retained :: "event_store \<Rightarrow> string \<Rightarrow> chain_state \<Rightarrow> bool" where
  "event_retained st scope c =
     (case ch_terminal c of
        None \<Rightarrow> True
      | Some event \<Rightarrow>
          (case (get_field event ''source'', get_field event ''id'') of
             (PStr source, PStr eid) \<Rightarrow>
               (case in_inbox st (scope, source, eid) of None \<Rightarrow> False | Some r \<Rightarrow> py_eq (ib_envelope r) event)
           | _ \<Rightarrow> False))"

record request_view =
  rv_value :: pyval
  rv_origin :: effect_identity
  rv_policy :: approval_policy
  rv_expires :: rat
  rv_chain :: chain_state
  rv_entries :: "audit_row list"

definition request_value :: "approval_env \<Rightarrow> approval_state \<Rightarrow> string \<Rightarrow> bool \<Rightarrow> request_view res" where
  "request_value env s aid allow_unfinished =
     (case dict_get (at_requests s) aid of
        None \<Rightarrow> Inl WorkflowExecutionError
      | Some row \<Rightarrow> failing
          (bindE (load_bounded 524288 (pr_payload row)) (\<lambda>v.
           bindE (bounded_json env v 524288) (\<lambda>_.
           bindE (guardE (request_shape aid v) ValueError) (\<lambda>_.
           bindE (request_origin row v) (\<lambda>origin.
           bindE (request_vouched env s row v origin) (\<lambda>digest.
           bindE (request_handle env s v origin) (\<lambda>h.
           bindE (definition_vouched env s v h) (\<lambda>_.
           bindE (policy_from_value env (get_field v ''policy'')) (\<lambda>policy.
           bindE (source_expiry env aid v policy) (\<lambda>expires.
           bindE (publication_vouched env s v origin allow_unfinished) (\<lambda>_.
           bindE (record_of_request s aid v) (\<lambda>a.
           bindE (guardE (length (audit_of s aid) \<le> 128) ValueError) (\<lambda>_.
           bindE (foldE (verify_entry env (at_journal s) aid origin policy expires)
               \<lparr>ch_revision = 1, ch_assignee = po_assignee policy, ch_digest = digest, ch_terminal = None,
                ch_projection = (PNone, PNone, PNone)\<rparr> (audit_of s aid)) (\<lambda>c.
           bindE (guardE (chain_matches row a c) ValueError) (\<lambda>_.
           bindE (guardE (event_retained (at_events s) (ap_event_scope a) c) ValueError) (\<lambda>_.
             Inr \<lparr>rv_value = v, rv_origin = origin, rv_policy = policy, rv_expires = expires, rv_chain = c,
                  rv_entries = audit_of s aid\<rparr>)))))))))))))))))"

section \<open>Admission\<close>

definition contains_request :: "approval_state \<Rightarrow> string \<Rightarrow> bool" where
  "contains_request s aid \<longleftrightarrow> dict_get (at_requests s) aid \<noteq> None"

definition inspect :: "approval_env \<Rightarrow> protected_config \<Rightarrow> approval_state \<Rightarrow> string \<Rightarrow> request_view res" where
  "inspect env cfg s aid =
     bindE (request_value env s aid False) (\<lambda>view.
     bindE (guardE (set (policy_actors (rv_policy view)) \<subseteq> set (pc_actor_ids cfg)) ApprovalAuthorizationError) (\<lambda>_. Inr view))"

definition admitted_value ::
  "string \<Rightarrow> approval_policy \<Rightarrow> string \<Rightarrow> event_envelope \<Rightarrow> effect_identity \<Rightarrow> string \<Rightarrow> execution_handle \<Rightarrow> string \<Rightarrow> string \<Rightarrow> rat \<Rightarrow> pyval" where
  "admitted_value aid policy scope e origin request_digest h input_digest definition_digest expires = PDict
     [(''profile'', PStr REQUEST_PROFILE), (''approval_id'', PStr aid), (''policy'', policy_as_value policy), (''event_scope'', PStr scope),
      (''request_event'', envelope_value e), (''origin'', identity_value origin), (''origin_request_digest'', PStr request_digest),
      (''invocation_binding'', binding_value h), (''input_digest'', PStr input_digest),
      (''definition_receipt'', dependency_value (admission_identity h) definition_digest), (''expires_at'', PFloat (FFin expires)),
      (''history_limits'', HISTORY_LIMITS)]"

definition pending_others :: "approval_state \<Rightarrow> string \<Rightarrow> int" where
  "pending_others s aid = int (length (filter (\<lambda>(k, a). ap_status a = ''pending'' \<and> k \<noteq> aid) (at_rows s)))"

definition bind_request ::
  "approval_env \<Rightarrow> protected_config \<Rightarrow> approval_state \<Rightarrow> string \<Rightarrow> effect_identity \<Rightarrow> approval_policy \<Rightarrow> pyval \<Rightarrow> approval_state res" where
  "bind_request env cfg s aid origin policy v =
     bindE (known_receipt env v REQUEST_POLICY) (\<lambda>receipt.
       case dict_get (at_requests s) aid of
         Some row \<Rightarrow>
           bindE (bounded_json env v 524288) (\<lambda>_.
           bindE (guardE (py_eq (snd (pr_payload row)) (sort_keys v)) ApprovalConflict) (\<lambda>_.
           bindE (request_value env s aid True) (\<lambda>_. Inr s)))
       | None \<Rightarrow>
           bindE (guardE (pending_others s aid < pc_max_pending cfg) ApprovalConflict) (\<lambda>_.
           bindE (bounded_json env v 524288) (\<lambda>encoded.
           bindE (insert_completed_receipt (ae_journal env) (at_journal s) (origin\<lparr>ei_operation := REQUEST_POLICY\<rparr>) receipt) (\<lambda>j.
             Inr (s\<lparr>at_requests := at_requests s @ [(aid,
                      \<lparr>pr_invocation_id = ei_invocation_id origin, pr_fingerprint = ei_fingerprint origin, pr_payload = stored_text encoded v,
                       pr_digest = rc_request_digest receipt, pr_revision = 1, pr_assignee = po_assignee policy,
                       pr_audit_digest = rc_request_digest receipt\<rparr>)],
                    at_events := (at_events s)\<lparr>st_journal := j\<rparr>\<rparr>)))))"

definition admit ::
  "approval_env \<Rightarrow> protected_config \<Rightarrow> approval_state \<Rightarrow> string \<Rightarrow> string \<Rightarrow> event_envelope \<Rightarrow> effect_identity option \<Rightarrow> string option \<Rightarrow>
   approval_state res" where
  "admit env cfg s aid scope e origin_identity request_digest =
     (case (origin_identity, request_digest) of
        (Some origin, Some digest) \<Rightarrow>
          bindE (guardE (ei_operation origin = ''emit'') ApprovalValidationError) (\<lambda>_.
          bindE (policy_from_value env (get_field (ev_data e) ''approvalPolicy'')) (\<lambda>policy.
          bindE (bounded_json env (policy_as_value policy) (pc_max_policy_bytes cfg)) (\<lambda>_.
          bindE (guardE (set (policy_actors policy) \<subseteq> set (pc_actor_ids cfg)) ApprovalValidationError) (\<lambda>_.
          bindE (original_expiry env (get_field (PDict (ev_extensions e)) ''approvalexpiresat'')) (\<lambda>expires.
          bindE (get_invocation (at_invocations s) (ei_invocation_id origin)) (\<lambda>found.
            case found of
              None \<Rightarrow> Inl ApprovalAuthorizationError
            | Some h \<Rightarrow>
                bindE (guardE (hi_workflow_fingerprint (hf_identity (eh_fields h)) = ei_fingerprint origin \<and> owner_principal h = Some scope)
                  ApprovalAuthorizationError) (\<lambda>_.
                bindE (ae_evidence env h) (\<lambda>_.
                bindE (stored_receipt env (at_journal s) (admission_identity h)) (\<lambda>vouched.
                  case vouched of
                    None \<Rightarrow> Inl WorkflowExecutionError
                  | Some r \<Rightarrow>
                      bindE (read_input (at_invocations s) h) (\<lambda>given.
                      bindE (effect_request_digest (ae_journal env) REQUEST_PROFILE given) (\<lambda>input_digest.
                      bindE (receipt_digest env r) (\<lambda>definition_digest.
                        bind_request env cfg s aid origin policy
                          (admitted_value aid policy scope e origin digest h input_digest definition_digest expires)))))))))))))
      | _ \<Rightarrow> Inl ApprovalValidationError)"

section \<open>Mutation\<close>

definition supplied_value :: "string \<Rightarrow> string \<Rightarrow> int \<Rightarrow> string option \<Rightarrow> pyval \<Rightarrow> pyval" where
  "supplied_value action actor revision assignee v = PDict
     [(''action'', PStr action), (''actor'', PStr actor), (''revision'', PInt revision), (''assignee'', opt_value PStr assignee), (''value'', v)]"

definition decision_envelope ::
  "approval_env \<Rightarrow> string \<Rightarrow> string \<Rightarrow> string \<Rightarrow> int \<Rightarrow> string \<Rightarrow> pyval \<Rightarrow> rat \<Rightarrow> event_envelope" where
  "decision_envelope env aid action actor revision key v now =
     \<lparr>ev_id = key, ev_source = ''urn:open-workflow-agent:approvals'', ev_type = ''io.openworkflow.agent.approval.decided'',
      ev_time = ae_timestamp env now, ev_subject = Some aid, ev_datacontenttype = Some ''application/json'', ev_dataschema = None,
      ev_data = PDict [(''approvalProfile'', PStr PROTECTED_APPROVAL_PROFILE), (''approval_id'', PStr aid), (''decision'', PStr action),
        (''operator_id'', PStr actor), (''value'', v), (''revision'', PInt (revision + 1))],
      ev_extensions = [(''approvalid'', PStr aid)], ev_data_present = False\<rparr>"

definition audit_item ::
  "string \<Rightarrow> int \<Rightarrow> string \<Rightarrow> string \<Rightarrow> pyval \<Rightarrow> rat \<Rightarrow> event_envelope option \<Rightarrow> pyval" where
  "audit_item aid revision previous key supplied now event = PDict
     [(''profile'', PStr MUTATION_PROFILE), (''approval_id'', PStr aid), (''revision'', PInt (revision + 1)),
      (''previous_digest'', PStr previous), (''operation_key'', PStr key), (''request'', supplied), (''recorded_at'', PFloat (FFin now)),
      (''event'', opt_value envelope_value event)]"

text \<open>Who may do what, when: the current assignee before the deadline, or the expiry process from it on.\<close>

definition mutation_allowed ::
  "protected_config \<Rightarrow> request_view \<Rightarrow> string \<Rightarrow> string \<Rightarrow> rat \<Rightarrow> unit res" where
  "mutation_allowed cfg view action actor now =
     (if action = ''expired'' then
        guardE (actor = ''system:approval-expiry'' \<and> rv_expires view \<le> now) ApprovalConflict
      else bindE (guardE (actor = ch_assignee (rv_chain view) \<and> actor \<in> set (pc_actor_ids cfg)) ApprovalAuthorizationError) (\<lambda>_.
             guardE (now < rv_expires view) ApprovalConflict))"

definition mutation_effect ::
  "approval_env \<Rightarrow> protected_config \<Rightarrow> request_view \<Rightarrow> string \<Rightarrow> string \<Rightarrow> string \<Rightarrow> int \<Rightarrow> string \<Rightarrow> pyval \<Rightarrow> string option \<Rightarrow> rat \<Rightarrow>
   (string \<times> event_envelope option) res" where
  "mutation_effect env cfg view aid action actor revision key v assignee now =
     (if action \<in> {''reassign'', ''escalate''} then
        bindE (guardE (v = PNone) ApprovalValidationError) (\<lambda>_.
          case assignee of
            None \<Rightarrow> Inl ApprovalValidationError
          | Some a \<Rightarrow>
              bindE (guardE (a \<in> set (assignment_targets (rv_policy view) action) \<and> a \<in> set (pc_actor_ids cfg)
                  \<and> revision < MAX_REASSIGNMENTS) ApprovalValidationError) (\<lambda>_. Inr (a, None)))
      else if action \<in> {''approved'', ''rejected'', ''expired''} then
        bindE (guardE (assignee = None) ApprovalValidationError) (\<lambda>_.
        bindE (if action \<noteq> ''expired'' then validate_response env (rv_policy view) v else Inr ()) (\<lambda>_.
          Inr (ch_assignee (rv_chain view), Some (decision_envelope env aid action actor revision key v now))))
      else Inl ApprovalValidationError)"

text \<open>\<^verbatim>\<open>_envelope\<close> of \<^verbatim>\<open>approvals.py\<close>: an envelope from its stored dictionary.\<close>

definition text_of :: "approval_env \<Rightarrow> pyval \<Rightarrow> string" where
  "text_of env v = (case v of PStr s \<Rightarrow> s | _ \<Rightarrow> ae_str env v)"

definition only_text :: "pyval \<Rightarrow> string option" where
  "only_text v = (case v of PStr s \<Rightarrow> Some s | _ \<Rightarrow> None)"

definition envelope_of :: "approval_env \<Rightarrow> pyval \<Rightarrow> event_envelope res" where
  "envelope_of env v =
     (case v of
        PDict d \<Rightarrow>
          bindE (guardE (list_all (\<lambda>k. has_field v k) [''id'', ''source'', ''type'', ''time'']) KeyError) (\<lambda>_.
            Inr \<lparr>ev_id = text_of env (get_field v ''id''), ev_source = text_of env (get_field v ''source''),
                 ev_type = text_of env (get_field v ''type''), ev_time = text_of env (get_field v ''time''),
                 ev_subject = only_text (get_field v ''subject''), ev_datacontenttype = only_text (get_field v ''datacontenttype''),
                 ev_dataschema = only_text (get_field v ''dataschema''), ev_data = get_field v ''data'',
                 ev_extensions = filter (\<lambda>(k, x). k \<notin> set known_fields) d, ev_data_present = False\<rparr>)
      | _ \<Rightarrow> Inl TypeError)"

definition update_request :: "approval_state \<Rightarrow> string \<Rightarrow> (protected_row \<Rightarrow> protected_row) \<Rightarrow> approval_state" where
  "update_request s aid f = s\<lparr>at_requests := map (\<lambda>(k, r). (k, if k = aid then f r else r)) (at_requests s)\<rparr>"

text \<open>
  \<^verbatim>\<open>UPDATE approvals SET ... WHERE approval_id=? AND status='pending'\<close>: one row must change, and the key of a
  decision is unique in the table.
\<close>

definition settle :: "approval_state \<Rightarrow> string \<Rightarrow> string \<Rightarrow> string \<times> pyval \<Rightarrow> string \<Rightarrow> string option \<Rightarrow> rat \<Rightarrow> approval_state res" where
  "settle s aid status decision operator key now =
     (case dict_get (at_rows s) aid of
        None \<Rightarrow> Inl ApprovalConflict
      | Some a \<Rightarrow>
          if ap_status a \<noteq> ''pending'' then Inl ApprovalConflict
          else bindE (guardE (key = None \<or> list_all (\<lambda>(k, x). k = aid \<or> ap_operation_key x \<noteq> key) (at_rows s)) IntegrityError) (\<lambda>_.
            Inr (s\<lparr>at_rows := map (\<lambda>(k, x). (k, if k = aid then x\<lparr>ap_status := status, ap_decision := Some decision,
                     ap_operator_id := Some operator, ap_operation_key := key, ap_decided_at := Some now\<rparr> else x)) (at_rows s)\<rparr>)))"

definition record_mutation ::
  "approval_env \<Rightarrow> approval_state \<Rightarrow> request_view \<Rightarrow> string \<Rightarrow> string \<Rightarrow> string \<Rightarrow> int \<Rightarrow> string \<Rightarrow> pyval \<Rightarrow> rat \<Rightarrow> string \<times> event_envelope option \<Rightarrow>
   (approval_state \<times> event_envelope option) res" where
  "record_mutation env s view aid action actor revision key supplied now effect =
     (let item = audit_item aid revision (ch_digest (rv_chain view)) key supplied now (snd effect) in
      bindE (known_receipt env item MUTATION_POLICY) (\<lambda>proof.
      bindE (bounded_json env item 524288) (\<lambda>encoded.
      bindE (guardE (list_all (\<lambda>e. \<not> (au_approval_id e = aid \<and> au_revision e = revision + 1) \<and> au_operation_key e \<noteq> key) (at_audit s))
        IntegrityError) (\<lambda>_.
      bindE (insert_completed_receipt (ae_journal env) (at_journal s) (revision_identity (rv_origin view) (revision + 1)) proof) (\<lambda>j.
      bindE (guardE (case dict_get (at_requests s) aid of None \<Rightarrow> False | Some r \<Rightarrow> pr_revision r = revision) ApprovalConflict) (\<lambda>_.
      let s' = (update_request s aid (\<lambda>r. r\<lparr>pr_revision := revision + 1, pr_assignee := fst effect, pr_audit_digest := rc_request_digest proof\<rparr>))
            \<lparr>at_audit := at_audit s @ [\<lparr>au_approval_id = aid, au_revision = revision + 1, au_operation_key = key,
                           au_payload = stored_text encoded item, au_digest = rc_request_digest proof\<rparr>],
             at_events := (at_events s)\<lparr>st_journal := j\<rparr>\<rparr> in
      case snd effect of
        None \<Rightarrow> Inr (s', None)
      | Some event \<Rightarrow>
          bindE (envelope_raw (ae_float_repr env) event) (\<lambda>raw.
          bindE (settle s' aid action (raw, sort_keys (envelope_value event)) actor (Some key) now) (\<lambda>s''.
            Inr (s'', Some event)))))))))"

definition mutate ::
  "approval_env \<Rightarrow> protected_config \<Rightarrow> approval_state \<Rightarrow> rat \<Rightarrow> string \<Rightarrow> string \<Rightarrow> string \<Rightarrow> int \<Rightarrow> string \<Rightarrow> pyval \<Rightarrow> string option \<Rightarrow>
   (approval_state \<times> event_envelope option) res" where
  "mutate env cfg s now aid action actor revision key v assignee =
     bindE (inspect env cfg s aid) (\<lambda>view.
     bindE (actor_identity (PStr actor) (action = ''expired'')) (\<lambda>_.
     bindE (guardE (1 \<le> revision \<and> key \<noteq> [] \<and> length key \<le> 256) ApprovalValidationError) (\<lambda>_.
     let supplied = supplied_value action actor revision assignee v in
     bindE (bounded_json env supplied MAX_APPROVAL_VALUE_BYTES) (\<lambda>_.
       case find (\<lambda>e. au_operation_key e = key) (at_audit s) of
         Some prior \<Rightarrow>
           bindE (guardE (au_approval_id prior = aid \<and> py_eq (get_field (snd (au_payload prior)) ''request'') supplied) ApprovalConflict) (\<lambda>_.
             (case get_field (snd (au_payload prior)) ''event'' of
                PNone \<Rightarrow> Inr (s, None)
              | event \<Rightarrow> bindE (envelope_of env event) (\<lambda>e. Inr (s, Some e))))
       | None \<Rightarrow>
           (case dict_get (at_rows s) aid of
              None \<Rightarrow> Inl TypeError
            | Some a \<Rightarrow>
                bindE (guardE (ap_status a = ''pending'' \<and> revision = ch_revision (rv_chain view)) ApprovalConflict) (\<lambda>_.
                bindE (mutation_allowed cfg view action actor now) (\<lambda>_.
                bindE (mutation_effect env cfg view aid action actor revision key v assignee now) (\<lambda>effect.
                  record_mutation env s view aid action actor revision key supplied now effect))))))))"

end
