(* ===== verification/Approvals.thy ===== *)
theory Approvals
  imports Protected_Approvals "HOL-Library.Product_Lexorder"
begin

text \<open>
  Approvals (\<^verbatim>\<open>approvals.py\<close>, \<^verbatim>\<open>protected_approval_service.py\<close>): the store of requests and decisions with its
  expiry, the bus that turns request events into rows, and the service that decides a request and
  publishes the decision in one transaction. An operation returns the state its connection sees
  afterwards together with its result, since reading a request already expires the due ones; a
  caller that owns the transaction drops the state when the result is an exception. Clock readings
  and UUIDs are arguments, one per reading. The value of a decision is finite JSON.
\<close>

section \<open>Rows\<close>

definition APPROVAL_REQUEST_EVENT :: string where "APPROVAL_REQUEST_EVENT = ''io.openworkflow.agent.approval.requested''"
definition APPROVAL_DECISION_EVENT :: string where "APPROVAL_DECISION_EVENT = ''io.openworkflow.agent.approval.decided''"
definition APPROVAL_STATES :: "string list" where "APPROVAL_STATES = [''pending'', ''approved'', ''rejected'', ''expired'']"
definition APPROVAL_DECISIONS :: "string list" where "APPROVAL_DECISIONS = [''approved'', ''rejected'']"
definition DEFAULT_EVENT_SCOPE :: string where "DEFAULT_EVENT_SCOPE = ''anonymous''"

text \<open>A record as \<^verbatim>\<open>get\<close> returns it: its id, and for a protected request its revision, assignee and audit.\<close>

record approval_read =
  rd_id :: string
  rd_record :: approval_record
  rd_assignment :: "(int \<times> string \<times> pyval list) option"

definition record_as_dict :: "approval_env \<Rightarrow> approval_read \<Rightarrow> pyval" where
  "record_as_dict env r = (let a = rd_record r in PDict
     ([(''approval_id'', PStr (rd_id r)), (''subject'', PStr (ap_subject a)), (''status'', PStr (ap_status a)), (''request'', snd (ap_request a)),
       (''requested_at'', PStr (ae_timestamp env (ap_requested_at a)))]
      @ opt_entry ''expires_at'' (map_option (ae_timestamp env) (ap_expires_at a))
      @ (case ap_decision a of None \<Rightarrow> [] | Some (t, d) \<Rightarrow> [(''decision'', d)])
      @ opt_entry ''operator_id'' (ap_operator_id a)
      @ opt_entry ''decided_at'' (map_option (ae_timestamp env) (ap_decided_at a))
      @ (case rd_assignment r of None \<Rightarrow> []
         | Some (revision, assignee, audit) \<Rightarrow> [(''revision'', PInt revision), (''assignee'', PStr assignee), (''audit'', PList audit)])))"

section \<open>Expiry\<close>

text \<open>\<^verbatim>\<open>request_event LIKE '%"approvalPolicy"%'\<close>; SQLite ignores the case of ASCII letters.\<close>

fun contains_text :: "string \<Rightarrow> string \<Rightarrow> bool" where
  "contains_text p [] = (p = [])"
| "contains_text p (c # cs) = (prefix p (c # cs) \<or> contains_text p cs)"

definition POLICY_TEXT :: string where
  "POLICY_TEXT = [char_of (34 :: nat)] @ ''approvalPolicy'' @ [char_of (34 :: nat)]"

definition mentions_policy :: "approval_env \<Rightarrow> string \<Rightarrow> bool" where
  "mentions_policy env t =
     (if ae_sqlite env then contains_text (to_lower POLICY_TEXT) (to_lower t) else contains_text POLICY_TEXT t)"

definition is_due :: "approval_env \<Rightarrow> approval_state \<Rightarrow> rat \<Rightarrow> string \<Rightarrow> approval_record \<Rightarrow> bool" where
  "is_due env s now aid a \<longleftrightarrow> ap_status a = ''pending'' \<and> (case ap_expires_at a of None \<Rightarrow> False | Some t \<Rightarrow> t \<le> now)
     \<and> \<not> mentions_policy env (fst (ap_request a)) \<and> \<not> (at_tables s \<and> contains_request s aid)"

definition expire_due :: "approval_env \<Rightarrow> approval_state \<Rightarrow> rat \<Rightarrow> approval_state" where
  "expire_due env s now =
     s\<lparr>at_rows := map (\<lambda>(k, a). (k, if is_due env s now k a then a\<lparr>ap_status := ''expired''\<rparr> else a)) (at_rows s)\<rparr>"

section \<open>Reading\<close>

definition has_policy :: "pyval \<Rightarrow> bool" where
  "has_policy data = (case data of PDict d \<Rightarrow> ''approvalPolicy'' \<in> set (dict_keys d) | _ \<Rightarrow> False)"

definition is_protected :: "approval_env \<Rightarrow> approval_state \<Rightarrow> string \<Rightarrow> bool" where
  "is_protected env s aid =
     (case dict_get (at_rows s) aid of
        None \<Rightarrow> False
      | Some a \<Rightarrow> has_policy (get_field (snd (ap_request a)) ''data'') \<or> ae_protected env \<noteq> None \<and> contains_request s aid)"

definition get_approval :: "approval_env \<Rightarrow> approval_state \<Rightarrow> rat \<Rightarrow> string \<Rightarrow> approval_state \<times> approval_read option res" where
  "get_approval env s now aid =
     (let protect = is_protected env s aid; s' = (if protect then s else expire_due env s now) in
      (s', case dict_get (at_rows s') aid of
             None \<Rightarrow> Inr None
           | Some a \<Rightarrow>
               if \<not> protect then Inr (Some \<lparr>rd_id = aid, rd_record = a, rd_assignment = None\<rparr>)
               else case ae_protected env of
                 None \<Rightarrow> Inl ApprovalAuthorizationError
               | Some cfg \<Rightarrow>
                   bindE (inspect env cfg s' aid) (\<lambda>view.
                     Inr (Some \<lparr>rd_id = aid, rd_record = a, rd_assignment = Some (ch_revision (rv_chain view), ch_assignee (rv_chain view),
                         map (\<lambda>e. snd (au_payload e)) (rv_entries view))\<rparr>))))"

definition list_approvals ::
  "approval_env \<Rightarrow> approval_state \<Rightarrow> rat \<Rightarrow> string option \<Rightarrow> int \<Rightarrow> approval_state \<times> (string \<times> approval_record) list res" where
  "list_approvals env s now status bound =
     (let s' = expire_due env s now in
      (s', bindE (guardE (case status of None \<Rightarrow> True | Some x \<Rightarrow> x \<in> set APPROVAL_STATES) ApprovalValidationError) (\<lambda>_.
           bindE (guardE (1 \<le> bound \<and> bound \<le> 1000) ApprovalValidationError) (\<lambda>_.
             Inr (filter (\<lambda>(k, a). \<not> (ae_protected env \<noteq> None \<and> contains_request s' k))
               (take (nat bound) (sort_key (\<lambda>(k, a). - ap_requested_at a)
                 (filter (\<lambda>(k, a). case status of None \<Rightarrow> True | Some x \<Rightarrow> ap_status a = x) (at_rows s')))))))))"

definition status_counts :: "approval_env \<Rightarrow> approval_state \<Rightarrow> rat \<Rightarrow> approval_state \<times> (string \<times> nat) list" where
  "status_counts env s now =
     (let s' = expire_due env s now; found = map (\<lambda>(k, a). ap_status a) (at_rows s') in
      (s', map (\<lambda>x. (x, length (filter (\<lambda>y. y = x) found))) (remdups found)))"

section \<open>Requests\<close>

definition utc_offset :: "string \<Rightarrow> string" where
  "utc_offset t = concat (map (\<lambda>c. if c = CHR ''Z'' then ''+00:00'' else [c]) t)"

definition parse_event_time :: "approval_env \<Rightarrow> string \<Rightarrow> rat \<Rightarrow> rat res" where
  "parse_event_time env t now = (case ae_parse_time env (utc_offset t) of Inl e \<Rightarrow> if e = ValueError then Inr now else Inl e | Inr q \<Rightarrow> Inr q)"

definition parse_expiry :: "approval_env \<Rightarrow> pyval \<Rightarrow> rat option res" where
  "parse_expiry env v =
     (case v of
        PNone \<Rightarrow> Inr None
      | PStr t \<Rightarrow> bindE (catching {ValueError} ApprovalValidationError (ae_parse_time env (utc_offset t))) (\<lambda>q. Inr (Some q))
      | _ \<Rightarrow> Inl ApprovalValidationError)"

definition new_record :: "approval_env \<Rightarrow> rat \<Rightarrow> event_envelope \<Rightarrow> string \<Rightarrow> string \<Rightarrow> approval_record res" where
  "new_record env now e raw scope =
     bindE (parse_expiry env (get_field (PDict (ev_extensions e)) ''approvalexpiresat'')) (\<lambda>expires.
     bindE (parse_event_time env (ev_time e) now) (\<lambda>requested.
       Inr \<lparr>ap_subject = ev_id e, ap_status = ''pending'', ap_request = (raw, sort_keys (envelope_value e)), ap_requested_at = requested,
            ap_expires_at = expires, ap_decision = None, ap_operator_id = None, ap_operation_key = None, ap_decided_at = None,
            ap_event_scope = scope\<rparr>))"

text \<open>A request with a policy is admitted to the protected store before the operation returns.\<close>

definition admit_if_protected ::
  "approval_env \<Rightarrow> approval_state \<Rightarrow> event_envelope \<Rightarrow> string \<Rightarrow> effect_identity option \<Rightarrow> string option \<Rightarrow> approval_read \<Rightarrow>
   approval_state \<times> approval_read res" where
  "admit_if_protected env s e scope origin digest r =
     (if \<not> has_policy (ev_data e) then (s, Inr r)
      else case ae_protected env of
        None \<Rightarrow> (s, Inl ApprovalValidationError)
      | Some cfg \<Rightarrow> (case admit env cfg s (ev_id e) scope e origin digest of Inl x \<Rightarrow> (s, Inl x) | Inr s' \<Rightarrow> (s', Inr r)))"

definition create_request ::
  "approval_env \<Rightarrow> approval_state \<Rightarrow> rat \<Rightarrow> rat \<Rightarrow> event_envelope \<Rightarrow> string \<Rightarrow> effect_identity option \<Rightarrow> string option \<Rightarrow>
   approval_state \<times> approval_read res" where
  "create_request env s now later e scope origin digest =
     (if ev_type e \<noteq> APPROVAL_REQUEST_EVENT then (s, Inl ApprovalValidationError)
      else if has_policy (ev_data e) \<and> (ae_protected env = None \<or> origin = None \<or> digest = None) then (s, Inl ApprovalValidationError)
      else if ev_subject e = Some [] \<or> ev_subject e \<noteq> Some (ev_id e) then (s, Inl ApprovalValidationError)
      else case get_approval env s now (ev_id e) of
        (s', Inl x) \<Rightarrow> (s', Inl x)
      | (s', Inr existing) \<Rightarrow>
          (case envelope_raw (ae_float_repr env) e of
             Inl x \<Rightarrow> (s', Inl x)
           | Inr raw \<Rightarrow>
               (case existing of
                  Some r \<Rightarrow>
                    if fst (ap_request (rd_record r)) \<noteq> raw \<or> ap_event_scope (rd_record r) \<noteq> scope then (s', Inl ApprovalConflict)
                    else admit_if_protected env s' e scope origin digest r
                | None \<Rightarrow>
                    (case new_record env later e raw scope of
                       Inl x \<Rightarrow> (s', Inl x)
                     | Inr a \<Rightarrow> admit_if_protected env (s'\<lparr>at_rows := at_rows s' @ [(ev_id e, a)]\<rparr>) e scope origin digest
                                  \<lparr>rd_id = ev_id e, rd_record = a, rd_assignment = None\<rparr>))))"

section \<open>Decisions\<close>

definition decided_envelope ::
  "approval_env \<Rightarrow> approval_read \<Rightarrow> string \<Rightarrow> string \<Rightarrow> pyval \<Rightarrow> string option \<Rightarrow> string \<Rightarrow> rat \<Rightarrow> event_envelope" where
  "decided_envelope env r decision operator v key uuid now =
     \<lparr>ev_id = (if key = None \<or> key = Some [] then uuid else the key), ev_source = ''urn:open-workflow-agent:approvals'',
      ev_type = APPROVAL_DECISION_EVENT, ev_time = ae_timestamp env now, ev_subject = Some (ap_subject (rd_record r)),
      ev_datacontenttype = Some ''application/json'', ev_dataschema = None,
      ev_data = PDict [(''approval_id'', PStr (rd_id r)), (''decision'', PStr decision), (''operator_id'', PStr operator), (''value'', v)],
      ev_extensions = [(''approvalid'', PStr (rd_id r))], ev_data_present = False\<rparr>"

text \<open>The same decision by the same operator under the same operation key.\<close>

definition same_decision :: "approval_record \<Rightarrow> string \<Rightarrow> string \<Rightarrow> pyval \<Rightarrow> string option \<Rightarrow> bool" where
  "same_decision a decision operator v key \<longleftrightarrow> ap_status a = decision \<and> key \<noteq> None \<and> ap_operation_key a = key \<and> ap_operator_id a = Some operator
     \<and> (case ap_decision a of None \<Rightarrow> False | Some (t, d) \<Rightarrow> py_eq (get_field (get_field d ''data'') ''value'') v)"

definition decide_pending ::
  "approval_env \<Rightarrow> approval_state \<Rightarrow> rat \<Rightarrow> string \<Rightarrow> approval_read \<Rightarrow> string \<Rightarrow> string \<Rightarrow> pyval \<Rightarrow> string option \<Rightarrow>
   (approval_state \<times> approval_read) res" where
  "decide_pending env s now uuid r decision operator v key =
     (let event = decided_envelope env r decision operator v key uuid now in
      bindE (guardE (key = None \<or> key = Some [] \<or> list_all (\<lambda>(k, a). k = rd_id r \<or> ap_operation_key a \<noteq> key) (at_rows s)) ApprovalConflict) (\<lambda>_.
      bindE (envelope_raw (ae_float_repr env) event) (\<lambda>raw.
      let d = (raw, sort_keys (envelope_value event)) in
      bindE (settle s (rd_id r) decision d operator key now) (\<lambda>s'.
        Inr (s', r\<lparr>rd_record := (rd_record r)\<lparr>ap_status := decision, ap_decision := Some d, ap_operator_id := Some operator,
                   ap_operation_key := key, ap_decided_at := Some now\<rparr>\<rparr>)))))"

definition decide_approval ::
  "approval_env \<Rightarrow> approval_state \<Rightarrow> rat \<Rightarrow> rat \<Rightarrow> string \<Rightarrow> string \<Rightarrow> string \<Rightarrow> string \<Rightarrow> pyval \<Rightarrow> string option \<Rightarrow>
   approval_state \<times> approval_read res" where
  "decide_approval env s now later uuid aid decision operator v key =
     (if decision \<notin> set APPROVAL_DECISIONS then (s, Inl ApprovalValidationError)
      else if str_strip operator = [] then (s, Inl ApprovalValidationError)
      else case get_approval env s now aid of
        (s', Inl x) \<Rightarrow> (s', Inl x)
      | (s', Inr None) \<Rightarrow> (s', Inl ApprovalNotFound)
      | (s', Inr (Some r)) \<Rightarrow>
          if rd_assignment r \<noteq> None then (s', Inl ApprovalValidationError)
          else if ap_status (rd_record r) = ''expired'' then (s', Inl ApprovalConflict)
          else if ap_status (rd_record r) \<in> set APPROVAL_DECISIONS then
            (s', if same_decision (rd_record r) decision operator v key then Inr r else Inl ApprovalConflict)
          else case decide_pending env s' later uuid r decision operator v key of
            Inl x \<Rightarrow> (s', Inl x)
          | Inr (s'', r') \<Rightarrow> (s'', Inr r'))"

text \<open>A decision that is already recorded answers a listener at once.\<close>

definition decision_for_strategy ::
  "approval_env \<Rightarrow> approval_state \<Rightarrow> rat \<Rightarrow> (string \<times> pyval) list \<Rightarrow> approval_state \<times> event_envelope option res" where
  "decision_for_strategy env s now strategy =
     (case get_field (get_field (PDict strategy) ''one'') ''with'' of
        PDict f \<Rightarrow>
          if get_field (PDict f) ''type'' \<noteq> PStr APPROVAL_DECISION_EVENT then (s, Inr None)
          else (case get_field (PDict f) ''subject'' of
            PStr subject \<Rightarrow>
              if subject = [] then (s, Inl ApprovalValidationError)
              else (case get_approval env s now subject of
                (s', Inl x) \<Rightarrow> (s', Inl x)
              | (s', Inr None) \<Rightarrow> (s', Inr None)
              | (s', Inr (Some r)) \<Rightarrow>
                  (s', if ap_status (rd_record r) \<notin> set APPROVAL_DECISIONS \<or> ap_event_scope (rd_record r) \<noteq> DEFAULT_EVENT_SCOPE then Inr None
                       else case ap_decision (rd_record r) of
                         None \<Rightarrow> Inr None
                       | Some (t, d) \<Rightarrow>
                           if list_all (\<lambda>(k, expected). py_eq (get_field d k) expected) f
                           then bindE (envelope_of env d) (\<lambda>e. Inr (Some e)) else Inr None))
          | _ \<Rightarrow> (s, Inl ApprovalValidationError))
      | _ \<Rightarrow> (s, Inr None))"

text \<open>The guard the matcher applies to every candidate: a decision event counts only when it is the one the table has.\<close>

definition matches_committed_decision :: "approval_env \<Rightarrow> approval_state \<Rightarrow> pyval \<Rightarrow> event_envelope \<Rightarrow> bool res" where
  "matches_committed_decision env s selected e =
     (case get_field selected ''with'' of
        PDict properties \<Rightarrow>
          if get_field (PDict properties) ''type'' \<noteq> PStr APPROVAL_DECISION_EVENT then Inr True
          else if ev_type e \<noteq> APPROVAL_DECISION_EVENT \<or> ev_subject e = None \<or> ev_subject e = Some [] then Inr False
          else
            let subject = (case get_field (PDict properties) ''subject'' of
                             PStr x \<Rightarrow> if has_expression x then the (ev_subject e) else x
                           | _ \<Rightarrow> the (ev_subject e)) in
            (case dict_get (at_rows s) subject of
               None \<Rightarrow> Inr False
             | Some a \<Rightarrow>
                 if ap_status a \<notin> set (APPROVAL_DECISIONS @ [''expired'']) then Inr False
                 else bindE (envelope_raw (ae_float_repr env) e) (\<lambda>raw.
                   Inr (map_option fst (ap_decision a) = Some raw \<and> Some (ap_subject a) = ev_subject e)))
      | _ \<Rightarrow> Inr True)"

section \<open>The bus\<close>

text \<open>
  A transaction of the event store over the whole connection: nothing is kept when it raises. The
  participant of a publication is part of it.
\<close>

definition approval_transaction :: "approval_state \<Rightarrow> (approval_state \<times> 'a) res \<Rightarrow> approval_state \<times> 'a res" where
  "approval_transaction s body =
     (case event_transaction (at_events s) body of Inl e \<Rightarrow> (s, Inl e) | Inr (s', a) \<Rightarrow> (s', Inr a))"

definition request_participant ::
  "approval_env \<Rightarrow> approval_state \<Rightarrow> rat \<Rightarrow> rat \<Rightarrow> event_envelope \<Rightarrow> string \<Rightarrow> effect_identity option \<Rightarrow> string option \<Rightarrow> approval_state res" where
  "request_participant env s now later e scope origin digest =
     (if ev_type e = APPROVAL_REQUEST_EVENT
      then (case create_request env s now later e scope origin digest of (s', Inl x) \<Rightarrow> Inl x | (s', Inr r) \<Rightarrow> Inr s')
      else Inr s)"

text \<open>
  \<^verbatim>\<open>publish_scoped\<close> over the durable bus. The participant runs last and, since such an event has no policy,
  writes only the table of approvals; what it does there is applied to the envelope the store accepted.
\<close>

definition publish_scoped ::
  "approval_env \<Rightarrow> approval_state \<Rightarrow> rat \<Rightarrow> rat \<Rightarrow> string \<Rightarrow> string \<Rightarrow> rat \<Rightarrow> (string \<times> pyval) list \<Rightarrow> string \<Rightarrow> string \<Rightarrow>
   approval_state \<times> event_envelope res" where
  "publish_scoped env s now later uuid clock stored properties default_source scope =
     (let kind = get_field (PDict properties) ''type'' in
      if kind = PStr APPROVAL_DECISION_EVENT then (s, Inl ValueError)
      else if kind = PStr APPROVAL_REQUEST_EVENT \<and> has_policy (get_field (PDict properties) ''data'') then (s, Inl ApprovalValidationError)
      else approval_transaction s
        (bindE (ingest_in_transaction (ae_event env) (at_events s) uuid clock stored properties default_source scope
            (\<lambda>e. bindE (request_participant env s now later e scope None None) (\<lambda>_. Inr ()))) (\<lambda>(st, e).
         bindE (request_participant env s now later e scope None None) (\<lambda>s'. Inr (s'\<lparr>at_events := st\<rparr>, e)))))"

text \<open>
  \<^verbatim>\<open>publish_workflow_event\<close>: the body of \<^verbatim>\<open>publish_effect\<close> with the participant between the capacity check and the
  outbox row. The rest of the publication starts from what the participant wrote; it repeats the
  two checks, which read nothing the participant can have changed.
\<close>

definition publish_request_new ::
  "approval_env \<Rightarrow> approval_state \<Rightarrow> rat \<Rightarrow> rat \<Rightarrow> string \<Rightarrow> string \<Rightarrow> rat \<Rightarrow> effect_identity \<Rightarrow> string \<Rightarrow> (string \<times> pyval) list \<Rightarrow> string \<Rightarrow> string \<Rightarrow>
   string option \<Rightarrow> (approval_state \<times> effect_receipt) res" where
  "publish_request_new env s now later uuid clock stored i request properties default_source scope opid =
     bindE (canonical_submission (ae_event env) (at_events s) uuid clock properties default_source scope) (\<lambda>e.
     bindE (canonical (ae_event env) (envelope_value e)) (\<lambda>_.
     bindE (check_capacity (ae_event env) (at_events s) e scope True) (\<lambda>_.
     bindE (request_participant env s now later e scope (Some i) (Some request)) (\<lambda>s'.
     bindE (publish_new (ae_event env) (at_events s') uuid clock stored i request properties default_source scope opid (\<lambda>_. Inr ())) (\<lambda>(st, r).
       Inr (s'\<lparr>at_events := st\<rparr>, r))))))"

definition publish_workflow_event ::
  "approval_env \<Rightarrow> approval_state \<Rightarrow> fence \<Rightarrow> rat \<Rightarrow> rat \<Rightarrow> string \<Rightarrow> string \<Rightarrow> rat \<Rightarrow> effect_identity \<Rightarrow> string \<Rightarrow> (string \<times> pyval) list \<Rightarrow> string \<Rightarrow>
   string \<Rightarrow> string option \<Rightarrow> approval_state \<times> effect_receipt res" where
  "publish_workflow_event env s fc now later uuid clock stored i request properties default_source scope opid =
     (if get_field (PDict properties) ''type'' = PStr APPROVAL_DECISION_EVENT then (s, Inl ValueError)
      else
        let ee = ae_event env; st = at_events s in
        case bindE (guardE (ei_operation i = ''emit'') WorkflowExecutionError) (\<lambda>_.
             bindE (check_scope scope) (\<lambda>_.
             event_owned st fc i
               (bindE (bound_scope ee st i scope) (\<lambda>_.
                bindE (get_effect (ee_journal ee) (st_journal st) i) (\<lambda>existing.
                  case existing of
                    Some r \<Rightarrow>
                      bindE (guardE (rc_status r = ''completed'' \<and> rc_request_digest r = request) WorkflowExecutionError) (\<lambda>_.
                      bindE (verify_outbox ee st i r) (\<lambda>_. Inr (s, r)))
                  | None \<Rightarrow>
                      bindE (guardE (\<not> ee_terminal ee (ei_invocation_id i)) InvocationStateConflict) (\<lambda>_.
                        publish_request_new env s now later uuid clock stored i request properties default_source scope opid)))))) of
          Inl x \<Rightarrow> (s, Inl x)
        | Inr (s', r) \<Rightarrow> (s', Inr r))"

section \<open>The service\<close>

text \<open>\<open>sv_bus\<close> is the in-process bus when the service runs without the durable one.\<close>

record approval_service =
  sv_enabled :: bool
  sv_state :: approval_state
  sv_bus :: "event_bus option"
  sv_cursor :: "(rat \<times> string) option"
  sv_errors :: "string list"

text \<open>\<^verbatim>\<open>mutate_protected\<close>: inspection, mutation and the arrival of the decision are one transaction.\<close>

definition mutate_body ::
  "approval_env \<Rightarrow> protected_config \<Rightarrow> approval_state \<Rightarrow> rat \<Rightarrow> string \<Rightarrow> string \<Rightarrow> string \<Rightarrow> int \<Rightarrow> string \<Rightarrow> pyval \<Rightarrow> string option \<Rightarrow>
   (approval_state \<times> event_envelope option) res" where
  "mutate_body env cfg s now aid action actor revision key v assignee =
     bindE (inspect env cfg s aid) (\<lambda>view.
     bindE (mutate env cfg s now aid action actor revision key v assignee) (\<lambda>(s', event).
       case event of
         None \<Rightarrow> Inr (s', None)
       | Some e \<Rightarrow>
           bindE (ingest_in_transaction (ae_event env) (at_events s') ''-'' ''-'' now (envelope_dict e) (ev_source e)
               (case get_field (rv_value view) ''event_scope'' of PStr x \<Rightarrow> x | _ \<Rightarrow> []) (\<lambda>_. Inr ())) (\<lambda>(st, _).
             Inr (s'\<lparr>at_events := st\<rparr>, Some e))))"

definition mutate_protected ::
  "approval_env \<Rightarrow> approval_service \<Rightarrow> rat \<Rightarrow> rat \<Rightarrow> string \<Rightarrow> string \<Rightarrow> string \<Rightarrow> int option \<Rightarrow> string option \<Rightarrow> pyval \<Rightarrow> string option \<Rightarrow> bool \<Rightarrow>
   approval_service \<times> approval_read res" where
  "mutate_protected env sv now later aid action actor revision key v assignee original =
     (if \<not> sv_enabled sv then (sv, Inl ApprovalAuthorizationError)
      else case (ae_protected env, sv_bus sv) of
        (Some cfg, None) \<Rightarrow>
          (case (revision, key) of
             (Some n, Some k) \<Rightarrow>
               if k = [] then (sv, Inl ApprovalValidationError)
               else if action = ''expired'' \<and> \<not> original then (sv, Inl ApprovalAuthorizationError)
               else (case bounded_json env v MAX_APPROVAL_VALUE_BYTES of
                 Inl x \<Rightarrow> (sv, Inl x)
               | Inr _ \<Rightarrow>
                   (case approval_transaction (sv_state sv) (mutate_body env cfg (sv_state sv) now aid action actor n k v assignee) of
                      (s', Inl x) \<Rightarrow> (sv\<lparr>sv_state := s'\<rparr>, Inl x)
                    | (s', Inr _) \<Rightarrow>
                        (case get_approval env s' later aid of
                           (s'', Inl x) \<Rightarrow> (sv\<lparr>sv_state := s''\<rparr>, Inl x)
                         | (s'', Inr None) \<Rightarrow> (sv\<lparr>sv_state := s''\<rparr>, Inl AssertionError)
                         | (s'', Inr (Some r)) \<Rightarrow> (sv\<lparr>sv_state := s''\<rparr>, Inr r))))
           | _ \<Rightarrow> (sv, Inl ApprovalValidationError))
      | _ \<Rightarrow> (sv, Inl ApprovalAuthorizationError))"

text \<open>\<^verbatim>\<open>ApprovalService.decide\<close>: the row and the arrival of its event commit together.\<close>

definition decide_body ::
  "approval_env \<Rightarrow> approval_state \<Rightarrow> rat \<Rightarrow> rat \<Rightarrow> rat \<Rightarrow> string \<Rightarrow> string \<Rightarrow> string \<Rightarrow> string \<Rightarrow> pyval \<Rightarrow> string option \<Rightarrow>
   (approval_state \<times> approval_read) res" where
  "decide_body env s now later stored uuid aid decision operator v key =
     (case decide_approval env s now later uuid aid decision operator v key of
        (s', Inl x) \<Rightarrow> Inl x
      | (s', Inr r) \<Rightarrow>
          (case map_option snd (ap_decision (rd_record r)) of
             Some (PDict d) \<Rightarrow>
               bindE (ingest_in_transaction (ae_event env) (at_events s') ''-'' ''-'' stored d ''urn:open-workflow-agent:approvals''
                   (ap_event_scope (rd_record r)) (\<lambda>_. Inr ())) (\<lambda>(st, _). Inr (s'\<lparr>at_events := st\<rparr>, r))
           | _ \<Rightarrow> Inl AssertionError))"

definition decide_legacy ::
  "approval_env \<Rightarrow> approval_service \<Rightarrow> rat \<Rightarrow> rat \<Rightarrow> rat \<Rightarrow> string \<Rightarrow> string \<Rightarrow> string \<Rightarrow> string \<Rightarrow> pyval \<Rightarrow> string option \<Rightarrow>
   approval_service \<times> approval_read res" where
  "decide_legacy env sv now later stored uuid aid decision operator v key =
     (case sv_bus sv of
        None \<Rightarrow>
          (case approval_transaction (sv_state sv) (decide_body env (sv_state sv) now later stored uuid aid decision operator v key) of
             (s', r) \<Rightarrow> (sv\<lparr>sv_state := s'\<rparr>, r))
      | Some bus \<Rightarrow>
          (case decide_approval env (sv_state sv) now later uuid aid decision operator v key of
             (s', Inl x) \<Rightarrow> (sv\<lparr>sv_state := s'\<rparr>, Inl x)
           | (s', Inr r) \<Rightarrow>
               (case map_option snd (ap_decision (rd_record r)) of
                  Some (PDict d) \<Rightarrow>
                    (case bus_publish ''-'' ''-'' bus d ''urn:open-workflow-agent:approvals'' of
                       Inl x \<Rightarrow> (sv\<lparr>sv_state := s'\<rparr>, Inl x)
                     | Inr (bus', _) \<Rightarrow> (sv\<lparr>sv_state := s', sv_bus := Some bus'\<rparr>, Inr r))
                | _ \<Rightarrow> (sv\<lparr>sv_state := s'\<rparr>, Inl AssertionError))))"

definition service_decide ::
  "approval_env \<Rightarrow> approval_service \<Rightarrow> rat \<Rightarrow> rat \<Rightarrow> rat \<Rightarrow> rat \<Rightarrow> string \<Rightarrow> string \<Rightarrow> string \<Rightarrow> string \<Rightarrow> pyval \<Rightarrow> string option \<Rightarrow> int option \<Rightarrow>
   string option \<Rightarrow> approval_service \<times> approval_read res" where
  "service_decide env sv before now later stored uuid aid decision operator v key revision actor =
     (if \<not> sv_enabled sv then (sv, Inl ApprovalAuthorizationError)
      else case actor of
        Some who \<Rightarrow>
          if who \<noteq> operator \<or> ae_protected env = None \<or> \<not> contains_request (sv_state sv) aid then (sv, Inl ApprovalAuthorizationError)
          else mutate_protected env sv now later aid decision who revision key v None False
      | None \<Rightarrow>
          (case get_approval env (sv_state sv) before aid of
             (s', Inl x) \<Rightarrow> (sv\<lparr>sv_state := s'\<rparr>, Inl x)
           | (s', Inr found) \<Rightarrow>
               if (case found of None \<Rightarrow> False | Some r \<Rightarrow> rd_assignment r \<noteq> None)
               then (sv\<lparr>sv_state := s'\<rparr>, Inl ApprovalAuthorizationError)
               else decide_legacy env (sv\<lparr>sv_state := s'\<rparr>) now later stored uuid aid decision operator v key))"

section \<open>The expiry process\<close>

text \<open>One page of due protected requests, after the cursor of the previous page.\<close>

definition due_page :: "approval_state \<Rightarrow> rat \<Rightarrow> (rat \<times> string) option \<Rightarrow> nat \<Rightarrow> (string \<times> int \<times> rat) list" where
  "due_page s now cursor bound =
     take bound (sort_key (\<lambda>(k, n, t). (t, k))
       (concat (map (\<lambda>(k, r). case dict_get (at_rows s) k of
           Some a \<Rightarrow> (case ap_expires_at a of
               Some t \<Rightarrow> if ap_status a = ''pending'' \<and> t \<le> now \<and> (case cursor of None \<Rightarrow> True | Some (ct, ck) \<Rightarrow> ct < t \<or> ct = t \<and> ck < k)
                          then [(k, pr_revision r, t)] else []
             | None \<Rightarrow> [])
         | None \<Rightarrow> []) (at_requests s))))"

definition expiry_error :: "exn \<Rightarrow> string" where
  "expiry_error e =
     (case exn_code e of
        Some code \<Rightarrow> if code \<in> set [''approval_authorization_error'', ''approval_validation_error'', ''configuration_error'',
            ''workflow_execution_error'', ''event_validation_error''] then code else ''approval_expiry_rejected''
      | None \<Rightarrow> [])"

text \<open>The loop: a conflict is passed over, another failure of the runtime is noted, anything else ends the pass.\<close>

fun expire_items :: "approval_env \<Rightarrow> rat \<Rightarrow> approval_service \<Rightarrow> nat \<Rightarrow> (string \<times> int \<times> rat) list \<Rightarrow> approval_service \<times> nat res" where
  "expire_items env now sv n [] = (sv, Inr n)"
| "expire_items env now sv n ((aid, revision, expires) # items) =
     (case mutate_protected env (sv\<lparr>sv_cursor := Some (expires, aid)\<rparr>) now now aid ''expired'' ''system:approval-expiry''
             (Some revision) (Some (''expiry:'' @ aid)) PNone None True of
        (sv', Inr _) \<Rightarrow> expire_items env now sv' (n + 1) items
      | (sv', Inl e) \<Rightarrow>
          if e = ApprovalConflict then expire_items env now sv' n items
          else if is_owa_error e then
            expire_items env now (sv'\<lparr>sv_errors := (let es = sv_errors sv' @ [expiry_error e] in drop (length es - 100) es)\<rparr>) n items
          else (sv', Inl e))"

definition expire_protected :: "approval_env \<Rightarrow> approval_service \<Rightarrow> rat \<Rightarrow> int \<Rightarrow> approval_service \<times> nat res" where
  "expire_protected env sv now bound =
     (if ae_protected env = None then (sv, Inr 0)
      else if \<not> (1 \<le> bound \<and> bound \<le> 1000) then (sv, Inl ApprovalValidationError)
      else
        let page = due_page (sv_state sv) now (sv_cursor sv) (nat bound) in
        if page = [] \<and> sv_cursor sv \<noteq> None
        then expire_items env now (sv\<lparr>sv_cursor := None\<rparr>) 0 (due_page (sv_state sv) now None (nat bound))
        else expire_items env now sv 0 page)"

text \<open>\<^verbatim>\<open>visible_record\<close>: what an authenticated actor may read.\<close>

definition visible_record :: "approval_env \<Rightarrow> approval_state \<Rightarrow> rat \<Rightarrow> string \<Rightarrow> string \<Rightarrow> approval_state \<times> approval_read res" where
  "visible_record env s now aid actor =
     (case ae_protected env of
        None \<Rightarrow> (s, Inl ApprovalAuthorizationError)
      | Some cfg \<Rightarrow>
          if \<not> contains_request s aid then (s, Inl ApprovalNotFound)
          else (case inspect env cfg s aid of
            Inl x \<Rightarrow> (s, Inl x)
          | Inr view \<Rightarrow>
              if actor \<notin> set (policy_actors (rv_policy view)) then (s, Inl ApprovalAuthorizationError)
              else (case get_approval env s now aid of
                (s', Inl x) \<Rightarrow> (s', Inl x)
              | (s', Inr None) \<Rightarrow> (s', Inl ApprovalNotFound)
              | (s', Inr (Some r)) \<Rightarrow> (s', Inr r))))"

end
