(* ===== verification/Stored_Json.thy ===== *)
theory Stored_Json
  imports Effect_Journal "HOL-Library.Multiset"
begin

text \<open>
  Values as a database column gives them back: with their keys sorted. The lemmas show that sorting
  the keys changes neither Python's equality nor a field nor the size of the text, and how the size
  of a text is made up of the sizes of its parts.
\<close>

section \<open>Stored values read back\<close>

lemma map_of_sort_fst: "dict_wf d \<Longrightarrow> map_of (sort_key fst d) = map_of d"
  by (intro map_of_inject_set [THEN iffD2]) (auto simp: dict_wf_def distinct_map intro: inj_on_subset)

lemma map_of_map_snd: "map_of (map (\<lambda>kv. (fst kv, f (snd kv))) d) k = map_option f (map_of d k)"
  by (induction d) auto

lemma dict_wf_map_snd: "dict_wf (map (\<lambda>kv. (fst kv, f (snd kv))) d) = dict_wf d"
  by (simp add: dict_wf_def comp_def)

lemma field_sort_keys:
  assumes "wf_val v"
  shows "field (sort_keys v) k = map_option sort_keys (field v k)"
  using assms by (cases v) (auto simp: field_def map_of_sort_fst dict_wf_map_snd map_of_map_snd)

lemma get_field_field: "get_field v k = (case field v k of None \<Rightarrow> PNone | Some x \<Rightarrow> x)"
  by (auto simp: get_field_def field_def split: pyval.splits)

lemma wf_val_field: "wf_val v \<Longrightarrow> field v k = Some x \<Longrightarrow> wf_val x"
  by (cases v) (auto simp: field_def dest!: map_of_SomeD)

lemma get_field_sort_keys: "wf_val v \<Longrightarrow> get_field (sort_keys v) k = sort_keys (get_field v k)"
  by (auto simp: get_field_field field_sort_keys split: option.split)

lemma wf_val_sort_keys: "wf_val v \<Longrightarrow> wf_val (sort_keys v)"
proof (induction v)
  case (PDict d)
  let ?m = "map (\<lambda>kv. (fst kv, sort_keys (snd kv))) d"
  have "dict_wf ?m" using PDict.prems by (simp add: dict_wf_map_snd)
  then have "dict_wf (sort_key fst ?m)" by (simp only: dict_wf_def distinct_map distinct_sort set_sort)
  with PDict show ?case by (auto simp: snds.simps)
qed auto

lemma py_eq_sort_keys: "json_ok v \<Longrightarrow> wf_val v \<Longrightarrow> py_eq (sort_keys v) v \<and> py_eq v (sort_keys v)"
proof (induction v)
  case (PFloat f)
  then show ?case by (cases f) (auto simp: safe_float_def num_value_def)
next
  case (PList xs)
  then show ?case by (auto simp: list_all2_conv_all_nth)
next
  case (PDict d)
  let ?m = "map (\<lambda>kv. (fst kv, sort_keys (snd kv))) d"
  have wf: "dict_wf d" using PDict.prems by simp
  have get: "map_of (sort_key fst ?m) k = map_option sort_keys (map_of d k)" for k
    by (simp add: map_of_sort_fst dict_wf_map_snd wf map_of_map_snd)
  have each: "py_eq (sort_keys (snd p)) (snd p) \<and> py_eq (snd p) (sort_keys (snd p))" if "p \<in> set d" for p
    using PDict that by (cases p) (auto simp: snds.simps)
  have lookup: "map_of d (fst p) = Some (snd p)" if "p \<in> set d" for p
    using wf that by (simp add: dict_wf_def)
  show ?case
    using each lookup by (auto simp: list_all_iff get image_image split: option.splits)
qed (auto simp: num_value_def)

section \<open>Sizes of texts\<close>

lemma utf8_length_append [simp]: "utf8_length (s @ t) = utf8_length s + utf8_length t"
  by (simp add: utf8_length_def)

lemma utf8_length_Nil [simp]: "utf8_length [] = 0"
  by (simp add: utf8_length_def)

lemma utf8_length_Cons [simp]: "utf8_length (c # s) = (if (of_char c :: nat) < 128 then 1 else 2) + utf8_length s"
  by (simp add: utf8_length_def)

lemma utf8_length_join:
  "utf8_length (str_join sep ts) = sum_list (map utf8_length ts) + utf8_length sep * (length ts - 1)"
  by (induction sep ts rule: str_join.induct) auto

lemma utf8_length_escape: "utf8_length (json_escape b c) \<le> 12"
  by (auto simp: json_escape_def Let_def)

lemma utf8_length_string: "utf8_length (json_string b s) \<le> 12 * length s + 2"
proof -
  have "utf8_length (concat (map (json_escape b) s)) \<le> 12 * length s"
  proof (induction s)
    case (Cons c s)
    then show ?case using utf8_length_escape [of b c] by simp
  qed simp
  then show ?thesis by (simp add: json_string_def)
qed

definition octets :: "bool \<Rightarrow> (rat \<Rightarrow> string) \<Rightarrow> pyval \<Rightarrow> nat" where
  "octets b fr v = (case json_spaced b fr v of Inr t \<Rightarrow> utf8_length t | Inl _ \<Rightarrow> 0)"

lemma octets_text: "json_spaced b fr v = Inr t \<Longrightarrow> octets b fr v = utf8_length t"
  by (simp add: octets_def)

lemma mapE_all: "(\<And>x. x \<in> set xs \<Longrightarrow> f x = Inr (g x)) \<Longrightarrow> mapE f xs = Inr (map g xs)"
  by (induction xs) auto

definition text_or_empty :: "string res \<Rightarrow> string" where
  "text_or_empty r = (case r of Inr t \<Rightarrow> t | Inl _ \<Rightarrow> [])"

lemma spaced_text: "json_ok v \<Longrightarrow> json_spaced b fr v = Inr (text_or_empty (json_spaced b fr v))"
  using json_spaced_total [of v b fr] by (auto simp: text_or_empty_def)

lemma octets_alt: "json_ok v \<Longrightarrow> utf8_length (text_or_empty (json_spaced b fr v)) = octets b fr v"
  using json_spaced_total [of v b fr] by (auto simp: text_or_empty_def octets_def)

lemma octets_list:
  assumes "json_ok (PList vs)"
  shows "octets b fr (PList vs) = 2 + sum_list (map (octets b fr) vs) + 2 * (length vs - 1)"
proof -
  have ok: "json_ok v" if "v \<in> set vs" for v using assms that by simp
  have "mapE (json_spaced b fr) vs = Inr (map (\<lambda>v. text_or_empty (json_spaced b fr v)) vs)"
    using ok spaced_text by (intro mapE_all) blast
  then have spelled: "json_spaced b fr (PList vs) = Inr (''['' @ str_join '', '' (map (\<lambda>v. text_or_empty (json_spaced b fr v)) vs) @ '']'')"
    by (simp only: json_spaced.simps bindE_simps)
  have "map (\<lambda>v. utf8_length (text_or_empty (json_spaced b fr v))) vs = map (octets b fr) vs"
    using ok octets_alt by simp
  then show ?thesis
    unfolding octets_text [OF spelled] by (simp add: utf8_length_join comp_def del: map_eq_conv)
qed

lemma octets_dict:
  assumes "json_ok (PDict d)"
  shows "octets b fr (PDict d) = 2 + sum_list (map (\<lambda>kv. utf8_length (json_string b (fst kv)) + 2 + octets b fr (snd kv)) d) + 2 * (length d - 1)"
proof -
  have ok: "json_ok (snd kv)" if "kv \<in> set d" for kv using assms that by simp
  let ?g = "\<lambda>kv. json_string b (fst kv) @ '': '' @ text_or_empty (json_spaced b fr (snd kv))"
  have "bindE (json_spaced b fr (snd kv)) (\<lambda>t. Inr (json_string b (fst kv) @ '': '' @ t)) = Inr (?g kv)" if "kv \<in> set d" for kv
    using spaced_text [OF ok [OF that], of b fr] by (metis bindE_simps(2))
  then have "json_spaced b fr (PDict d) = Inr (''{'' @ str_join '', '' (map ?g d) @ ''}'')"
    by (simp only: json_spaced.simps mapE_all [of d _ ?g] bindE_simps)
  moreover have "map (\<lambda>kv. utf8_length (?g kv)) d = map (\<lambda>kv. utf8_length (json_string b (fst kv)) + 2 + octets b fr (snd kv)) d"
    using ok octets_alt by simp
  ultimately show ?thesis
    by (simp only: octets_text utf8_length_append utf8_length_join map_map comp_def length_map) simp
qed

lemma sum_list_sort: "sum_list (map (f :: 'a \<Rightarrow> nat) (sort_key g xs)) = sum_list (map f xs)"
  by (metis mset_map mset_sort sum_mset_sum_list)

lemma octets_sort_keys: "json_ok v \<Longrightarrow> octets b fr (sort_keys v) = octets b fr v"
proof (induction v)
  case (PList xs)
  have "octets b fr (sort_keys x) = octets b fr x" if "x \<in> set xs" for x using PList that by simp
  then have "map (octets b fr \<circ> sort_keys) xs = map (octets b fr) xs" by simp
  then have "sum_list (map (octets b fr \<circ> sort_keys) xs) = sum_list (map (octets b fr) xs)" by (rule arg_cong)
  moreover have "json_ok (PList (map sort_keys xs))" using PList.prems by simp
  ultimately show ?case using octets_list [of "map sort_keys xs" b fr] octets_list [OF PList.prems, of b fr] by simp
next
  case (PDict d)
  let ?m = "map (\<lambda>kv. (fst kv, sort_keys (snd kv))) d"
  have "octets b fr (sort_keys (snd kv)) = octets b fr (snd kv)" if "kv \<in> set d" for kv
    using PDict that by (cases kv) (auto simp: snds.simps)
  then have "map ((\<lambda>kv. utf8_length (json_string b (fst kv)) + 2 + octets b fr (snd kv)) \<circ> (\<lambda>kv. (fst kv, sort_keys (snd kv)))) d
      = map (\<lambda>kv. utf8_length (json_string b (fst kv)) + 2 + octets b fr (snd kv)) d" by simp
  moreover have "json_ok (PDict (sort_key fst ?m))" using PDict.prems by simp
  ultimately show ?case
    using octets_dict [of "sort_key fst ?m" b fr] octets_dict [OF PDict.prems, of b fr]
    by (simp only: sort_keys.simps sum_list_sort length_sort length_map map_map)
qed simp_all

lemma octets_field:
  assumes "json_ok (PDict d)" "(k, v) \<in> set d"
  shows "octets b fr v \<le> octets b fr (PDict d)"
proof -
  have "(\<lambda>kv. utf8_length (json_string b (fst kv)) + 2 + octets b fr (snd kv)) (k, v)
      \<le> sum_list (map (\<lambda>kv. utf8_length (json_string b (fst kv)) + 2 + octets b fr (snd kv)) d)"
    using assms(2) by (intro member_le_sum_list) (simp_all only: set_map image_eqI)
  then show ?thesis using octets_dict [OF assms(1), of b fr] by simp
qed

lemma sum_list_pointwise: "list_all2 (\<lambda>t u. utf8_length t \<le> utf8_length u) ts us \<Longrightarrow>
    sum_list (map utf8_length ts) \<le> sum_list (map utf8_length us)"
  by (induction rule: list_all2_induct) auto

lemma compact_octets: "json_dumps b fr v = Inr t \<Longrightarrow> json_spaced b fr v = Inr u \<Longrightarrow> utf8_length t \<le> utf8_length u"
proof (induction v arbitrary: t u)
  case (PList vs)
  obtain ts us where t: "mapE (json_dumps b fr) vs = Inr ts" "t = ''['' @ str_join '','' ts @ '']''"
    and u: "mapE (json_spaced b fr) vs = Inr us" "u = ''['' @ str_join '', '' us @ '']''"
    using PList.prems by auto
  have "list_all2 (\<lambda>x y. utf8_length x \<le> utf8_length y) ts us"
    using t(1) u(1) PList.IH unfolding mapE_Inr_iff list_all2_conv_all_nth by (metis nth_mem)
  from sum_list_pointwise [OF this] list_all2_lengthD [OF this]
  show ?case by (simp add: t(2) u(2) utf8_length_join)
next
  case (PDict d)
  obtain ts us where t: "mapE (\<lambda>kv. bindE (json_dumps b fr (snd kv)) (\<lambda>t. Inr (json_string b (fst kv) @ '':'' @ t))) d = Inr ts" "t = ''{'' @ str_join '','' ts @ ''}''"
    and u: "mapE (\<lambda>kv. bindE (json_spaced b fr (snd kv)) (\<lambda>t. Inr (json_string b (fst kv) @ '': '' @ t))) d = Inr us" "u = ''{'' @ str_join '', '' us @ ''}''"
    using PDict.prems by auto
  have each: "utf8_length x \<le> utf8_length y"
    if xy: "bindE (json_dumps b fr (snd kv)) (\<lambda>t. Inr (json_string b (fst kv) @ '':'' @ t)) = Inr x"
      "bindE (json_spaced b fr (snd kv)) (\<lambda>t. Inr (json_string b (fst kv) @ '': '' @ t)) = Inr y" "kv \<in> set d" for x y kv
  proof -
    obtain p q where "json_dumps b fr (snd kv) = Inr p" "x = json_string b (fst kv) @ '':'' @ p"
      "json_spaced b fr (snd kv) = Inr q" "y = json_string b (fst kv) @ '': '' @ q" using xy by auto
    then show ?thesis using PDict.IH [of kv "snd kv" p q] xy(3) by (cases kv) (auto simp: snds.simps)
  qed
  have "list_all2 (\<lambda>x y. utf8_length x \<le> utf8_length y) ts us"
    using t(1) u(1) each unfolding mapE_Inr_iff list_all2_conv_all_nth by (metis nth_mem)
  from sum_list_pointwise [OF this] list_all2_lengthD [OF this]
  show ?case by (simp add: t(2) u(2) utf8_length_join)
qed auto

end
