(* ===== verification/Approval_Chain.thy ===== *)
theory Approval_Chain
  imports Approvals Event_Capacity Stored_Json
begin

text \<open>
  The writer and the verifier of protected approvals agree. The lemmas follow a mutation through
  the tables: receipts that were readable stay readable, the audit list gets one entry at its end,
  and the chain of the verifier takes exactly one step.
\<close>

section \<open>Receipts stay readable\<close>

definition protected_receipt :: "string \<Rightarrow> pyval \<Rightarrow> effect_receipt" where
  "protected_receipt digest v = (pending_receipt digest ''protected-approvals-v1'' None)\<lparr>rc_status := ''completed'', rc_output := v\<rparr>"

lemma known_receiptE:
  assumes "known_receipt env v operation = Inr r"
  obtains digest where "effect_request_digest (ae_journal env) operation v = Inr digest" "r = protected_receipt digest v"
    "make_receipt (protected_receipt digest v) = Inr (protected_receipt digest v)"
  using assms make_receipt_eq unfolding known_receipt_def protected_receipt_def [symmetric] by auto

lemma protected_receipt_fields [simp]:
  "rc_request_digest (protected_receipt digest v) = digest" "rc_owner (protected_receipt digest v) = ''protected-approvals-v1''"
  "rc_status (protected_receipt digest v) = ''completed''" "rc_output (protected_receipt digest v) = v"
  "rc_error (protected_receipt digest v) = PNone" "rc_child (protected_receipt digest v) = None"
  "rc_external (protected_receipt digest v) = None" "rc_operation_id (protected_receipt digest v) = None"
  "rc_error_status_code (protected_receipt digest v) = None"
  by (simp_all add: protected_receipt_def pending_receipt_def)

lemma protected_receipt_inject [simp]: "protected_receipt a v = protected_receipt b w \<longleftrightarrow> a = b \<and> v = w"
  by (auto simp: protected_receipt_def pending_receipt_def)

lemma receipt_eq_status: "receipt_eq a b \<Longrightarrow> rc_status a = rc_status b"
  by (cases a; cases b) (auto simp: receipt_eq_def)

lemma receipt_is_known:
  assumes "receipt_is found r" "known_receipt env v operation = Inr r"
  obtains x where "found = Some x" "rc_status x = ''completed''" "receipt_eq x r"
proof -
  obtain x where x: "found = Some x" "receipt_eq x r" using assms(1) by (auto simp: receipt_is_def split: option.splits)
  moreover have "rc_status r = ''completed''" using assms(2) by (auto elim: known_receiptE)
  ultimately show thesis using that receipt_eq_status by metis
qed

lemma stored_receipt_rows:
  assumes "stored_receipt env j i = Inr (Some r)"
  obtains row index where "jr_effects j (effect_key (ae_journal env) i) = Some row" "jr_index j (effect_key (ae_journal env) i) = Some index"
    "er_status row = rc_status r"
  using assms unfolding stored_receipt_def by (auto split: option.splits)

lemma stored_receipt_grows:
  assumes found: "stored_receipt env j i = Inr (Some r)" and fixed: "rc_status r \<noteq> ''pending''" and grows: "journal_grows j j'"
  shows "stored_receipt env j' i = Inr (Some r)"
proof -
  obtain row index where rows: "jr_effects j (effect_key (ae_journal env) i) = Some row" "jr_index j (effect_key (ae_journal env) i) = Some index"
    and "er_status row = rc_status r" using found by (rule stored_receipt_rows)
  then have "jr_effects j' (effect_key (ae_journal env) i) = Some row" "jr_index j' (effect_key (ae_journal env) i) = Some index"
    using grows fixed by (auto simp: journal_grows_def row_later_def) (metis option.inject)+
  then show ?thesis using found unfolding stored_receipt_def rows by simp
qed

section \<open>The chain takes one step\<close>

lemma py_eq_PInt [simp]: "py_eq (PInt a) (PInt b) = (a = b)"
  by (simp add: num_value_def)

lemma has_value_field: "has_value v k w \<Longrightarrow> py_eq (get_field v k) w"
  by (auto simp: has_value_def get_field_field split: option.splits)

lemma verify_entry_step:
  assumes "verify_entry env j aid origin policy expires c e = Inr c'"
  shows "au_revision e = ch_revision c + 1 \<and> ch_revision c' = ch_revision c + 1 \<and> ch_terminal c = None"
proof -
  obtain item n where shape: "item_shape aid c e item" and n: "(case get_field item ''revision'' of PInt n \<Rightarrow> Inr n | _ \<Rightarrow> Inl ValueError) = (Inr n :: int res)"
    and c': "ch_revision c' = n"
    using assms unfolding verify_entry_def by (auto simp only: bindE_eq_Inr guardE_eq_Inr split_paired_Ex prod.case chain_state.simps sum.inject)
  have "get_field item ''revision'' = PInt n" using n by (auto split: pyval.splits)
  moreover have "py_eq (get_field item ''revision'') (PInt (ch_revision c + 1))"
    using shape by (intro has_value_field) (simp add: item_shape_def)
  ultimately show ?thesis using shape c' by (simp add: item_shape_def num_value_def)
qed

lemma verify_entry_grows:
  assumes run: "verify_entry env j aid origin policy expires c e = Inr c'" and grows: "journal_grows j j'"
  shows "verify_entry env j' aid origin policy expires c e = Inr c'"
proof -
  obtain item pf n found where
    steps: "load_bounded 524288 (au_payload e) = Inr item" "known_receipt env item MUTATION_POLICY = Inr pf"
      "(case get_field item ''revision'' of PInt n \<Rightarrow> Inr n | _ \<Rightarrow> Inl ValueError) = (Inr n :: int res)"
      "stored_receipt env j (revision_identity origin n) = Inr found" "receipt_is found pf"
    using run unfolding verify_entry_def by (auto simp only: bindE_eq_Inr guardE_eq_Inr)
  obtain x where "found = Some x" "rc_status x = ''completed''" using receipt_is_known [OF steps(5,2)] by metis
  then have "stored_receipt env j' (revision_identity origin n) = Inr found"
    using stored_receipt_grows [OF _ _ grows] steps(4) by simp
  then show ?thesis using run steps unfolding verify_entry_def by (simp only: bindE_simps)
qed

lemma chain_grows:
  "foldE (verify_entry env j aid origin policy expires) c es = Inr c' \<Longrightarrow> journal_grows j j' \<Longrightarrow>
   foldE (verify_entry env j' aid origin policy expires) c es = Inr c'"
  by (induction es arbitrary: c) (auto dest: verify_entry_grows)

lemma chain_revisions:
  "foldE (verify_entry env j aid origin policy expires) c es = Inr c' \<Longrightarrow>
   ch_revision c' = ch_revision c + int (length es) \<and> (\<forall>e \<in> set es. au_revision e \<le> ch_revision c') \<and> sorted_wrt (\<lambda>a b. au_revision a < au_revision b) es \<and>
   (\<forall>e \<in> set es. ch_revision c < au_revision e)"
proof (induction es arbitrary: c)
  case (Cons e es)
  then obtain d where d: "verify_entry env j aid origin policy expires c e = Inr d" "foldE (verify_entry env j aid origin policy expires) d es = Inr c'"
    by auto
  from verify_entry_step [OF d(1)] Cons.IH [OF d(2)] show ?case by force
qed simp

section \<open>The new entry\<close>

lemma has_value_sorted:
  "wf_val v \<Longrightarrow> field v k = Some x \<Longrightarrow> py_eq (sort_keys x) w \<Longrightarrow> has_value (sort_keys v) k w"
  by (simp add: has_value_def field_sort_keys)

lemma exact_keys_sorted: "wf_val v \<Longrightarrow> exact_keys (sort_keys v) ks = exact_keys v ks"
  by (cases v) (auto simp: exact_keys_def image_image)

lemma bounded_jsonE:
  assumes "bounded_json env v n = Inr t"
  shows "valid_data v" "json_spaced False (ae_float_repr env) (sort_keys v) = Inr t" "int (utf8_length t) \<le> n" "json_ok v"
  using assms by (auto simp: bounded_json_def validate_accepts)

lemma bounded_jsonI:
  "valid_data v \<Longrightarrow> json_spaced False (ae_float_repr env) (sort_keys v) = Inr t \<Longrightarrow> int (utf8_length t) \<le> n \<Longrightarrow> bounded_json env v n = Inr t"
  by (simp add: bounded_json_def)

lemma bounded_json_sorted: "bounded_json env (sort_keys v) n = bounded_json env v n"
proof -
  have "validate_expression_data 0 64 (sort_keys v) = validate_expression_data 0 64 v"
    using validate_cases(1) [of 0 64 v] validate_cases(1) [of 0 64 "sort_keys v"] by (metis exn.distinct validate_sort_keys sum.distinct(1))
  then show ?thesis by (simp add: bounded_json_def sort_keys_idem)
qed

lemma digest_sorted: "effect_request_digest env operation (sort_keys v) = effect_request_digest env operation v"
proof -
  have "validate_expression_data 0 64 (sort_keys v) = validate_expression_data 0 64 v"
    using validate_cases(1) [of 0 64 v] validate_cases(1) [of 0 64 "sort_keys v"] by (metis validate_sort_keys sum.distinct(1))
  then show ?thesis by (simp add: effect_request_digest_def digest_of_def sort_keys_idem)
qed

lemma known_receipt_sorted:
  assumes "known_receipt env v operation = Inr (protected_receipt digest v)"
  shows "known_receipt env (sort_keys v) operation = Inr (protected_receipt digest (sort_keys v))"
  using assms
  by (auto simp: known_receipt_def digest_sorted protected_receipt_def [symmetric] make_receipt_def)

lemma supplied_wf: "wf_val v \<Longrightarrow> wf_val (supplied_value action actor revision assignee v)"
  by (auto simp: supplied_value_def dict_wf_def opt_value_def split: option.split)

lemma supplied_fields:
  "field (supplied_value action actor revision assignee v) ''action'' = Some (PStr action)"
  "field (supplied_value action actor revision assignee v) ''actor'' = Some (PStr actor)"
  "field (supplied_value action actor revision assignee v) ''revision'' = Some (PInt revision)"
  "field (supplied_value action actor revision assignee v) ''assignee'' = Some (opt_value PStr assignee)"
  "field (supplied_value action actor revision assignee v) ''value'' = Some v"
  by (simp_all add: supplied_value_def)

lemma audit_fields:
  "field (audit_item aid revision previous key supplied now event) ''profile'' = Some (PStr MUTATION_PROFILE)"
  "field (audit_item aid revision previous key supplied now event) ''approval_id'' = Some (PStr aid)"
  "field (audit_item aid revision previous key supplied now event) ''revision'' = Some (PInt (revision + 1))"
  "field (audit_item aid revision previous key supplied now event) ''previous_digest'' = Some (PStr previous)"
  "field (audit_item aid revision previous key supplied now event) ''operation_key'' = Some (PStr key)"
  "field (audit_item aid revision previous key supplied now event) ''request'' = Some supplied"
  "field (audit_item aid revision previous key supplied now event) ''recorded_at'' = Some (PFloat (FFin now))"
  "field (audit_item aid revision previous key supplied now event) ''event'' = Some (opt_value envelope_value event)"
  by (simp_all add: audit_item_def)

lemma decision_ok: "key \<noteq> [] \<Longrightarrow> envelope_ok (decision_envelope env aid action actor revision key v now)"
  by (simp add: decision_envelope_def envelope_ok_def known_fields_def dict_wf_def)

lemma decision_dict:
  assumes "key \<noteq> []"
  shows "envelope_dict (decision_envelope env aid action actor revision key v now) =
    [(''id'', PStr key), (''source'', PStr ''urn:open-workflow-agent:approvals''), (''type'', PStr ''io.openworkflow.agent.approval.decided''),
     (''time'', PStr (ae_timestamp env now)), (''subject'', PStr aid), (''datacontenttype'', PStr ''application/json''),
     (''data'', PDict [(''approvalProfile'', PStr PROTECTED_APPROVAL_PROFILE), (''approval_id'', PStr aid), (''decision'', PStr action),
        (''operator_id'', PStr actor), (''value'', v), (''revision'', PInt (revision + 1))]),
     (''approvalid'', PStr aid)]"
  unfolding envelope_dict_ok [OF decision_ok [OF assms]]
  by (simp add: envelope_head_def decision_envelope_def opt_entry_def)

lemma decision_wf: "key \<noteq> [] \<Longrightarrow> wf_val v \<Longrightarrow> wf_val (envelope_value (decision_envelope env aid action actor revision key v now))"
  by (simp add: envelope_value_def decision_dict dict_wf_def)

text \<open>What a mutation writes: the supplied request, and for an outcome its event.\<close>

definition written_event :: "approval_env \<Rightarrow> string \<Rightarrow> string \<Rightarrow> string \<Rightarrow> int \<Rightarrow> string \<Rightarrow> pyval \<Rightarrow> rat \<Rightarrow> event_envelope option" where
  "written_event env aid action actor revision key v now =
     (if action \<in> {''reassign'', ''escalate''} then None else Some (decision_envelope env aid action actor revision key v now))"

definition written_item ::
  "approval_env \<Rightarrow> string \<Rightarrow> string \<Rightarrow> string \<Rightarrow> int \<Rightarrow> string \<Rightarrow> pyval \<Rightarrow> string option \<Rightarrow> rat \<Rightarrow> string \<Rightarrow> pyval" where
  "written_item env aid action actor revision key v assignee now previous =
     audit_item aid revision previous key (supplied_value action actor revision assignee v) now
       (written_event env aid action actor revision key v now)"

lemma written_wf: "key \<noteq> [] \<Longrightarrow> wf_val v \<Longrightarrow> wf_val (written_item env aid action actor revision key v assignee now previous)"
  using supplied_wf [of v action actor revision assignee] decision_wf [of key v env aid action actor revision now]
  by (auto simp: written_item_def audit_item_def written_event_def dict_wf_def opt_value_def)

lemma mutation_effect_written:
  assumes "mutation_effect env cfg view aid action actor revision key v assignee now = Inr (a, event)"
  shows "event = written_event env aid action actor revision key v now"
proof (cases "action \<in> {''reassign'', ''escalate''}")
  case True
  then show ?thesis
    using assms unfolding mutation_effect_def written_event_def if_P [OF True]
    by (cases assignee) (auto simp only: option.case bindE_eq_Inr guardE_eq_Inr sum.inject prod.inject sum.distinct)
next
  case False
  then show ?thesis
    using assms unfolding mutation_effect_def written_event_def if_not_P [OF False]
    by (auto simp only: bindE_eq_Inr guardE_eq_Inr sum.inject prod.inject sum.distinct split: if_splits)
qed

lemma mutation_effect_terminal:
  assumes "mutation_effect env cfg view aid action actor revision key v assignee now = Inr r" "action \<notin> {''reassign'', ''escalate''}"
  shows "action \<in> {''approved'', ''rejected'', ''expired''}"
  using assms(1) unfolding mutation_effect_def if_not_P [OF assms(2)] by (rule contrapos_pp) (simp only: if_False sum.distinct not_False_eq_True)

text \<open>The proof of a new entry is readable: it fits its limits once its nesting leaves room for the receipt around it.\<close>

lemma protected_payload:
  "receipt_payload (protected_receipt digest v) = PDict [(''request_digest'', PStr digest), (''owner'', PStr ''protected-approvals-v1''),
     (''status'', PStr ''completed''), (''output'', v), (''error'', PNone), (''error_status_code'', PNone), (''operation_id'', PNone)]"
  by (simp add: receipt_payload_def opt_value_def)

lemma protected_payload_octets:
  assumes "json_ok v" "length digest = 64"
  shows "octets False fr (receipt_payload (protected_receipt digest v)) \<le> octets False fr v + 4000"
proof -
  have "json_ok (receipt_payload (protected_receipt digest v))" using assms(1) by (simp add: protected_payload)
  moreover have "octets False fr (PStr x) \<le> 12 * length x + 2" for x
    using utf8_length_string [of False x] by (simp add: octets_def)
  from this [of digest] have "octets False fr (PStr digest) \<le> 770" using assms(2) by simp
  moreover have "utf8_length (json_string False k) \<le> 206" if "length k \<le> 17" for k
    using utf8_length_string [of False k] that by linarith
  from this [of "''request_digest''"] this [of "''owner''"] this [of "''status''"] this [of "''output''"] this [of "''error''"]
    this [of "''error_status_code''"] this [of "''operation_id''"]
  have "utf8_length (json_string False ''request_digest'') \<le> 206" "utf8_length (json_string False ''owner'') \<le> 206"
    "utf8_length (json_string False ''status'') \<le> 206" "utf8_length (json_string False ''output'') \<le> 206"
    "utf8_length (json_string False ''error'') \<le> 206" "utf8_length (json_string False ''error_status_code'') \<le> 206"
    "utf8_length (json_string False ''operation_id'') \<le> 206" by simp_all
  moreover have "octets False fr (PStr ''protected-approvals-v1'') \<le> 266" "octets False fr (PStr ''completed'') \<le> 110" "octets False fr PNone = 4"
    using utf8_length_string [of False "''protected-approvals-v1''"] utf8_length_string [of False "''completed''"] by (simp_all add: octets_def)
  ultimately show ?thesis
    using octets_dict [of "[(''request_digest'', PStr digest), (''owner'', PStr ''protected-approvals-v1''),
     (''status'', PStr ''completed''), (''output'', v), (''error'', PNone), (''error_status_code'', PNone), (''operation_id'', PNone)]" False fr]
    unfolding protected_payload by simp
qed

lemma text_length_octets: "text_length fr b v \<le> octets b fr v"
  by (simp add: text_length_def octets_def length_utf8_length split: sum.split)

text \<open>A stored receipt is readable, or refused by the validation of its nesting alone.\<close>

lemma stored_row_reads:
  assumes rows: "jr_effects j (effect_key (ae_journal env) i) = Some (receipt_row (ae_journal env) False (protected_receipt digest v))"
      "jr_index j (effect_key (ae_journal env) i) = Some (identity_row i)"
    and ok: "make_receipt (protected_receipt digest v) = Inr (protected_receipt digest v)" "make_identity i = Inr i"
    and small: "octets False (ae_float_repr env) v \<le> 524288" "ix_length (identity_row i) \<le> 1048576" and v: "json_ok v"
  shows "stored_receipt env j i =
    (if nesting v \<le> 63 then Inr (Some (protected_receipt digest v)) else Inl ApprovalValidationError)"
proof -
  let ?r = "protected_receipt digest v"
  have "length digest = 64" using ok(1) by (auto simp: make_receipt_def is_digest_def)
  then have size: "octets False (ae_float_repr env) (receipt_payload ?r) \<le> 528288"
    using protected_payload_octets [OF v, of digest "ae_float_repr env"] small(1) by simp
  then have length: "er_length (receipt_row (ae_journal env) False ?r) \<le> 1048576"
    using text_length_octets [of "ae_float_repr env" False "receipt_payload ?r"] by (simp add: receipt_row_def)
  have "receipt_ok ?r" using ok(1) by (simp add: receipt_ok_def opt_ok_def)
  then have read: "receipt_from_payload (receipt_payload ?r) = Inr ?r" by (rule receipt_reads_back)
  have payload_ok: "json_ok (receipt_payload ?r)" using v by (simp add: protected_payload)
  have nest: "nesting (receipt_payload ?r) = Suc (nesting v)" by (simp add: protected_payload)
  have valid: "valid_data (receipt_payload ?r) \<longleftrightarrow> nesting v \<le> 63" using nest payload_ok by (simp add: validate_accepts)
  have bound: "bounded_json env (receipt_payload ?r) 1048576 =
      (if nesting v \<le> 63 then Inr (text_or_empty (json_spaced False (ae_float_repr env) (sort_keys (receipt_payload ?r)))) else Inl ApprovalValidationError)"
  proof (cases "nesting v \<le> 63")
    case True
    have ok': "json_ok (sort_keys (receipt_payload ?r))" using payload_ok by simp
    have "int (utf8_length (text_or_empty (json_spaced False (ae_float_repr env) (sort_keys (receipt_payload ?r))))) \<le> 1048576"
      using size payload_ok octets_alt [OF ok', of False "ae_float_repr env"] octets_sort_keys [OF payload_ok, of False "ae_float_repr env"] by simp
    then show ?thesis using True valid by (simp only: bounded_jsonI [OF _ spaced_text [OF ok', of False "ae_float_repr env"]] if_True)
  next
    case False
    then have "validate_expression_data 0 64 (receipt_payload ?r) = Inl ExpressionError"
      using valid validate_cases(1) by blast
    then show ?thesis using False by (simp add: bounded_json_def)
  qed
  have "plain_receipt (receipt_payload ?r) = Inr ?r"
    using read by (simp add: plain_receipt_def protected_payload get_field_def)
  moreover have "identity_from_value (identity_value i) = Inr i" using ok(2) by (rule identity_reads_back)
  ultimately show ?thesis
    using length small(2) bound
    by (simp add: stored_receipt_def rows load_bounded_def) (simp add: receipt_row_def identity_row_def catching_def)
qed

lemma inserted_receipt:
  assumes ins: "insert_completed_receipt (ae_journal env) j i (protected_receipt digest v) = Inr j'"
    and free: "jr_effects j (effect_key (ae_journal env) i) = None" "jr_index j (effect_key (ae_journal env) i) = None"
    and ok: "make_receipt (protected_receipt digest v) = Inr (protected_receipt digest v)" "make_identity i = Inr i"
    and small: "octets False (ae_float_repr env) v \<le> 524288" "ix_length (identity_row i) \<le> 1048576" and v: "json_ok v"
  shows "stored_receipt env j' i =
    (if nesting v \<le> 63 then Inr (Some (protected_receipt digest v)) else Inl ApprovalValidationError)"
proof (rule stored_row_reads [OF _ _ ok small v])
  let ?k = "effect_key (ae_journal env) i"
  show "jr_effects j' ?k = Some (receipt_row (ae_journal env) False (protected_receipt digest v))" "jr_index j' ?k = Some (identity_row i)"
    using ins free unfolding insert_completed_receipt_def insert_receipt_def Let_def by (auto simp: insert_new_def split: if_splits)
qed

text \<open>Validation against a schema does not depend on the order of the keys.\<close>

definition schema_order_free :: "approval_env \<Rightarrow> bool" where
  "schema_order_free env \<longleftrightarrow> (\<forall>schema v. ae_schema_accepts env schema (sort_keys v) = ae_schema_accepts env schema v)"

lemma response_sorted: "schema_order_free env \<Longrightarrow> validate_response env policy (sort_keys v) = validate_response env policy v"
  by (simp add: validate_response_def bounded_json_sorted schema_order_free_def split: option.split)

lemma field_get: "field v k = Some x \<Longrightarrow> get_field v k = x"
  by (simp add: get_field_field)

lemma sorted_scalars [simp]:
  "sort_keys (PStr x) = PStr x" "sort_keys (PInt n) = PInt n" "sort_keys PNone = PNone" "sort_keys (PFloat f) = PFloat f"
  by simp_all

lemma sorted_opt [simp]: "sort_keys (opt_value PStr x) = opt_value PStr x"
  by (cases x) (simp_all add: opt_value_def)

lemma written_fields:
  fixes env aid action actor revision key v assignee now previous
  assumes "key \<noteq> []" "wf_val v"
  defines "item \<equiv> written_item env aid action actor revision key v assignee now previous"
  shows "get_field (sort_keys item) ''request'' = sort_keys (supplied_value action actor revision assignee v)"
    "get_field (sort_keys item) ''recorded_at'' = PFloat (FFin now)"
    "get_field (sort_keys item) ''revision'' = PInt (revision + 1)"
    "get_field (sort_keys item) ''operation_key'' = PStr key"
    "get_field (sort_keys item) ''event'' = sort_keys (opt_value envelope_value (written_event env aid action actor revision key v now))"
  unfolding item_def get_field_sort_keys [OF written_wf [OF assms(1,2)]]
  unfolding written_item_def audit_fields [THEN field_get]
  by simp_all

lemma supplied_sorted:
  fixes action actor revision assignee v
  assumes "wf_val v"
  defines "request \<equiv> supplied_value action actor revision assignee v"
  shows "get_field (sort_keys request) ''action'' = PStr action" "get_field (sort_keys request) ''actor'' = PStr actor"
    "get_field (sort_keys request) ''assignee'' = opt_value PStr assignee" "get_field (sort_keys request) ''value'' = sort_keys v"
    "has_value (sort_keys request) ''actor'' (PStr x) = (actor = x)" "has_value (sort_keys request) ''revision'' (PInt n) = (revision = n)"
  unfolding request_def
  by (simp_all add: get_field_sort_keys [OF supplied_wf [OF assms(1)]] supplied_fields [THEN field_get]
      has_value_def field_sort_keys [OF supplied_wf [OF assms(1)]] supplied_fields num_value_def)

lemma written_shape:
  assumes "key \<noteq> []" "wf_val v" "ch_terminal c = None" "ch_revision c = revision" "ch_digest c = previous"
    "au_revision e = revision + 1" "au_operation_key e = key"
  shows "item_shape aid c e (sort_keys (written_item env aid action actor revision key v assignee now previous))"
proof -
  let ?item = "written_item env aid action actor revision key v assignee now previous"
  have wf: "wf_val ?item" using assms(1,2) by (rule written_wf)
  have found: "has_value (sort_keys ?item) ''revision'' (PInt (revision + 1))" "has_value (sort_keys ?item) ''previous_digest'' (PStr previous)"
    "has_value (sort_keys ?item) ''approval_id'' (PStr aid)" "has_value (sort_keys ?item) ''profile'' (PStr MUTATION_PROFILE)"
    "has_value (sort_keys ?item) ''operation_key'' (PStr key)"
    unfolding written_item_def
    by (rule has_value_sorted [OF wf [unfolded written_item_def]], rule audit_fields, simp add: num_value_def)+
  have "exact_keys ?item ITEM_FIELDS" by (simp add: written_item_def audit_item_def ITEM_FIELDS_def)
  moreover have "exact_keys (sort_keys (supplied_value action actor revision assignee v)) SUPPLIED_FIELDS"
    unfolding exact_keys_sorted [OF supplied_wf [OF assms(2)]] by (simp add: supplied_value_def SUPPLIED_FIELDS_def)
  ultimately show ?thesis
    unfolding item_shape_def written_fields [OF assms(1,2)] exact_keys_sorted [OF wf]
    using assms(3-) found by simp
qed

lemma written_terminal:
  assumes key: "key \<noteq> []" and wf: "wf_val v" and v: "json_ok v" and action: "action \<notin> {''reassign'', ''escalate''}"
  shows "terminal_event_ok aid action (sort_keys (written_item env aid action actor revision key v assignee now previous)) = Inr ()"
proof -
  let ?e = "decision_envelope env aid action actor revision key v now"
  let ?data = "PDict [(''approvalProfile'', PStr PROTECTED_APPROVAL_PROFILE), (''approval_id'', PStr aid), (''decision'', PStr action),
        (''operator_id'', PStr actor), (''value'', v), (''revision'', PInt (revision + 1))]"
  have event: "written_event env aid action actor revision key v now = Some ?e" using action by (simp add: written_event_def)
  have ewf: "wf_val (envelope_value ?e)" using key wf by (rule decision_wf)
  have dwf: "wf_val ?data" using wf by (simp add: dict_wf_def)
  have fields: "field (envelope_value ?e) ''data'' = Some ?data" "field (envelope_value ?e) ''subject'' = Some (PStr aid)"
    "field (envelope_value ?e) ''id'' = Some (PStr key)"
    by (simp_all add: envelope_value_def decision_dict [OF key])
  have vals: "has_value (sort_keys ?data) k w" if "field ?data k = Some x" "py_eq (sort_keys x) w" for k x w
    using has_value_sorted [OF dwf that] .
  obtain d where d: "sort_keys ?data = PDict d" by simp
  have data: "has_value (PDict d) ''approvalProfile'' (PStr PROTECTED_APPROVAL_PROFILE)" "has_value (PDict d) ''decision'' (PStr action)"
    "has_value (PDict d) ''operator_id'' (PStr actor)" "has_value (PDict d) ''value'' (sort_keys v)" "has_value (PDict d) ''revision'' (PInt (revision + 1))"
    unfolding d [symmetric] using py_eq_refl [of "sort_keys v"] v wf_val_sort_keys [OF wf]
    by (auto intro!: vals simp: num_value_def simp del: sort_keys.simps)
  have head: "has_value (sort_keys (envelope_value ?e)) ''subject'' (PStr aid)" "has_value (sort_keys (envelope_value ?e)) ''id'' (PStr key)"
    using has_value_sorted [OF ewf fields(2)] has_value_sorted [OF ewf fields(3)] by simp_all
  obtain ed where ed: "sort_keys (envelope_value ?e) = PDict ed" by (simp add: envelope_value_def)
  have "field (PDict ed) ''data'' = Some (PDict d)" unfolding ed [symmetric] field_sort_keys [OF ewf] fields d [symmetric] by simp
  then show ?thesis
    unfolding terminal_event_ok_def Let_def written_fields [OF key wf] event
    using data head by (simp add: opt_value_def ed supplied_sorted [OF wf] del: sort_keys.simps field_simps_dict)
qed

lemma entry_effect_written:
  assumes eff: "mutation_effect env cfg view aid action actor revision key v assignee now = Inr (a, event)"
    and allowed: "mutation_allowed cfg view action actor now = Inr ()"
    and key: "key \<noteq> []" and wf: "wf_val v" and v: "json_ok v" and free: "schema_order_free env"
  shows "entry_effect env aid (rv_policy view) (rv_expires view) (rv_chain view)
      (sort_keys (written_item env aid action actor revision key v assignee now previous)) now =
    Inr (a, map_option (\<lambda>e. sort_keys (envelope_value e)) event,
         (case event of None \<Rightarrow> (PNone, PNone, PNone) | Some _ \<Rightarrow> (PStr actor, PStr key, PFloat (FFin now))))"
proof (cases "action \<in> {''reassign'', ''escalate''}")
  case True
  have not_expired: "action \<noteq> ''expired''" using True by auto
  have b: "assignee = Some a \<and> a \<in> set (assignment_targets (rv_policy view) action) \<and> event = None \<and> v = PNone"
    using eff unfolding mutation_effect_def if_P [OF True]
    by (cases assignee) (auto simp only: option.case bindE_eq_Inr guardE_eq_Inr sum.inject prod.inject sum.distinct)
  have who: "actor = ch_assignee (rv_chain view)" "now < rv_expires view"
    using allowed unfolding mutation_allowed_def if_not_P [OF not_expired] by auto
  have event: "written_event env aid action actor revision key v now = None" unfolding written_event_def if_P [OF True] ..
  have actor: "has_value (sort_keys (supplied_value action actor revision assignee v)) ''actor'' (PStr (ch_assignee (rv_chain view)))"
    using who by (simp add: supplied_sorted [OF wf])
  have assigned: "opt_value PStr assignee = PStr a" using b by (simp add: opt_value_def)
  have plain: "sort_keys v = PNone" using b by simp
  show ?thesis
    unfolding entry_effect_def Let_def written_fields [OF key wf] supplied_sorted(1-4) [OF wf] pyval.case if_P [OF True] event assigned plain
    using actor who b by (simp add: opt_value_def)
next
  case False
  note action = mutation_effect_terminal [OF eff False] and ev = mutation_effect_written [OF eff]
  have rest: "assignee = None" "a = ch_assignee (rv_chain view)" "action \<noteq> ''expired'' \<Longrightarrow> validate_response env (rv_policy view) v = Inr ()"
    using eff unfolding mutation_effect_def if_not_P [OF False] if_P [OF action] by (auto simp only: bindE_eq_Inr guardE_eq_Inr sum.inject prod.inject if_True if_False split: if_splits) simp
  have who: "if action = ''expired'' then actor = ''system:approval-expiry'' \<and> rv_expires view \<le> now
      else actor = ch_assignee (rv_chain view) \<and> now < rv_expires view"
    using allowed unfolding mutation_allowed_def by (auto simp only: bindE_eq_Inr guardE_eq_Inr split: if_splits)
  have response: "(if action \<noteq> ''expired'' then validate_response env (rv_policy view) (sort_keys v) else Inr ()) = Inr ()"
    using rest(3) by (simp add: response_sorted [OF free])
  have actor: "if action = ''expired'' then has_value (sort_keys (supplied_value action actor revision assignee v)) ''actor'' (PStr ''system:approval-expiry'') \<and> rv_expires view \<le> now
      else has_value (sort_keys (supplied_value action actor revision assignee v)) ''actor'' (PStr (ch_assignee (rv_chain view))) \<and> now < rv_expires view"
    using who by (simp add: supplied_sorted [OF wf])
  have event: "event = Some (decision_envelope env aid action actor revision key v now)"
    "written_event env aid action actor revision key v now = Some (decision_envelope env aid action actor revision key v now)"
    using False ev by (simp_all add: written_event_def)
  have assigned: "opt_value PStr assignee = PNone" using rest(1) by (simp add: opt_value_def)
  show ?thesis
    unfolding entry_effect_def Let_def written_fields [OF key wf] written_terminal [OF key wf v False] supplied_sorted(1-4) [OF wf] pyval.case
      if_not_P [OF False] if_P [OF action] response assigned event rest(2)
    using actor by (simp add: opt_value_def del: sort_keys.simps)
qed

definition next_chain :: "chain_state \<Rightarrow> string \<Rightarrow> string \<Rightarrow> event_envelope option \<Rightarrow> string \<Rightarrow> string \<Rightarrow> rat \<Rightarrow> chain_state" where
  "next_chain c a digest event actor key now =
     \<lparr>ch_revision = ch_revision c + 1, ch_assignee = a, ch_digest = digest,
      ch_terminal = map_option (\<lambda>e. sort_keys (envelope_value e)) event,
      ch_projection = (case event of None \<Rightarrow> (PNone, PNone, PNone) | Some _ \<Rightarrow> (PStr actor, PStr key, PFloat (FFin now)))\<rparr>"

lemma written_entry_verifies:
  assumes eff: "mutation_effect env cfg view aid action actor revision key v assignee now = Inr (a, event)"
    and allowed: "mutation_allowed cfg view action actor now = Inr ()"
    and key: "key \<noteq> []" and wf: "wf_val v" and v: "json_ok v" and free: "schema_order_free env" and now: "0 < now"
    and chain: "ch_terminal (rv_chain view) = None" "ch_revision (rv_chain view) = revision" "ch_digest (rv_chain view) = previous"
    and item: "item = written_item env aid action actor revision key v assignee now previous"
    and pf: "known_receipt env item MUTATION_POLICY = Inr (protected_receipt digest item)"
    and enc: "bounded_json env item 524288 = Inr encoded"
    and read: "stored_receipt env j (revision_identity (rv_origin view) (revision + 1)) =
      (if deep then Inl ApprovalValidationError else Inr (Some (protected_receipt digest item)))"
    and e: "e = \<lparr>au_approval_id = aid, au_revision = revision + 1, au_operation_key = key,
                  au_payload = stored_text encoded item, au_digest = digest\<rparr>"
  shows "verify_entry env j aid (rv_origin view) (rv_policy view) (rv_expires view) (rv_chain view) e =
    (if deep then Inl ApprovalValidationError else Inr (next_chain (rv_chain view) a digest event actor key now))"
proof -
  have "length encoded \<le> 524288" using bounded_jsonE(3) [OF enc] length_utf8_length [of encoded] by linarith
  then have load: "load_bounded 524288 (au_payload e) = Inr (sort_keys item)" by (simp add: e load_bounded_def stored_text_def)
  have shape: "item_shape aid (rv_chain view) e (sort_keys item)"
    unfolding item using key wf chain by (rule written_shape) (simp_all add: e)
  have bounded: "bounded_json env (sort_keys item) 524288 = Inr encoded" using enc by (simp add: bounded_json_sorted)
  have recorded: "(case recorded_number (get_field (sort_keys item) ''recorded_at'') of None \<Rightarrow> Inl ValueError | Some t \<Rightarrow> Inr t) = (Inr now :: rat res)"
    unfolding item written_fields [OF key wf] using now by (simp add: recorded_number_def)
  have number: "(case get_field (sort_keys item) ''revision'' of PInt n \<Rightarrow> Inr n | _ \<Rightarrow> Inl ValueError) = (Inr (revision + 1) :: int res)"
    unfolding item written_fields [OF key wf] by simp
  have known: "known_receipt env (sort_keys item) MUTATION_POLICY = Inr (protected_receipt digest (sort_keys item))"
    using pf by (rule known_receipt_sorted)
  have "wf_val item" unfolding item using key wf by (rule written_wf)
  then have "py_eq item (sort_keys item)" using py_eq_sort_keys bounded_jsonE(4) [OF enc] by blast
  then have same: "receipt_is (Some (protected_receipt digest item)) (protected_receipt digest (sort_keys item))"
    by (simp add: receipt_is_def receipt_eq_def protected_receipt_def pending_receipt_def)
  have effect: "entry_effect env aid (rv_policy view) (rv_expires view) (rv_chain view) (sort_keys item) now =
    Inr (a, map_option (\<lambda>e. sort_keys (envelope_value e)) event,
         (case event of None \<Rightarrow> (PNone, PNone, PNone) | Some _ \<Rightarrow> (PStr actor, PStr key, PFloat (FFin now))))"
    unfolding item using eff allowed key wf v free by (rule entry_effect_written)
  have supplied: "has_value (get_field (sort_keys item) ''request'') ''revision'' (PInt (ch_revision (rv_chain view)))"
    unfolding item written_fields [OF key wf] using chain(2) by (simp add: supplied_sorted [OF wf])
  have digest: "au_digest e = digest" by (simp add: e)
  show ?thesis
    unfolding verify_entry_def load bounded recorded known number bindE_simps read digest effect
    using shape same supplied by (cases deep) (simp_all add: next_chain_def chain(2))
qed

section \<open>What a mutation changes\<close>

lemma dict_get_map_at: "dict_get (map (\<lambda>(k, x). (k, if k = i then f x else x)) d) k = map_option (if k = i then f else id) (dict_get d k)"
  by (induction d) auto

lemma record_mutationE:
  assumes "record_mutation env s view aid action actor revision key supplied now effect = Inr (s', event)"
  defines "item \<equiv> audit_item aid revision (ch_digest (rv_chain view)) key supplied now (snd effect)"
  obtains digest encoded j where "known_receipt env item MUTATION_POLICY = Inr (protected_receipt digest item)"
    "make_receipt (protected_receipt digest item) = Inr (protected_receipt digest item)"
    "bounded_json env item 524288 = Inr encoded"
    "insert_completed_receipt (ae_journal env) (at_journal s) (revision_identity (rv_origin view) (revision + 1)) (protected_receipt digest item) = Inr j"
    "event = snd effect" "at_journal s' = j" "at_invocations s' = at_invocations s" "at_events s' = (at_events s)\<lparr>st_journal := j\<rparr>"
    "at_tables s' = at_tables s"
    "at_requests s' = at_requests (update_request s aid (\<lambda>r. r\<lparr>pr_revision := revision + 1, pr_assignee := fst effect, pr_audit_digest := digest\<rparr>))"
    "at_audit s' = at_audit s @ [\<lparr>au_approval_id = aid, au_revision = revision + 1, au_operation_key = key,
                           au_payload = stored_text encoded item, au_digest = digest\<rparr>]"
    "case snd effect of None \<Rightarrow> at_rows s' = at_rows s
     | Some e \<Rightarrow> (\<exists>raw. envelope_raw (ae_float_repr env) e = Inr raw \<and>
         at_rows s' = map (\<lambda>(k, x). (k, if k = aid then x\<lparr>ap_status := action, ap_decision := Some (raw, sort_keys (envelope_value e)),
           ap_operator_id := Some actor, ap_operation_key := Some key, ap_decided_at := Some now\<rparr> else x)) (at_rows s))"
proof -
  obtain pf encoded j where
    steps: "known_receipt env item MUTATION_POLICY = Inr pf" "bounded_json env item 524288 = Inr encoded"
      "insert_completed_receipt (ae_journal env) (at_journal s) (revision_identity (rv_origin view) (revision + 1)) pf = Inr j"
    and final: "(let s' = (update_request s aid (\<lambda>r. r\<lparr>pr_revision := revision + 1, pr_assignee := fst effect, pr_audit_digest := rc_request_digest pf\<rparr>))
            \<lparr>at_audit := at_audit s @ [\<lparr>au_approval_id = aid, au_revision = revision + 1, au_operation_key = key,
                           au_payload = stored_text encoded item, au_digest = rc_request_digest pf\<rparr>],
             at_events := (at_events s)\<lparr>st_journal := j\<rparr>\<rparr> in
      case snd effect of
        None \<Rightarrow> Inr (s', None)
      | Some event \<Rightarrow>
          bindE (envelope_raw (ae_float_repr env) event) (\<lambda>raw.
          bindE (settle s' aid action (raw, sort_keys (envelope_value event)) actor (Some key) now) (\<lambda>s''.
            Inr (s'', Some event)))) = Inr (s', event)"
    using assms(1) unfolding record_mutation_def Let_def item_def [symmetric] by (auto simp only: bindE_eq_Inr)
  obtain digest where d: "pf = protected_receipt digest item" "make_receipt pf = Inr pf"
    using known_receiptE [OF steps(1)] by metis
  show thesis
  proof (cases "snd effect")
    case None
    then show thesis
      using final steps d by (intro that [of digest encoded j]) (auto simp: Let_def update_request_def)
  next
    case (Some e)
    then show thesis
      using final steps d
      by (intro that [of digest encoded j])
         (auto simp: Let_def update_request_def settle_def split: option.splits if_splits)
  qed
qed

section \<open>Verification in two parts\<close>

text \<open>The part of a request that no operation changes, and the part that follows its audit.\<close>

definition request_base ::
  "approval_env \<Rightarrow> approval_state \<Rightarrow> string \<Rightarrow> protected_row \<Rightarrow> approval_record \<Rightarrow> string \<Rightarrow> request_view \<Rightarrow> bool" where
  "request_base env s aid row a digest view \<longleftrightarrow>
     load_bounded 524288 (pr_payload row) = Inr (rv_value view) \<and> (\<exists>t. bounded_json env (rv_value view) 524288 = Inr t) \<and>
     request_shape aid (rv_value view) \<and> request_origin row (rv_value view) = Inr (rv_origin view) \<and>
     request_vouched env s row (rv_value view) (rv_origin view) = Inr digest \<and>
     (\<exists>h. request_handle env s (rv_value view) (rv_origin view) = Inr h \<and> definition_vouched env s (rv_value view) h = Inr ()) \<and>
     policy_from_value env (get_field (rv_value view) ''policy'') = Inr (rv_policy view) \<and>
     source_expiry env aid (rv_value view) (rv_policy view) = Inr (rv_expires view) \<and>
     publication_vouched env s (rv_value view) (rv_origin view) False = Inr () \<and>
     record_of_request s aid (rv_value view) = Inr a"

definition first_chain :: "approval_policy \<Rightarrow> string \<Rightarrow> chain_state" where
  "first_chain policy digest = \<lparr>ch_revision = 1, ch_assignee = po_assignee policy, ch_digest = digest, ch_terminal = None,
     ch_projection = (PNone, PNone, PNone)\<rparr>"

definition request_tail ::
  "approval_env \<Rightarrow> approval_state \<Rightarrow> string \<Rightarrow> protected_row \<Rightarrow> approval_record \<Rightarrow> string \<Rightarrow> request_view \<Rightarrow> bool" where
  "request_tail env s aid row a digest view \<longleftrightarrow>
     length (audit_of s aid) \<le> 128 \<and> rv_entries view = audit_of s aid \<and>
     foldE (verify_entry env (at_journal s) aid (rv_origin view) (rv_policy view) (rv_expires view))
       (first_chain (rv_policy view) digest) (audit_of s aid) = Inr (rv_chain view) \<and>
     chain_matches row a (rv_chain view) \<and> event_retained (at_events s) (ap_event_scope a) (rv_chain view)"

lemma request_value_parts:
  "request_value env s aid False = Inr view \<longleftrightarrow>
   (\<exists>row a digest. dict_get (at_requests s) aid = Some row \<and> request_base env s aid row a digest view \<and> request_tail env s aid row a digest view)"
    (is "?l \<longleftrightarrow> ?r")
proof
  assume ?l
  then obtain row where row: "dict_get (at_requests s) aid = Some row"
    by (auto simp: request_value_def split: option.splits)
  from \<open>?l\<close> obtain v t origin digest h policy expires a c u w where
    parts: "load_bounded 524288 (pr_payload row) = Inr v" "bounded_json env v 524288 = Inr t" "request_shape aid v"
      "request_origin row v = Inr origin" "request_vouched env s row v origin = Inr digest" "request_handle env s v origin = Inr h"
      "definition_vouched env s v h = Inr u" "policy_from_value env (get_field v ''policy'') = Inr policy"
      "source_expiry env aid v policy = Inr expires" "publication_vouched env s v origin False = Inr w" "record_of_request s aid v = Inr a"
      "length (audit_of s aid) \<le> 128"
      "foldE (verify_entry env (at_journal s) aid origin policy expires) (first_chain policy digest) (audit_of s aid) = Inr c"
      "chain_matches row a c" "event_retained (at_events s) (ap_event_scope a) c"
    and view: "view = \<lparr>rv_value = v, rv_origin = origin, rv_policy = policy, rv_expires = expires, rv_chain = c, rv_entries = audit_of s aid\<rparr>"
    unfolding request_value_def row option.case failing_eq_Inr first_chain_def [symmetric]
    by (auto simp only: bindE_eq_Inr guardE_eq_Inr sum.inject)
  have "request_base env s aid row a digest view" "request_tail env s aid row a digest view"
    using parts unfolding request_base_def request_tail_def view by simp_all
  with row show ?r by blast
next
  assume ?r
  then show ?l
    unfolding request_value_def request_base_def request_tail_def first_chain_def
    by (cases view) auto
qed

lemma stored_now:
  "stored_receipt env j i = Inr found \<Longrightarrow> found = Some r \<Longrightarrow> rc_status r \<noteq> ''pending'' \<Longrightarrow> journal_grows j j' \<Longrightarrow>
   stored_receipt env j' i = Inr found"
  by (metis stored_receipt_grows)

lemma request_base_grows:
  assumes base: "request_base env s aid row a digest view" and grows: "journal_grows (at_journal s) (at_journal s')"
    and inv: "at_invocations s' = at_invocations s"
    and row: "pr_payload row' = pr_payload row" "pr_digest row' = pr_digest row" "pr_invocation_id row' = pr_invocation_id row"
      "pr_fingerprint row' = pr_fingerprint row"
    and rec: "dict_get (at_rows s') aid = Some a'" "ap_request a' = ap_request a" "ap_expires_at a' = ap_expires_at a" "ap_event_scope a' = ap_event_scope a"
  shows "request_base env s' aid row' a' digest view"
proof -
  let ?v = "rv_value view"
  let ?o = "rv_origin view"
  have "request_vouched env s' row' ?v ?o = Inr digest"
  proof -
    obtain expected found where e: "known_receipt env ?v REQUEST_POLICY = Inr expected" "pr_digest row = rc_request_digest expected"
      "stored_receipt env (at_journal s) (?o\<lparr>ei_operation := REQUEST_POLICY\<rparr>) = Inr found" "receipt_is found expected" "rc_request_digest expected = digest"
      using base unfolding request_base_def request_vouched_def by auto
    obtain x where "found = Some x" "rc_status x = ''completed''" using receipt_is_known [OF e(4,1)] by metis
    then show ?thesis using e row(2) stored_now [OF e(3) _ _ grows] by (simp add: request_vouched_def)
  qed
  moreover obtain h where h: "request_handle env s ?v ?o = Inr h" "definition_vouched env s ?v h = Inr ()"
    using base by (auto simp: request_base_def)
  have "request_handle env s' ?v ?o = Inr h" using h(1) unfolding request_handle_def inv .
  moreover have "definition_vouched env s' ?v h = Inr ()"
  proof -
    obtain i d found r where f: "dependency_from_value (get_field ?v ''definition_receipt'') = Inr (i, d)"
      "stored_receipt env (at_journal s) (admission_identity h) = Inr found" "found = Some r" "receipt_digest env r = Inr d" "i = admission_identity h"
      using h(2) unfolding definition_vouched_def by (auto split: option.splits)
    then have "rc_status r \<noteq> ''pending''" by (auto simp: receipt_digest_def)
    then show ?thesis using f stored_now [OF f(2,3) _ grows] by (simp add: definition_vouched_def)
  qed
  moreover have "publication_vouched env s' ?v ?o False = Inr ()"
  proof -
    obtain found r where f: "stored_receipt env (at_journal s) ?o = Inr found" "found = Some r" "rc_status r = ''completed''"
      using base unfolding request_base_def publication_vouched_def by (auto split: option.splits)
    then show ?thesis using base stored_now [OF f(1,2) _ grows] by (auto simp: request_base_def publication_vouched_def)
  qed
  moreover have "record_of_request s' aid ?v = Inr a'"
    using base rec by (auto simp: request_base_def record_of_request_def split: option.splits)
  moreover have "request_origin row' ?v = Inr ?o" using base row by (simp add: request_base_def request_origin_def)
  ultimately show ?thesis using base row(1) by (auto simp: request_base_def)
qed

lemma request_value_chain:
  assumes "dict_get (at_requests s) aid = Some row" "request_base env s aid row a digest view" "length (audit_of s aid) \<le> 128"
  shows "request_value env s aid False = failing
    (bindE (foldE (verify_entry env (at_journal s) aid (rv_origin view) (rv_policy view) (rv_expires view))
       (first_chain (rv_policy view) digest) (audit_of s aid)) (\<lambda>c.
     bindE (guardE (chain_matches row a c) ValueError) (\<lambda>_.
     bindE (guardE (event_retained (at_events s) (ap_event_scope a) c) ValueError) (\<lambda>_.
       Inr (view\<lparr>rv_chain := c, rv_entries := audit_of s aid\<rparr>)))))"
  using assms unfolding request_value_def request_base_def first_chain_def by (cases view) (auto simp: guardE_def)

section \<open>The audit grows at its end\<close>

lemma insort_key_last: "f a \<le> f x \<Longrightarrow> insort_key f a (ys @ [x]) = insort_key f a ys @ [x]"
  by (induction ys) auto

lemma sort_key_snoc: "\<forall>y \<in> set xs. f y \<le> f x \<Longrightarrow> sort_key f (xs @ [x]) = sort_key f xs @ [x]"
  by (induction xs) (simp_all add: insort_key_last)

lemma audit_of_snoc:
  assumes "length (audit_of s aid) \<le> 128" "\<forall>x \<in> set (audit_of s aid). au_revision x \<le> au_revision e" "au_approval_id e = aid"
    "at_audit s' = at_audit s @ [e]"
  shows "audit_of s' aid = take 131 (audit_of s aid @ [e]) \<and> length (audit_of s' aid) = Suc (length (audit_of s aid))"
proof -
  let ?f = "filter (\<lambda>x. au_approval_id x = aid) (at_audit s)"
  have "length (sort_key au_revision ?f) < 131" using assms(1) by (simp add: audit_of_def)
  then have all: "audit_of s aid = sort_key au_revision ?f" by (simp add: audit_of_def)
  then have "sort_key au_revision (?f @ [e]) = audit_of s aid @ [e]" using assms(2) by (simp add: sort_key_snoc)
  then show ?thesis using assms(1,3,4) by (simp add: audit_of_def [of s'])
qed

section \<open>The decision arrives\<close>

lemma known_envelope_same: "ev_source a = ev_source b \<Longrightarrow> ev_id a = ev_id b \<Longrightarrow> known_envelope env s scope a = known_envelope env s scope b"
proof -
  assume eq: "ev_source a = ev_source b" "ev_id a = ev_id b"
  have "known_outbox env rows scope a = known_outbox env rows scope b" for rows
    by (induction rows) (auto simp: eq cong: if_cong)
  then show ?thesis using eq by (simp add: known_envelope_def event_key_of_def split: option.split)
qed

lemma find_append: "find P (xs @ ys) = (case find P xs of None \<Rightarrow> find P ys | Some x \<Rightarrow> Some x)"
  by (induction xs) auto

lemma normal_value: "envelope_value (normal_envelope e) = envelope_value e"
  by (simp add: envelope_value_def envelope_dict_def normal_envelope_def)

lemma ingest_arrives:
  assumes run: "ingest_in_transaction env st ''-'' ''-'' now (envelope_dict e) (ev_source e) scope (\<lambda>_. Inr ()) = Inr (st', e')"
    and ok: "envelope_ok e" and new: "known_envelope env st scope e = Inr None"
  shows "\<exists>r. in_inbox st' (event_key_of scope e) = Some r \<and> ib_envelope r = envelope_value e" "st_journal st' = st_journal st"
proof -
  have known: "known_envelope env st scope (normal_envelope e) = Inr None"
    using new known_envelope_same [of "normal_envelope e" e] by (simp add: normal_envelope_def)
  obtain q where q: "canonical_submission env st ''-'' ''-'' (envelope_dict e) (ev_source e) scope = Inr q"
    using run unfolding ingest_in_transaction_def by (auto simp only: bindE_eq_Inr)
  have "q = normal_envelope e"
    using q known unfolding canonical_submission_def accept_envelope_def envelope_reads_back [OF ok]
    by (auto simp only: bindE_eq_Inr reraise_eq_Inr option.case guardE_eq_Inr bindE_simps sum.inject)
  with q have p: "canonical_submission env st ''-'' ''-'' (envelope_dict e) (ev_source e) scope = Inr (normal_envelope e)" by simp
  have key: "event_key_of scope (normal_envelope e) = event_key_of scope e" by (simp add: event_key_of_def normal_envelope_def)
  have free: "in_inbox st (event_key_of scope e) = None"
    using new by (auto simp: known_envelope_def split: option.splits)
  obtain submitted digest n where st': "st' = st\<lparr>st_counter := st_counter st + 1,
      st_inbox := st_inbox st @ [arrival_row st now scope (normal_envelope e) digest submitted n]\<rparr>"
    using run unfolding ingest_in_transaction_def p bindE_simps key free option.case by (auto simp only: bindE_eq_Inr sum.inject prod.inject)
  let ?r = "arrival_row st now scope (normal_envelope e) digest submitted n"
  have "inbox_key ?r = event_key_of scope e" by (simp add: inbox_key_def arrival_row_def event_key_of_def normal_envelope_def)
  then have "in_inbox st' (event_key_of scope e) = Some ?r"
    using free by (simp add: st' in_inbox_def find_append)
  moreover have "ib_envelope ?r = envelope_value e" by (simp add: arrival_row_def normal_value)
  ultimately show "\<exists>r. in_inbox st' (event_key_of scope e) = Some r \<and> ib_envelope r = envelope_value e" by blast
  show "st_journal st' = st_journal st" by (simp add: st')
qed

section \<open>A mutation and its verification\<close>

text \<open>A mutation that is not a replay, step by step.\<close>

lemma mutate_freshE:
  assumes "mutate env cfg s now aid action actor revision key v assignee = Inr (s', event)" "inspect env cfg s aid = Inr view"
    "find (\<lambda>e. au_operation_key e = key) (at_audit s) = None"
  obtains a effect where "key \<noteq> []" "json_ok v" "dict_get (at_rows s) aid = Some a" "ap_status a = ''pending''"
    "revision = ch_revision (rv_chain view)" "mutation_allowed cfg view action actor now = Inr ()"
    "mutation_effect env cfg view aid action actor revision key v assignee now = Inr effect"
    "record_mutation env s view aid action actor revision key (supplied_value action actor revision assignee v) now effect = Inr (s', event)"
proof -
  obtain t a effect u where steps: "key \<noteq> []" "bounded_json env (supplied_value action actor revision assignee v) MAX_APPROVAL_VALUE_BYTES = Inr t"
    "dict_get (at_rows s) aid = Some a" "ap_status a = ''pending''"
    "revision = ch_revision (rv_chain view)" "mutation_allowed cfg view action actor now = Inr u"
    "mutation_effect env cfg view aid action actor revision key v assignee now = Inr effect"
    "record_mutation env s view aid action actor revision key (supplied_value action actor revision assignee v) now effect = Inr (s', event)"
    using assms(1) unfolding mutate_def assms(2,3) Let_def option.case bindE_simps
    by (cases "dict_get (at_rows s) aid") (auto simp only: bindE_eq_Inr guardE_eq_Inr option.case sum.distinct)
  have "json_ok v" using bounded_jsonE(4) [OF steps(2)] by (simp add: supplied_value_def)
  then show thesis using steps that by simp
qed

definition scope_of :: "request_view \<Rightarrow> string" where
  "scope_of view = (case get_field (rv_value view) ''event_scope'' of PStr x \<Rightarrow> x | _ \<Rightarrow> [])"

lemma record_scope: "record_of_request s aid v = Inr a \<Longrightarrow> get_field v ''event_scope'' = PStr (ap_event_scope a)"
proof -
  assume "record_of_request s aid v = Inr a"
  then have "py_eq (get_field v ''event_scope'') (PStr (ap_event_scope a))"
    by (auto simp: record_of_request_def split: option.splits intro: has_value_field)
  then show ?thesis by (cases "get_field v ''event_scope''") (auto simp: num_value_def)
qed

text \<open>
  What a mutation has to meet for its own proof: names of receipts and of the event not taken by anything else, an index text
  within its limit, a revision that leaves room for the audit, a value whose dictionaries have
  distinct keys, a clock past the epoch.
\<close>

definition mutation_ready :: "approval_env \<Rightarrow> approval_state \<Rightarrow> request_view \<Rightarrow> int \<Rightarrow> string \<Rightarrow> pyval \<Rightarrow> rat \<Rightarrow> bool" where
  "mutation_ready env s view revision key v now \<longleftrightarrow>
     (let i = revision_identity (rv_origin view) (revision + 1); k = effect_key (ae_journal env) i in
      jr_effects (at_journal s) k = None \<and> jr_index (at_journal s) k = None \<and> ix_length (identity_row i) \<le> 1048576) \<and>
     revision \<le> MAX_REASSIGNMENTS \<and> wf_val v \<and> 0 < now \<and> schema_order_free env \<and>
     find (\<lambda>e. au_operation_key e = key) (at_audit s) = None \<and>
     (\<forall>e. ev_source e = ''urn:open-workflow-agent:approvals'' \<longrightarrow> ev_id e = key \<longrightarrow>
        known_envelope (ae_event env) (at_events s) (scope_of view) e = Inr None)"

text \<open>An open chain projects to nothing; a closed one ends in an outcome.\<close>

definition chain_ok :: "chain_state \<Rightarrow> bool" where
  "chain_ok c \<longleftrightarrow>
     (case ch_terminal c of
        None \<Rightarrow> ch_projection c = (PNone, PNone, PNone)
      | Some event \<Rightarrow> \<exists>action \<in> {''approved'', ''rejected'', ''expired''}. has_value (get_field event ''data'') ''decision'' (PStr action))"

lemma terminal_event_decision:
  assumes "terminal_event_ok aid action item = Inr u"
  shows "has_value (get_field (get_field item ''event'') ''data'') ''decision'' (PStr action)"
  using assms unfolding terminal_event_ok_def Let_def
  by (auto simp: get_field_field split: pyval.splits option.splits)

lemma entry_effect_ok:
  assumes "entry_effect env aid policy expires c item recorded = Inr (a, ended, projection)"
  shows "case ended of None \<Rightarrow> projection = (PNone, PNone, PNone)
    | Some event \<Rightarrow> \<exists>action \<in> {''approved'', ''rejected'', ''expired''}. has_value (get_field event ''data'') ''decision'' (PStr action)"
proof -
  obtain action where action: "get_field (get_field item ''request'') ''action'' = PStr action"
    using assms unfolding entry_effect_def Let_def by (cases "get_field (get_field item ''request'') ''action''") (simp_all only: pyval.case sum.distinct)
  show ?thesis
  proof (cases "action \<in> {''reassign'', ''escalate''}")
    case True
    then have "ended = None \<and> projection = (PNone, PNone, PNone)"
      using assms unfolding entry_effect_def Let_def action pyval.case if_P [OF True]
      by (cases "get_field (get_field item ''request'') ''assignee''")
         (auto simp only: pyval.case bindE_eq_Inr guardE_eq_Inr sum.inject prod.inject sum.distinct)
    then show ?thesis by (simp only: option.case)
  next
    case False
    have closing: "action \<in> {''approved'', ''rejected'', ''expired''}"
      using assms unfolding entry_effect_def Let_def action pyval.case if_not_P [OF False]
      by (rule contrapos_pp) (simp only: if_False sum.distinct not_False_eq_True)
    then obtain u where u: "terminal_event_ok aid action item = Inr u" "ended = Some (get_field item ''event'')"
      using assms unfolding entry_effect_def Let_def action pyval.case if_not_P [OF False] if_P [OF closing]
      by (auto simp only: bindE_eq_Inr guardE_eq_Inr sum.inject prod.inject)
    show ?thesis unfolding u(2) option.case using terminal_event_decision [OF u(1)] closing by (rule bexI)
  qed
qed

lemma verify_entry_ok: "verify_entry env j aid origin policy expires c e = Inr c' \<Longrightarrow> chain_ok c'"
  unfolding verify_entry_def chain_ok_def
  by (auto simp only: bindE_eq_Inr guardE_eq_Inr sum.inject chain_state.simps split_paired_Ex prod.case dest!: entry_effect_ok)

lemma chain_verified_ok:
  "foldE (verify_entry env j aid origin policy expires) c es = Inr c' \<Longrightarrow> chain_ok c \<Longrightarrow> chain_ok c'"
  by (induction es arbitrary: c) (auto dest: verify_entry_ok)

lemma first_chain_ok: "chain_ok (first_chain policy digest)"
  by (simp add: chain_ok_def first_chain_def)

lemma pending_chain_open:
  assumes "chain_ok c" "chain_matches row a c" "ap_status a = ''pending''"
  shows "ch_terminal c = None \<and> ch_projection c = (PNone, PNone, PNone)"
proof (cases "ch_terminal c")
  case (Some event)
  then obtain action where action: "action \<in> {''approved'', ''rejected'', ''expired''}" "has_value (get_field event ''data'') ''decision'' (PStr action)"
    using assms(1) by (auto simp only: chain_ok_def option.case)
  have "has_value (get_field event ''data'') ''decision'' (PStr ''pending'')"
    using assms(2,3) Some by (simp add: chain_matches_def)
  then have "action = ''pending''"
    using action(2) by (cases "field (get_field event ''data'') ''decision''"; cases "the (field (get_field event ''data'') ''decision'')")
      (auto simp: has_value_def num_value_def)
  then show ?thesis using action(1) by simp
qed (use assms(1) in \<open>simp add: chain_ok_def\<close>)

lemma written_nesting:
  assumes "key \<noteq> []"
  shows "nesting (written_item env aid action actor revision key v assignee now previous) =
    (if action \<in> {''reassign'', ''escalate''} then Suc (Suc (nesting v)) else nesting v + 3)"
proof -
  have "nesting (opt_value PStr assignee) = 0" by (cases assignee) (simp_all add: opt_value_def)
  moreover have "nesting (envelope_value (decision_envelope env aid action actor revision key v now)) = Suc (Suc (nesting v))"
    unfolding envelope_value_def decision_dict [OF assms] by simp
  ultimately show ?thesis
    unfolding written_item_def audit_item_def written_event_def supplied_value_def
    by (cases "action \<in> {''reassign'', ''escalate''}") (simp_all add: opt_value_def del: insert_iff)
qed

lemma raw_length:
  assumes "key \<noteq> []" "bounded_json env (written_item env aid action actor revision key v assignee now previous) 524288 = Inr encoded"
    "action \<notin> {''reassign'', ''escalate''}"
    "envelope_raw (ae_float_repr env) (decision_envelope env aid action actor revision key v now) = Inr raw"
  shows "length raw \<le> 1048576"
proof -
  let ?e = "envelope_value (decision_envelope env aid action actor revision key v now)"
  let ?item = "written_item env aid action actor revision key v assignee now previous"
  have ok: "json_ok ?item" using bounded_jsonE(4) [OF assms(2)] .
  have "written_event env aid action actor revision key v now = Some (decision_envelope env aid action actor revision key v now)"
    unfolding written_event_def if_not_P [OF assms(3)] ..
  then obtain d where d: "?item = PDict d" "(''event'', ?e) \<in> set d"
    by (simp add: written_item_def audit_item_def opt_value_def)
  have eok: "json_ok ?e" using ok d by force
  have "octets False (ae_float_repr env) ?e \<le> octets False (ae_float_repr env) ?item"
    using octets_field [of d "''event''" ?e] ok d by simp
  also have "\<dots> \<le> 524288"
    using bounded_jsonE(2,3) [OF assms(2)] octets_sort_keys [OF ok, of False "ae_float_repr env"] by (simp add: octets_text)
  finally have size: "octets False (ae_float_repr env) (sort_keys ?e) \<le> 524288" by (simp add: octets_sort_keys [OF eok])
  have "json_ok (sort_keys ?e)" using eok by simp
  then obtain u where u: "json_spaced False (ae_float_repr env) (sort_keys ?e) = Inr u" using json_spaced_total by blast
  have "json_dumps False (ae_float_repr env) (sort_keys ?e) = Inr raw"
    using assms(4) by (simp only: envelope_raw_def envelope_value_def)
  from compact_octets [OF this u] have "utf8_length raw \<le> 524288" using size by (simp add: octets_text [OF u])
  then show ?thesis using length_utf8_length [of raw] by linarith
qed

lemma next_matches_open:
  assumes "chain_matches row a c" "ch_terminal c = None" "ch_projection c = (PNone, PNone, PNone)"
    "pr_revision row' = ch_revision c + 1" "pr_assignee row' = b" "pr_audit_digest row' = digest"
  shows "chain_matches row' a (next_chain c b digest None actor key now)"
  using assms by (simp add: chain_matches_def next_chain_def)

lemma next_matches_closed:
  assumes key: "key \<noteq> []" and wf: "wf_val v" and eok: "json_ok (envelope_value (decision_envelope env aid action actor revision key v now))"
    and row: "pr_revision row' = ch_revision c + 1" "pr_assignee row' = b" "pr_audit_digest row' = digest"
    and rec: "ap_status a' = action" "ap_decision a' = Some (raw, sort_keys (envelope_value (decision_envelope env aid action actor revision key v now)))"
      "ap_operator_id a' = Some actor" "ap_operation_key a' = Some key" "ap_decided_at a' = Some now" and raw: "length raw \<le> 1048576"
  shows "chain_matches row' a' (next_chain c b digest (Some (decision_envelope env aid action actor revision key v now)) actor key now)"
proof -
  let ?e = "envelope_value (decision_envelope env aid action actor revision key v now)"
  have ewf: "wf_val ?e" using key wf by (rule decision_wf)
  have "get_field (sort_keys ?e) ''data'' = sort_keys (PDict [(''approvalProfile'', PStr PROTECTED_APPROVAL_PROFILE), (''approval_id'', PStr aid), (''decision'', PStr action),
        (''operator_id'', PStr actor), (''value'', v), (''revision'', PInt (revision + 1))])" (is "_ = sort_keys ?d")
    unfolding get_field_sort_keys [OF ewf] unfolding envelope_value_def decision_dict [OF key] by (simp add: get_field_def)
  moreover have "has_value (sort_keys ?d) ''decision'' (PStr action)"
    by (rule has_value_sorted [of _ _ "PStr action"]) (use wf in \<open>simp_all add: dict_wf_def\<close>)
  moreover have "py_eq (sort_keys ?e) (sort_keys ?e)" using py_eq_refl wf_val_sort_keys [OF ewf] eok by simp
  ultimately show ?thesis
    unfolding chain_matches_def next_chain_def using row rec raw
    by (simp add: decision_value_def opt_value_def float_value_def num_value_def del: sort_keys.simps)
qed

lemma next_retained:
  assumes key: "key \<noteq> []" and wf: "wf_val v" and eok: "json_ok (envelope_value (decision_envelope env aid action actor revision key v now))"
    and here: "in_inbox st (scope, ''urn:open-workflow-agent:approvals'', key) = Some r"
      "ib_envelope r = envelope_value (decision_envelope env aid action actor revision key v now)"
  shows "event_retained st scope (next_chain c b digest (Some (decision_envelope env aid action actor revision key v now)) actor key now)"
proof -
  let ?e = "envelope_value (decision_envelope env aid action actor revision key v now)"
  have ewf: "wf_val ?e" using key wf by (rule decision_wf)
  have "get_field (sort_keys ?e) ''source'' = PStr ''urn:open-workflow-agent:approvals''" "get_field (sort_keys ?e) ''id'' = PStr key"
    unfolding get_field_sort_keys [OF ewf] unfolding envelope_value_def decision_dict [OF key] by (simp_all add: get_field_def)
  then show ?thesis
    using here py_eq_sort_keys [OF eok ewf] by (simp add: event_retained_def next_chain_def del: sort_keys.simps)
qed

lemma make_identity_eq: "make_identity x = Inr i \<Longrightarrow> i = x"
  by (auto simp: make_identity_def split: if_splits)

lemma identity_from_value_ok: "identity_from_value v = Inr i \<Longrightarrow> make_identity i = Inr i"
proof -
  assume "identity_from_value v = Inr i"
  then obtain x where x: "make_identity x = Inr i" by (auto simp: identity_from_value_def split: if_splits pyval.splits)
  then show ?thesis using make_identity_eq [OF x] by simp
qed

text \<open>The rows a verified request is made of.\<close>

lemma inspectE:
  assumes "inspect env cfg s aid = Inr view"
  obtains row a digest where "dict_get (at_requests s) aid = Some row" "request_base env s aid row a digest view"
    "request_tail env s aid row a digest view" "dict_get (at_rows s) aid = Some a" "set (policy_actors (rv_policy view)) \<subseteq> set (pc_actor_ids cfg)"
    "get_field (rv_value view) ''event_scope'' = PStr (ap_event_scope a)" "make_identity (rv_origin view) = Inr (rv_origin view)"
proof -
  have "request_value env s aid False = Inr view" and actors: "set (policy_actors (rv_policy view)) \<subseteq> set (pc_actor_ids cfg)"
    using assms by (auto simp: inspect_def)
  then obtain row a digest where r: "dict_get (at_requests s) aid = Some row" "request_base env s aid row a digest view"
    "request_tail env s aid row a digest view" by (auto simp: request_value_parts)
  then have rec: "record_of_request s aid (rv_value view) = Inr a" and "request_origin row (rv_value view) = Inr (rv_origin view)"
    by (auto simp: request_base_def)
  then have "identity_from_value (get_field (rv_value view) ''origin'') = Inr (rv_origin view)" by (auto simp: request_origin_def)
  then have "make_identity (rv_origin view) = Inr (rv_origin view)" by (rule identity_from_value_ok)
  moreover have "dict_get (at_rows s) aid = Some a" using rec by (auto simp: record_of_request_def split: option.splits)
  ultimately show thesis using r actors record_scope [OF rec] that by blast
qed

lemma revision_identity_ok: "make_identity origin = Inr origin \<Longrightarrow> 0 < n \<Longrightarrow> make_identity (revision_identity origin n) = Inr (revision_identity origin n)"
  by (auto simp: make_identity_def revision_identity_def MUTATION_POLICY_def split: if_splits)

text \<open>The state after a mutation and the arrival of its event, with what the verifier needs of it.\<close>

lemma mutate_bodyE:
  assumes run: "mutate_body env cfg s now aid action actor revision key v assignee = Inr (s', event)"
    and view: "inspect env cfg s aid = Inr view" and ready: "mutation_ready env s view revision key v now"
  defines "item \<equiv> written_item env aid action actor revision key v assignee now (ch_digest (rv_chain view))"
  obtains a b digest encoded e a' where
    "dict_get (at_rows s) aid = Some a" "ap_status a = ''pending''" "key \<noteq> []" "json_ok v" "revision = ch_revision (rv_chain view)"
    "mutation_allowed cfg view action actor now = Inr ()" "mutation_effect env cfg view aid action actor revision key v assignee now = Inr (b, event)"
    "event = written_event env aid action actor revision key v now"
    "known_receipt env item MUTATION_POLICY = Inr (protected_receipt digest item)"
    "make_receipt (protected_receipt digest item) = Inr (protected_receipt digest item)" "bounded_json env item 524288 = Inr encoded"
    "insert_completed_receipt (ae_journal env) (at_journal s) (revision_identity (rv_origin view) (revision + 1)) (protected_receipt digest item) = Inr (at_journal s')"
    "at_invocations s' = at_invocations s" "at_tables s' = at_tables s"
    "at_requests s' = at_requests (update_request s aid (\<lambda>r. r\<lparr>pr_revision := revision + 1, pr_assignee := b, pr_audit_digest := digest\<rparr>))"
    "e = \<lparr>au_approval_id = aid, au_revision = revision + 1, au_operation_key = key, au_payload = stored_text encoded item, au_digest = digest\<rparr>"
    "at_audit s' = at_audit s @ [e]"
    "dict_get (at_rows s') aid = Some a'" "ap_request a' = ap_request a" "ap_expires_at a' = ap_expires_at a" "ap_event_scope a' = ap_event_scope a"
    "event = None \<Longrightarrow> a' = a"
    "\<And>x. event = Some x \<Longrightarrow> \<exists>raw. envelope_raw (ae_float_repr env) x = Inr raw \<and> ap_status a' = action \<and>
       ap_decision a' = Some (raw, sort_keys (envelope_value x)) \<and> ap_operator_id a' = Some actor \<and> ap_operation_key a' = Some key \<and>
       ap_decided_at a' = Some now"
    "\<And>x. event = Some x \<Longrightarrow> \<exists>r. in_inbox (at_events s') (event_key_of (scope_of view) x) = Some r \<and> ib_envelope r = envelope_value x"
proof -
  obtain s1 ev where m: "mutate env cfg s now aid action actor revision key v assignee = Inr (s1, ev)"
    and rest: "(case ev of None \<Rightarrow> Inr (s1, None) | Some x \<Rightarrow>
        bindE (ingest_in_transaction (ae_event env) (at_events s1) ''-'' ''-'' now (envelope_dict x) (ev_source x) (scope_of view) (\<lambda>_. Inr ())) (\<lambda>(st, _).
             Inr (s1\<lparr>at_events := st\<rparr>, Some x))) = Inr (s', event)"
    using run unfolding mutate_body_def view bindE_simps scope_of_def [symmetric] by (auto simp only: bindE_eq_Inr prod.case split_paired_Ex)
  have fresh: "find (\<lambda>e. au_operation_key e = key) (at_audit s) = None" using ready by (simp add: mutation_ready_def)
  obtain a effect where f: "key \<noteq> []" "json_ok v" "dict_get (at_rows s) aid = Some a" "ap_status a = ''pending''"
    "revision = ch_revision (rv_chain view)" "mutation_allowed cfg view action actor now = Inr ()"
    "mutation_effect env cfg view aid action actor revision key v assignee now = Inr effect"
    "record_mutation env s view aid action actor revision key (supplied_value action actor revision assignee v) now effect = Inr (s1, ev)"
    using mutate_freshE [OF m view fresh] by metis
  obtain b where eff: "effect = (b, written_event env aid action actor revision key v now)"
    using mutation_effect_written [of env cfg view aid action actor revision key v assignee now "fst effect" "snd effect"] f(7) by (cases effect) auto
  obtain digest encoded j where r: "known_receipt env item MUTATION_POLICY = Inr (protected_receipt digest item)"
    "make_receipt (protected_receipt digest item) = Inr (protected_receipt digest item)" "bounded_json env item 524288 = Inr encoded"
    "insert_completed_receipt (ae_journal env) (at_journal s) (revision_identity (rv_origin view) (revision + 1)) (protected_receipt digest item) = Inr j"
    "ev = written_event env aid action actor revision key v now" "at_journal s1 = j" "at_invocations s1 = at_invocations s"
    "at_events s1 = (at_events s)\<lparr>st_journal := j\<rparr>" "at_tables s1 = at_tables s"
    "at_requests s1 = at_requests (update_request s aid (\<lambda>r. r\<lparr>pr_revision := revision + 1, pr_assignee := b, pr_audit_digest := digest\<rparr>))"
    "at_audit s1 = at_audit s @ [\<lparr>au_approval_id = aid, au_revision = revision + 1, au_operation_key = key,
                           au_payload = stored_text encoded item, au_digest = digest\<rparr>]"
    "case written_event env aid action actor revision key v now of None \<Rightarrow> at_rows s1 = at_rows s
     | Some e \<Rightarrow> (\<exists>raw. envelope_raw (ae_float_repr env) e = Inr raw \<and>
         at_rows s1 = map (\<lambda>(k, x). (k, if k = aid then x\<lparr>ap_status := action, ap_decision := Some (raw, sort_keys (envelope_value e)),
           ap_operator_id := Some actor, ap_operation_key := Some key, ap_decided_at := Some now\<rparr> else x)) (at_rows s))"
    by (rule record_mutationE [OF f(8) [unfolded eff], unfolded fst_conv snd_conv written_item_def [symmetric] item_def [symmetric]]) (rule that)
  note moved = r(12) [folded r(5)]
  have same: "ev = event" "at_rows s' = at_rows s1" "at_requests s' = at_requests s1" "at_audit s' = at_audit s1" "at_invocations s' = at_invocations s1"
    "at_tables s' = at_tables s1"
    using rest by (auto split: option.splits)
  have known: "known_envelope (ae_event env) (at_events s1) (scope_of view) x = known_envelope (ae_event env) (at_events s) (scope_of view) x" for x
    by (simp add: r(8) known_envelope_def in_inbox_def split: option.split)
  have arrive: "(\<exists>r. in_inbox (at_events s') (event_key_of (scope_of view) x) = Some r \<and> ib_envelope r = envelope_value x) \<and> at_journal s' = j"
    if x: "event = Some x" for x
  proof -
    have x': "x = decision_envelope env aid action actor revision key v now"
      using x r(5) same(1) by (auto simp: written_event_def split: if_splits)
    then have "known_envelope (ae_event env) (at_events s) (scope_of view) x = Inr None"
      using ready by (simp add: mutation_ready_def decision_envelope_def)
    then have new: "known_envelope (ae_event env) (at_events s1) (scope_of view) x = Inr None" by (simp add: known)
    obtain st y where "ingest_in_transaction (ae_event env) (at_events s1) ''-'' ''-'' now (envelope_dict x) (ev_source x) (scope_of view) (\<lambda>_. Inr ()) = Inr (st, y)"
      "s' = s1\<lparr>at_events := st\<rparr>"
      using rest same(1) x by auto
    from ingest_arrives [OF this(1) _ new] this(2) show ?thesis using decision_ok [OF f(1)] r(6) by (simp add: x')
  qed
  have journal: "at_journal s' = j" using arrive rest r(6) same(1) by (cases event) auto
  have rows: "\<exists>a'. dict_get (at_rows s') aid = Some a' \<and> ap_request a' = ap_request a \<and> ap_expires_at a' = ap_expires_at a \<and> ap_event_scope a' = ap_event_scope a \<and>
      (event = None \<longrightarrow> a' = a) \<and> (\<forall>x. event = Some x \<longrightarrow> (\<exists>raw. envelope_raw (ae_float_repr env) x = Inr raw \<and> ap_status a' = action \<and>
       ap_decision a' = Some (raw, sort_keys (envelope_value x)) \<and> ap_operator_id a' = Some actor \<and> ap_operation_key a' = Some key \<and>
       ap_decided_at a' = Some now))"
  proof (cases event)
    case None
    then show ?thesis using moved same f(3) by simp
  next
    case (Some x)
    then show ?thesis using moved same f(3) by (auto simp: dict_get_map_at)
  qed
  then obtain a' where a': "dict_get (at_rows s') aid = Some a'" "ap_request a' = ap_request a" "ap_expires_at a' = ap_expires_at a" "ap_event_scope a' = ap_event_scope a"
      "event = None \<Longrightarrow> a' = a" "\<And>x. event = Some x \<Longrightarrow> (\<exists>raw. envelope_raw (ae_float_repr env) x = Inr raw \<and> ap_status a' = action \<and>
       ap_decision a' = Some (raw, sort_keys (envelope_value x)) \<and> ap_operator_id a' = Some actor \<and> ap_operation_key a' = Some key \<and>
       ap_decided_at a' = Some now)" by blast
  show thesis
    using f eff r same arrive journal a' by (intro that [of a b digest encoded "\<lparr>au_approval_id = aid, au_revision = revision + 1, au_operation_key = key,
                           au_payload = stored_text encoded item, au_digest = digest\<rparr>" a']) simp_all
qed

lemma written_event_ok:
  assumes "json_ok (written_item env aid action actor revision key v assignee now previous)"
    "written_event env aid action actor revision key v now = Some x"
  shows "json_ok (envelope_value x)"
  using assms by (simp add: written_item_def audit_item_def opt_value_def)

lemma mutation_verified:
  assumes run: "mutate_body env cfg s now aid action actor revision key v assignee = Inr (s', event)"
    and view: "inspect env cfg s aid = Inr view" and ready: "mutation_ready env s view revision key v now"
  shows "\<exists>b digest e. au_operation_key e = key \<and> au_revision e = revision + 1 \<and> revision = ch_revision (rv_chain view) \<and>
    mutation_effect env cfg view aid action actor revision key v assignee now = Inr (b, event) \<and>
    inspect env cfg s' aid =
      (if event \<noteq> None \<and> 60 < nesting v then Inl ApprovalValidationError
       else Inr (view\<lparr>rv_chain := next_chain (rv_chain view) b digest event actor key now, rv_entries := rv_entries view @ [e]\<rparr>))"
proof -
  let ?item = "written_item env aid action actor revision key v assignee now (ch_digest (rv_chain view))"
  obtain a b digest encoded e a' where f:
    "dict_get (at_rows s) aid = Some a" "ap_status a = ''pending''" "key \<noteq> []" "json_ok v" "revision = ch_revision (rv_chain view)"
    "mutation_allowed cfg view action actor now = Inr ()" "mutation_effect env cfg view aid action actor revision key v assignee now = Inr (b, event)"
    "event = written_event env aid action actor revision key v now"
    "known_receipt env ?item MUTATION_POLICY = Inr (protected_receipt digest ?item)"
    "make_receipt (protected_receipt digest ?item) = Inr (protected_receipt digest ?item)" "bounded_json env ?item 524288 = Inr encoded"
    "insert_completed_receipt (ae_journal env) (at_journal s) (revision_identity (rv_origin view) (revision + 1)) (protected_receipt digest ?item) = Inr (at_journal s')"
    "at_invocations s' = at_invocations s" "at_tables s' = at_tables s"
    "at_requests s' = at_requests (update_request s aid (\<lambda>r. r\<lparr>pr_revision := revision + 1, pr_assignee := b, pr_audit_digest := digest\<rparr>))"
    "e = \<lparr>au_approval_id = aid, au_revision = revision + 1, au_operation_key = key, au_payload = stored_text encoded ?item, au_digest = digest\<rparr>"
    "at_audit s' = at_audit s @ [e]"
    "dict_get (at_rows s') aid = Some a'" "ap_request a' = ap_request a" "ap_expires_at a' = ap_expires_at a" "ap_event_scope a' = ap_event_scope a"
    "event = None \<Longrightarrow> a' = a"
    "\<And>x. event = Some x \<Longrightarrow> \<exists>raw. envelope_raw (ae_float_repr env) x = Inr raw \<and> ap_status a' = action \<and>
       ap_decision a' = Some (raw, sort_keys (envelope_value x)) \<and> ap_operator_id a' = Some actor \<and> ap_operation_key a' = Some key \<and>
       ap_decided_at a' = Some now"
    "\<And>x. event = Some x \<Longrightarrow> \<exists>r. in_inbox (at_events s') (event_key_of (scope_of view) x) = Some r \<and> ib_envelope r = envelope_value x"
    by (rule mutate_bodyE [OF run view ready]) (rule that)
  have ready': "wf_val v" "0 < now" "schema_order_free env" "revision \<le> 128"
    "jr_effects (at_journal s) (effect_key (ae_journal env) (revision_identity (rv_origin view) (revision + 1))) = None"
    "jr_index (at_journal s) (effect_key (ae_journal env) (revision_identity (rv_origin view) (revision + 1))) = None"
    "ix_length (identity_row (revision_identity (rv_origin view) (revision + 1))) \<le> 1048576"
    using ready by (simp_all add: mutation_ready_def Let_def MAX_REASSIGNMENTS_def)
  obtain row a0 digest0 where old: "dict_get (at_requests s) aid = Some row" "request_base env s aid row a0 digest0 view"
    "request_tail env s aid row a0 digest0 view" "dict_get (at_rows s) aid = Some a0" "set (policy_actors (rv_policy view)) \<subseteq> set (pc_actor_ids cfg)"
    "get_field (rv_value view) ''event_scope'' = PStr (ap_event_scope a0)" "make_identity (rv_origin view) = Inr (rv_origin view)"
    by (rule inspectE [OF view]) (rule that)
  have a0: "a0 = a" using old(4) f(1) by simp
  let ?row = "row\<lparr>pr_revision := revision + 1, pr_assignee := b, pr_audit_digest := digest\<rparr>"
  have row': "dict_get (at_requests s') aid = Some ?row"
    using old(1) f(15) by (simp add: update_request_def dict_get_map_at)
  have grows: "journal_grows (at_journal s) (at_journal s')" using f(12) by (rule insert_completed_grows)
  have base': "request_base env s' aid ?row a' digest0 view"
    by (rule request_base_grows [OF old(2) grows f(13) _ _ _ _ f(18)]) (simp_all add: f(19-21) a0)
  have tail: "length (audit_of s aid) \<le> 128" "rv_entries view = audit_of s aid"
    "foldE (verify_entry env (at_journal s) aid (rv_origin view) (rv_policy view) (rv_expires view)) (first_chain (rv_policy view) digest0) (audit_of s aid) = Inr (rv_chain view)"
    "chain_matches row a (rv_chain view)"
    using old(3) a0 by (simp_all add: request_tail_def)
  have revisions: "revision = 1 + int (length (audit_of s aid))" "\<forall>x \<in> set (audit_of s aid). au_revision x \<le> revision"
    using chain_revisions [OF tail(3)] f(5) by (auto simp: first_chain_def)
  have snoc: "audit_of s' aid = take 131 (audit_of s aid @ [e]) \<and> length (audit_of s' aid) = Suc (length (audit_of s aid))"
    using revisions(2) by (intro audit_of_snoc [OF tail(1) _ _ f(17)]) (auto simp: f(16))
  have audit': "audit_of s' aid = audit_of s aid @ [e]" "length (audit_of s' aid) \<le> 128"
    using snoc revisions(1) ready'(4) by simp_all
  have unsettled: "ch_terminal (rv_chain view) = None" "ch_projection (rv_chain view) = (PNone, PNone, PNone)"
    using pending_chain_open [OF chain_verified_ok [OF tail(3) first_chain_ok] tail(4) f(2)] by simp_all
  have item_ok: "json_ok ?item" using bounded_jsonE(4) [OF f(11)] .
  have small: "octets False (ae_float_repr env) ?item \<le> 524288"
    using bounded_jsonE(2,3) [OF f(11)] octets_sort_keys [OF item_ok, of False "ae_float_repr env"] by (simp add: octets_text)
  have rev: "0 < revision + 1" using revisions(1) by simp
  have stored: "stored_receipt env (at_journal s') (revision_identity (rv_origin view) (revision + 1)) =
      (if \<not> nesting ?item \<le> 63 then Inl ApprovalValidationError else Inr (Some (protected_receipt digest ?item)))"
    using inserted_receipt [OF f(12) ready'(5,6) f(10) revision_identity_ok [OF old(7) rev] small ready'(7) item_ok] by simp
  have entry: "verify_entry env (at_journal s') aid (rv_origin view) (rv_policy view) (rv_expires view) (rv_chain view) e =
      (if \<not> nesting ?item \<le> 63 then Inl ApprovalValidationError else Inr (next_chain (rv_chain view) b digest event actor key now))"
    by (rule written_entry_verifies [OF f(7,6,3) ready'(1) f(4) ready'(3,2) unsettled(1) f(5) [symmetric] refl refl f(9,11) stored f(16)])
  have folded: "foldE (verify_entry env (at_journal s') aid (rv_origin view) (rv_policy view) (rv_expires view)) (first_chain (rv_policy view) digest0) (audit_of s' aid) =
      (if \<not> nesting ?item \<le> 63 then Inl ApprovalValidationError else Inr (next_chain (rv_chain view) b digest event actor key now))"
    unfolding audit'(1) foldE_append chain_grows [OF tail(3) grows] by (simp add: entry)
  have deep: "\<not> nesting ?item \<le> 63 \<longleftrightarrow> event \<noteq> None \<and> 60 < nesting v"
  proof (cases "action \<in> {''reassign'', ''escalate''}")
    case True
    then have "v = PNone" "event = None"
      using f(7) unfolding mutation_effect_def if_P [OF True]
      by (cases assignee; auto simp only: option.case bindE_eq_Inr guardE_eq_Inr sum.inject prod.inject sum.distinct)+
    then show ?thesis unfolding written_nesting [OF f(3)] if_P [OF True] by simp
  next
    case False
    then have "event \<noteq> None" unfolding f(8) written_event_def if_not_P [OF False] by simp
    then show ?thesis unfolding written_nesting [OF f(3)] if_not_P [OF False] by auto
  qed
  have "inspect env cfg s' aid = (if event \<noteq> None \<and> 60 < nesting v then Inl ApprovalValidationError
       else Inr (view\<lparr>rv_chain := next_chain (rv_chain view) b digest event actor key now, rv_entries := rv_entries view @ [e]\<rparr>))"
  proof (cases "event \<noteq> None \<and> 60 < nesting v")
    case True
    then have "request_value env s' aid False = Inl ApprovalValidationError"
      unfolding request_value_chain [OF row' base' audit'(2)] folded deep by (simp add: failing_def catching_def)
    then show ?thesis using True by (simp add: inspect_def)
  next
    case False
    let ?c = "next_chain (rv_chain view) b digest event actor key now"
    have matches: "chain_matches ?row a' ?c \<and> event_retained (at_events s') (ap_event_scope a') ?c"
    proof (cases event)
      case None
      then show ?thesis
        using next_matches_open [OF tail(4) unsettled, of ?row b digest actor key now] f(5,22) by (simp add: event_retained_def next_chain_def)
    next
      case (Some x)
      then have closing: "action \<notin> {''reassign'', ''escalate''}"
        using f(8) by (auto simp only: written_event_def if_True option.distinct split: if_splits)
      have x: "x = decision_envelope env aid action actor revision key v now"
        using Some unfolding f(8) written_event_def if_not_P [OF closing] by simp
      have eok: "json_ok (envelope_value (decision_envelope env aid action actor revision key v now))"
        using written_event_ok [OF item_ok, of x] f(8) Some x by simp
      obtain raw where raw: "envelope_raw (ae_float_repr env) x = Inr raw" "ap_status a' = action"
       "ap_decision a' = Some (raw, sort_keys (envelope_value x))" "ap_operator_id a' = Some actor" "ap_operation_key a' = Some key"
       "ap_decided_at a' = Some now" using f(23) [OF Some] by blast
      obtain r where r: "in_inbox (at_events s') (event_key_of (scope_of view) x) = Some r" "ib_envelope r = envelope_value x"
        using f(24) [OF Some] by blast
      have scope: "scope_of view = ap_event_scope a'" using old(6) f(21) a0 by (simp add: scope_of_def)
      have "chain_matches ?row a' ?c"
        unfolding Some x
        by (rule next_matches_closed [OF f(3) ready'(1) eok]) (use raw x raw_length [OF f(3,11) closing] f(5) in auto)
      moreover have "event_retained (at_events s') (ap_event_scope a') ?c"
        unfolding Some x
        by (rule next_retained [OF f(3) ready'(1) eok, of _ _ r]) (use r x scope in \<open>simp_all add: event_key_of_def decision_envelope_def\<close>)
      ultimately show ?thesis ..
    qed
    have "request_value env s' aid False = Inr (view\<lparr>rv_chain := ?c, rv_entries := audit_of s' aid\<rparr>)"
      unfolding request_value_chain [OF row' base' audit'(2)] folded deep if_not_P [OF False] bindE_simps
      using matches by simp
    then show ?thesis using False old(5) tail(2) audit'(1) by (simp add: inspect_def)
  qed
  moreover have "au_operation_key e = key" "au_revision e = revision + 1" by (simp_all add: f(16))
  ultimately show ?thesis using f(5,7) by blast
qed

end
