(* ===== verification/Approval_Example.thy ===== *)
theory Approval_Example
  imports Approval_Chain
begin

text \<open>
  A protected request on a concrete store: an invocation with its input and its admission receipt, a
  published request with its policy, its proof in the journal. The lemmas show that the verifier
  accepts it and that its assignee can decide it, so the theorems about protected approvals speak of states that exist.
  A bound on the size of a text that needs no text helps to check the limits.
\<close>

section \<open>A bound on the size of a text\<close>

fun text_weight :: "(rat \<Rightarrow> string) \<Rightarrow> pyval \<Rightarrow> nat" where
  "text_weight fr (PStr s) = 12 * length s + 2"
| "text_weight fr (PInt n) = utf8_length (show_int n)"
| "text_weight fr (PFloat (FFin q)) = utf8_length (fr q)"
| "text_weight fr (PList vs) = 2 + sum_list (map (\<lambda>v. text_weight fr v + 2) vs)"
| "text_weight fr (PDict d) = 2 + sum_list (map (\<lambda>kv. 12 * length (fst kv) + 6 + text_weight fr (snd kv)) d)"
| "text_weight fr v = 5"

lemma sum_list_below: "(\<And>x. x \<in> set xs \<Longrightarrow> f x \<le> g x) \<Longrightarrow> sum_list (map f xs) \<le> sum_list (map (g :: 'a \<Rightarrow> nat) xs)"
  by (induction xs) fastforce+

lemma sum_list_plus2: "sum_list (map (\<lambda>x. f x + 2) xs) = sum_list (map f xs) + 2 * length xs"
  by (induction xs) auto

lemma octets_weight: "json_ok v \<Longrightarrow> octets b fr v \<le> text_weight fr v"
proof (induction v)
  case (PFloat f)
  then show ?case by (cases f) (simp_all add: octets_def)
next
  case (PStr s)
  then show ?case using utf8_length_string [of b s] by (simp add: octets_def)
next
  case (PList vs)
  have "octets b fr (PList vs) \<le> 2 + sum_list (map (\<lambda>v. octets b fr v + 2) vs)"
    unfolding octets_list [OF PList.prems] by (simp only: sum_list_plus2)
  also have "\<dots> \<le> text_weight fr (PList vs)" using PList by (auto intro!: sum_list_below)
  finally show ?case .
next
  case (PDict d)
  have each: "utf8_length (json_string b (fst kv)) + 2 + octets b fr (snd kv) + 2 \<le> 12 * length (fst kv) + 6 + text_weight fr (snd kv)"
    if "kv \<in> set d" for kv
    using PDict that utf8_length_string [of b "fst kv"] by (cases kv) (fastforce simp: snds.simps)
  have "octets b fr (PDict d) \<le> 2 + sum_list (map (\<lambda>kv. utf8_length (json_string b (fst kv)) + 2 + octets b fr (snd kv) + 2) d)"
    unfolding octets_dict [OF PDict.prems] by (simp only: sum_list_plus2)
  also have "\<dots> \<le> text_weight fr (PDict d)" using sum_list_below [OF each] by simp
  finally show ?case .
qed (simp_all add: octets_def)

lemma bounded_json_total:
  assumes "valid_data v" "int (text_weight (ae_float_repr env) v) \<le> n"
  shows "\<exists>t. bounded_json env v n = Inr t"
proof -
  have ok: "json_ok v" "json_ok (sort_keys v)" using assms(1) by (simp_all add: validate_accepts)
  have "utf8_length (text_or_empty (json_spaced False (ae_float_repr env) (sort_keys v))) \<le> text_weight (ae_float_repr env) v"
    unfolding octets_alt [OF ok(2)] octets_sort_keys [OF ok(1)] by (rule octets_weight [OF ok(1)])
  then show ?thesis using bounded_jsonI [OF assms(1) spaced_text [OF ok(2)]] assms(2) by fastforce
qed

section \<open>The store\<close>

text \<open>A digest that tells the keys of the journal apart by the length of their texts and is constant elsewhere.\<close>

definition no_digest :: string where
  "no_digest = ''0000000000000000000000000000000000000000000000000000000000000000''"

definition length_digest :: "string \<Rightarrow> string" where
  "length_digest t =
     (if take 5 (drop 2 t) = ''owa/w'' then hex_char (length t mod 16) # hex_char (length t div 16 mod 16) # drop 2 no_digest else no_digest)"

definition length_env :: journal_env where
  "length_env = plain_journal_env\<lparr>je_sha256 := length_digest\<rparr>"

definition ap_config :: protected_config where
  "ap_config = \<lparr>pc_actor_ids = [''alice'', ''bob''], pc_max_pending = 10, pc_max_policy_bytes = 4096\<rparr>"

definition ap_env :: approval_env where
  "ap_env = \<lparr>ae_event = plain_event_env\<lparr>ee_journal := length_env\<rparr>, ae_parse_time = (\<lambda>t. Inr 100), ae_timestamp = (\<lambda>t. ''t''),
     ae_str = (\<lambda>v. []), ae_schema_profile = (\<lambda>v. Inr ()), ae_schema_accepts = (\<lambda>s v. Inr ()), ae_evidence = (\<lambda>h. Inr ()), ae_sqlite = True,
     ae_protected = Some ap_config\<rparr>"

lemma ap_env_select [simp]:
  "ae_journal ap_env = length_env" "ae_protected ap_env = Some ap_config" "ae_evidence ap_env h = Inr ()" "ae_timestamp ap_env q = ''t''"
  "ee_journal (ae_event ap_env) = length_env" "je_float_repr length_env q = ''0.0''"
  by (simp_all add: ap_env_def length_env_def plain_journal_env_def)

definition ap_limits :: event_limits where
  "ap_limits = ex_limits\<lparr>el_max_event_bytes := 65536, el_max_retained_events := 10, el_max_retained_bytes := 655360\<rparr>"

definition ap_fields :: handle_fields where
  "ap_fields = \<lparr>hf_identity = \<lparr>hi_invocation_id = ''i'', hi_engine = ''e'', hi_engine_execution_reference = ''r'', hi_user_id = None,
     hi_session_id = ''s'', hi_workflow_name = ''w'', hi_workflow_version = ''1'', hi_workflow_fingerprint = ''f'',
     hi_parent_invocation_id = None, hi_parent_task_reference = None, hi_owner_principal = Some ''sc''\<rparr>,
     hf_status = Running, hf_output = PNone, hf_error = PNone\<rparr>"

definition ap_payload :: payload where
  "ap_payload = \<lparr>pl_fields = ap_fields, pl_revision = None\<rparr>"

definition ap_handle :: execution_handle where
  "ap_handle = \<lparr>eh_fields = ap_fields, eh_persisted = Some ap_payload, eh_lease = None\<rparr>"

definition ap_store :: datastore where
  "ap_store = empty_datastore\<lparr>ds_invocations := [''i'' \<mapsto> (ap_payload, Running)], ds_inputs := [''i'' \<mapsto> (''f'', PNone)]\<rparr>"

definition ap_policy :: approval_policy where
  "ap_policy = \<lparr>po_assignee = ''alice'', po_reassignment = [''bob''], po_escalation = [], po_schema = None\<rparr>"

definition ap_event :: pyval where
  "ap_event = PDict [(''approvalexpiresat'', PStr ''2026-01-01T00:00:00Z''), (''data'', PDict [(''approvalPolicy'', policy_as_value ap_policy)]),
     (''id'', PStr ''a1''), (''source'', PStr ''workflow''), (''subject'', PStr ''a1''), (''time'', PStr ''2025-01-01T00:00:00+00:00''),
     (''type'', PStr APPROVAL_REQUEST_EVENT)]"

definition ap_value :: pyval where
  "ap_value = PDict
     [(''approval_id'', PStr ''a1''), (''definition_receipt'', dependency_value (admission_identity ap_handle) no_digest),
      (''event_scope'', PStr ''sc''), (''expires_at'', PFloat (FFin 100)), (''history_limits'', HISTORY_LIMITS),
      (''input_digest'', PStr no_digest), (''invocation_binding'', binding_value ap_handle), (''origin'', identity_value ex_emit),
      (''origin_request_digest'', PStr no_digest), (''policy'', policy_as_value ap_policy), (''profile'', PStr REQUEST_PROFILE),
      (''request_event'', ap_event)]"

definition ap_request_identity :: effect_identity where
  "ap_request_identity = ex_emit\<lparr>ei_operation := REQUEST_POLICY\<rparr>"

definition ap_receipts :: "(effect_identity \<times> pyval) list" where
  "ap_receipts = [(admission_identity ap_handle, PNone), (ex_emit, ap_event), (ap_request_identity, ap_value)]"

definition ap_journal :: journal where
  "ap_journal =
     \<lparr>jr_effects = map_of (map (\<lambda>(i, v). (effect_key length_env i, receipt_row length_env False (protected_receipt no_digest v))) ap_receipts),
      jr_index = map_of (map (\<lambda>(i, v). (effect_key length_env i, identity_row i)) ap_receipts)\<rparr>"

definition ap_raw :: string where
  "ap_raw = text_or_empty (json_dumps False (\<lambda>q. ''0.0'') ap_event)"

definition ap_record :: approval_record where
  "ap_record = \<lparr>ap_subject = ''a1'', ap_status = ''pending'', ap_request = (ap_raw, ap_event), ap_requested_at = 100, ap_expires_at = Some 100,
     ap_decision = None, ap_operator_id = None, ap_operation_key = None, ap_decided_at = None, ap_event_scope = ''sc''\<rparr>"

definition ap_row :: protected_row where
  "ap_row = \<lparr>pr_invocation_id = ''i'', pr_fingerprint = ''f'',
     pr_payload = (text_length (\<lambda>q. ''0.0'') False ap_value, ap_value), pr_digest = no_digest, pr_revision = 1, pr_assignee = ''alice'',
     pr_audit_digest = no_digest\<rparr>"

definition ap_opened :: approval_state where
  "ap_opened = \<lparr>at_events = no_events ap_limits ap_journal, at_invocations = ap_store, at_rows = [(''a1'', ap_record)], at_tables = True,
     at_requests = [(''a1'', ap_row)], at_audit = []\<rparr>"

definition ap_view :: request_view where
  "ap_view = \<lparr>rv_value = ap_value, rv_origin = ex_emit, rv_policy = ap_policy, rv_expires = 100,
     rv_chain = first_chain ap_policy no_digest, rv_entries = []\<rparr>"

section \<open>The verifier accepts the request\<close>

lemma ap_keys:
  "distinct (map (effect_key length_env) [admission_identity ap_handle, ex_emit, ap_request_identity, revision_identity ex_emit 2])"
  by code_simp

lemma ap_identities:
  "make_identity (admission_identity ap_handle) = Inr (admission_identity ap_handle)" "make_identity ex_emit = Inr ex_emit"
  "make_identity ap_request_identity = Inr ap_request_identity"
  by code_simp+

lemma ap_index_lengths:
  "ix_length (identity_row (admission_identity ap_handle)) \<le> 1048576" "ix_length (identity_row ex_emit) \<le> 1048576"
  "ix_length (identity_row ap_request_identity) \<le> 1048576" "ix_length (identity_row (revision_identity ex_emit 2)) \<le> 1048576"
  by code_simp+

lemma ap_values: "valid_data ap_event" "valid_data ap_value" "nesting ap_event \<le> 63" "nesting ap_value \<le> 63"
  by code_simp+

lemma ap_weights: "text_weight (\<lambda>q. ''0.0'') ap_event \<le> 60000" "text_weight (\<lambda>q. ''0.0'') ap_value \<le> 60000"
  by code_simp+

lemma no_digest_ok: "is_digest no_digest"
  by code_simp

lemma length_env_float: "je_float_repr length_env = (\<lambda>q. ''0.0'')"
  by (simp add: length_env_def plain_journal_env_def)

lemma operation_text:
  assumes "operation \<in> {REQUEST_POLICY, MUTATION_POLICY, REQUEST_PROFILE}"
  shows "take 5 (drop 2 (''['' @ json_string False operation @ x)) \<noteq> ''owa/w''"
  using assms by (auto simp: REQUEST_POLICY_def MUTATION_POLICY_def REQUEST_PROFILE_def json_string_def json_escape_def)

lemma ap_digest:
  assumes "valid_data v" "operation \<in> {REQUEST_POLICY, MUTATION_POLICY, REQUEST_PROFILE}"
  shows "effect_request_digest length_env operation v = Inr no_digest"
proof -
  have "json_ok (sort_keys v)" using assms(1) by (simp add: validate_accepts)
  then obtain t where t: "json_dumps False (je_float_repr length_env) (sort_keys v) = Inr t" using json_dumps_total by blast
  have "digest_of length_env False (PList [PStr operation, v]) = Inr (length_digest (''['' @ json_string False operation @ '','' @ t @ '']''))"
    using t by (simp add: digest_of_def length_env_def)
  also have "\<dots> = Inr no_digest" using operation_text [OF assms(2)] unfolding length_digest_def by simp
  finally show ?thesis using assms(1) by (simp add: effect_request_digest_def)
qed

lemma protected_receipt_ok: "valid_data v \<Longrightarrow> make_receipt (protected_receipt no_digest v) = Inr (protected_receipt no_digest v)"
  using no_digest_ok by (simp add: make_receipt_def opt_ok_def validate_accepts)

lemma ap_known:
  assumes "valid_data v" "operation \<in> {REQUEST_POLICY, MUTATION_POLICY, REQUEST_PROFILE}"
  shows "known_receipt ap_env v operation = Inr (protected_receipt no_digest v)"
  using ap_digest [OF assms] protected_receipt_ok [OF assms(1)] by (simp add: known_receipt_def protected_receipt_def)

lemma small_octets: "json_ok v \<Longrightarrow> text_weight (\<lambda>q. ''0.0'') v \<le> 60000 \<Longrightarrow> octets False (ae_float_repr ap_env) v \<le> 524288"
  using octets_weight [of v False "ae_float_repr ap_env"] by (simp add: length_env_float)

lemma ap_stored:
  assumes "(i, v) \<in> set ap_receipts"
  shows "stored_receipt ap_env ap_journal i = Inr (Some (protected_receipt no_digest v))"
proof -
  have keys: "distinct (map fst (map (\<lambda>(i, v). (effect_key length_env i, f i v)) ap_receipts))" for f :: "effect_identity \<Rightarrow> pyval \<Rightarrow> 'a"
    using ap_keys by (simp add: ap_receipts_def)
  have rows: "jr_effects ap_journal (effect_key length_env i) = Some (receipt_row length_env False (protected_receipt no_digest v))"
    "jr_index ap_journal (effect_key length_env i) = Some (identity_row i)"
    using assms unfolding ap_journal_def journal.select_convs by (auto intro!: map_of_is_SomeI keys)
  have ok: "valid_data v" "nesting v \<le> 63" "text_weight (\<lambda>q. ''0.0'') v \<le> 60000" "make_identity i = Inr i" "ix_length (identity_row i) \<le> 1048576"
    using assms ap_values ap_weights ap_identities ap_index_lengths by (auto simp: ap_receipts_def validate_accepts)
  have "json_ok v" using ok(1) by (simp add: validate_accepts)
  then show ?thesis
    using stored_row_reads [of ap_journal ap_env i no_digest v] rows protected_receipt_ok [OF ok(1)] ok small_octets by simp
qed

lemma ap_raw_length: "length ap_raw \<le> 1048576"
proof -
  have ok: "json_ok ap_event" using ap_values(1) by (simp add: validate_accepts)
  obtain t u where t: "json_dumps False (\<lambda>q. ''0.0'') ap_event = Inr t" "json_spaced False (\<lambda>q. ''0.0'') ap_event = Inr u"
    using json_dumps_total [OF ok] json_spaced_total [OF ok] by blast
  have "length ap_raw \<le> utf8_length u"
    using compact_octets [OF t] length_utf8_length [of t] by (simp add: ap_raw_def t text_or_empty_def)
  then show ?thesis using octets_weight [OF ok, of False "\<lambda>q. ''0.0''"] octets_text [OF t(2)] ap_weights(1) by simp
qed

lemma ap_request_parts:
  "request_shape ''a1'' ap_value" "request_origin ap_row ap_value = Inr ex_emit"
  "get_invocation ap_store ''i'' = Inr (Some ap_handle)" "read_input ap_store ap_handle = Inr PNone"
  "py_eq (binding_value ap_handle) (get_field ap_value ''invocation_binding'')"
  "py_eq (opt_value PStr (owner_principal ap_handle)) (get_field ap_value ''event_scope'')"
  "has_value ap_value ''input_digest'' (PStr no_digest)" "has_value ap_value ''origin_request_digest'' (PStr no_digest)"
  "dependency_from_value (get_field ap_value ''definition_receipt'') = Inr (admission_identity ap_handle, no_digest)"
  "receipt_digest ap_env (protected_receipt no_digest PNone) = Inr no_digest"
  "policy_from_value ap_env (get_field ap_value ''policy'') = Inr ap_policy" "source_expiry ap_env ''a1'' ap_value ap_policy = Inr 100"
  "py_eq ap_event (get_field ap_value ''request_event'')" "py_eq (float_value (Some 100)) (get_field ap_value ''expires_at'')"
  "has_value ap_value ''event_scope'' (PStr ''sc'')" "set (policy_actors ap_policy) \<subseteq> set (pc_actor_ids ap_config)"
  by code_simp+

lemma ap_opened_select [simp]:
  "at_journal ap_opened = ap_journal" "at_invocations ap_opened = ap_store" "at_rows ap_opened = [(''a1'', ap_record)]" "at_tables ap_opened"
  "at_requests ap_opened = [(''a1'', ap_row)]" "at_audit ap_opened = []" "at_events ap_opened = no_events ap_limits ap_journal"
  "st_journal (no_events l j) = j" "st_limits (no_events l j) = l" "st_inbox (no_events l j) = []" "st_outbox (no_events l j) = []"
  by (simp_all add: ap_opened_def no_events_def)

lemma ap_base: "request_base ap_env ap_opened ''a1'' ap_row ap_record no_digest ap_view"
proof -
  note parts = ap_request_parts
  have event: "get_field ap_value ''request_event'' = ap_event" by (simp add: ap_value_def get_field_def)
  have ok: "json_ok ap_value" "wf_val ap_value" using ap_values(2) by (simp add: validate_accepts) code_simp
  have "\<exists>t. bounded_json ap_env ap_value 524288 = Inr t"
    using ap_weights(2) by (intro bounded_json_total [OF ap_values(2)]) (simp add: length_env_float)
  moreover have "load_bounded 524288 (pr_payload ap_row) = Inr ap_value"
    using text_length_octets [of "\<lambda>q. ''0.0''" False ap_value] octets_weight [OF ok(1), of False "\<lambda>q. ''0.0''"] ap_weights(2)
    by (simp add: load_bounded_def ap_row_def)
  moreover have "request_vouched ap_env ap_opened ap_row ap_value ex_emit = Inr no_digest"
    using ap_known [OF ap_values(2), of REQUEST_POLICY] ap_stored [of ap_request_identity ap_value] py_eq_refl [OF ok]
    by (simp add: request_vouched_def ap_receipts_def ap_request_identity_def ap_row_def receipt_is_def receipt_eq_def)
  moreover have "request_handle ap_env ap_opened ap_value ex_emit = Inr ap_handle"
    using parts(3-7) ap_digest [of PNone REQUEST_PROFILE] by (simp add: request_handle_def ex_emit_def ex_call_def validate_accepts)
  moreover have "definition_vouched ap_env ap_opened ap_value ap_handle = Inr ()"
    using parts(9,10) ap_stored [of "admission_identity ap_handle" PNone] by (simp add: definition_vouched_def ap_receipts_def)
  moreover have "publication_vouched ap_env ap_opened ap_value ex_emit False = Inr ()"
    using parts(8,13) ap_stored [of ex_emit ap_event] by (simp add: publication_vouched_def ap_receipts_def)
  moreover have "record_of_request ap_opened ''a1'' ap_value = Inr ap_record"
    using parts(13-15) ap_raw_length by (simp add: record_of_request_def ap_record_def load_bounded_def)
  ultimately show ?thesis using parts by (simp add: request_base_def ap_view_def)
qed

lemma ap_inspect: "inspect ap_env ap_config ap_opened ''a1'' = Inr ap_view"
proof -
  have "request_tail ap_env ap_opened ''a1'' ap_row ap_record no_digest ap_view"
    by (simp add: request_tail_def audit_of_def ap_view_def chain_matches_def first_chain_def event_retained_def ap_row_def ap_policy_def ap_record_def
        decision_value_def opt_value_def float_value_def)
  then have "request_value ap_env ap_opened ''a1'' False = Inr ap_view" using ap_base request_value_parts by fastforce
  then show ?thesis using ap_request_parts(16) by (simp add: inspect_def ap_view_def)
qed

section \<open>The assignee decides\<close>

text \<open>The answer may be any value whose nesting and size leave room for the record around it.\<close>

definition fair_answer :: "pyval \<Rightarrow> bool" where
  "fair_answer v \<longleftrightarrow> json_ok v \<and> nesting v \<le> 61 \<and> text_weight (\<lambda>q. ''0.0'') v \<le> 10000"

definition ap_decision_event :: "pyval \<Rightarrow> event_envelope" where
  "ap_decision_event v = decision_envelope ap_env ''a1'' ''approved'' ''alice'' 1 ''k1'' v 20"

lemma dec_lengths: "utf8_length (dec (Suc 0)) = 1" "utf8_length (dec 2) = 1"
  by code_simp+

lemma decision_event_value:
  "envelope_value (ap_decision_event v) = PDict
    [(''id'', PStr ''k1''), (''source'', PStr ''urn:open-workflow-agent:approvals''), (''type'', PStr ''io.openworkflow.agent.approval.decided''),
     (''time'', PStr ''t''), (''subject'', PStr ''a1''), (''datacontenttype'', PStr ''application/json''),
     (''data'', PDict [(''approvalProfile'', PStr PROTECTED_APPROVAL_PROFILE), (''approval_id'', PStr ''a1''), (''decision'', PStr ''approved''),
        (''operator_id'', PStr ''alice''), (''value'', v), (''revision'', PInt 2)]),
     (''approvalid'', PStr ''a1'')]"
  by (simp add: ap_decision_event_def envelope_value_def decision_dict)

lemma fair_event:
  assumes "fair_answer v"
  shows "valid_data (envelope_value (ap_decision_event v))" "text_weight (\<lambda>q. ''0.0'') (envelope_value (ap_decision_event v)) \<le> 20000"
  using assms unfolding decision_event_value
  by (auto simp: fair_answer_def validate_accepts MAX_SAFE_INTEGER_def PROTECTED_APPROVAL_PROFILE_def show_int_def dec_lengths)

lemma fair_supplied:
  assumes "fair_answer v"
  shows "valid_data (supplied_value ''approved'' ''alice'' 1 None v)"
    "text_weight (\<lambda>q. ''0.0'') (supplied_value ''approved'' ''alice'' 1 None v) \<le> 20000"
  using assms by (auto simp: supplied_value_def fair_answer_def validate_accepts MAX_SAFE_INTEGER_def opt_value_def show_int_def dec_lengths)

definition ap_item :: "pyval \<Rightarrow> pyval" where
  "ap_item v = audit_item ''a1'' 1 no_digest ''k1'' (supplied_value ''approved'' ''alice'' 1 None v) 20 (Some (ap_decision_event v))"

lemma json_ok_20: "json_ok (PFloat (FFin 20))"
  by (simp add: safe_float_def MAX_SAFE_INTEGER_def)

lemma item_value:
  "ap_item v = PDict
     [(''profile'', PStr MUTATION_PROFILE), (''approval_id'', PStr ''a1''), (''revision'', PInt 2), (''previous_digest'', PStr no_digest),
      (''operation_key'', PStr ''k1''), (''request'', supplied_value ''approved'' ''alice'' 1 None v), (''recorded_at'', PFloat (FFin 20)),
      (''event'', envelope_value (ap_decision_event v))]"
  by (simp add: ap_item_def audit_item_def opt_value_def)

lemma fair_item:
  assumes "fair_answer v"
  shows "valid_data (ap_item v)" "text_weight (\<lambda>q. ''0.0'') (ap_item v) \<le> 60000"
proof -
  have nest: "nesting (supplied_value ''approved'' ''alice'' 1 None v) \<le> 62" "nesting (envelope_value (ap_decision_event v)) \<le> 63"
    using assms unfolding decision_event_value by (auto simp: supplied_value_def fair_answer_def opt_value_def)
  then show "valid_data (ap_item v)"
    using fair_event(1) [OF assms] fair_supplied(1) [OF assms] json_ok_20 unfolding item_value validate_accepts
    by (auto simp: MAX_SAFE_INTEGER_def)
  show "text_weight (\<lambda>q. ''0.0'') (ap_item v) \<le> 60000"
    using fair_event(2) [OF assms] fair_supplied(2) [OF assms] unfolding item_value
    by (simp add: MUTATION_PROFILE_def no_digest_def show_int_def dec_lengths)
qed

lemma canonical_total: "valid_data v \<Longrightarrow> \<exists>t. canonical env v = Inr t \<and> int (utf8_length t) \<le> int (text_weight (je_float_repr (ee_journal env)) v)"
proof -
  let ?fr = "je_float_repr (ee_journal env)"
  assume v: "valid_data v"
  then have ok: "json_ok v" "json_ok (sort_keys v)" by (simp_all add: validate_accepts)
  obtain t u where t: "json_dumps False ?fr (sort_keys v) = Inr t" "json_spaced False ?fr (sort_keys v) = Inr u"
    using json_dumps_total [OF ok(2)] json_spaced_total [OF ok(2)] by blast
  have "utf8_length t \<le> text_weight ?fr v"
    using compact_octets [OF t] octets_text [OF t(2)] octets_sort_keys [OF ok(1)] octets_weight [OF ok(1)] by (metis order.trans)
  then show ?thesis using t(1) v by (simp add: canonical_def)
qed

lemma ap_event_env: "ee_journal (ae_event ap_env) = length_env"
  by simp

text \<open>The decision arrives in the empty inbox.\<close>

lemma ap_arrives:
  assumes "fair_answer v"
  shows "\<exists>st e. ingest_in_transaction (ae_event ap_env) (no_events ap_limits j) ''-'' ''-'' 20 (envelope_dict (ap_decision_event v))
    ''urn:open-workflow-agent:approvals'' ''sc'' (\<lambda>_. Inr ()) = Inr (st, e)"
proof -
  let ?ee = "ae_event ap_env"
  let ?e = "ap_decision_event v"
  let ?st = "no_events ap_limits j"
  have e: "envelope_ok ?e" "normal_envelope ?e = ?e\<lparr>ev_data_present := True\<rparr>" "PDict (envelope_dict ?e) = envelope_value ?e"
    by (simp_all add: ap_decision_event_def decision_ok normal_envelope_def envelope_value_def) (simp add: decision_envelope_def)
  obtain t where t: "canonical ?ee (envelope_value ?e) = Inr t" "int (utf8_length t) \<le> 20000"
    using canonical_total [OF fair_event(1) [OF assms], of ?ee] fair_event(2) [OF assms] by (auto simp: length_env_float)
  have accept: "accept_envelope ?ee ap_limits ''-'' ''-'' (envelope_dict ?e) ''urn:open-workflow-agent:approvals'' = Inr (normal_envelope ?e)"
    using t fair_event(1) [OF assms] unfolding accept_envelope_def e(3) envelope_reads_back [OF e(1)] bindE_simps normal_value
    by (simp add: e(2) ap_limits_def) (simp add: ap_decision_event_def decision_envelope_def)
  have known: "known_envelope ?ee ?st ''sc'' (normal_envelope ?e) = Inr None"
    by (simp add: known_envelope_def in_inbox_def)
  have room: "check_capacity ?ee ?st (normal_envelope ?e) ''sc'' False = Inr ()"
    using t by (simp add: check_capacity_def reservations_def normal_value Let_def inbox_bytes_def outbox_bytes_def ap_limits_def)
  have ids: "ev_id (normal_envelope ?e) = ''k1''" "ev_source (normal_envelope ?e) = ''urn:open-workflow-agent:approvals''"
    by (simp_all add: normal_envelope_def ap_decision_event_def decision_envelope_def)
  have submitted: "dict_update (envelope_dict ?e) [(''id'', PStr (ev_id (normal_envelope ?e))), (''source'', PStr (ev_source (normal_envelope ?e)))] =
      envelope_dict ?e"
    unfolding ids decision_event_value [of v, unfolded envelope_value_def pyval.inject] by (simp add: dict_update_def)
  have free: "in_inbox ?st k = None" for k by (simp add: in_inbox_def)
  have sub: "canonical_submission ?ee ?st ''-'' ''-'' (envelope_dict ?e) ''urn:open-workflow-agent:approvals'' ''sc'' = Inr (normal_envelope ?e)"
    unfolding canonical_submission_def using accept known by simp
  show ?thesis
    unfolding ingest_in_transaction_def sub bindE_simps submitted e(3) event_digest_def normal_value t(1) free option.case room
    by (simp add: check_scope_def)
qed

lemma ap_inserts:
  assumes "valid_data item"
  shows "\<exists>j. insert_completed_receipt length_env ap_journal (revision_identity ex_emit 2) (protected_receipt no_digest item) = Inr j"
proof -
  have free: "jr_effects ap_journal (effect_key length_env (revision_identity ex_emit 2)) = None"
    "jr_index ap_journal (effect_key length_env (revision_identity ex_emit 2)) = None"
    using ap_keys by (auto simp: ap_journal_def ap_receipts_def)
  show ?thesis by (simp add: insert_completed_receipt_def insert_receipt_def free insert_new_def Let_def receipt_row_def)
qed

lemma ap_recorded:
  assumes "fair_answer v"
  shows "\<exists>s' j. record_mutation ap_env ap_opened ap_view ''a1'' ''approved'' ''alice'' 1 ''k1'' (supplied_value ''approved'' ''alice'' 1 None v) 20
      (''alice'', Some (ap_decision_event v)) = Inr (s', Some (ap_decision_event v)) \<and> at_events s' = no_events ap_limits j"
proof -
  have item: "audit_item ''a1'' 1 (ch_digest (rv_chain ap_view)) ''k1'' (supplied_value ''approved'' ''alice'' 1 None v) 20 (Some (ap_decision_event v)) = ap_item v"
    by (simp add: ap_item_def ap_view_def first_chain_def)
  obtain encoded where encoded: "bounded_json ap_env (ap_item v) 524288 = Inr encoded"
    using bounded_json_total [OF fair_item(1) [OF assms], of ap_env 524288] fair_item(2) [OF assms] by (auto simp: length_env_float)
  obtain j where j: "insert_completed_receipt length_env ap_journal (revision_identity ex_emit 2) (protected_receipt no_digest (ap_item v)) = Inr j"
    using ap_inserts [OF fair_item(1) [OF assms]] by blast
  have "json_ok (sort_keys (envelope_value (ap_decision_event v)))" using fair_event(1) [OF assms] by (simp add: validate_accepts)
  then obtain raw where raw: "envelope_raw (je_float_repr length_env) (ap_decision_event v) = Inr raw"
    using json_dumps_total unfolding envelope_raw_def envelope_value_def by blast
  show ?thesis
    using encoded j raw ap_known [OF fair_item(1) [OF assms], of MUTATION_POLICY]
    unfolding record_mutation_def snd_conv item Let_def option.case
    by (simp add: ap_view_def ap_row_def update_request_def settle_def ap_record_def no_events_def)
qed

lemma ap_allowed:
  "mutation_allowed ap_config ap_view ''approved'' ''alice'' 20 = Inr ()" "actor_identity (PStr ''alice'') False = Inr ''alice''"
  by (simp_all add: mutation_allowed_def ap_config_def ap_view_def first_chain_def ap_policy_def) code_simp

lemma ap_answer:
  assumes "fair_answer v"
  shows "validate_response ap_env ap_policy v = Inr ()"
proof -
  have v: "valid_data v" "text_weight (\<lambda>q. ''0.0'') v \<le> 10000" using assms by (auto simp: fair_answer_def validate_accepts)
  then obtain t where "bounded_json ap_env v MAX_APPROVAL_VALUE_BYTES = Inr t"
    using bounded_json_total [OF v(1), of ap_env MAX_APPROVAL_VALUE_BYTES] by (auto simp: MAX_APPROVAL_VALUE_BYTES_def length_env_float)
  then show ?thesis by (simp add: validate_response_def ap_policy_def)
qed

lemma ap_decides:
  assumes "fair_answer v"
  shows "\<exists>s'. mutate_body ap_env ap_config ap_opened 20 ''a1'' ''approved'' ''alice'' 1 ''k1'' v None = Inr (s', Some (ap_decision_event v))"
proof -
  obtain s1 j where s1: "record_mutation ap_env ap_opened ap_view ''a1'' ''approved'' ''alice'' 1 ''k1'' (supplied_value ''approved'' ''alice'' 1 None v) 20
      (''alice'', Some (ap_decision_event v)) = Inr (s1, Some (ap_decision_event v))" "at_events s1 = no_events ap_limits j"
    using ap_recorded [OF assms] by blast
  obtain t where t: "bounded_json ap_env (supplied_value ''approved'' ''alice'' 1 None v) MAX_APPROVAL_VALUE_BYTES = Inr t"
    using bounded_json_total [OF fair_supplied(1) [OF assms], of ap_env MAX_APPROVAL_VALUE_BYTES] fair_supplied(2) [OF assms]
    by (auto simp: length_env_float MAX_APPROVAL_VALUE_BYTES_def)
  have effect: "mutation_effect ap_env ap_config ap_view ''a1'' ''approved'' ''alice'' 1 ''k1'' v None 20 = Inr (''alice'', Some (ap_decision_event v))"
    using ap_answer [OF assms] by (simp add: mutation_effect_def ap_view_def first_chain_def ap_policy_def ap_decision_event_def)
  have run: "mutate ap_env ap_config ap_opened 20 ''a1'' ''approved'' ''alice'' 1 ''k1'' v None = Inr (s1, Some (ap_decision_event v))"
    using s1(1) ap_allowed t effect unfolding mutate_def ap_inspect bindE_simps Let_def
    by (simp add: ap_record_def ap_view_def first_chain_def)
  have scope: "(case get_field (rv_value ap_view) ''event_scope'' of PStr x \<Rightarrow> x | _ \<Rightarrow> []) = ''sc''"
    by (simp add: ap_view_def ap_value_def get_field_def)
  have source: "ev_source (ap_decision_event v) = ''urn:open-workflow-agent:approvals''" by (simp add: ap_decision_event_def decision_envelope_def)
  show ?thesis
    using ap_arrives [OF assms, of j] unfolding mutate_body_def ap_inspect run bindE_simps prod.case option.case scope s1(2) source
    by auto
qed

lemma ap_ready:
  assumes "wf_val v"
  shows "mutation_ready ap_env ap_opened ap_view 1 ''k1'' v 20"
proof -
  have "schema_order_free ap_env" by (simp add: schema_order_free_def ap_env_def)
  moreover have "known_envelope (ae_event ap_env) (no_events ap_limits ap_journal) scope e = Inr None" for scope e
    by (simp add: known_envelope_def in_inbox_def)
  ultimately show ?thesis
    using assms ap_keys ap_index_lengths(4)
    by (auto simp: mutation_ready_def Let_def ap_view_def MAX_REASSIGNMENTS_def ap_journal_def ap_receipts_def)
qed

text \<open>The deepest answer the limits admit.\<close>

definition nested_answer :: "nat \<Rightarrow> pyval" where
  "nested_answer n = ((\<lambda>v. PList [v]) ^^ n) PNone"

lemma nested_answer:
  "json_ok (nested_answer n)" "wf_val (nested_answer n)" "nesting (nested_answer n) = n" "text_weight fr (nested_answer n) = 4 * n + 5"
  by (induction n) (simp_all add: nested_answer_def)

lemma nested_answer_fair: "n \<le> 61 \<Longrightarrow> fair_answer (nested_answer n)"
  by (simp add: fair_answer_def nested_answer)

end
