(* ===== verification/Approval_Laws.thy ===== *)
theory Approval_Laws
  imports Approval_Example
begin

text \<open>
  What the approval services promise: a settled request never changes, a protected one is settled
  only by its assignee in time or by the expiry process from its deadline on, the columns of every
  row fit its status, a decision and its event commit together, and a listener accepts no decision
  the table does not have. The last section shows three requests that the code treats otherwise than
  it means to.
\<close>

section \<open>Rows over time\<close>

definition row_settles :: "approval_record \<Rightarrow> approval_record \<Rightarrow> bool" where
  "row_settles a b \<longleftrightarrow> ap_subject b = ap_subject a \<and> ap_request b = ap_request a \<and> ap_requested_at b = ap_requested_at a
     \<and> ap_expires_at b = ap_expires_at a \<and> ap_event_scope b = ap_event_scope a \<and> (ap_status a \<noteq> ''pending'' \<longrightarrow> b = a)"

definition rows_settle :: "approval_state \<Rightarrow> approval_state \<Rightarrow> bool" where
  "rows_settle s t \<longleftrightarrow> (\<forall>aid a. dict_get (at_rows s) aid = Some a \<longrightarrow> (\<exists>b. dict_get (at_rows t) aid = Some b \<and> row_settles a b))"

lemma row_settles_refl [simp]: "row_settles a a"
  by (simp add: row_settles_def)

lemma row_settles_trans: "row_settles a b \<Longrightarrow> row_settles b c \<Longrightarrow> row_settles a c"
  unfolding row_settles_def by metis

lemma rows_settle_refl [simp]: "rows_settle s s"
  by (auto simp: rows_settle_def)

lemma rows_settle_trans: "rows_settle s t \<Longrightarrow> rows_settle t u \<Longrightarrow> rows_settle s u"
  unfolding rows_settle_def using row_settles_trans by meson

lemma rows_settle_same: "at_rows t = at_rows s \<Longrightarrow> rows_settle s t"
  by (auto simp: rows_settle_def)

lemma expire_due_row: "dict_get (at_rows (expire_due env s now)) k =
    map_option (\<lambda>a. if is_due env s now k a then a\<lparr>ap_status := ''expired''\<rparr> else a) (dict_get (at_rows s) k)"
  by (simp add: expire_due_def dict_get_map_rows)

text \<open>
  The table of requests changes in three ways only: a request is opened, an overdue one lapses, or
  one pending request is settled with an outcome under a key no other request has.
\<close>

definition settled_record :: "string \<Rightarrow> string \<times> pyval \<Rightarrow> string \<Rightarrow> string option \<Rightarrow> rat \<Rightarrow> approval_record \<Rightarrow> approval_record" where
  "settled_record status decision operator key now a =
     a\<lparr>ap_status := status, ap_decision := Some decision, ap_operator_id := Some operator, ap_operation_key := key, ap_decided_at := Some now\<rparr>"

inductive row_move :: "approval_env \<Rightarrow> approval_state \<Rightarrow> approval_state \<Rightarrow> bool" for env where
  move_none: "at_rows t = at_rows s \<Longrightarrow> row_move env s t"
| move_lapse: "at_rows t = at_rows (expire_due env s now) \<Longrightarrow> row_move env s t"
| move_open: "dict_get (at_rows s) k = None \<Longrightarrow> at_rows t = at_rows s @ [(k, a)] \<Longrightarrow> k \<noteq> [] \<Longrightarrow> ap_subject a = k \<Longrightarrow>
    ap_status a = ''pending'' \<Longrightarrow> ap_decision a = None \<Longrightarrow> ap_operator_id a = None \<Longrightarrow> ap_operation_key a = None \<Longrightarrow> ap_decided_at a = None \<Longrightarrow>
    row_move env s t"
| move_settle: "dict_get (at_rows s) k = Some a \<Longrightarrow> ap_status a = ''pending'' \<Longrightarrow> status \<in> {''approved'', ''rejected'', ''expired''} \<Longrightarrow>
    key = None \<or> (\<forall>(i, x) \<in> set (at_rows s). i = k \<or> ap_operation_key x \<noteq> key) \<Longrightarrow>
    at_rows t = map (\<lambda>(i, x). (i, if i = k then settled_record status decision operator key now x else x)) (at_rows s) \<Longrightarrow> row_move env s t"

abbreviation row_moves :: "approval_env \<Rightarrow> approval_state \<Rightarrow> approval_state \<Rightarrow> bool" where
  "row_moves env \<equiv> (row_move env)\<^sup>*\<^sup>*"

lemma row_moves_none: "at_rows t = at_rows s \<Longrightarrow> row_moves env s t"
  by (rule r_into_rtranclp) (rule move_none)

lemma row_moves_after: "row_moves env s t \<Longrightarrow> at_rows u = at_rows t \<Longrightarrow> row_moves env s u"
  by (erule rtranclp_trans) (rule row_moves_none)

lemma row_move_settles: "row_move env s t \<Longrightarrow> rows_settle s t"
  by (induction rule: row_move.induct)
    (auto simp: rows_settle_def row_settles_def expire_due_row is_due_def dict_get_map_at settled_record_def map_add_def split: option.splits)

lemma expire_due_moves: "row_moves env s (expire_due env s now)"
  by (rule r_into_rtranclp) (rule move_lapse, rule refl)

lemma expire_due_frame [simp]: "at_events (expire_due env s now) = at_events s" "at_requests (expire_due env s now) = at_requests s"
  "at_audit (expire_due env s now) = at_audit s" "at_tables (expire_due env s now) = at_tables s" "at_invocations (expire_due env s now) = at_invocations s"
  by (simp_all add: expire_due_def)

lemma get_approval_state: "fst (get_approval env s now aid) = s \<or> fst (get_approval env s now aid) = expire_due env s now"
  by (simp add: get_approval_def Let_def)

lemma get_approval_moves: "get_approval env s now aid = (s', r) \<Longrightarrow> row_moves env s s'"
  using get_approval_state [of env s now aid] expire_due_moves [of env s now] by auto

lemma get_approval_row:
  assumes "get_approval env s now aid = (s', Inr (Some r))"
  shows "rd_id r = aid \<and> dict_get (at_rows s') aid = Some (rd_record r)"
  using assms unfolding get_approval_def Let_def by (auto split: option.splits if_splits)

lemma get_approval_none: "get_approval env s now aid = (s', Inr None) \<Longrightarrow> dict_get (at_rows s') aid = None"
  unfolding get_approval_def Let_def by (auto split: option.splits if_splits)

lemma settleE:
  assumes "settle s aid status decision operator key now = Inr s'"
  obtains a where "dict_get (at_rows s) aid = Some a" "ap_status a = ''pending''"
    "s' = s\<lparr>at_rows := map (\<lambda>(k, x). (k, if k = aid then x\<lparr>ap_status := status, ap_decision := Some decision,
                     ap_operator_id := Some operator, ap_operation_key := key, ap_decided_at := Some now\<rparr> else x)) (at_rows s)\<rparr>"
    "key = None \<or> (\<forall>(k, x) \<in> set (at_rows s). k = aid \<or> ap_operation_key x \<noteq> key)"
  using assms unfolding settle_def by (auto split: option.splits if_splits simp: list_all_iff)

lemma settle_moves:
  assumes "settle s aid status decision operator key now = Inr s'" "status \<in> {''approved'', ''rejected'', ''expired''}" "at_rows s = at_rows u"
  shows "row_moves env u s'"
proof (rule settleE [OF assms(1)])
  fix a
  assume f: "dict_get (at_rows s) aid = Some a" "ap_status a = ''pending''"
    "s' = s\<lparr>at_rows := map (\<lambda>(k, x). (k, if k = aid then x\<lparr>ap_status := status, ap_decision := Some decision,
                     ap_operator_id := Some operator, ap_operation_key := key, ap_decided_at := Some now\<rparr> else x)) (at_rows s)\<rparr>"
    "key = None \<or> (\<forall>(k, x) \<in> set (at_rows s). k = aid \<or> ap_operation_key x \<noteq> key)"
  have "at_rows s' = map (\<lambda>(k, x). (k, if k = aid then settled_record status decision operator key now x else x)) (at_rows s)"
    unfolding f(3) settled_record_def by simp
  then show ?thesis
    using f(1,2,4) assms(2) unfolding assms(3) by (intro r_into_rtranclp move_settle [of u aid a status key s' decision operator now env])
qed

lemma bind_request_rows: "bind_request env cfg s aid origin policy v = Inr s' \<Longrightarrow> at_rows s' = at_rows s"
  unfolding bind_request_def by (auto split: option.splits)

lemma admit_rows: "admit env cfg s aid scope e origin digest = Inr s' \<Longrightarrow> at_rows s' = at_rows s"
  unfolding admit_def by (auto split: option.splits dest!: bind_request_rows)

lemma admit_if_protected_rows: "admit_if_protected env s e scope origin digest r = (s', q) \<Longrightarrow> at_rows s' = at_rows s"
  unfolding admit_if_protected_def by (auto split: option.splits sum.splits if_splits dest: admit_rows)

lemma create_request_rows:
  assumes "create_request env s now later e scope origin digest = (s', r)"
  shows "at_rows s' = at_rows s \<or> at_rows s' = at_rows (expire_due env s now) \<or>
    (\<exists>a t q. get_approval env s now (ev_id e) = (t, q) \<and> at_rows s' = at_rows t @ [(ev_id e, a)] \<and> dict_get (at_rows t) (ev_id e) = None \<and>
       ap_subject a = ev_id e \<and> ev_id e \<noteq> [] \<and> ap_status a = ''pending'' \<and> ap_decision a = None \<and> ap_operator_id a = None \<and> ap_operation_key a = None \<and> ap_decided_at a = None)"
proof -
  obtain t q where get: "get_approval env s now (ev_id e) = (t, q)" by fastforce
  have t: "t = s \<or> t = expire_due env s now" using get_approval_state [of env s now "ev_id e"] get by simp
  have new: "ap_subject a = ev_id e \<and> ap_status a = ''pending'' \<and> ap_decision a = None \<and> ap_operator_id a = None \<and> ap_operation_key a = None \<and> ap_decided_at a = None"
    if a: "new_record env later e raw scope = Inr a" for raw a
    using a by (auto simp: new_record_def)
  have "at_rows s' = at_rows s \<or> at_rows s' = at_rows t \<or> (\<exists>raw a. new_record env later e raw scope = Inr a \<and> q = Inr None \<and> ev_id e \<noteq> [] \<and> at_rows s' = at_rows t @ [(ev_id e, a)])"
    using assms unfolding create_request_def get prod.case
    by (auto split: if_splits sum.splits option.splits dest!: admit_if_protected_rows)
  then show ?thesis using t new get get_approval_none by metis
qed

lemma create_request_moves:
  assumes "create_request env s now later e scope origin digest = (s', r)"
  shows "row_moves env s s'"
proof -
  consider "at_rows s' = at_rows s" | "at_rows s' = at_rows (expire_due env s now)"
    | t q a where "get_approval env s now (ev_id e) = (t, q)" "at_rows s' = at_rows t @ [(ev_id e, a)]" "dict_get (at_rows t) (ev_id e) = None"
        "ap_subject a = ev_id e" "ev_id e \<noteq> []" "ap_status a = ''pending''" "ap_decision a = None" "ap_operator_id a = None"
        "ap_operation_key a = None" "ap_decided_at a = None"
    using create_request_rows [OF assms] by blast
  then show ?thesis
  proof cases
    case 3
    have "row_move env t s'" using 3(3,2,5,4,6-) by (rule move_open)
    then show ?thesis using get_approval_moves [OF 3(1)] by (rule rtranclp.rtrancl_into_rtrancl [rotated])
  qed (auto intro: row_moves_none row_moves_after [OF expire_due_moves])
qed

lemma decide_pending_moves:
  "decide_pending env s now uuid r decision operator v key = Inr (s', q) \<Longrightarrow> decision \<in> set APPROVAL_DECISIONS \<Longrightarrow> row_moves env s s'"
  unfolding decide_pending_def Let_def by (auto simp: APPROVAL_DECISIONS_def dest!: settle_moves [where env = env])

lemma decide_approval_moves:
  assumes "decide_approval env s now later uuid aid decision operator v key = (s', r)"
  shows "row_moves env s s'"
proof -
  obtain s1 q where get: "get_approval env s now aid = (s1, q)" by fastforce
  have first: "row_moves env s s1" using get by (rule get_approval_moves)
  have "s' = s \<or> s' = s1 \<or> row_moves env s1 s'"
    using assms unfolding decide_approval_def get prod.case
    by (auto split: if_splits sum.splits option.splits dest!: decide_pending_moves)
  then show ?thesis using first rtranclp_trans by auto
qed

lemma record_mutation_moves:
  assumes "record_mutation env s view aid action actor revision key supplied now effect = Inr (s', event)"
    "snd effect \<noteq> None \<Longrightarrow> action \<in> {''approved'', ''rejected'', ''expired''}"
  shows "row_moves env s s'"
proof (cases "snd effect")
  case None
  then have "at_rows s' = at_rows s" using assms(1) unfolding record_mutation_def Let_def by (auto simp: update_request_def)
  then show ?thesis by (rule row_moves_none)
next
  case (Some e)
  then obtain t raw where "settle t aid action (raw, sort_keys (envelope_value e)) actor (Some key) now = Inr s'" "at_rows t = at_rows s"
    using assms(1) unfolding record_mutation_def Let_def Some option.case
    by (auto simp only: bindE_eq_Inr sum.inject prod.inject) (auto simp: update_request_def)
  then show ?thesis using settle_moves assms(2) Some by blast
qed

lemma outcome_effect:
  assumes "mutation_effect env cfg view k action actor revision key v assignee now = Inr effect" "snd effect = Some event"
  shows "event = decision_envelope env k action actor revision key v now" "action \<in> {''approved'', ''rejected'', ''expired''}"
    "action \<noteq> ''expired'' \<Longrightarrow> validate_response env (rv_policy view) v = Inr ()"
proof -
  have w: "written_event env k action actor revision key v now = Some event"
    using mutation_effect_written [of env cfg view k action actor revision key v assignee now "fst effect" "snd effect"] assms
    by (metis prod.collapse)
  have other: "action \<notin> {''reassign'', ''escalate''}" using w unfolding written_event_def by (rule contrapos_pp) simp
  show e: "event = decision_envelope env k action actor revision key v now" using w unfolding written_event_def if_not_P [OF other] by simp
  show out: "action \<in> {''approved'', ''rejected'', ''expired''}" by (rule mutation_effect_terminal [OF assms(1) other])
  show "validate_response env (rv_policy view) v = Inr ()" if "action \<noteq> ''expired''"
    using assms(1) that unfolding mutation_effect_def if_not_P [OF other] if_P [OF out] if_P [OF that] by (auto simp only: bindE_eq_Inr) simp
qed

text \<open>A mutation either replays an entry of the audit or starts from a verified pending request.\<close>

lemma mutate_cases:
  assumes "mutate env cfg s now aid action actor revision key v assignee = Inr (s', event)"
  shows "s' = s \<or> find (\<lambda>e. au_operation_key e = key) (at_audit s) = None \<and> (\<exists>view. inspect env cfg s aid = Inr view)"
proof (cases "find (\<lambda>e. au_operation_key e = key) (at_audit s)")
  case None
  then show ?thesis using assms unfolding mutate_def by (auto simp only: bindE_eq_Inr)
next
  case (Some prior)
  have "(case get_field (snd (au_payload prior)) ''event'' of PNone \<Rightarrow> Inr (s, None) | event \<Rightarrow> bindE (envelope_of env event) (\<lambda>e. Inr (s, Some e))) = Inr (s', event)"
    using assms unfolding mutate_def Some Let_def option.case by (auto simp only: bindE_eq_Inr)
  then show ?thesis by (auto split: pyval.splits)
qed

lemma mutate_moves:
  assumes run: "mutate env cfg s now aid action actor revision key v assignee = Inr (s', event)"
  shows "row_moves env s s'"
proof (cases "s' = s")
  case False
  then obtain view where f: "inspect env cfg s aid = Inr view" "find (\<lambda>e. au_operation_key e = key) (at_audit s) = None"
    using mutate_cases [OF run] by blast
  obtain a effect where "mutation_effect env cfg view aid action actor revision key v assignee now = Inr effect"
    "record_mutation env s view aid action actor revision key (supplied_value action actor revision assignee v) now effect = Inr (s', event)"
    by (rule mutate_freshE [OF run f]) (rule that)
  then show ?thesis using record_mutation_moves outcome_effect(2) by (metis not_None_eq)
qed simp

lemma mutate_body_moves: "mutate_body env cfg s now aid action actor revision key v assignee = Inr (s', event) \<Longrightarrow> row_moves env s s'"
proof -
  assume "mutate_body env cfg s now aid action actor revision key v assignee = Inr (s', event)"
  then obtain s1 where "row_moves env s s1" "at_rows s' = at_rows s1"
    unfolding mutate_body_def by (auto split: option.splits dest!: mutate_moves)
  then show ?thesis by (rule row_moves_after)
qed

lemma decide_body_moves: "decide_body env s now later moment uuid aid decision operator v key = Inr (s', r) \<Longrightarrow> row_moves env s s'"
proof -
  assume run: "decide_body env s now later moment uuid aid decision operator v key = Inr (s', r)"
  obtain s1 q where d: "decide_approval env s now later uuid aid decision operator v key = (s1, q)" by fastforce
  have "at_rows s' = at_rows s1"
    using run unfolding decide_body_def d prod.case by (auto split: sum.splits option.splits pyval.splits)
  then show ?thesis using row_moves_after [OF decide_approval_moves [OF d]] by blast
qed

lemma request_participant_moves: "request_participant env s now later e scope origin digest = Inr s' \<Longrightarrow> row_moves env s s'"
  unfolding request_participant_def
  by (auto split: if_splits sum.splits prod.splits dest!: create_request_moves)

lemma publish_request_new_moves:
  assumes "publish_request_new env s now later uuid clock moment i request properties default_source scope opid = Inr (s', r)"
  shows "row_moves env s s'"
proof -
  obtain e s1 where "request_participant env s now later e scope (Some i) (Some request) = Inr s1" "at_rows s' = at_rows s1"
    using assms unfolding publish_request_new_def by auto
  then show ?thesis using row_moves_after request_participant_moves by blast
qed

lemma approval_transaction_cases:
  assumes "approval_transaction s body = (s', r)"
  shows "s' = s \<and> (\<exists>e. r = Inl e) \<or> (\<exists>a. body = Inr (s', a) \<and> r = Inr a)"
  using assms event_transaction_Inr [of "at_events s" body] unfolding approval_transaction_def
  by (auto split: sum.splits)

lemma publish_scoped_moves:
  assumes "publish_scoped env s now later uuid clock moment properties default_source scope = (s', r)"
  shows "row_moves env s s'"
proof -
  have body: "row_moves env s t"
    if ran: "bindE (ingest_in_transaction (ae_event env) (at_events s) uuid clock moment properties default_source scope
            (\<lambda>e. bindE (request_participant env s now later e scope None None) (\<lambda>_. Inr ()))) (\<lambda>(st, e).
         bindE (request_participant env s now later e scope None None) (\<lambda>s'. Inr (s'\<lparr>at_events := st\<rparr>, e))) = Inr (t, e)" for t e
  proof -
    obtain s1 x where "request_participant env s now later x scope None None = Inr s1" "at_rows t = at_rows s1" using ran by auto
    then show ?thesis using row_moves_after request_participant_moves by blast
  qed
  show ?thesis
    using assms body unfolding publish_scoped_def Let_def
    by (auto split: if_splits dest!: approval_transaction_cases)
qed

lemma commit_cases: "(case r of Inl x \<Rightarrow> (s, Inl x) | Inr (t, a) \<Rightarrow> (t, Inr a)) = (s', q) \<Longrightarrow> s' = s \<or> (\<exists>a. r = Inr (s', a))"
  by (auto split: sum.splits)

lemma publish_workflow_new:
  assumes "publish_workflow_event env s fc now later uuid clock moment i request properties default_source scope opid = (s', r)"
  shows "s' = s \<or> (\<exists>r'. publish_request_new env s now later uuid clock moment i request properties default_source scope opid = Inr (s', r'))"
proof -
  let ?body = "bindE (bound_scope (ae_event env) (at_events s) i scope) (\<lambda>_.
                bindE (get_effect (ae_journal env) (at_journal s) i) (\<lambda>existing.
                  case existing of
                    Some r \<Rightarrow>
                      bindE (guardE (rc_status r = ''completed'' \<and> rc_request_digest r = request) WorkflowExecutionError) (\<lambda>_.
                      bindE (verify_outbox (ae_event env) (at_events s) i r) (\<lambda>_. Inr (s, r)))
                  | None \<Rightarrow>
                      bindE (guardE (\<not> ee_terminal (ae_event env) (ei_invocation_id i)) InvocationStateConflict) (\<lambda>_.
                        publish_request_new env s now later uuid clock moment i request properties default_source scope opid)))"
  let ?all = "bindE (guardE (ei_operation i = ''emit'') WorkflowExecutionError) (\<lambda>_.
             bindE (check_scope scope) (\<lambda>_. event_owned (at_events s) fc i ?body))"
  have "s' = s \<or> (\<exists>r'. ?all = Inr (s', r'))"
  proof (cases "get_field (PDict properties) ''type'' = PStr APPROVAL_DECISION_EVENT")
    case True
    then show ?thesis using assms unfolding publish_workflow_event_def if_P [OF True] by simp
  next
    case False
    show ?thesis using assms unfolding publish_workflow_event_def Let_def if_not_P [OF False] by (rule commit_cases)
  qed
  moreover have "?body = Inr (s', r')" if all: "?all = Inr (s', r')" for r'
    using all event_owned_runs [of "at_events s" fc i ?body "(s', r')"] by (simp only: bindE_eq_Inr) blast
  ultimately consider "s' = s" | r' where "?body = Inr (s', r')" by blast
  then show ?thesis
  proof cases
    case (2 r')
    then obtain existing where "(case existing of
                    Some r \<Rightarrow>
                      bindE (guardE (rc_status r = ''completed'' \<and> rc_request_digest r = request) WorkflowExecutionError) (\<lambda>_.
                      bindE (verify_outbox (ae_event env) (at_events s) i r) (\<lambda>_. Inr (s, r)))
                  | None \<Rightarrow>
                      bindE (guardE (\<not> ee_terminal (ae_event env) (ei_invocation_id i)) InvocationStateConflict) (\<lambda>_.
                        publish_request_new env s now later uuid clock moment i request properties default_source scope opid)) = Inr (s', r')"
      by (auto simp only: bindE_eq_Inr)
    then show ?thesis by (cases existing) auto
  qed simp
qed

lemma publish_workflow_event_moves:
  "publish_workflow_event env s fc now later uuid clock moment i request properties default_source scope opid = (s', r) \<Longrightarrow> row_moves env s s'"
  using publish_workflow_new publish_request_new_moves rtranclp.rtrancl_refl by metis

section \<open>The steps of the services\<close>

text \<open>
  One step of any client: reading, listing, requesting, deciding, mutating, or work of another
  component on the same connection. Each is a committed transaction.
\<close>

inductive approval_step :: "approval_env \<Rightarrow> approval_state \<Rightarrow> approval_state \<Rightarrow> bool" for env where
  step_expire: "approval_step env s (expire_due env s now)"
| step_get: "get_approval env s now aid = (s', r) \<Longrightarrow> approval_step env s s'"
| step_create: "create_request env s now later e scope origin digest = (s', r) \<Longrightarrow> approval_step env s s'"
| step_publish: "publish_scoped env s now later uuid clock moment properties source scope = (s', q) \<Longrightarrow> approval_step env s s'"
| step_workflow: "publish_workflow_event env s fc now later uuid clock moment i request properties source scope opid = (s', p) \<Longrightarrow>
    approval_step env s s'"
| step_decide: "decide_approval env s now later uuid aid decision operator v key = (s', q) \<Longrightarrow> approval_step env s s'"
| step_decide_durable: "approval_transaction s (decide_body env s now later moment uuid aid decision operator v key) = (s', q) \<Longrightarrow>
    approval_step env s s'"
| step_mutate: "ae_protected env = Some cfg \<Longrightarrow>
    approval_transaction s (mutate_body env cfg s now aid action actor revision key v assignee) = (s', q) \<Longrightarrow> approval_step env s s'"
| step_other: "at_rows s' = at_rows s \<Longrightarrow> at_requests s' = at_requests s \<Longrightarrow> at_audit s' = at_audit s \<Longrightarrow> at_tables s' = at_tables s \<Longrightarrow>
    approval_step env s s'"

lemma approval_step_moves: "approval_step env s s' \<Longrightarrow> row_moves env s s'"
proof (induction rule: approval_step.induct)
  case (step_decide_durable s now later moment uuid aid decision operator v key s' q)
  then show ?case by (auto dest!: approval_transaction_cases dest: decide_body_moves)
next
  case (step_mutate cfg s now aid action actor revision key v assignee s' q)
  then show ?case by (auto dest!: approval_transaction_cases dest: mutate_body_moves)
qed (auto intro: expire_due_moves get_approval_moves create_request_moves publish_scoped_moves publish_workflow_event_moves
    decide_approval_moves row_moves_none)

interpretation moves: monotone_system "row_move env" "\<lambda>_. True" rows_settle
  by unfold_locales (auto intro: rows_settle_trans row_move_settles)

lemma approval_step_settles: "approval_step env s s' \<Longrightarrow> rows_settle s s'"
  by (drule approval_step_moves) (rule moves.run_rel_only, simp_all)

interpretation approvals: monotone_system "approval_step env" "\<lambda>_. True" rows_settle
  by unfold_locales (auto intro: rows_settle_trans approval_step_settles)

text \<open>The operations of the service are runs of such steps.\<close>

lemma get_runs: "(approval_step env)\<^sup>*\<^sup>* s (fst (get_approval env s now aid))"
  by (metis prod.collapse r_into_rtranclp step_get)

lemma mutate_run:
  "ae_protected env = Some cfg \<Longrightarrow> approval_transaction s (mutate_body env cfg s now aid action actor n k v assignee) = (t, q) \<Longrightarrow>
   (approval_step env)\<^sup>*\<^sup>* s t"
  by (rule r_into_rtranclp) (rule step_mutate)

lemma mutate_get_run:
  assumes "ae_protected env = Some cfg" "approval_transaction s (mutate_body env cfg s now aid action actor n k v assignee) = (t, q)"
    "get_approval env t later aid = (u, r)"
  shows "(approval_step env)\<^sup>*\<^sup>* s u"
  using rtranclp_trans [OF mutate_run [OF assms(1,2)] get_runs [of env t later aid]] assms(3) by simp

lemma mutate_protected_runs:
  assumes "mutate_protected env sv now later aid action actor revision key v assignee original = (sv', r)"
  shows "(approval_step env)\<^sup>*\<^sup>* (sv_state sv) (sv_state sv')"
  using assms unfolding mutate_protected_def
  by (auto split: if_splits option.splits sum.splits prod.splits intro: mutate_run mutate_get_run)

lemma expire_items_runs:
  "expire_items env now sv n items = (sv', r) \<Longrightarrow> (approval_step env)\<^sup>*\<^sup>* (sv_state sv) (sv_state sv')"
proof (induction items arbitrary: sv n)
  case (Cons item items)
  obtain aid revision expires where item: "item = (aid, revision, expires)" by (cases item) auto
  obtain sv1 q where m: "mutate_protected env (sv\<lparr>sv_cursor := Some (expires, aid)\<rparr>) now now aid ''expired'' ''system:approval-expiry''
             (Some revision) (Some (''expiry:'' @ aid)) PNone None True = (sv1, q)" by fastforce
  have first: "(approval_step env)\<^sup>*\<^sup>* (sv_state sv) (sv_state sv1)" using mutate_protected_runs [OF m] by simp
  have "sv' = sv1 \<or> (\<exists>sv2 k. expire_items env now sv2 k items = (sv', r) \<and> sv_state sv2 = sv_state sv1)"
    using Cons.prems unfolding item expire_items.simps m prod.case by (auto split: sum.splits if_splits)
  then show ?case using Cons.IH first by (metis rtranclp_trans)
qed simp

lemma expire_protected_runs:
  "expire_protected env sv now bound = (sv', r) \<Longrightarrow> (approval_step env)\<^sup>*\<^sup>* (sv_state sv) (sv_state sv')"
  unfolding expire_protected_def Let_def by (auto split: if_splits dest!: expire_items_runs)

lemma decide_legacy_runs:
  assumes "decide_legacy env sv now later moment uuid aid decision operator v key = (sv', r)"
  shows "(approval_step env)\<^sup>*\<^sup>* (sv_state sv) (sv_state sv')"
proof (cases "sv_bus sv")
  case None
  then show ?thesis
    using assms unfolding decide_legacy_def by (auto split: prod.splits intro!: r_into_rtranclp intro: step_decide_durable)
next
  case (Some bus)
  obtain s1 q where d: "decide_approval env (sv_state sv) now later uuid aid decision operator v key = (s1, q)" by fastforce
  have "sv_state sv' = s1"
    using assms unfolding decide_legacy_def Some d option.case prod.case by (auto split: sum.splits option.splits pyval.splits)
  then show ?thesis using d by (auto intro!: r_into_rtranclp intro: step_decide)
qed

lemma service_decide_runs:
  assumes "service_decide env sv before now later moment uuid aid decision operator v key revision actor = (sv', r)"
  shows "(approval_step env)\<^sup>*\<^sup>* (sv_state sv) (sv_state sv')"
proof (cases actor)
  case (Some who)
  then show ?thesis using assms unfolding service_decide_def by (auto split: if_splits dest!: mutate_protected_runs)
next
  case None
  obtain s1 q where g: "get_approval env (sv_state sv) before aid = (s1, q)" by fastforce
  then have first: "(approval_step env)\<^sup>*\<^sup>* (sv_state sv) s1" using get_runs [of env "sv_state sv" before aid] by simp
  show ?thesis
    using assms first unfolding service_decide_def None option.case g prod.case
    by (auto split: if_splits sum.splits option.splits dest!: decide_legacy_runs intro: rtranclp_trans)
qed

text \<open>
  \<^bold>\<open>C13.\<close> A settled approval is final. Whatever sequence of reads, requests, publications, decisions,
  protected mutations, expiry passes and other work on the connection follows: no request disappears, its text, deadline
  and scope never change, and once it is approved, rejected or expired its row never changes again:
  neither its outcome nor who decided, when, under which key and with which event.
\<close>

theorem settled_approval_immutable:
  assumes "(approval_step env)\<^sup>*\<^sup>* s t" "dict_get (at_rows s) aid = Some a"
  shows "\<exists>b. dict_get (at_rows t) aid = Some b \<and> ap_request b = ap_request a \<and> ap_expires_at b = ap_expires_at a \<and>
    ap_event_scope b = ap_event_scope a \<and> (ap_status a \<noteq> ''pending'' \<longrightarrow> b = a)"
proof -
  have "rows_settle s t" using assms(1) by (intro approvals.run_rel_only) simp_all
  then show ?thesis using assms(2) by (fastforce simp: rows_settle_def row_settles_def)
qed

section \<open>What a row may look like\<close>

text \<open>
  The fields of a row go together: nothing is decided while it is pending, everything is once it is
  approved or rejected, and an expiry is either a lapse, with nothing recorded, or a recorded outcome.
\<close>

definition outcome_fields :: "approval_record \<Rightarrow> bool \<Rightarrow> bool" where
  "outcome_fields a b \<longleftrightarrow> (ap_decision a = None \<longleftrightarrow> \<not> b) \<and> (ap_operator_id a = None \<longleftrightarrow> \<not> b) \<and> (ap_decided_at a = None \<longleftrightarrow> \<not> b) \<and>
     (b \<or> ap_operation_key a = None)"

definition row_typed :: "string \<Rightarrow> approval_record \<Rightarrow> bool" where
  "row_typed k a \<longleftrightarrow> k \<noteq> [] \<and> ap_subject a = k \<and>
     (ap_status a = ''pending'' \<and> outcome_fields a False \<or>
      (ap_status a = ''approved'' \<or> ap_status a = ''rejected'') \<and> outcome_fields a True \<or>
      ap_status a = ''expired'' \<and> (outcome_fields a False \<or> outcome_fields a True))"

definition keys_unique :: "(string \<times> approval_record) list \<Rightarrow> bool" where
  "keys_unique rows \<longleftrightarrow>
     (\<forall>i a j b. (i, a) \<in> set rows \<longrightarrow> (j, b) \<in> set rows \<longrightarrow> ap_operation_key a \<noteq> None \<longrightarrow> ap_operation_key a = ap_operation_key b \<longrightarrow> i = j)"

definition approvals_typed :: "approval_state \<Rightarrow> bool" where
  "approvals_typed s \<longleftrightarrow> distinct (map fst (at_rows s)) \<and> keys_unique (at_rows s) \<and> (\<forall>k a. (k, a) \<in> set (at_rows s) \<longrightarrow> row_typed k a)"

lemma map_fst_rows: "map fst (map (\<lambda>(k, x). (k, f k x)) d) = map fst d"
  by (induction d) auto

lemma keys_unique_map:
  assumes "keys_unique rows" "\<And>k a. (k, a) \<in> set rows \<Longrightarrow> ap_operation_key (f k a) = ap_operation_key a"
  shows "keys_unique (map (\<lambda>(k, a). (k, f k a)) rows)"
  using assms unfolding keys_unique_def by fastforce

lemma keys_unique_settle:
  assumes "keys_unique rows" "key = None \<or> (\<forall>(i, x) \<in> set rows. i = k \<or> ap_operation_key x \<noteq> key)"
  shows "keys_unique (map (\<lambda>(i, x). (i, if i = k then settled_record status decision operator key now x else x)) rows)"
  unfolding keys_unique_def
proof (intro allI impI)
  let ?f = "\<lambda>i x. if i = k then settled_record status decision operator key now x else x"
  fix i a j b
  assume mem: "(i, a) \<in> set (map (\<lambda>(i, x). (i, ?f i x)) rows)" "(j, b) \<in> set (map (\<lambda>(i, x). (i, ?f i x)) rows)"
    and keys: "ap_operation_key a \<noteq> None" "ap_operation_key a = ap_operation_key b"
  obtain a0 b0 where old: "(i, a0) \<in> set rows" "a = ?f i a0" "(j, b0) \<in> set rows" "b = ?f j b0" using mem by auto
  have other: "ap_operation_key x \<noteq> key" if "(n, x) \<in> set rows" "n \<noteq> k" "key \<noteq> None" for n x using assms(2) that by auto
  show "i = j"
  proof (cases "i = k \<or> j = k")
    case True
    then show ?thesis using other [OF old(1)] other [OF old(3)] keys old(2,4) by (auto simp: settled_record_def split: if_splits)
  next
    case False
    then have "a = a0" "b = b0" using old by auto
    then show ?thesis using assms(1) old keys unfolding keys_unique_def by blast
  qed
qed

lemma typed_lapse: "row_typed k a \<Longrightarrow> ap_status a = ''pending'' \<Longrightarrow> row_typed k (a\<lparr>ap_status := ''expired''\<rparr>)"
  by (simp add: row_typed_def outcome_fields_def)

lemma typed_settled:
  "row_typed k a \<Longrightarrow> status \<in> {''approved'', ''rejected'', ''expired''} \<Longrightarrow> row_typed k (settled_record status decision operator key now a)"
  by (auto simp: row_typed_def outcome_fields_def settled_record_def)

lemma row_move_typed: "row_move env s t \<Longrightarrow> approvals_typed s \<Longrightarrow> approvals_typed t"
proof (induction rule: row_move.induct)
  case (move_none t s)
  then show ?case by (simp add: approvals_typed_def)
next
  case (move_lapse t s now)
  have rows: "at_rows t = map (\<lambda>(k, a). (k, if is_due env s now k a then a\<lparr>ap_status := ''expired''\<rparr> else a)) (at_rows s)"
    using move_lapse(1) by (simp add: expire_due_def)
  have "keys_unique (at_rows t)" using move_lapse(2) unfolding rows approvals_typed_def by (intro keys_unique_map) auto
  moreover have "row_typed k x" if mem: "(k, x) \<in> set (at_rows t)" for k x
  proof -
    obtain a where "(k, a) \<in> set (at_rows s)" "x = (if is_due env s now k a then a\<lparr>ap_status := ''expired''\<rparr> else a)"
      using mem unfolding rows by auto
    moreover from this(1) have "row_typed k a" using move_lapse(2) by (simp add: approvals_typed_def)
    ultimately show ?thesis using typed_lapse [of k a] by (simp add: is_due_def)
  qed
  moreover have "map fst (at_rows t) = map fst (at_rows s)" unfolding rows by (rule map_fst_rows)
  ultimately show ?case using move_lapse(2) unfolding approvals_typed_def by simp
next
  case (move_open s k t a)
  have "k \<notin> fst ` set (at_rows s)" using move_open(1) by (simp add: map_of_eq_None_iff)
  moreover have "keys_unique (at_rows t)"
    using move_open unfolding keys_unique_def approvals_typed_def by (auto simp del: split_paired_All)
  ultimately show ?case using move_open by (auto simp: approvals_typed_def row_typed_def outcome_fields_def)
next
  case (move_settle s k a status key t decision operator now)
  have "keys_unique (at_rows t)"
    using move_settle(4,6) unfolding move_settle(5) approvals_typed_def by (intro keys_unique_settle) auto
  moreover have "row_typed i x" if mem: "(i, x) \<in> set (at_rows t)" for i x
  proof -
    obtain a where a: "(i, a) \<in> set (at_rows s)" "x = (if i = k then settled_record status decision operator key now a else a)"
      using mem unfolding move_settle(5) by auto
    have old: "row_typed i a" using a(1) move_settle(6) by (simp add: approvals_typed_def)
    from typed_settled [OF this move_settle(3)] show ?thesis unfolding a(2) by (simp only: old if_split) simp
  qed
  moreover have "map fst (at_rows t) = map fst (at_rows s)" unfolding move_settle(5) by (rule map_fst_rows)
  ultimately show ?case using move_settle(6) unfolding approvals_typed_def by simp
qed

definition approvals_empty :: "approval_state \<Rightarrow> bool" where
  "approvals_empty s \<longleftrightarrow> at_rows s = []"

lemma approvals_empty_typed: "approvals_empty s \<Longrightarrow> approvals_typed s"
  by (simp add: approvals_empty_def approvals_typed_def keys_unique_def)

interpretation moves_typed: invariant_system approvals_empty "row_move env" approvals_typed
  by unfold_locales (rule approvals_empty_typed row_move_typed, assumption+)+

interpretation approvals_typed: invariant_system approvals_empty "approval_step env" approvals_typed
  by unfold_locales (rule approvals_empty_typed moves_typed.run_inv [OF approval_step_moves], assumption+)+

text \<open>
  \<^bold>\<open>C19.\<close> The rows of the approvals table are well typed in every state any sequence of operations reaches from an empty
  table: identifiers are distinct, never empty and equal to the subject; the status is one of the four
  states; while a row is pending it names no decision, operator, key or time of decision; an
  approved or rejected row names decision, operator and time; an expired row names all of them or
  none; and no operation key decides two requests.
\<close>

theorem reachable_rows_typed:
  assumes "reach approvals_empty (approval_step env) s"
  shows "distinct (map fst (at_rows s)) \<and>
    list_all (\<lambda>(k, a). k \<noteq> [] \<and> ap_subject a = k \<and> ap_status a \<in> set APPROVAL_STATES \<and>
      (ap_status a = ''pending'' \<longrightarrow> ap_decision a = None \<and> ap_operator_id a = None \<and> ap_operation_key a = None \<and> ap_decided_at a = None) \<and>
      (ap_status a \<in> set APPROVAL_DECISIONS \<longrightarrow> ap_decision a \<noteq> None \<and> ap_operator_id a \<noteq> None \<and> ap_decided_at a \<noteq> None) \<and>
      (ap_status a = ''expired'' \<longrightarrow> (ap_decision a = None) = (ap_operator_id a = None) \<and> (ap_decision a = None) = (ap_decided_at a = None)))
      (at_rows s) \<and>
    (\<forall>i a j b. (i, a) \<in> set (at_rows s) \<longrightarrow> (j, b) \<in> set (at_rows s) \<longrightarrow> ap_operation_key a \<noteq> None \<longrightarrow>
       ap_operation_key a = ap_operation_key b \<longrightarrow> i = j)"
proof -
  have typed: "approvals_typed s" using assms by (rule approvals_typed.reach_inv)
  have "list_all (\<lambda>(k, a). row_typed k a) (at_rows s)" using typed by (auto simp: approvals_typed_def list_all_iff)
  then have "list_all (\<lambda>(k, a). k \<noteq> [] \<and> ap_subject a = k \<and> ap_status a \<in> set APPROVAL_STATES \<and>
      (ap_status a = ''pending'' \<longrightarrow> ap_decision a = None \<and> ap_operator_id a = None \<and> ap_operation_key a = None \<and> ap_decided_at a = None) \<and>
      (ap_status a \<in> set APPROVAL_DECISIONS \<longrightarrow> ap_decision a \<noteq> None \<and> ap_operator_id a \<noteq> None \<and> ap_decided_at a \<noteq> None) \<and>
      (ap_status a = ''expired'' \<longrightarrow> (ap_decision a = None) = (ap_operator_id a = None) \<and> (ap_decision a = None) = (ap_decided_at a = None)))
      (at_rows s)"
    by (rule list.pred_mono_strong) (auto simp: row_typed_def outcome_fields_def APPROVAL_STATES_def APPROVAL_DECISIONS_def)
  then show ?thesis using typed unfolding approvals_typed_def keys_unique_def by blast
qed

section \<open>Who settles a protected request\<close>

definition privately_held :: "approval_env \<Rightarrow> approval_state \<Rightarrow> string \<Rightarrow> bool" where
  "privately_held env s aid \<longleftrightarrow> ae_protected env \<noteq> None \<and> at_tables s \<and> contains_request s aid"

definition same_row :: "approval_state \<Rightarrow> approval_state \<Rightarrow> string \<Rightarrow> bool" where
  "same_row s t aid \<longleftrightarrow> (\<forall>a. dict_get (at_rows s) aid = Some a \<longrightarrow> dict_get (at_rows t) aid = Some a)"

lemma same_row_refl [simp]: "same_row s s aid"
  by (simp add: same_row_def)

lemma same_row_trans: "same_row s t aid \<Longrightarrow> same_row t u aid \<Longrightarrow> same_row s u aid"
  by (simp add: same_row_def)

lemma same_row_rows: "at_rows t = at_rows s \<Longrightarrow> same_row s t aid"
  by (simp add: same_row_def)

lemma expire_due_guarded: "privately_held env s aid \<Longrightarrow> same_row s (expire_due env s now) aid"
  by (auto simp: same_row_def expire_due_row privately_held_def is_due_def)

lemma expire_due_keeps_guard [simp]: "privately_held env (expire_due env s now) aid = privately_held env s aid"
  by (simp add: privately_held_def contains_request_def)

lemma get_approval_guarded: "get_approval env s now k = (t, q) \<Longrightarrow> privately_held env s aid \<Longrightarrow> same_row s t aid \<and> privately_held env t aid"
  using get_approval_state [of env s now k] expire_due_guarded [of env s aid now] by auto

lemma create_request_guarded:
  assumes "create_request env s now later e scope origin digest = (t, r)" "privately_held env s aid"
  shows "same_row s t aid"
proof -
  consider "at_rows t = at_rows s" | "at_rows t = at_rows (expire_due env s now)"
    | u q a where "get_approval env s now (ev_id e) = (u, q)" "at_rows t = at_rows u @ [(ev_id e, a)]"
    using create_request_rows [OF assms(1)] by blast
  then show ?thesis
  proof cases
    case 2
    then show ?thesis using expire_due_guarded [OF assms(2), of now] by (simp add: same_row_def)
  next
    case 3
    have "same_row u t aid" using 3(2) by (auto simp: same_row_def map_add_def split: option.splits)
    then show ?thesis using get_approval_guarded [OF 3(1) assms(2)] same_row_trans by blast
  qed (rule same_row_rows)
qed

lemma request_participant_guarded:
  "request_participant env s now later e scope origin digest = Inr t \<Longrightarrow> privately_held env s aid \<Longrightarrow> same_row s t aid"
  unfolding request_participant_def by (auto split: if_splits sum.splits prod.splits dest: create_request_guarded)

lemma publish_scoped_rows:
  assumes "publish_scoped env s now later uuid clock moment properties source scope = (t, r)"
  shows "t = s \<or> (\<exists>e u. request_participant env s now later e scope None None = Inr u \<and> at_rows t = at_rows u)"
  using assms unfolding publish_scoped_def Let_def
  by (auto split: if_splits dest!: approval_transaction_cases) blast+

lemma publish_workflow_rows:
  assumes "publish_workflow_event env s fc now later uuid clock moment i request properties source scope opid = (t, r)"
  shows "t = s \<or> (\<exists>e u. request_participant env s now later e scope (Some i) (Some request) = Inr u \<and> at_rows t = at_rows u)"
proof (cases "t = s")
  case False
  then obtain r' where "publish_request_new env s now later uuid clock moment i request properties source scope opid = Inr (t, r')"
    using publish_workflow_new [OF assms] by blast
  then show ?thesis unfolding publish_request_new_def by auto blast
qed simp

lemma settle_other: "settle s k status decision operator key now = Inr t \<Longrightarrow> k \<noteq> aid \<Longrightarrow> same_row s t aid"
  by (erule settleE) (auto simp: same_row_def dict_get_map_at)

lemma decide_approval_guarded:
  assumes "decide_approval env s now later uuid k decision operator v key = (t, r)" "privately_held env s aid" "dict_get (at_rows s) aid = Some a"
  shows "same_row s t aid"
proof -
  obtain s1 q where get: "get_approval env s now k = (s1, q)" by fastforce
  have first: "same_row s s1 aid" "privately_held env s1 aid" using get_approval_guarded [OF get assms(2)] by auto
  show ?thesis
  proof (cases "k = aid")
    case True
    then have protect: "is_protected env s aid" using assms(2,3) by (simp add: is_protected_def privately_held_def)
    have "rd_assignment x \<noteq> None" if x: "q = Inr (Some x)" for x
      using get protect True x unfolding get_approval_def Let_def by (auto split: option.splits)
    then have "t = s \<or> t = s1"
      using assms(1) unfolding decide_approval_def get prod.case by (auto split: if_splits sum.splits option.splits)
    then show ?thesis using first by auto
  next
    case False
    have "t = s \<or> t = s1 \<or> (\<exists>status d op key now. settle s1 k status d op key now = Inr t)"
      using assms(1) get_approval_row [of env s now k s1] unfolding decide_approval_def get prod.case decide_pending_def Let_def
      by (auto split: if_splits sum.splits option.splits)
    then show ?thesis using first False settle_other same_row_trans by (metis same_row_refl)
  qed
qed

lemma decide_body_guarded:
  assumes "decide_body env s now later moment uuid k decision operator v key = Inr (t, r)" "privately_held env s aid" "dict_get (at_rows s) aid = Some a"
  shows "same_row s t aid"
proof -
  obtain s1 q where d: "decide_approval env s now later uuid k decision operator v key = (s1, q)" by fastforce
  have "at_rows t = at_rows s1"
    using assms(1) unfolding decide_body_def d prod.case by (auto split: sum.splits option.splits pyval.splits)
  then show ?thesis using decide_approval_guarded [OF d assms(2,3)] by (simp add: same_row_def)
qed

text \<open>What a mutation that settles a request has shown.\<close>

definition settled_by :: "approval_env \<Rightarrow> protected_config \<Rightarrow> string \<Rightarrow> request_view \<Rightarrow> approval_record \<Rightarrow> rat \<Rightarrow> bool" where
  "settled_by env cfg aid view b now \<longleftrightarrow> ap_decided_at b = Some now \<and>
     (\<exists>actor key v. ap_operator_id b = Some actor \<and> ap_operation_key b = Some key \<and>
        map_option snd (ap_decision b) =
          Some (sort_keys (envelope_value (decision_envelope env aid (ap_status b) actor (ch_revision (rv_chain view)) key v now))) \<and>
        (ap_status b = ''expired'' \<and> actor = ''system:approval-expiry'' \<and> rv_expires view \<le> now \<or>
         (ap_status b = ''approved'' \<or> ap_status b = ''rejected'') \<and> actor = ch_assignee (rv_chain view) \<and>
         actor \<in> set (pc_actor_ids cfg) \<and> now < rv_expires view \<and> validate_response env (rv_policy view) v = Inr ()))"

lemma allowed_effect_settles:
  assumes "mutation_allowed cfg view action actor now = Inr u"
    "mutation_effect env cfg view k action actor (ch_revision (rv_chain view)) key v assignee now = Inr effect" "snd effect = Some event"
    "ap_status b = action" "ap_operator_id b = Some actor" "ap_operation_key b = Some key" "ap_decided_at b = Some now"
    "map_option snd (ap_decision b) = Some (sort_keys (envelope_value event))"
  shows "settled_by env cfg k view b now"
proof -
  have may: "action = ''expired'' \<and> actor = ''system:approval-expiry'' \<and> rv_expires view \<le> now \<or>
      (action = ''approved'' \<or> action = ''rejected'') \<and> actor = ch_assignee (rv_chain view) \<and>
      actor \<in> set (pc_actor_ids cfg) \<and> now < rv_expires view \<and> validate_response env (rv_policy view) v = Inr ()"
  proof (cases "action = ''expired''")
    case True
    then show ?thesis using assms(1) by (simp add: mutation_allowed_def)
  next
    case False
    then have "actor = ch_assignee (rv_chain view)" "actor \<in> set (pc_actor_ids cfg)" "now < rv_expires view"
      using assms(1) unfolding mutation_allowed_def if_not_P [OF False] by (auto simp only: bindE_eq_Inr guardE_eq_Inr)
    moreover have "action = ''approved'' \<or> action = ''rejected''" using outcome_effect(2) [OF assms(2,3)] False by simp
    ultimately show ?thesis using outcome_effect(3) [OF assms(2,3) False] by blast
  qed
  show ?thesis
    unfolding settled_by_def assms(4-7) assms(8) [unfolded outcome_effect(1) [OF assms(2,3)]] using may by blast
qed

lemma mutate_row:
  assumes run: "mutate env cfg s now k action actor revision key v assignee = Inr (t, event)" and row: "dict_get (at_rows s) aid = Some a"
  shows "same_row s t aid \<or>
    (\<exists>view b. inspect env cfg s aid = Inr view \<and> dict_get (at_rows t) aid = Some b \<and> settled_by env cfg aid view b now)"
proof (cases "t = s")
  case False
  then obtain view where f: "inspect env cfg s k = Inr view" "find (\<lambda>e. au_operation_key e = key) (at_audit s) = None"
    using mutate_cases [OF run] by blast
  obtain a' effect where g: "mutation_allowed cfg view action actor now = Inr ()"
    "mutation_effect env cfg view k action actor revision key v assignee now = Inr effect"
    "record_mutation env s view k action actor revision key (supplied_value action actor revision assignee v) now effect = Inr (t, event)"
    "revision = ch_revision (rv_chain view)"
    by (rule mutate_freshE [OF run f]) (rule that)
  show ?thesis
  proof (rule record_mutationE [OF g(3)])
    assume rows: "case snd effect of None \<Rightarrow> at_rows t = at_rows s
     | Some e \<Rightarrow> (\<exists>raw. envelope_raw (ae_float_repr env) e = Inr raw \<and>
         at_rows t = map (\<lambda>(i, x). (i, if i = k then x\<lparr>ap_status := action, ap_decision := Some (raw, sort_keys (envelope_value e)),
           ap_operator_id := Some actor, ap_operation_key := Some key, ap_decided_at := Some now\<rparr> else x)) (at_rows s))"
    show ?thesis
    proof (cases "snd effect")
      case None
      then show ?thesis using rows by (simp add: same_row_rows)
    next
      case (Some e)
      show ?thesis
      proof (cases "k = aid")
        case True
        obtain b where b: "dict_get (at_rows t) aid = Some b" "ap_status b = action" "ap_operator_id b = Some actor"
          "ap_operation_key b = Some key" "ap_decided_at b = Some now" "map_option snd (ap_decision b) = Some (sort_keys (envelope_value e))"
          using rows Some True row by (auto simp: dict_get_map_at)
        then show ?thesis using allowed_effect_settles [OF g(1) g(2) [unfolded g(4)] Some b(2-)] f(1) True by blast
      next
        case False
        then show ?thesis using rows Some by (auto simp: same_row_def dict_get_map_at)
      qed
    qed
  qed
qed simp

lemma mutate_body_row:
  assumes "mutate_body env cfg s now k action actor revision key v assignee = Inr (t, event)" "dict_get (at_rows s) aid = Some a"
  shows "same_row s t aid \<or>
    (\<exists>view b. inspect env cfg s aid = Inr view \<and> dict_get (at_rows t) aid = Some b \<and> settled_by env cfg aid view b now)"
proof -
  obtain s1 x where "mutate env cfg s now k action actor revision key v assignee = Inr (s1, x)" "at_rows t = at_rows s1"
    using assms(1) unfolding mutate_body_def by (auto split: option.splits)
  then show ?thesis using mutate_row [of env cfg s now k action actor revision key v assignee s1 x aid a] assms(2)
    by (simp add: same_row_def)
qed

lemma approval_step_guarded:
  assumes "approval_step env s t" "privately_held env s aid" "ae_protected env = Some cfg" "dict_get (at_rows s) aid = Some a"
  shows "same_row s t aid \<or> (\<exists>view b now. inspect env cfg s aid = Inr view \<and> dict_get (at_rows t) aid = Some b \<and> settled_by env cfg aid view b now)"
  using assms
proof (induction rule: approval_step.induct)
  case (step_publish s now later uuid clock moment properties source scope s' q)
  show ?case
    using publish_scoped_rows [OF step_publish(1)] request_participant_guarded [OF _ step_publish(2)] by (auto simp: same_row_def)
next
  case (step_workflow s fc now later uuid clock moment i request properties source scope opid s' p)
  show ?case
    using publish_workflow_rows [OF step_workflow(1)] request_participant_guarded [OF _ step_workflow(2)] by (auto simp: same_row_def)
next
  case (step_decide_durable s now later moment uuid k decision operator v key s' q)
  then show ?case by (auto dest!: approval_transaction_cases dest: decide_body_guarded)
next
  case (step_mutate c s now k action actor revision key v assignee s' q)
  show ?case
  proof (cases "s' = s")
    case False
    then obtain event where "mutate_body env cfg s now k action actor revision key v assignee = Inr (s', event)"
      using step_mutate by (auto dest!: approval_transaction_cases)
    then show ?thesis using mutate_body_row [OF _ step_mutate(5)] by blast
  qed simp
qed (auto dest: expire_due_guarded get_approval_guarded create_request_guarded decide_approval_guarded intro: same_row_rows)

text \<open>
  \<^bold>\<open>C11.\<close> Only the assignee before the deadline, or the expiry process from the deadline on, settles a protected
  request. When any operation of any component turns a pending protected request into a settled
  one, the stored proof of the request verified at that moment, and either the outcome is an expiry, written by the expiry
  process at or after the deadline of the verified request, or it is an approval or a rejection by the actor the verified
  chain of assignments names, who is a configured actor, strictly before the deadline, with an answer the schema of the
  policy accepts; and the recorded decision is the event that carries exactly this outcome, actor, key, answer and next revision.
\<close>

theorem protected_settlement_authorised:
  assumes "approval_step env s t" "ae_protected env = Some cfg" "at_tables s" "contains_request s aid"
    "dict_get (at_rows s) aid = Some a" "ap_status a = ''pending''" "dict_get (at_rows t) aid = Some b" "ap_status b \<noteq> ''pending''"
  shows "\<exists>view now actor key v. inspect env cfg s aid = Inr view \<and> ap_decided_at b = Some now \<and>
    ap_operator_id b = Some actor \<and> ap_operation_key b = Some key \<and>
    map_option snd (ap_decision b) =
      Some (sort_keys (envelope_value (decision_envelope env aid (ap_status b) actor (ch_revision (rv_chain view)) key v now))) \<and>
    (ap_status b = ''expired'' \<and> actor = ''system:approval-expiry'' \<and> rv_expires view \<le> now \<or>
     (ap_status b = ''approved'' \<or> ap_status b = ''rejected'') \<and> actor = ch_assignee (rv_chain view) \<and>
     actor \<in> set (pc_actor_ids cfg) \<and> now < rv_expires view \<and> validate_response env (rv_policy view) v = Inr ())"
proof -
  have "privately_held env s aid" using assms(2-4) by (simp add: privately_held_def)
  from approval_step_guarded [OF assms(1) this assms(2,5)] obtain view now
    where "inspect env cfg s aid = Inr view" "settled_by env cfg aid view b now"
    using assms(5-8) by (auto simp: same_row_def)
  then show ?thesis unfolding settled_by_def by blast
qed

lemma ap_step:
  assumes "fair_answer v"
  obtains t where "approval_step ap_env ap_opened t"
    "mutate_body ap_env ap_config ap_opened 20 ''a1'' ''approved'' ''alice'' 1 ''k1'' v None = Inr (t, Some (ap_decision_event v))"
proof -
  obtain t where t: "mutate_body ap_env ap_config ap_opened 20 ''a1'' ''approved'' ''alice'' 1 ''k1'' v None = Inr (t, Some (ap_decision_event v))"
    using ap_decides [OF assms] by blast
  have "counter_ok (at_events ap_opened)" by (simp add: counter_ok_def no_events_def)
  then have "approval_transaction ap_opened (mutate_body ap_env ap_config ap_opened 20 ''a1'' ''approved'' ''alice'' 1 ''k1'' v None) =
      (t, Inr (Some (ap_decision_event v)))"
    unfolding t by (simp add: approval_transaction_def event_transaction_def)
  then have "approval_step ap_env ap_opened t" by (rule step_mutate [rotated]) simp
  then show thesis using t by (rule that)
qed

lemma ap_settled:
  assumes "mutate_body ap_env ap_config ap_opened 20 ''a1'' ''approved'' ''alice'' 1 ''k1'' v None = Inr (t, Some e)" "wf_val v"
  obtains b where "dict_get (at_rows t) ''a1'' = Some b" "ap_status b = ''approved''" "ap_decided_at b = Some 20"
  by (rule mutate_bodyE [OF assms(1) ap_inspect ap_ready [OF assms(2)]]) (metis that)

theorem settled_approval_immutable_witness:
  "\<exists>t b. (approval_step ap_env)\<^sup>*\<^sup>* ap_opened t \<and> dict_get (at_rows t) ''a1'' = Some b \<and> ap_request b = ap_request ap_record \<and>
     (approval_step ap_env)\<^sup>*\<^sup>* t (expire_due ap_env t 500) \<and> dict_get (at_rows (expire_due ap_env t 500)) ''a1'' = Some b"
proof -
  obtain t where t: "approval_step ap_env ap_opened t"
    "mutate_body ap_env ap_config ap_opened 20 ''a1'' ''approved'' ''alice'' 1 ''k1'' PNone None = Inr (t, Some (ap_decision_event PNone))"
    by (rule ap_step [of PNone]) (simp add: fair_answer_def)
  obtain b where b: "dict_get (at_rows t) ''a1'' = Some b" "ap_status b = ''approved''" by (rule ap_settled [OF t(2)]) simp_all
  have run: "(approval_step ap_env)\<^sup>*\<^sup>* ap_opened t" "(approval_step ap_env)\<^sup>*\<^sup>* t (expire_due ap_env t 500)"
    using t(1) step_expire by blast+
  have "dict_get (at_rows ap_opened) ''a1'' = Some ap_record" by simp
  from settled_approval_immutable [OF run(1) this] settled_approval_immutable [OF run(2) b(1)] show ?thesis using run b by auto
qed

text \<open>A plain request whose data merely mentions the word of a policy, and its decision long after its deadline.\<close>

definition note_start :: approval_state where
  "note_start = \<lparr>at_events = no_events ap_limits empty_journal, at_invocations = empty_datastore, at_rows = [], at_tables = True, at_requests = [],
     at_audit = []\<rparr>"

definition note_event :: event_envelope where
  "note_event = \<lparr>ev_id = ''r1'', ev_source = ''w'', ev_type = APPROVAL_REQUEST_EVENT, ev_time = ''2025-01-01T00:00:00+00:00'', ev_subject = Some ''r1'',
     ev_datacontenttype = None, ev_dataschema = None, ev_data = PDict [(''note'', PStr ''approvalPolicy'')],
     ev_extensions = [(''approvalexpiresat'', PStr ''2026-01-01T00:00:00+00:00'')], ev_data_present = True\<rparr>"

definition note_opened :: approval_state where
  "note_opened = fst (create_request ap_env note_start 5 5 note_event ''sc'' None None)"

definition note_decided :: approval_state where
  "note_decided = fst (decide_approval ap_env note_opened 500 500 ''u'' ''r1'' ''approved'' ''op'' PNone (Some ''k1''))"

lemma note_rows:
  "map (\<lambda>(k, a). (k, ap_status a, ap_expires_at a)) (at_rows note_opened) = [(''r1'', ''pending'', Some 100)]"
  "map (\<lambda>(k, a). (k, ap_status a)) (at_rows note_decided) = [(''r1'', ''approved'')]"
  by code_simp+

lemma note_steps: "approval_step ap_env note_start note_opened" "approval_step ap_env note_opened note_decided"
  unfolding note_opened_def [symmetric]
  by (rule step_create [of ap_env note_start 5 5 note_event "''sc''" None None], simp add: note_opened_def prod_eq_iff)
    (rule step_decide [of ap_env note_opened 500 500 "''u''" "''r1''" "''approved''" "''op''" PNone "Some ''k1''"], simp add: note_decided_def prod_eq_iff)

theorem reachable_rows_typed_witness:
  "reach approvals_empty (approval_step ap_env) note_decided \<and> map (\<lambda>(k, a). (k, ap_status a)) (at_rows note_decided) = [(''r1'', ''approved'')] \<and>
   list_all (\<lambda>(k, a). ap_decision a \<noteq> None \<and> ap_operator_id a \<noteq> None \<and> ap_decided_at a \<noteq> None) (at_rows note_decided)"
proof -
  have "approvals_empty note_start" by (simp add: approvals_empty_def note_start_def)
  then have r: "reach approvals_empty (approval_step ap_env) note_decided" using note_steps by (metis reach.intros)
  obtain a where a: "at_rows note_decided = [(''r1'', a)]" "ap_status a = ''approved''" using note_rows(2) by (auto simp: map_eq_Cons_conv)
  have "ap_decision a \<noteq> None \<and> ap_operator_id a \<noteq> None \<and> ap_decided_at a \<noteq> None"
    using reachable_rows_typed [OF r] a(2) unfolding a(1) by (simp add: APPROVAL_DECISIONS_def)
  then show ?thesis using r note_rows(2) unfolding a(1) by simp
qed

theorem protected_settlement_authorised_witness:
  "\<exists>t b view. approval_step ap_env ap_opened t \<and> dict_get (at_rows t) ''a1'' = Some b \<and> ap_status b = ''approved'' \<and>
     inspect ap_env ap_config ap_opened ''a1'' = Inr view \<and> ap_operator_id b = Some (ch_assignee (rv_chain view))"
proof -
  obtain t where t: "approval_step ap_env ap_opened t"
    "mutate_body ap_env ap_config ap_opened 20 ''a1'' ''approved'' ''alice'' 1 ''k1'' PNone None = Inr (t, Some (ap_decision_event PNone))"
    by (rule ap_step [of PNone]) (simp add: fair_answer_def)
  obtain b where b: "dict_get (at_rows t) ''a1'' = Some b" "ap_status b = ''approved''" by (rule ap_settled [OF t(2)]) simp_all
  have state: "ae_protected ap_env = Some ap_config" "at_tables ap_opened" "contains_request ap_opened ''a1''"
    "dict_get (at_rows ap_opened) ''a1'' = Some ap_record" "ap_status ap_record = ''pending''" "ap_status b \<noteq> ''pending''"
    using b(2) by (simp_all add: contains_request_def ap_record_def)
  from protected_settlement_authorised [OF t(1) state(1-5) b(1) state(6)] show ?thesis using t(1) b by auto
qed

section \<open>A mutation keeps the proof readable\<close>



text \<open>
  \<^bold>\<open>C39.\<close> An answer of exactly the depth the limits still admit makes the proof of its own decision unreadable. The
  record of a decision is checked against sixty-four levels before the receipt is wrapped around it, the
  receipt afterwards when it is read back: the decision of an answer sixty-one levels deep commits, with its
  row, its event and its audit entry, and from then on every verification of the request fails.
\<close>

theorem deep_answer_unreadable:
  assumes "mutate_body env cfg s now aid action actor revision key v assignee = Inr (s', Some event)" "inspect env cfg s aid = Inr view"
    "mutation_ready env s view revision key v now" "60 < nesting v"
  shows "(\<exists>b. dict_get (at_rows s') aid = Some b \<and> ap_status b = action \<and> ap_decided_at b = Some now) \<and>
    inspect env cfg s' aid = Inl ApprovalValidationError"
proof -
  have "inspect env cfg s' aid = Inl ApprovalValidationError" using mutation_verified [OF assms(1-3)] assms(4) by auto
  moreover have "\<exists>b. dict_get (at_rows s') aid = Some b \<and> ap_status b = action \<and> ap_decided_at b = Some now"
    by (rule mutate_bodyE [OF assms(1-3)]) blast
  ultimately show ?thesis by blast
qed

theorem deep_answer_unreadable_witness:
  "\<exists>t. mutate_body ap_env ap_config ap_opened 20 ''a1'' ''approved'' ''alice'' 1 ''k1'' (nested_answer 61) None =
       Inr (t, Some (ap_decision_event (nested_answer 61))) \<and>
     inspect ap_env ap_config t ''a1'' = Inl ApprovalValidationError"
proof -
  obtain t where t: "mutate_body ap_env ap_config ap_opened 20 ''a1'' ''approved'' ''alice'' 1 ''k1'' (nested_answer 61) None =
      Inr (t, Some (ap_decision_event (nested_answer 61)))"
    by (rule ap_step [OF nested_answer_fair [of 61]]) simp_all
  from deep_answer_unreadable [OF t ap_inspect ap_ready [OF nested_answer(2)]] show ?thesis using t nested_answer(3) [of 61] by simp
qed

section \<open>Deadlines\<close>


definition timed_record :: approval_record where
  "timed_record = ap_record\<lparr>ap_request := (''request'', PDict [])\<rparr>"


text \<open>
  \<^bold>\<open>C40.\<close> A plain request whose text merely mentions the word of a policy never expires. The expiry pass skips every
  request whose stored text contains the word \<^verbatim>\<open>approvalPolicy\<close> in quotes, as a value or as a key at any depth,
  but only a key of the data itself makes a request protected: such a request stays pending past its deadline
  however often it is read, and an operator can still approve or reject it at any later time.
\<close>

theorem mentioned_policy_never_expires:
  assumes "dict_get (at_rows s) aid = Some a" "ap_status a = ''pending''" "mentions_policy env (fst (ap_request a))"
    "\<not> is_protected env s aid" "decision \<in> set APPROVAL_DECISIONS" "str_strip operator \<noteq> []" "json_ok v"
    "\<forall>(k, x) \<in> set (at_rows s). ap_operation_key x \<noteq> Some key" "key \<noteq> []"
  shows "dict_get (at_rows (expire_due env s now)) aid = Some a \<and>
    (\<exists>s' r b. decide_approval env s now later uuid aid decision operator v (Some key) = (s', Inr r) \<and>
       dict_get (at_rows s') aid = Some b \<and> ap_status b = decision \<and> ap_decided_at b = Some later)"
proof -
  let ?s = "expire_due env s now"
  let ?r = "\<lparr>rd_id = aid, rd_record = a, rd_assignment = None\<rparr>"
  let ?e = "decided_envelope env ?r decision operator v (Some key) uuid later"
  have row: "dict_get (at_rows ?s) aid = Some a" using assms(1,3) by (simp add: expire_due_row is_due_def)
  have get: "get_approval env s now aid = (?s, Inr (Some ?r))" using assms(4) row by (simp add: get_approval_def Let_def)
  have keys: "list_all (\<lambda>(k, x). k = aid \<or> ap_operation_key x \<noteq> Some key) (at_rows ?s)"
    using assms(8) by (fastforce simp: list_all_iff expire_due_def split: if_splits)
  have "envelope_ok ?e"
    using assms(9) by (simp add: decided_envelope_def envelope_ok_def known_fields_def dict_wf_def APPROVAL_DECISION_EVENT_def)
  then have "json_ok (sort_keys (PDict (envelope_dict ?e)))"
    using assms(7) by (simp add: envelope_dict_ok envelope_head_def decided_envelope_def opt_entry_def)
  then obtain raw where raw: "envelope_raw (ae_float_repr env) ?e = Inr raw" using json_dumps_total unfolding envelope_raw_def by blast
  have "settle ?s aid decision (raw, sort_keys (envelope_value ?e)) operator (Some key) later \<noteq> Inl x" for x
    using row assms(2) keys by (simp add: settle_def)
  then obtain s' where s': "settle ?s aid decision (raw, sort_keys (envelope_value ?e)) operator (Some key) later = Inr s'"
    by (cases "settle ?s aid decision (raw, sort_keys (envelope_value ?e)) operator (Some key) later") auto
  have b: "\<exists>b. dict_get (at_rows s') aid = Some b \<and> ap_status b = decision \<and> ap_decided_at b = Some later"
    using s' row by (elim settleE) (auto simp: dict_get_map_at)
  have "\<exists>r. decide_approval env s now later uuid aid decision operator v (Some key) = (s', Inr r)"
    using assms(2,5,6) raw s' keys by (simp add: decide_approval_def get decide_pending_def Let_def APPROVAL_DECISIONS_def)
  then show ?thesis using row b by blast
qed

theorem mentioned_policy_never_expires_witness:
  "\<exists>a s' r b. at_rows note_opened = [(''r1'', a)] \<and> ap_expires_at a = Some 100 \<and>
     decide_approval ap_env note_opened 500 500 ''u'' ''r1'' ''approved'' ''op'' PNone (Some ''k1'') = (s', Inr r) \<and>
     dict_get (at_rows s') ''r1'' = Some b \<and> ap_status b = ''approved'' \<and> ap_decided_at b = Some 500"
proof -
  obtain a where a: "at_rows note_opened = [(''r1'', a)]" "ap_status a = ''pending''" "ap_expires_at a = Some 100"
    using note_rows(1) by (auto simp: map_eq_Cons_conv)
  have word: "list_all (\<lambda>(k, a). mentions_policy ap_env (fst (ap_request a)) \<and> ap_operation_key a = None) (at_rows note_opened)" by code_simp
  have other: "\<not> is_protected ap_env note_opened ''r1''" "str_strip ''op'' \<noteq> []" by code_simp+
  from mentioned_policy_never_expires [of note_opened "''r1''" a ap_env "''approved''" "''op''" PNone "''k1''" 500 500 "''u''"] show ?thesis
    using a word other by (auto simp: APPROVAL_DECISIONS_def)
qed

text \<open>
  A protected request can be kept from ever expiring. The expiry pass uses the key \<^verbatim>\<open>expiry:\<close> followed by the
  identifier of the request. When the identifier has more than 249 characters, which admission allows, the
  key is over its limit; when an actor used that key for a mutation of any other request, it is taken. In
  both cases no expiry of the request ever commits, whatever the time and the revision.
\<close>

theorem expiry_blocked:
  assumes "249 < length aid \<or> find (\<lambda>e. au_operation_key e = ''expiry:'' @ aid) (at_audit s) = Some prior \<and> au_approval_id prior \<noteq> aid"
  shows "\<exists>e. mutate_body env cfg s now aid ''expired'' ''system:approval-expiry'' revision (''expiry:'' @ aid) PNone None = Inl e"
proof -
  have "mutate env cfg s now aid ''expired'' ''system:approval-expiry'' revision (''expiry:'' @ aid) PNone None \<noteq> Inr r" for r
  proof
    assume run: "mutate env cfg s now aid ''expired'' ''system:approval-expiry'' revision (''expiry:'' @ aid) PNone None = Inr r"
    then have "length (''expiry:'' @ aid) \<le> 256" unfolding mutate_def by (auto simp only: bindE_eq_Inr guardE_eq_Inr)
    then have taken: "find (\<lambda>e. au_operation_key e = ''expiry:'' @ aid) (at_audit s) = Some prior" "au_approval_id prior \<noteq> aid"
      using assms by auto
    then show False using run unfolding mutate_def Let_def taken(1) option.case by (auto simp only: bindE_eq_Inr guardE_eq_Inr)
  qed
  then have "mutate_body env cfg s now aid ''expired'' ''system:approval-expiry'' revision (''expiry:'' @ aid) PNone None \<noteq> Inr r" for r
    unfolding mutate_body_def by (auto simp only: bindE_eq_Inr)
  then show ?thesis by (metis sum.exhaust)
qed

definition taken_state :: approval_state where
  "taken_state = ap_opened\<lparr>at_audit := [\<lparr>au_approval_id = ''b2'', au_revision = 2, au_operation_key = ''expiry:a1'', au_payload = (2, PDict []),
     au_digest = no_digest\<rparr>]\<rparr>"

theorem expiry_blocked_witness:
  "\<exists>e. mutate_body ap_env ap_config taken_state 500 ''a1'' ''expired'' ''system:approval-expiry'' 1 (''expiry:'' @ ''a1'') PNone None = Inl e"
  by (rule expiry_blocked [of _ _ "hd (at_audit taken_state)"]) (simp add: taken_state_def)

end
