(* ===== verification/Spec2Isabelle.thy ===== *)
theory Spec2Isabelle
  imports Invocation_Store Traffic_Policy Native_Stream_Registry Forks Executor_Failures Executor_Fuel Effect_Spec Timers
    Event_Listeners Approval_Laws
begin

text \<open>
  A verification library for the core of Open Workflow Agent (\<^verbatim>\<open>src/core/src/open_workflow_agent\<close>), a
  server that runs Serverless Workflow definitions on exchangeable agent engines and survives
  crashes, restarts and competing workers.

  \<^bold>\<open>The program.\<close> A request passes the traffic policy, is recorded by the invocation store and runs under
  an execution lease of the ownership table. The workflow executor interprets the definition: it
  runs task lists, applies transitions, retries, deadlines and catch blocks, and reports events to
  a sink. Whatever leaves the process (calls, events, child workflows) goes through the effect
  journal, which admits an action once and replays its recorded outcome; waits are armed in the
  timer store; published events go through an outbox into the durable inbox listeners read;
  requests for a human approval become rows that operators or assigned actors decide; competitive forks decide their
  winner in a write-once table. Consumers observe a
  running invocation through bounded in-memory streams. All durable components share one
  database and its transactions; every write of a running worker is fenced by its lease.

  \<^bold>\<open>Theories and the sources they model.\<close>
  \<^item> \<open>OWA_Prelude\<close>: \<^verbatim>\<open>errors.py\<close> (the exception classes), results as sums, dictionaries as association lists, and the
    interface locales: write-once tables, systems with an invariant, systems with a preorder.
  \<^item> \<open>Py_Value\<close>, \<open>Py_Text\<close>: JSON values, \<^verbatim>\<open>validate_expression_data\<close>, \<^verbatim>\<open>json_equal\<close>, Python's equality and truth, decimal
    texts, splitting, \<^verbatim>\<open>json.dumps\<close>.
  \<^item> \<open>Ownership\<close>: \<^verbatim>\<open>ownership.py\<close>, the lease table, its operations and the guard of owned transactions.
  \<^item> \<open>Invocation_Store\<close>: \<^verbatim>\<open>persistence.py\<close> and the state table of \<^verbatim>\<open>lifecycle.py\<close>.
  \<^item> \<open>Traffic_Policy\<close>: \<^verbatim>\<open>traffic_policy.py\<close> and its part of \<^verbatim>\<open>config.py\<close>.
  \<^item> \<open>Native_Streams\<close>, \<open>Native_Stream_Registry\<close>: \<^verbatim>\<open>native_streams.py\<close>, \<^verbatim>\<open>native_stream_registry.py\<close>.
  \<^item> \<open>Forks\<close>: \<^verbatim>\<open>forks.py\<close>.
  \<^item> \<open>Workflow_Helpers\<close>, \<open>Retry_Timing\<close>: the pure helpers of \<^verbatim>\<open>workflow.py\<close> and \<^verbatim>\<open>definitions.py\<close>, \<^verbatim>\<open>retry.py\<close>, \<^verbatim>\<open>timing.py\<close>.
  \<^item> \<open>Workflow_Executor\<close>: class \<^verbatim>\<open>WorkflowExecutor\<close> of \<^verbatim>\<open>workflow.py\<close>; \<open>Executor_Laws\<close> (what every run keeps, as a locale
    over the shared log, interpreted three times), \<open>Executor_Theorems\<close>, \<open>Executor_Failures\<close>, \<open>Executor_Fuel\<close>.
  \<^item> \<open>Effect_Journal\<close>: \<^verbatim>\<open>effects.py\<close>, \<^verbatim>\<open>_effect_storage.py\<close>; \<open>Effect_Dispatch\<close>: \<^verbatim>\<open>_run_effect_scoped\<close> of \<^verbatim>\<open>workflow.py\<close>; \<open>Effect_Spec\<close>: the
    write-once cell the journal refines.
  \<^item> \<open>Timers\<close>: \<^verbatim>\<open>timers.py\<close>.
  \<^item> \<open>Events\<close>: \<^verbatim>\<open>events.py\<close>, \<^verbatim>\<open>event_matching.py\<close>; \<open>Event_Inbox\<close>: the arrivals and publications of \<^verbatim>\<open>event_store.py\<close>;
    \<open>Event_Capacity\<close>: what their capacity discipline guarantees over histories; \<open>Event_Listeners\<close>: its listeners.
  \<^item> \<open>Approval_Policy\<close>, \<open>Protected_Approvals\<close>, \<open>Approvals\<close>: \<^verbatim>\<open>protected_approval_policy.py\<close>, \<^verbatim>\<open>protected_approval_store.py\<close>,
    \<^verbatim>\<open>approvals.py\<close> with \<^verbatim>\<open>protected_approval_service.py\<close>; \<open>Stored_Json\<close>: JSON columns read back and the sizes of their
    texts; \<open>Approval_Chain\<close>: the verifier accepts what the writer wrote; \<open>Approval_Example\<close>: a protected request on a
    concrete store; \<open>Approval_Laws\<close>: the three moves of the table and what follows for every run.
  \<^item> this theory: properties that span the ownership table, the invocation store and the journal.

  \<^bold>\<open>Conventions.\<close> A class is a record, an operation a function from the state and its arguments to the
  new state and a result; an exception is a value of \<^typ>\<open>exn\<close> in the left of a sum. Floats are exact
  rationals with infinities and NaN where the code can see them. The clock, fresh UUIDs, random
  draws, SHA-256 and the text of a float are arguments or fields of an environment. A JSON text in
  the database is the value it reads back as. One store operation is one committed transaction:
  interleaving is modelled as arbitrary sequences of operations (inductive step relations), so a
  theorem about runs covers every schedule of workers, operators and crashes at transaction
  boundaries. The executor is fuelled: the fuel bounds the nesting of scopes and the numbers of loop iterations,
  jumps and attempts together; running out of it is the value \<^const>\<open>None\<close>, and a run that returns returns the
  same with any larger fuel. Everything else terminates by structural recursion.

  \<^bold>\<open>What is shown.\<close> Ownership and storage: a superseded worker never writes again, an expired lease can be
  taken over, terminal records never change, statuses follow the declared transitions, no update
  is lost. Actions: dispatched at most once under any interleaving, outcomes final, recorded
  outcomes and decisions replayed, the journal a refinement of write-once cells. Execution:
  events properly bracketed, nothing starts after a cancellation, the first end of a workflow
  wins, a failing task leaves its scope as it was, unrecoverable failures are never caught; one
  theorem exhibits a flow directive that is lost. Timers: woken once and never early, one
  dispatcher at a time. Events: acknowledged publications are always deliverable, retention is
  bounded, one content per identity, correlations never change, listeners lose nothing they await
  and nothing they were given. Approvals: rows well typed in every reachable state, a settled request never
  changes, a protected one is settled only by its verified assignee in time or by the expiry process, a
  mutation leaves a proof that verifies, late decisions are refused; three theorems exhibit requests that never
  expire and a decision whose proof becomes unreadable. Traffic: concurrency and rates bounded. Streams: no silent gaps, exact
  replay, bounded memory, observations stay with their owner. Forks: one winner. Values: round
  trips of policies and references, equality of the two duration syntaxes.

  \<^bold>\<open>Not modelled.\<close> Network clients, engine adapters, sandboxes, HTTP endpoints and start-up are input and
  output around third-party packages. Expression evaluation (jq), JSON Schema, YAML and cron are
  third-party code and appear as functions of an environment where the core calls them.
  Preemption inside a transaction and the SQL engines themselves are trusted. Child invocations,
  schedules, execution authorisation and application memory are stores of the same kind and are not
  modelled.
\<close>

section \<open>Stale workers\<close>

text \<open>An owned write under a lease that does not hold is refused.\<close>

lemma owned_refused:
  "fn_lease fc = Some l \<Longrightarrow> \<not> write_guard (fn_table fc) (fn_now fc) l \<Longrightarrow> owned fc i b = Inl InvocationStateConflict"
  by (simp add: owned_def owned_write_transaction_def)

lemma update_refused:
  assumes "eh_lease h = Some l" "\<not> write_guard (ds_ownership s) now l"
    and "Invocation_Store.update sha s now clock uuid h t ch = Inr (s', h')"
  shows "s' = s"
proof -
  have "update_write sha s now clock uuid h e st c t \<noteq> Inr x" for e st c x
    using assms(1,2) by (auto simp: update_write_def cas_write_def)
  then show ?thesis
    using assms(3) by (auto simp: update_def Let_def split: option.splits if_splits)
qed

text \<open>
  \<^bold>\<open>C2.\<close> A worker that lost its lease never writes again. Once a lease of a reached generation does not
  hold (it expired, was released, revoked by a cancellation or taken over), then after any further
  activity on the ownership table no update of the invocation record, no intent, no decision and no
  owned outcome under that lease changes anything.
\<close>

theorem stale_worker_never_writes:
  assumes "own_inv (now, tbl)" "own_step\<^sup>*\<^sup>* (now, tbl) (now', tbl')" "reached_generation tbl l" "\<not> write_guard tbl now l"
    and "fn_table fc = tbl'" "fn_now fc = now'" "fn_lease fc = Some l"
    and "ds_ownership s = tbl'" "eh_lease h = Some l"
  shows "finish_owned env j fc i owner oc = (j, Inl InvocationStateConflict) \<and>
         fst (begin_effect env j fc i digest owner opid) = j \<and> fst (record_value env j fc i digest v) = j \<and>
         (\<forall>s' h'. Invocation_Store.update sha s now' clock uuid h t ch = Inr (s', h') \<longrightarrow> s' = s)"
proof -
  have dead: "\<not> write_guard tbl' now' l" by (rule dead_lease_stays_dead [OF assms(1-4)])
  then have guard: "\<not> write_guard (fn_table fc) (fn_now fc) l" using assms(5,6) by simp
  note refused = owned_refused [OF assms(7) guard]
  have "fst (begin_effect env j fc i digest owner opid) = j"
    by (cases "make_receipt (pending_receipt digest owner opid)") (simp_all add: begin_effect_def refused)
  moreover have "finish_owned env j fc i owner oc = (j, Inl InvocationStateConflict)"
    by (simp add: finish_owned_def refused assms(7))
  moreover have "fst (record_value env j fc i digest v) = j" by (simp add: record_value_def refused)
  moreover have "\<forall>s' h'. Invocation_Store.update sha s now' clock uuid h t ch = Inr (s', h') \<longrightarrow> s' = s"
    using update_refused [OF assms(9), of s now'] dead assms(8) by blast
  ultimately show ?thesis by blast
qed

definition ex_lease :: execution_lease where
  "ex_lease = \<lparr>lease_invocation_id = ''i'', lease_engine = ''adk'', lease_fingerprint = ''f'', lease_owner = ex_uuid,
     lease_generation = 1, lease_expires_at = 10\<rparr>"

definition ex_table :: ownership_table where
  "ex_table = [''i'' \<mapsto> \<lparr>row_engine = ''adk'', row_fingerprint = ''f'', row_owner = ex_uuid, row_generation = 1, row_expires_at = 10\<rparr>]"

definition ex_later_table :: ownership_table where
  "ex_later_table = [''i'' \<mapsto> \<lparr>row_engine = ''adk'', row_fingerprint = ''f'', row_owner = ex_uuid2, row_generation = 2, row_expires_at = 40\<rparr>]"

lemma ex_takeover: "acquire ex_table 20 ex_uuid2 ''i'' ''adk'' ''f'' 20 = Inr (ex_later_table, ex_lease\<lparr>lease_owner := ex_uuid2, lease_generation := 2, lease_expires_at := 40\<rparr>)"
  using ex_uuid_hex
  by (simp add: acquire_def ex_table_def ex_later_table_def ex_lease_def lease_duration_def make_lease_def row_lease_def ex_uuid2_def)

lemma ex_table_inv: "own_inv (20, ex_table)"
  by (auto simp: own_inv_def ex_table_def split: if_splits)

theorem stale_worker_never_writes_witness:
  "finish_owned plain_journal_env empty_journal \<lparr>fn_table = ex_later_table, fn_now = 20, fn_lease = Some ex_lease\<rparr> ex_call ''w'' ex_answer
     = (empty_journal, Inl InvocationStateConflict)"
proof -
  have "own_step\<^sup>*\<^sup>* (20, ex_table) (20, ex_later_table)"
    using own_step.acquire [OF ex_takeover] by (rule r_into_rtranclp)
  from stale_worker_never_writes [OF ex_table_inv this, of ex_lease "\<lparr>fn_table = ex_later_table, fn_now = 20, fn_lease = Some ex_lease\<rparr>"
      "empty_datastore\<lparr>ds_ownership := ex_later_table\<rparr>" "ex_handle\<lparr>eh_lease := Some ex_lease\<rparr>"]
  show ?thesis
    by (simp add: ex_table_def reached_generation_def ex_lease_def write_guard_def live_expiry_def row_matches_def)
qed

text \<open>
  \<^bold>\<open>C21.\<close> A crashed worker never blocks its invocation. Once its lease expired, any worker of the same
  engine and definition acquires a lease one generation up under which it may write, and no lease
  of an earlier generation may write any more.
\<close>

theorem takeover_after_expiry:
  assumes "own_inv (now, tbl)" "tbl iid = Some r" "row_expires_at r \<le> now" "row_engine r = eng" "row_fingerprint r = fp"
    and "iid \<noteq> []" "eng \<noteq> []" "fp \<noteq> []" "is_uuid_hex uuid" "0 < seconds" "seconds \<le> 3600"
  shows "\<exists>tbl' l. acquire tbl now uuid iid eng fp seconds = Inr (tbl', l) \<and> lease_generation l = row_generation r + 1 \<and>
           write_guard tbl' now l \<and>
           (\<forall>old. lease_invocation_id old = iid \<and> lease_generation old \<le> row_generation r \<longrightarrow> \<not> write_guard tbl' now old)"
proof -
  have gen: "row_generation r \<ge> 1" "0 < now" using assms(1,2) by (auto simp: own_inv_def)
  obtain tbl' l where got: "acquire tbl now uuid iid eng fp seconds = Inr (tbl', l)" and l: "lease_generation l = row_generation r + 1"
    and guard: "write_guard tbl' now l"
    using acquire_after_expiry [of tbl iid r now eng fp uuid seconds] assms gen by blast
  have iid: "lease_invocation_id l = iid"
    using got by (cases rule: acquire_cases) (simp_all add: row_lease_def)
  have "\<not> write_guard tbl' now old" if "lease_invocation_id old = iid" "lease_generation old \<le> row_generation r" for old
    using live_lease_exclusive [OF guard, of old] that iid l by auto
  then show ?thesis using got l guard by blast
qed

theorem takeover_after_expiry_witness:
  "\<exists>tbl' l. acquire ex_table 20 ex_uuid2 ''i'' ''adk'' ''f'' 20 = Inr (tbl', l) \<and> lease_generation l = 2 \<and>
     write_guard tbl' 20 l \<and> \<not> write_guard tbl' 20 ex_lease"
proof -
  have row: "ex_table ''i'' = Some \<lparr>row_engine = ''adk'', row_fingerprint = ''f'', row_owner = ex_uuid, row_generation = 1, row_expires_at = 10\<rparr>"
    by (simp add: ex_table_def)
  have old: "lease_invocation_id ex_lease = ''i''" "lease_generation ex_lease = 1" by (simp_all add: ex_lease_def)
  from takeover_after_expiry [of 20 ex_table "''i''" _ "''adk''" "''f''" ex_uuid2 20, OF ex_table_inv row] ex_uuid_hex old
  show ?thesis by fastforce
qed

end
